(* ===== verification/Prelude.thy ===== *)
theory Prelude
  imports Main "HOL-Library.Monad_Syntax" "HOL-Library.Signed_Division"
    "HOL-Library.List_Lexorder" "HOL-Library.Char_ord"
begin

text \<open>
  The part of Rust's language and standard library that the modelled crates share.

  A \<open>&str\<close> or \<open>String\<close> is its UTF-8 byte sequence: a \<^typ>\<open>string\<close> whose characters are
  bytes, so that \<^term>\<open>length\<close> is \<open>str::len\<close>. \<open>Result<T, E>\<close> is the datatype
  \<open>result\<close>. A value that may panic is an \<^typ>\<open>'a option\<close> with \<^term>\<open>None\<close> for the
  panic (threaded with the option monad), except in the proof evaluator, whose
  \<open>outcome\<close> type names its panic. Every loop and recursion below is total.

  Collections: \<open>dec\<close> holds the facts about decimal printing and reading, \<open>strip\<close> the
  facts about trimming.
\<close>

named_theorems dec "decimal printing and reading"
named_theorems strip "trimming of white space"

section \<open>Results\<close>

datatype ('a, 'e) result = Ok 'a | Err 'e

text \<open>The \<open>?\<close> operator: continue with the value, or return the error.\<close>

fun try_bind :: "('a, 'e) result \<Rightarrow> ('a \<Rightarrow> ('b, 'e) result) \<Rightarrow> ('b, 'e) result" where
  "try_bind (Ok v) f = f v"
| "try_bind (Err e) f = Err e"

fun is_ok :: "('a, 'e) result \<Rightarrow> bool" where
  "is_ok (Ok _) = True"
| "is_ok (Err _) = False"

lemma try_bind_Ok_iff: "try_bind r f = Ok w \<longleftrightarrow> (\<exists>v. r = Ok v \<and> f v = Ok w)"
  by (cases r) auto

lemma try_bind_Err_iff: "try_bind r f = Err e \<longleftrightarrow> r = Err e \<or> (\<exists>v. r = Ok v \<and> f v = Err e)"
  by (cases r) auto

lemma is_ok_iff: "is_ok r \<longleftrightarrow> (\<exists>v. r = Ok v)"
  by (cases r) auto

text \<open>\<open>ok_or\<close>: an option as a result.\<close>

fun ok_or :: "'a option \<Rightarrow> 'e \<Rightarrow> ('a, 'e) result" where
  "ok_or (Some v) e = Ok v"
| "ok_or None e = Err e"

lemma ok_or_Ok_iff [simp]: "ok_or x e = Ok v \<longleftrightarrow> x = Some v"
  by (cases x) auto

section \<open>Machine integers as bounded integers\<close>

text \<open>
  \<open>i128\<close> values are integers in range; \<open>checked_add\<close> and its kin give \<^term>\<open>None\<close> outside it.
\<close>

definition in_i128 :: "int \<Rightarrow> bool" where
  "in_i128 v \<longleftrightarrow> - (2 ^ 127) \<le> v \<and> v < 2 ^ 127"

definition checked_i128 :: "int \<Rightarrow> int option" where
  "checked_i128 v = (if in_i128 v then Some v else None)"

lemma checked_i128_Some [simp]: "checked_i128 v = Some w \<longleftrightarrow> in_i128 v \<and> w = v"
  by (auto simp: checked_i128_def)

lemma checked_i128_None [simp]: "checked_i128 v = None \<longleftrightarrow> \<not> in_i128 v"
  by (auto simp: checked_i128_def)

lemma in_i128_small: "0 \<le> v \<Longrightarrow> v \<le> 1000000000000 \<Longrightarrow> in_i128 v"
  by (simp add: in_i128_def)

lemma in_i128_abs: "\<bar>v\<bar> \<le> 1000000000000 \<Longrightarrow> in_i128 v"
  unfolding in_i128_def by (simp add: abs_le_iff)

text \<open>
  Rust's \<open>/\<close> and \<open>%\<close> truncate towards zero (\<open>sdiv\<close> and \<open>smod\<close> of the library).
  They agree with \<open>div\<close> where the division is exact.
\<close>

lemma smod_zero_iff: "(a::int) smod b = 0 \<longleftrightarrow> b dvd a"
proof
  assume "a smod b = 0"
  then have "a = b * (a sdiv b)"
    using mult_sdiv_smod_eq [of b a] by simp
  then show "b dvd a" by (rule dvdI)
next
  assume "b dvd a"
  then show "a smod b = 0"
    by (simp add: smod_int_alt_def)
qed

lemma sdiv_exact: "b dvd (a::int) \<Longrightarrow> a sdiv b = a div b"
  by (simp add: signed_divide_int_eq_divide_int)

lemma sdiv_nonneg: "0 \<le> (a::int) \<Longrightarrow> 0 < b \<Longrightarrow> a sdiv b = a div b"
  by (cases "a = 0") (simp_all add: signed_divide_int_def sgn_if)

lemma smod_nonneg: "0 \<le> (a::int) \<Longrightarrow> 0 < b \<Longrightarrow> a smod b = a mod b"
  by (cases "a = 0") (simp_all add: smod_int_alt_def sgn_if)

section \<open>Bytes and decimal text\<close>

definition byte :: "char \<Rightarrow> nat" where
  "byte c = of_char c"

lemma byte_less: "byte c < 256"
  by (simp add: byte_def)

definition is_digit :: "char \<Rightarrow> bool" where
  "is_digit c \<longleftrightarrow> 48 \<le> byte c \<and> byte c \<le> 57"

definition digit_val :: "char \<Rightarrow> nat" where
  "digit_val c = byte c - 48"

definition digit_char :: "nat \<Rightarrow> char" where
  "digit_char d = char_of (48 + d)"

lemma byte_digit_char [dec]: "d < 10 \<Longrightarrow> byte (digit_char d) = 48 + d"
  by (simp add: byte_def digit_char_def)

lemma is_digit_digit_char [dec]: "d < 10 \<Longrightarrow> is_digit (digit_char d)"
  by (simp add: is_digit_def byte_digit_char)

lemma digit_val_digit_char [dec]: "d < 10 \<Longrightarrow> digit_val (digit_char d) = d"
  by (simp add: digit_val_def byte_digit_char)

text \<open>Decimal printing of an unsigned and of a signed integer (\<open>to_string\<close>, \<open>{}\<close>).\<close>

fun show_nat :: "nat \<Rightarrow> string" where
  "show_nat n = (if n < 10 then [digit_char n] else show_nat (n div 10) @ [digit_char (n mod 10)])"

declare show_nat.simps [simp del]

definition show_int :: "int \<Rightarrow> string" where
  "show_int i = (if i < 0 then CHR ''-'' # show_nat (nat (- i)) else show_nat (nat i))"

text \<open>The value of a run of digits.\<close>

definition digits_val :: "string \<Rightarrow> nat" where
  "digits_val s = foldl (\<lambda>a c. 10 * a + digit_val c) 0 s"

lemma digits_val_snoc: "digits_val (s @ [c]) = 10 * digits_val s + digit_val c"
  by (simp add: digits_val_def)

lemma show_nat_nonempty [dec]: "show_nat n \<noteq> []"
  by (subst show_nat.simps) simp

lemma show_nat_digits [dec]: "\<forall>c \<in> set (show_nat n). is_digit c"
proof (induction n rule: show_nat.induct)
  case (1 n)
  then show ?case
    by (cases "n < 10") (auto simp: show_nat.simps [of n] is_digit_digit_char)
qed

lemma digits_val_show_nat [dec]: "digits_val (show_nat n) = n"
proof (induction n rule: show_nat.induct)
  case (1 n)
  then show ?case
    by (cases "n < 10")
      (simp_all add: show_nat.simps [of n] digits_val_snoc digit_val_digit_char,
       simp add: digits_val_def digit_val_digit_char)
qed

lemma show_nat_inj [simp]: "show_nat m = show_nat n \<longleftrightarrow> m = n"
  by (metis digits_val_show_nat)

lemma show_nat_hd: "is_digit (hd (show_nat n))"
  using show_nat_digits [of n] show_nat_nonempty [of n] by simp

lemma show_nat_last: "is_digit (last (show_nat n))"
  using show_nat_digits [of n] show_nat_nonempty [of n] by simp

lemma minus_not_digit [simp]: "\<not> is_digit (CHR ''-'')" "\<not> is_digit (CHR ''+'')"
  by (simp_all add: is_digit_def byte_def)

lemma show_nat_no_minus: "show_nat n \<noteq> CHR ''-'' # s"
  using show_nat_digits [of n] by (metis list.set_intros(1) minus_not_digit(1))

lemma show_int_inj [simp]: "show_int i = show_int j \<longleftrightarrow> i = j"
  by (auto simp: show_int_def show_nat_no_minus show_nat_no_minus [symmetric] eq_nat_nat_iff
      split: if_splits)

lemma show_int_nonneg: "0 \<le> i \<Longrightarrow> show_int i = show_nat (nat i)"
  by (simp add: show_int_def)

lemma show_int_nonempty [dec]: "show_int i \<noteq> []"
  by (simp add: show_int_def show_nat_nonempty)

text \<open>
  \<open>str::parse::<i128>\<close>: an optional sign, at least one digit, nothing else, and a value in
  range. A sign on its own and the empty string are errors.
\<close>

definition parse_unsigned :: "string \<Rightarrow> nat option" where
  "parse_unsigned s = (if s \<noteq> [] \<and> list_all is_digit s then Some (digits_val s) else None)"

fun parse_i128 :: "string \<Rightarrow> int option" where
  "parse_i128 [] = None"
| "parse_i128 (c # cs) =
     (if c = CHR ''-'' then Option.bind (parse_unsigned cs) (\<lambda>n. checked_i128 (- int n))
      else if c = CHR ''+'' then Option.bind (parse_unsigned cs) (\<lambda>n. checked_i128 (int n))
      else Option.bind (parse_unsigned (c # cs)) (\<lambda>n. checked_i128 (int n)))"

lemma parse_unsigned_show_nat [dec]: "parse_unsigned (show_nat n) = Some n"
  by (simp add: parse_unsigned_def show_nat_nonempty digits_val_show_nat list_all_iff show_nat_digits)

lemma parse_i128_digits:
  assumes "s \<noteq> []" and "list_all is_digit s"
  shows "parse_i128 s = checked_i128 (int (digits_val s))"
proof -
  obtain c cs where s: "s = c # cs" using assms(1) by (cases s) auto
  then have "c \<noteq> CHR ''-''" and "c \<noteq> CHR ''+''"
    using assms(2) by (auto simp: is_digit_def byte_def)
  then show ?thesis using assms(2) s by (simp add: parse_unsigned_def)
qed

lemma parse_i128_show_nat [dec]: "parse_i128 (show_nat n) = checked_i128 (int n)"
  by (subst parse_i128_digits) (simp_all add: list_all_iff show_nat_digits show_nat_nonempty digits_val_show_nat)

lemma parse_i128_show_int [dec]: "in_i128 i \<Longrightarrow> parse_i128 (show_int i) = Some i"
  by (simp add: show_int_def parse_i128_show_nat parse_unsigned_show_nat)

lemma parse_i128_show_int_Some: "parse_i128 (show_int i) = Some v \<Longrightarrow> v = i"
  by (auto simp: show_int_def parse_i128_show_nat parse_unsigned_show_nat split: if_splits)

section \<open>Text operations\<close>

text \<open>
  \<open>char::is_whitespace\<close> is the Unicode property \<open>White_Space\<close>. \<open>ws_len s\<close> is the number of
  bytes of the white-space character at the front of \<open>s\<close>, 0 when there is none;
  \<open>ws_rlen\<close> reads the bytes backwards, for the end of a string. UTF-8 is
  self-synchronising, so on well-formed text this is \<open>str::trim\<close> exactly.
\<close>

fun ws_len :: "string \<Rightarrow> nat" where
  "ws_len [] = 0"
| "ws_len (a # s) =
     (let x = byte a in
      if (9 \<le> x \<and> x \<le> 13) \<or> x = 32 then 1
      else case s of
        [] \<Rightarrow> 0
      | b # s' \<Rightarrow>
          (let y = byte b in
           if x = 194 \<and> (y = 133 \<or> y = 160) then 2
           else case s' of
             [] \<Rightarrow> 0
           | c # _ \<Rightarrow>
               (let z = byte c in
                if x = 225 \<and> y = 154 \<and> z = 128
                   \<or> x = 226 \<and> y = 128 \<and> (128 \<le> z \<and> z \<le> 138 \<or> z = 168 \<or> z = 169 \<or> z = 175)
                   \<or> x = 226 \<and> y = 129 \<and> z = 159
                   \<or> x = 227 \<and> y = 128 \<and> z = 128
                then 3 else 0)))"

fun ws_rlen :: "string \<Rightarrow> nat" where
  "ws_rlen [] = 0"
| "ws_rlen (a # s) =
     (if ws_len [a] = 1 then 1
      else case s of
        [] \<Rightarrow> 0
      | b # s' \<Rightarrow>
          (if ws_len [b, a] = 2 then 2
           else case s' of
             [] \<Rightarrow> 0
           | c # _ \<Rightarrow> (if ws_len [c, b, a] = 3 then 3 else 0)))"

function strip_while :: "(string \<Rightarrow> nat) \<Rightarrow> string \<Rightarrow> string" where
  "strip_while f s = (if f s = 0 \<or> s = [] then s else strip_while f (drop (f s) s))"
  by pat_completeness auto
termination
  by (relation "measure (\<lambda>(f, s). length s)") auto

declare strip_while.simps [simp del]

definition trim_start :: "string \<Rightarrow> string" where
  "trim_start s = strip_while ws_len s"

definition trim_end :: "string \<Rightarrow> string" where
  "trim_end s = rev (strip_while ws_rlen (rev s))"

definition trim :: "string \<Rightarrow> string" where
  "trim s = trim_end (trim_start s)"

text \<open>A plain byte: ASCII and not white space.\<close>

definition plain :: "char \<Rightarrow> bool" where
  "plain c \<longleftrightarrow> 32 < byte c \<and> byte c < 128"

lemma plain_Char [simp]:
  "plain (Char b0 b1 b2 b3 b4 b5 b6 b7) \<longleftrightarrow> \<not> b7 \<and> (b6 \<or> b5 \<and> (b0 \<or> b1 \<or> b2 \<or> b3 \<or> b4))"
  by (simp add: plain_def byte_def)

lemma ws_len_plain [strip]: "plain c \<Longrightarrow> ws_len (c # s) = 0"
  by (auto simp: plain_def Let_def split: list.splits)

lemma ws_rlen_plain [strip]: "plain c \<Longrightarrow> ws_rlen (c # s) = 0"
  by (auto simp: plain_def Let_def split: list.splits)

lemma ws_len_not_plain:
  "ws_len [a] = 1 \<Longrightarrow> \<not> plain a"
  "ws_len [b, a] = 2 \<Longrightarrow> \<not> plain b \<and> \<not> plain a"
  "ws_len [c, b, a] = 3 \<Longrightarrow> \<not> plain c \<and> \<not> plain b \<and> \<not> plain a"
  by (auto simp: plain_def Let_def split: if_splits)

lemma ws_rlen_not_plain: "c \<in> set (take (ws_rlen s) s) \<Longrightarrow> \<not> plain c"
  by (cases s; cases "tl s"; cases "tl (tl s)")
    (use ws_len_not_plain in \<open>auto simp del: ws_len.simps split: if_splits\<close>)

declare ws_len.simps [simp del] ws_rlen.simps [simp del]

lemma strip_while_zero [strip]: "f s = 0 \<Longrightarrow> strip_while f s = s"
  by (subst strip_while.simps) simp

lemma strip_while_Nil [simp]: "strip_while f [] = []"
  by (subst strip_while.simps) simp

lemma strip_while_keeps_plain: "c \<in> set s \<Longrightarrow> plain c \<Longrightarrow> c \<in> set (strip_while ws_rlen s)"
proof (induction ws_rlen s rule: strip_while.induct)
  case (1 s)
  show ?case
  proof (cases "ws_rlen s = 0 \<or> s = []")
    case True
    with 1 show ?thesis by (simp add: strip_while.simps [of _ s])
  next
    case False
    have "c \<in> set (take (ws_rlen s) s @ drop (ws_rlen s) s)" using 1 by simp
    with 1 ws_rlen_not_plain [of c s] have "c \<in> set (drop (ws_rlen s) s)" by (auto simp del: append_take_drop_id)
    with 1 False show ?thesis by (simp add: strip_while.simps [of _ s])
  qed
qed

lemma trim_Nil [simp]: "trim [] = []"
  by (simp add: trim_def trim_start_def trim_end_def)

lemma trim_plain [strip]:
  assumes "s \<noteq> []" and "plain (hd s)" and "plain (last s)"
  shows "trim s = s"
proof -
  obtain a t where s: "s = a # t" using assms(1) by (cases s) auto
  obtain u b where u: "s = u @ [b]" using assms(1) by (cases s rule: rev_cases) auto
  have "trim_start s = s"
    using assms(2) s by (simp add: trim_start_def strip)
  moreover have "trim_end s = s"
    using assms(3) u by (simp add: trim_end_def strip)
  ultimately show ?thesis by (simp add: trim_def)
qed

lemma trim_nonempty [strip]: "s \<noteq> [] \<Longrightarrow> plain (hd s) \<Longrightarrow> trim s \<noteq> []"
proof -
  assume "s \<noteq> []" and p: "plain (hd s)"
  then obtain c t where s: "s = c # t" by (cases s) auto
  with p have "trim_start s = s" by (simp add: trim_start_def strip)
  moreover have "c \<in> set (strip_while ws_rlen (rev s))"
    by (rule strip_while_keeps_plain) (use s p in simp_all)
  ultimately show "trim s \<noteq> []" by (auto simp: trim_def trim_end_def)
qed

lemma plain_digit [strip]: "is_digit c \<Longrightarrow> plain c"
  by (simp add: plain_def is_digit_def)

lemma trim_show_nat [strip]: "trim (show_nat n) = show_nat n"
  by (rule trim_plain) (simp_all add: show_nat_nonempty plain_digit show_nat_hd show_nat_last)

lemma trim_show_int [strip]: "trim (show_int i) = show_int i"
  by (rule trim_plain)
    (simp_all add: show_int_def show_nat_nonempty plain_digit show_nat_hd show_nat_last plain_def
      [of "CHR ''-''"] byte_def)

text \<open>\<open>str::starts_with\<close>, \<open>str::contains\<close>, \<open>str::ends_with\<close>, \<open>str::strip_prefix\<close>.\<close>

fun starts_with :: "string \<Rightarrow> string \<Rightarrow> bool" where
  "starts_with s [] = True"
| "starts_with [] (p # ps) = False"
| "starts_with (c # s) (p # ps) = (c = p \<and> starts_with s ps)"

definition ends_with :: "string \<Rightarrow> string \<Rightarrow> bool" where
  "ends_with s p = starts_with (rev s) (rev p)"

fun contains :: "string \<Rightarrow> string \<Rightarrow> bool" where
  "contains [] p = (p = [])"
| "contains (c # s) p = (starts_with (c # s) p \<or> contains s p)"

definition strip_prefix :: "string \<Rightarrow> string \<Rightarrow> string option" where
  "strip_prefix s p = (if starts_with s p then Some (drop (length p) s) else None)"

definition strip_suffix :: "string \<Rightarrow> string \<Rightarrow> string option" where
  "strip_suffix s p = (if ends_with s p then Some (take (length s - length p) s) else None)"

lemma starts_with_iff: "starts_with s p \<longleftrightarrow> (\<exists>t. s = p @ t)"
  by (induction s p rule: starts_with.induct) auto

lemma starts_with_append [simp]: "starts_with (p @ t) p"
  by (auto simp: starts_with_iff)

lemma ends_with_iff: "ends_with s p \<longleftrightarrow> (\<exists>t. s = t @ p)"
proof
  assume "ends_with s p"
  then obtain t where "rev s = rev p @ t" by (auto simp: ends_with_def starts_with_iff)
  then have "s = rev t @ p" by (metis rev_append rev_rev_ident)
  then show "\<exists>t. s = t @ p" by blast
qed (auto simp: ends_with_def starts_with_iff)

lemma contains_iff: "contains s p \<longleftrightarrow> (\<exists>t u. s = t @ p @ u)"
proof (induction s)
  case Nil
  then show ?case by auto
next
  case (Cons c s)
  show ?case
  proof
    assume "contains (c # s) p"
    then show "\<exists>t u. c # s = t @ p @ u"
      using Cons by (auto simp: starts_with_iff) (metis append_Cons append_Nil)+
  next
    assume "\<exists>t u. c # s = t @ p @ u"
    then obtain t u where eq: "c # s = t @ p @ u" by blast
    show "contains (c # s) p"
    proof (cases t)
      case Nil
      with eq have "starts_with (c # s) p" by (simp only: append_Nil starts_with_append)
      then show ?thesis by simp
    next
      case (Cons d t')
      with eq have "s = t' @ p @ u" by simp
      with Cons.IH show ?thesis by auto
    qed
  qed
qed

lemma strip_prefix_Some_iff: "strip_prefix s p = Some t \<longleftrightarrow> s = p @ t"
  by (auto simp: strip_prefix_def starts_with_iff)

text \<open>
  \<open>str::replace\<close> with a non-empty pattern (every pattern in the modelled code is one): leftmost,
  non-overlapping, the replacement is not rescanned.
\<close>

function str_replace :: "string \<Rightarrow> string \<Rightarrow> string \<Rightarrow> string" where
  "str_replace pat rep [] = []"
| "str_replace pat rep (c # s) =
     (if pat \<noteq> [] \<and> starts_with (c # s) pat
      then rep @ str_replace pat rep (drop (length pat) (c # s))
      else c # str_replace pat rep s)"
  by pat_completeness auto
termination
  by (relation "measure (\<lambda>(p, r, s). length s)") (auto simp: neq_Nil_conv)

text \<open>\<open>str::split(c)\<close> on one byte: always at least one piece.\<close>

fun split_on :: "char \<Rightarrow> string \<Rightarrow> string list" where
  "split_on d [] = [[]]"
| "split_on d (c # s) =
     (if c = d then [] # split_on d s
      else case split_on d s of [] \<Rightarrow> [[c]] | p # ps \<Rightarrow> (c # p) # ps)"

lemma split_on_nonempty [simp]: "split_on d s \<noteq> []"
  by (induction s) (auto split: list.splits)

text \<open>\<open>join\<close> with a separator.\<close>

fun join :: "string \<Rightarrow> string list \<Rightarrow> string" where
  "join sep [] = []"
| "join sep [x] = x"
| "join sep (x # y # ys) = x @ sep @ join sep (y # ys)"

lemma join_split_on: "join [d] (split_on d s) = s"
proof (induction s)
  case Nil
  then show ?case by simp
next
  case (Cons c s)
  obtain p ps where "split_on d s = p # ps" using split_on_nonempty [of d s] by (cases "split_on d s") auto
  with Cons show ?case by (cases ps) auto
qed

text \<open>ASCII case folding: \<open>to_ascii_lowercase\<close>, \<open>to_ascii_uppercase\<close>, \<open>eq_ignore_ascii_case\<close>.\<close>

definition lower_byte :: "char \<Rightarrow> char" where
  "lower_byte c = (if 65 \<le> byte c \<and> byte c \<le> 90 then char_of (byte c + 32) else c)"

definition upper_byte :: "char \<Rightarrow> char" where
  "upper_byte c = (if 97 \<le> byte c \<and> byte c \<le> 122 then char_of (byte c - 32) else c)"

definition ascii_lower :: "string \<Rightarrow> string" where
  "ascii_lower s = map lower_byte s"

definition ascii_upper :: "string \<Rightarrow> string" where
  "ascii_upper s = map upper_byte s"

definition eq_ignore_case :: "string \<Rightarrow> string \<Rightarrow> bool" where
  "eq_ignore_case s t \<longleftrightarrow> ascii_lower s = ascii_lower t"

lemma eq_ignore_case_refl [simp]: "eq_ignore_case s s"
  by (simp add: eq_ignore_case_def)

lemma eq_ignore_case_sym: "eq_ignore_case s t \<Longrightarrow> eq_ignore_case t s"
  by (simp add: eq_ignore_case_def)

lemma eq_ignore_case_trans: "eq_ignore_case s t \<Longrightarrow> eq_ignore_case t u \<Longrightarrow> eq_ignore_case s u"
  by (simp add: eq_ignore_case_def)

section \<open>Searching a vector\<close>

text \<open>\<open>iter().find(p)\<close> is the library's \<^const>\<open>List.find\<close>; \<open>iter().position(p)\<close> gives the index.\<close>

lemma find_Some_set: "List.find P xs = Some x \<Longrightarrow> x \<in> set xs \<and> P x"
  by (auto simp: find_Some_iff)

lemma find_None_set: "List.find P xs = None \<longleftrightarrow> (\<forall>x \<in> set xs. \<not> P x)"
  by (auto simp: find_None_iff)

lemma find_map_of: "map_option snd (List.find (\<lambda>(i, _). i = k) m) = map_of m k"
  by (induction m) auto

fun find_index :: "('a \<Rightarrow> bool) \<Rightarrow> 'a list \<Rightarrow> nat option" where
  "find_index p [] = None"
| "find_index p (x # xs) = (if p x then Some 0 else map_option Suc (find_index p xs))"

lemma find_index_Some:
  "find_index p xs = Some i \<Longrightarrow> i < length xs \<and> p (xs ! i) \<and> (\<forall>j < i. \<not> p (xs ! j))"
proof (induction xs arbitrary: i)
  case Nil
  then show ?case by simp
next
  case (Cons x xs)
  show ?case
  proof (cases "p x")
    case True
    with Cons.prems show ?thesis by simp
  next
    case False
    with Cons.prems obtain k where "find_index p xs = Some k" and "i = Suc k" by auto
    with Cons.IH [of k] False show ?thesis
      by (auto simp: less_Suc_eq_0_disj)
  qed
qed

lemma find_index_None: "find_index p xs = None \<longleftrightarrow> (\<forall>x \<in> set xs. \<not> p x)"
  by (induction xs) auto

section \<open>Ordered maps\<close>

text \<open>
  A \<open>BTreeMap\<close> is the list of its entries in ascending key order, which is the order its
  iterators give; \<open>bt_insert\<close> replaces the value of a key that is present.
\<close>

fun bt_insert :: "'k :: linorder \<Rightarrow> 'v \<Rightarrow> ('k \<times> 'v) list \<Rightarrow> ('k \<times> 'v) list" where
  "bt_insert k v [] = [(k, v)]"
| "bt_insert k v ((l, w) # m) =
     (if k < l then (k, v) # (l, w) # m
      else if k = l then (k, v) # m
      else (l, w) # bt_insert k v m)"

abbreviation bt_sorted :: "('k :: linorder \<times> 'v) list \<Rightarrow> bool" where
  "bt_sorted m \<equiv> sorted_wrt (<) (map fst m)"

lemma set_fst_bt_insert: "set (map fst (bt_insert k v m)) = insert k (set (map fst m))"
  by (induction k v m rule: bt_insert.induct) auto

lemma bt_sorted_insert: "bt_sorted m \<Longrightarrow> bt_sorted (bt_insert k v m)"
proof (induction k v m rule: bt_insert.induct)
  case (2 k v l w m)
  have "set (map fst (bt_insert k v m)) = insert k (set (map fst m))" by (rule set_fst_bt_insert)
  with 2 show ?case by (auto simp: less_le_not_le)
qed simp

lemma map_of_bt_insert: "map_of (bt_insert k v m) = (map_of m)(k \<mapsto> v)"
  by (induction k v m rule: bt_insert.induct) auto

lemma bt_insert_last: "\<forall>l \<in> set (map fst m). l < k \<Longrightarrow> bt_insert k v m = m @ [(k, v)]"
  by (induction m) auto

section \<open>Sorting away duplicates\<close>

text \<open>
  \<open>v.sort(); v.dedup()\<close>: \<open>dedup\<close> removes equal neighbours. Strings are ordered byte by byte.
\<close>

definition sort_dedup :: "'a :: linorder list \<Rightarrow> 'a list" where
  "sort_dedup xs = remdups_adj (sort xs)"

lemma remdups_adj_sorted_length: "sorted xs \<Longrightarrow> length (remdups_adj xs) = length xs \<longleftrightarrow> distinct xs"
proof (induction xs rule: remdups_adj.induct)
  case (3 x y xs)
  have "length (remdups_adj (y # xs)) \<le> length (y # xs)" by (rule remdups_adj_length)
  with 3 show ?case by (auto simp: less_le)
qed simp_all

lemma sort_dedup_length: "length (sort_dedup xs) = length xs \<longleftrightarrow> distinct xs"
  using remdups_adj_sorted_length [of "sort xs"] by (simp add: sort_dedup_def)

lemma set_sort_dedup [simp]: "set (sort_dedup xs) = set xs"
  by (simp add: sort_dedup_def)

end
