(* ===== verification/Rng.thy ===== *)
theory Rng
  imports Prelude "HOL-Library.Word" "HOL-Library.Multiset"
begin

unbundle bit_operations_syntax

text \<open>
  The generator behind every draw of the question builders, \<open>Rng\<close> of
  \<open>crates/vector-questions/src/factory.rs\<close>: SplitMix64 on 64-bit words, a value of a range, an
  element of a slice, and a shuffle. \<^const>\<open>None\<close> is a panic (an empty range, an empty slice).
\<close>

section \<open>SplitMix64\<close>

type_synonym rng = "64 word"

definition next_u64 :: "rng \<Rightarrow> 64 word \<times> rng" where
  "next_u64 s =
     (let s = s + 0x9E3779B97F4A7C15;
          z = s;
          z = (z XOR drop_bit 30 z) * 0xBF58476D1CE4E5B9;
          z = (z XOR drop_bit 27 z) * 0x94D049BB133111EB
      in (z XOR drop_bit 31 z, s))"

text \<open>\<open>Rng::range\<close>: the assertion, and the overflow of \<open>high - low\<close>, are the panics.\<close>

definition rng_range :: "rng \<Rightarrow> int \<Rightarrow> int \<Rightarrow> (int \<times> rng) option" where
  "rng_range rng low high =
     (if low > high \<or> 2 ^ 63 \<le> high - low then None
      else let span = word_of_int (high - low) + 1 :: 64 word;
               (u, rng) = next_u64 rng
           in Some (low + sint (u mod span), rng))"

definition index_vec :: "'a list \<Rightarrow> nat \<Rightarrow> 'a option" where
  "index_vec xs i = (if i < length xs then Some (xs ! i) else None)"

definition rng_pick :: "rng \<Rightarrow> 'a list \<Rightarrow> ('a \<times> rng) option" where
  "rng_pick rng items =
     (if items = [] then None
      else do {
        let (u, rng) = next_u64 rng;
        item \<leftarrow> index_vec items (unat (u mod word_of_nat (length items)));
        Some (item, rng)
      })"

text \<open>\<open>Rng::shuffle\<close>: for \<open>i\<close> from the last index down to 1, swap with an index up to \<open>i\<close>.\<close>

definition swap_at :: "nat \<Rightarrow> nat \<Rightarrow> 'a list \<Rightarrow> 'a list" where
  "swap_at i j xs = xs[i := xs ! j, j := xs ! i]"

fun shuffle_loop :: "nat \<Rightarrow> rng \<Rightarrow> 'a list \<Rightarrow> 'a list \<times> rng" where
  "shuffle_loop 0 rng items = (items, rng)"
| "shuffle_loop (Suc k) rng items =
     (let i = Suc k;
          (u, rng) = next_u64 rng;
          j = unat (u mod (word_of_nat i + 1))
      in shuffle_loop k rng (swap_at i j items))"

definition rng_shuffle :: "rng \<Rightarrow> 'a list \<Rightarrow> 'a list \<times> rng" where
  "rng_shuffle rng items = shuffle_loop (length items - 1) rng items"

section \<open>Draws stay in range\<close>

lemma uint_span:
  assumes "0 \<le> k" "k < 2 ^ 63"
  shows "uint (word_of_int k + 1 :: 64 word) = k + 1"
  using assms by (simp add: uint_word_ariths uint_word_of_int)

lemma sint_mod_span:
  fixes u :: "64 word"
  assumes "0 \<le> k" "k < 2 ^ 63"
  shows "0 \<le> sint (u mod (word_of_int k + 1)) \<and> sint (u mod (word_of_int k + 1)) \<le> k"
proof -
  let ?w = "u mod (word_of_int k + 1)"
  have "uint ?w = uint u mod (k + 1)"
    using uint_span [OF assms] by (simp add: uint_mod)
  then have b: "0 \<le> uint ?w" "uint ?w \<le> k"
    using assms pos_mod_bound [of "k + 1" "uint u"] by auto
  have "sint ?w = uint ?w"
    unfolding sint_uint by (rule signed_take_bit_int_eq_self) (rule order_trans [OF _ b(1)], simp, use b assms in simp)
  with b show ?thesis by simp
qed

lemma rng_range_bounds:
  assumes "low \<le> high" "high - low < 2 ^ 63"
  shows "\<exists>v rng'. rng_range rng low high = Some (v, rng') \<and> low \<le> v \<and> v \<le> high"
proof -
  obtain u rng' where u: "next_u64 rng = (u, rng')" by fastforce
  show ?thesis
    using assms sint_mod_span [of "high - low" u] by (auto simp: rng_range_def u Let_def)
qed

lemma rng_pick_member:
  assumes "items \<noteq> []" "length items < 2 ^ 64"
  shows "\<exists>v rng'. rng_pick rng items = Some (v, rng') \<and> v \<in> set items"
proof -
  obtain u rng' where u: "next_u64 rng = (u, rng')" by fastforce
  have l: "unat (word_of_nat (length items) :: 64 word) = length items"
    using assms by (simp add: unat_of_nat take_bit_nat_eq_self)
  then have "unat (u mod word_of_nat (length items)) < length items"
    using assms by (simp add: unat_mod_distrib)
  then show ?thesis using assms by (auto simp: rng_pick_def u index_vec_def Let_def)
qed

section \<open>The shuffle\<close>

lemma unat_mod_Suc:
  fixes u :: "64 word"
  assumes "Suc i < 2 ^ 64"
  shows "unat (u mod (word_of_nat i + 1)) \<le> i"
proof -
  have "unat (word_of_nat (Suc i) :: 64 word) = Suc i"
    by (subst unat_of_nat) (use assms in \<open>simp add: take_bit_nat_eq_self\<close>)
  moreover have "word_of_nat (Suc i) = (word_of_nat i + 1 :: 64 word)" by simp
  ultimately have "unat (word_of_nat i + 1 :: 64 word) = Suc i" by metis
  then have "unat (u mod (word_of_nat i + 1)) = unat u mod Suc i" by (simp add: unat_mod_distrib)
  then show ?thesis using mod_less_divisor [of "Suc i" "unat u"] by simp
qed

lemma mset_swap_at: "i < length xs \<Longrightarrow> j < length xs \<Longrightarrow> mset (swap_at i j xs) = mset xs"
  unfolding swap_at_def by (rule mset_swap) auto

lemma mset_shuffle_loop:
  "k < length items \<Longrightarrow> length items < 2 ^ 64 \<Longrightarrow> mset (fst (shuffle_loop k rng items)) = mset items"
proof (induction k rng items rule: shuffle_loop.induct)
  case (2 k rng items)
  obtain u rng' where u: "next_u64 rng = (u, rng')" by fastforce
  let ?j = "unat (u mod (word_of_nat (Suc k) + 1))"
  have "?j \<le> Suc k" by (rule unat_mod_Suc) (use 2 in simp)
  with 2 have j: "?j < length items" by simp
  have "length (swap_at (Suc k) ?j items) = length items" by (simp add: swap_at_def)
  with 2 u mset_swap_at [of "Suc k" items ?j] j show ?case by (simp add: Let_def)
qed simp

lemma mset_rng_shuffle: "length items < 2 ^ 64 \<Longrightarrow> mset (fst (rng_shuffle rng items)) = mset items"
  by (cases items) (simp_all add: rng_shuffle_def mset_shuffle_loop)

lemma set_rng_shuffle: "length items < 2 ^ 64 \<Longrightarrow> set (fst (rng_shuffle rng items)) = set items"
  by (metis mset_rng_shuffle mset_eq_setD)

lemma length_rng_shuffle: "length items < 2 ^ 64 \<Longrightarrow> length (fst (rng_shuffle rng items)) = length items"
  by (metis mset_rng_shuffle mset_eq_length)

end
