(* ===== verification/Templates.thy ===== *)
theory Templates
  imports Complex_Main Rng
begin

unbundle bit_operations_syntax

text \<open>
  The question templates of the item factory, \<open>crates/vector-questions/src/factory.rs\<close>: the
  twenty-eight templates, each from a generator
  state to an optional candidate and the advanced state. \<^const>\<open>None\<close> on the outside is a panic
  (an empty range, an empty slice, an index out of bounds, a division by zero); \<open>Some (None, rng)\<close>
  is the template declining its own draw (\<open>return None\<close>).

  Template parameters are \<open>i64\<close> values drawn from ranges of at most four digits, and every
  product a template forms stays far below 64 bits, so they are integers here; \<open>/\<close> and \<open>%\<close>
  truncate towards zero (\<open>sdiv\<close>, \<open>smod\<close>), and by a divisor that is not a literal they are
  checked for zero. \<open>difficulty\<close> is an \<open>f64\<close> literal in the code and the same decimal here.
\<close>

section \<open>Candidates\<close>

record candidate =
  cand_stem :: string
  cand_expression :: string
  cand_correct :: int
  cand_distractors :: "(int \<times> string) list"
  cand_difficulty :: rat

type_synonym build = "rng \<Rightarrow> (candidate option \<times> rng) option"

record template =
  template_id :: string
  template_subtest :: string
  template_objective :: string
  template_build :: build

definition misconception :: "int \<Rightarrow> string \<Rightarrow> int \<times> string" where
  "misconception value why = (value, why)"

definition checked_div :: "int \<Rightarrow> int \<Rightarrow> int option" where
  "checked_div a b = (if b = 0 then None else Some (a sdiv b))"

definition checked_rem :: "int \<Rightarrow> int \<Rightarrow> int option" where
  "checked_rem a b = (if b = 0 then None else Some (a smod b))"

text \<open>\<open>for _ in 0..n { acc *= b; }\<close>\<close>

fun mul_loop :: "nat \<Rightarrow> int \<Rightarrow> int \<Rightarrow> int" where
  "mul_loop 0 acc b = acc"
| "mul_loop (Suc n) acc b = mul_loop n (acc * b) b"

section \<open>Arithmetic Reasoning\<close>

definition ar_rate_pages :: build where
  "ar_rate_pages rng = do {
     (rate, rng) \<leftarrow> rng_range rng 6 40;
     (hours, rng) \<leftarrow> rng_range rng 2 12;
     let correct = rate * hours * 60;
     Some (Some \<lparr>
       cand_stem = ''A printer produces '' @ show_int rate @ '' pages per minute. How many pages does it produce in '' @ show_int hours @ '' hours?'',
       cand_expression = show_int rate @ '' * '' @ show_int hours @ '' * 60'',
       cand_correct = correct,
       cand_distractors = [
         misconception (rate * hours) ''Multiplied by the number of hours without converting hours to minutes.'',
         misconception (rate * 60) ''Used one hour instead of the stated number of hours.'',
         misconception (rate * hours * 100) ''Treated each hour as 100 minutes instead of 60.''],
       cand_difficulty = -0.5\<rparr>, rng)
   }"

definition ar_percent_of :: build where
  "ar_percent_of rng = do {
     (percent, rng) \<leftarrow> rng_pick rng [5, 15, 20, 25, 40, 50, 60, 75];
     (drawn, rng) \<leftarrow> rng_range rng 2 40;
     let number = drawn * 20;
     if number * percent smod 100 \<noteq> 0 then Some (None, rng) else do {
     let correct = number * percent sdiv 100;
     Some (Some \<lparr>
       cand_stem = ''What is '' @ show_int percent @ ''% of '' @ show_int number @ ''?'',
       cand_expression = ''('' @ show_int number @ '' * '' @ show_int percent @ '') / 100'',
       cand_correct = correct,
       cand_distractors = [
         misconception (number * percent sdiv 10) ''Shifted the decimal point one place too few.'',
         misconception (number + correct) ''Added the part to the whole instead of taking a part of it.'',
         misconception (number - correct) ''Subtracted the part from the whole instead of reporting the part.''],
       cand_difficulty = -0.8\<rparr>, rng)
   }}"

definition ar_unit_price :: build where
  "ar_unit_price rng = do {
     (count, rng) \<leftarrow> rng_range rng 2 12;
     (unit, rng) \<leftarrow> rng_range rng 3 25;
     (drawn, rng) \<leftarrow> rng_range rng 1 9;
     let wanted = count + drawn;
     let given_cost = count * unit;
     let correct = wanted * unit;
     Some (Some \<lparr>
       cand_stem = ''If '' @ show_int count @ '' identical items cost '' @ show_int given_cost @ '' dollars, how much do '' @ show_int wanted @ '' of the same items cost?'',
       cand_expression = show_int given_cost @ '' / '' @ show_int count @ '' * '' @ show_int wanted,
       cand_correct = correct,
       cand_distractors = [
         misconception (given_cost * wanted) ''Multiplied by the new quantity without first finding the unit price.'',
         misconception (correct + given_cost) ''Added the two totals instead of scaling the unit price.'',
         misconception unit ''Reported the price of one item instead of the total.''],
       cand_difficulty = 0.0\<rparr>, rng)
   }"

definition ar_average_sum :: build where
  "ar_average_sum rng = do {
     (count, rng) \<leftarrow> rng_range rng 4 9;
     (average, rng) \<leftarrow> rng_range rng 12 95;
     let correct = count * average;
     Some (Some \<lparr>
       cand_stem = ''The average of '' @ show_int count @ '' numbers is '' @ show_int average @ ''. What is the sum of the numbers?'',
       cand_expression = show_int count @ '' * '' @ show_int average,
       cand_correct = correct,
       cand_distractors = [
         misconception (correct - average) ''Subtracted the average instead of adding it to the product.'',
         misconception (count + average) ''Added the count to the average instead of multiplying.'',
         misconception (correct * 2) ''Multiplied by twice the count.''],
       cand_difficulty = -0.3\<rparr>, rng)
   }"

definition ar_simple_interest :: build where
  "ar_simple_interest rng = do {
     (drawn, rng) \<leftarrow> rng_range rng 2 50;
     let principal = drawn * 100;
     (rate, rng) \<leftarrow> rng_pick rng [2, 3, 4, 5, 6, 8];
     (years, rng) \<leftarrow> rng_range rng 2 7;
     let correct = principal * rate * years sdiv 100;
     if correct smod 10 \<noteq> 0 then Some (None, rng) else do {
     Some (Some \<lparr>
       cand_stem = ''A savings account holds '' @ show_int principal @ '' dollars at '' @ show_int rate @ ''% simple interest per year. How much interest is earned in '' @ show_int years @ '' years?'',
       cand_expression = ''('' @ show_int principal @ '' * '' @ show_int rate @ '' * '' @ show_int years @ '') / 100'',
       cand_correct = correct,
       cand_distractors = [
         misconception (principal * rate sdiv 100) ''Computed one year of interest instead of the full term.'',
         misconception (correct sdiv 10) ''Shifted the decimal point one place too far.'',
         misconception (principal + correct) ''Reported the balance including the principal rather than the interest.''],
       cand_difficulty = 0.4\<rparr>, rng)
   }}"

definition ar_rectangle_perimeter :: build where
  "ar_rectangle_perimeter rng = do {
     (len, rng) \<leftarrow> rng_range rng 5 40;
     (width, rng) \<leftarrow> rng_range rng 3 (len - 1);
     let correct = 2 * (len + width);
     Some (Some \<lparr>
       cand_stem = ''A rectangle is '' @ show_int len @ '' centimetres long and '' @ show_int width @ '' centimetres wide. What is its perimeter?'',
       cand_expression = ''2 * ('' @ show_int len @ '' + '' @ show_int width @ '')'',
       cand_correct = correct,
       cand_distractors = [
         misconception (len * width) ''Computed the area instead of the perimeter.'',
         misconception (len + width) ''Found half the perimeter.'',
         misconception (2 * len + width) ''Doubled only one of the two sides.''],
       cand_difficulty = -1.0\<rparr>, rng)
   }"

definition ar_triangle_area :: build where
  "ar_triangle_area rng = do {
     (drawn, rng) \<leftarrow> rng_range rng 3 20;
     let base = drawn * 2;
     (drawn, rng) \<leftarrow> rng_range rng 3 20;
     let height = drawn * 2;
     let correct = base * height sdiv 2;
     Some (Some \<lparr>
       cand_stem = ''A triangle has a base of '' @ show_int base @ '' metres and a height of '' @ show_int height @ '' metres. What is its area in square metres?'',
       cand_expression = ''('' @ show_int base @ '' * '' @ show_int height @ '') / 2'',
       cand_correct = correct,
       cand_distractors = [
         misconception (base * height) ''Forgot to halve the product.'',
         misconception (base + height) ''Added the dimensions instead of multiplying them.'',
         misconception (base * height sdiv 4) ''Halved the product twice.''],
       cand_difficulty = -0.6\<rparr>, rng)
   }"

definition ar_work_rate :: build where
  "ar_work_rate rng = do {
     (first, rng) \<leftarrow> rng_range rng 2 12;
     (second, rng) \<leftarrow> rng_range rng 2 12;
     if first = second then Some (None, rng) else do {
     let numerator = first * second;
     let denominator = first + second;
     q1 \<leftarrow> checked_rem numerator denominator;
     if q1 \<noteq> 0 then Some (None, rng) else do {
     q2 \<leftarrow> checked_div numerator denominator;
     let correct = q2;
     if correct = 0 then Some (None, rng) else do {
     if denominator smod 2 \<noteq> 0 then Some (None, rng) else do {
     Some (Some \<lparr>
       cand_stem = ''One worker can finish a job in '' @ show_int first @ '' days and another can finish the same job in '' @ show_int second @ '' days. Working together at those rates, how many days do they take?'',
       cand_expression = ''('' @ show_int first @ '' * '' @ show_int second @ '') / ('' @ show_int first @ '' + '' @ show_int second @ '')'',
       cand_correct = correct,
       cand_distractors = [
         misconception (first + second) ''Added the two times instead of combining rates.'',
         misconception (denominator sdiv 2) ''Averaged the two times rather than combining the rates.'',
         misconception numerator ''Multiplied the times instead of combining rates.''],
       cand_difficulty = 1.4\<rparr>, rng)
   }}}}}"

definition ar_distance_rate :: build where
  "ar_distance_rate rng = do {
     (speed, rng) \<leftarrow> rng_range rng 30 70;
     (hours, rng) \<leftarrow> rng_range rng 2 6;
     let extra_minutes = 30;
     let total_minutes = hours * 60 + extra_minutes;
     if speed * total_minutes smod 60 \<noteq> 0 then Some (None, rng) else do {
     let correct = speed * total_minutes sdiv 60;
     Some (Some \<lparr>
       cand_stem = ''A train travels at a constant '' @ show_int speed @ '' miles per hour for '' @ show_int hours @ '' hours and '' @ show_int extra_minutes @ '' minutes. How many miles does it travel?'',
       cand_expression = show_int speed @ '' * ('' @ show_int hours @ '' * 60 + '' @ show_int extra_minutes @ '') / 60'',
       cand_correct = correct,
       cand_distractors = [
         misconception (speed * hours) ''Used only the whole hours and dropped the extra minutes.'',
         misconception (speed * total_minutes) ''Multiplied by the total time in minutes without converting back to hours.'',
         misconception (speed * (hours + 1)) ''Rounded the extra minutes up to a full hour.''],
       cand_difficulty = 0.3\<rparr>, rng)
   }}"

definition ar_discount_price :: build where
  "ar_discount_price rng = do {
     (drawn, rng) \<leftarrow> rng_range rng 4 40;
     let price = drawn * 10;
     (k, rng) \<leftarrow> rng_range rng 0 5;
     percent \<leftarrow> index_vec [15, 20, 25, 30, 40, 45] (nat k);
     if price * percent smod 100 \<noteq> 0 then Some (None, rng) else do {
     let discount = price * percent sdiv 100;
     let correct = price - discount;
     if correct \<le> 0 then Some (None, rng) else do {
     Some (Some \<lparr>
       cand_stem = ''A jacket is priced at '' @ show_int price @ '' dollars and is on sale at '' @ show_int percent @ '' percent off. What is the sale price in dollars?'',
       cand_expression = show_int price @ '' - ('' @ show_int price @ '' * '' @ show_int percent @ '' / 100)'',
       cand_correct = correct,
       cand_distractors = [
         misconception discount ''Reported the discount instead of the sale price.'',
         misconception (price - percent) ''Subtracted the percentage as if it were a dollar amount.'',
         misconception (price - discount sdiv 2) ''Halved the discount, giving too little off.''],
       cand_difficulty = -0.4\<rparr>, rng)
   }}}"

definition ar_unit_conversion :: build where
  "ar_unit_conversion rng = do {
     (hours, rng) \<leftarrow> rng_range rng 2 9;
     (drawn, rng) \<leftarrow> rng_range rng 2 9;
     let minutes = drawn * 5;
     let correct = hours * 60 + minutes;
     Some (Some \<lparr>
       cand_stem = ''How many minutes are there in '' @ show_int hours @ '' hours and '' @ show_int minutes @ '' minutes?'',
       cand_expression = show_int hours @ '' * 60 + '' @ show_int minutes,
       cand_correct = correct,
       cand_distractors = [
         misconception (hours * 100 + minutes) ''Treated each hour as 100 minutes.'',
         misconception (hours * 60 - minutes) ''Subtracted the extra minutes instead of adding them.'',
         misconception (hours + minutes) ''Added the numbers as written.''],
       cand_difficulty = -1.1\<rparr>, rng)
   }"

definition ar_production_rate :: build where
  "ar_production_rate rng = do {
     (machines, rng) \<leftarrow> rng_range rng 3 12;
     (hours, rng) \<leftarrow> rng_range rng 2 9;
     (per_machine_per_hour, rng) \<leftarrow> rng_range rng 4 15;
     let correct = machines * per_machine_per_hour * hours;
     Some (Some \<lparr>
       cand_stem = ''A factory has '' @ show_int machines @ '' machines. Each machine produces '' @ show_int per_machine_per_hour @ '' parts per hour. How many parts do all the machines produce in '' @ show_int hours @ '' hours?'',
       cand_expression = show_int machines @ '' * '' @ show_int per_machine_per_hour @ '' * '' @ show_int hours,
       cand_correct = correct,
       cand_distractors = [
         misconception (per_machine_per_hour * hours) ''Counted only one machine's output.'',
         misconception (machines * per_machine_per_hour) ''Counted one hour instead of the stated number of hours.'',
         misconception (machines * per_machine_per_hour * hours sdiv 2) ''Halved the total, as if only half the machines ran.''],
       cand_difficulty = -0.2\<rparr>, rng)
   }"

definition ar_batch_proportion :: build where
  "ar_batch_proportion rng = do {
     (per_batch, rng) \<leftarrow> rng_range rng 3 12;
     (batches, rng) \<leftarrow> rng_range rng 3 9;
     (wanted, rng) \<leftarrow> rng_range rng 2 8;
     q1 \<leftarrow> checked_rem (per_batch * wanted) batches;
     if q1 \<noteq> 0 then Some (None, rng) else do {
     q2 \<leftarrow> checked_div (per_batch * wanted) batches;
     let correct = q2;
     q3 \<leftarrow> checked_div per_batch batches;
     if correct = 0 \<or> q3 = 0 then Some (None, rng) else do {
     q4 \<leftarrow> checked_div per_batch batches;
     q5 \<leftarrow> checked_div (per_batch * batches) wanted;
     Some (Some \<lparr>
       cand_stem = show_int batches @ '' batches of a mixture require '' @ show_int per_batch @ '' litres of solvent. How many litres do '' @ show_int wanted @ '' batches require at the same rate?'',
       cand_expression = show_int per_batch @ '' * '' @ show_int wanted @ '' / '' @ show_int batches,
       cand_correct = correct,
       cand_distractors = [
         misconception q4 ''Found the solvent per batch and stopped there.'',
         misconception (per_batch + wanted) ''Added the batch counts instead of scaling the rate.'',
         misconception q5 ''Inverted the ratio, scaling in the wrong direction.''],
       cand_difficulty = 0.6\<rparr>, rng)
   }}}"

definition ar_percent_remaining :: build where
  "ar_percent_remaining rng = do {
     (drawn, rng) \<leftarrow> rng_range rng 4 40;
     let total = drawn * 5;
     (k, rng) \<leftarrow> rng_range rng 0 5;
     percent \<leftarrow> index_vec [10, 20, 25, 40, 50, 60] (nat k);
     if total * percent smod 100 \<noteq> 0 then Some (None, rng) else do {
     let part = total * percent sdiv 100;
     let correct = total - part;
     if correct \<le> 0 \<or> total - percent \<le> 0 then Some (None, rng) else do {
     Some (Some \<lparr>
       cand_stem = show_int percent @ '' percent of a shipment of '' @ show_int total @ '' crates is damaged. How many crates are not damaged?'',
       cand_expression = show_int total @ '' - ('' @ show_int total @ '' * '' @ show_int percent @ '' / 100)'',
       cand_correct = correct,
       cand_distractors = [
         misconception part ''Reported the damaged crates instead of the rest.'',
         misconception (total - percent) ''Subtracted the percentage as if it were a crate count.'',
         misconception (total + part) ''Added the damaged share to the shipment instead of removing it.''],
       cand_difficulty = -0.3\<rparr>, rng)
   }}}"

section \<open>Mathematics Knowledge\<close>

definition mk_linear_solve :: build where
  "mk_linear_solve rng = do {
     (coefficient, rng) \<leftarrow> rng_range rng 2 9;
     (solution, rng) \<leftarrow> rng_range rng 2 12;
     (drawn, rng) \<leftarrow> rng_range rng 1 4;
     let constant = coefficient * drawn;
     let total = coefficient * solution + constant;
     q1 \<leftarrow> checked_div total coefficient;
     Some (Some \<lparr>
       cand_stem = ''If '' @ show_int coefficient @ ''x + '' @ show_int constant @ '' = '' @ show_int total @ '', what is the value of x?'',
       cand_expression = ''('' @ show_int total @ '' - '' @ show_int constant @ '') / '' @ show_int coefficient,
       cand_correct = solution,
       cand_distractors = [
         misconception (total - constant) ''Found the value of the term containing x rather than x itself.'',
         misconception q1 ''Divided by the coefficient before subtracting the constant.'',
         misconception (total - constant - coefficient) ''Subtracted the coefficient as well as the constant.''],
       cand_difficulty = 0.2\<rparr>, rng)
   }"

definition mk_evaluate_expression :: build where
  "mk_evaluate_expression rng = do {
     (coefficient, rng) \<leftarrow> rng_range rng 2 9;
     (x, rng) \<leftarrow> rng_range rng 2 10;
     let x = (if x = coefficient then x + 1 else x);
     (constant, rng) \<leftarrow> rng_range rng 1 15;
     let correct = coefficient * x + constant;
     Some (Some \<lparr>
       cand_stem = ''If x = '' @ show_int x @ '', what is the value of '' @ show_int coefficient @ ''x + '' @ show_int constant @ ''?'',
       cand_expression = show_int coefficient @ '' * '' @ show_int x @ '' + '' @ show_int constant,
       cand_correct = correct,
       cand_distractors = [
         misconception (coefficient * (x + constant)) ''Added the constant to x before multiplying.'',
         misconception (coefficient * x) ''Ignored the constant term.'',
         misconception (coefficient + x + constant) ''Added the terms instead of multiplying.''],
       cand_difficulty = -0.4\<rparr>, rng)
   }"

definition mk_slope :: build where
  "mk_slope rng = do {
     (slope, rng) \<leftarrow> rng_range rng 1 5;
     (run, rng) \<leftarrow> rng_range rng 2 6;
     let rise = slope * run;
     (x1, rng) \<leftarrow> rng_range rng 1 9;
     (y1, rng) \<leftarrow> rng_range rng 1 9;
     let x2 = x1 + run;
     let y2 = y1 + rise;
     Some (Some \<lparr>
       cand_stem = ''A line passes through ('' @ show_int x1 @ '', '' @ show_int y1 @ '') and ('' @ show_int x2 @ '', '' @ show_int y2 @ ''). What is its slope?'',
       cand_expression = ''('' @ show_int y2 @ '' - '' @ show_int y1 @ '') / ('' @ show_int x2 @ '' - '' @ show_int x1 @ '')'',
       cand_correct = slope,
       cand_distractors = [
         misconception (rise + run) ''Added the two changes together instead of dividing them.'',
         misconception (slope * run) ''Multiplied the slope by the horizontal change.'',
         misconception (slope + run) ''Added the horizontal change to the slope.''],
       cand_difficulty = 0.6\<rparr>, rng)
   }"

definition mk_exponent_power :: build where
  "mk_exponent_power rng = do {
     (base, rng) \<leftarrow> rng_pick rng [2, 3, 5];
     (inner, rng) \<leftarrow> rng_range rng 2 4;
     (outer, rng) \<leftarrow> rng_range rng 2 4;
     let correct = inner * outer;
     let raised = 1;
     let raised = mul_loop (nat outer) raised inner;
     let reversed = 1;
     let reversed = mul_loop (nat inner) reversed outer;
     Some (Some \<lparr>
       cand_stem = ''The expression ('' @ show_int base @ ''^'' @ show_int inner @ '')^'' @ show_int outer @ '' can be written as '' @ show_int base @ '' raised to what power?'',
       cand_expression = show_int inner @ '' * '' @ show_int outer,
       cand_correct = correct,
       cand_distractors = [
         misconception (inner + outer) ''Added the exponents instead of multiplying them.'',
         misconception raised ''Raised one exponent to the other instead of multiplying.'',
         misconception reversed ''Raised the outer exponent to the inner one.''],
       cand_difficulty = 0.8\<rparr>, rng)
   }"

definition mk_volume_box :: build where
  "mk_volume_box rng = do {
     (len, rng) \<leftarrow> rng_range rng 2 12;
     (width, rng) \<leftarrow> rng_range rng 2 12;
     (height, rng) \<leftarrow> rng_range rng 2 12;
     let correct = len * width * height;
     Some (Some \<lparr>
       cand_stem = ''A rectangular box measures '' @ show_int len @ '' by '' @ show_int width @ '' by '' @ show_int height @ '' centimetres. What is its volume in cubic centimetres?'',
       cand_expression = show_int len @ '' * '' @ show_int width @ '' * '' @ show_int height,
       cand_correct = correct,
       cand_distractors = [
         misconception (len * width + height) ''Added the third dimension instead of multiplying.'',
         misconception (4 * (len + width + height)) ''Summed the twelve edges instead of multiplying the dimensions.'',
         misconception (len + width + height) ''Added all three dimensions.''],
       cand_difficulty = -0.7\<rparr>, rng)
   }"

definition mk_fraction_of :: build where
  "mk_fraction_of rng = do {
     (denominator, rng) \<leftarrow> rng_pick rng [2, 3, 4, 5, 8];
     (numerator, rng) \<leftarrow> rng_range rng 1 (denominator - 1);
     (drawn, rng) \<leftarrow> rng_range rng 4 40;
     let total = denominator * drawn;
     q1 \<leftarrow> checked_div (total * numerator) denominator;
     let correct = q1;
     let inverted_numerator = total * denominator;
     q2 \<leftarrow> checked_rem inverted_numerator numerator;
     if q2 \<noteq> 0 then Some (None, rng) else do {
     q3 \<leftarrow> checked_div total denominator;
     q4 \<leftarrow> checked_div inverted_numerator numerator;
     Some (Some \<lparr>
       cand_stem = ''What is '' @ show_int numerator @ ''/'' @ show_int denominator @ '' of '' @ show_int total @ ''?'',
       cand_expression = ''('' @ show_int total @ '' * '' @ show_int numerator @ '') / '' @ show_int denominator,
       cand_correct = correct,
       cand_distractors = [
         misconception q3 ''Found one part rather than the stated number of parts.'',
         misconception q4 ''Inverted the fraction.'',
         misconception (total - correct) ''Subtracted the part from the whole.''],
       cand_difficulty = -0.2\<rparr>, rng)
   }}"

section \<open>Mechanical Comprehension\<close>

definition mc_lever_effort :: build where
  "mc_lever_effort rng = do {
     (load_arm, rng) \<leftarrow> rng_range rng 1 6;
     (drawn, rng) \<leftarrow> rng_range rng 2 5;
     let effort_arm = load_arm * drawn;
     (drawn, rng) \<leftarrow> rng_range rng 2 25;
     let load = drawn * effort_arm;
     q1 \<leftarrow> checked_div (load * load_arm) effort_arm;
     let correct = q1;
     let short_arm = load_arm + 1;
     q2 \<leftarrow> checked_div (load * effort_arm) load_arm;
     q3 \<leftarrow> checked_div (load * load_arm) short_arm;
     Some (Some \<lparr>
       cand_stem = ''A lever is used to lift a load of '' @ show_int load @ '' pounds. The load is '' @ show_int load_arm @ '' feet from the fulcrum and the effort is applied '' @ show_int effort_arm @ '' feet from it. How many pounds of effort are needed to balance the load?'',
       cand_expression = ''('' @ show_int load @ '' * '' @ show_int load_arm @ '') / '' @ show_int effort_arm,
       cand_correct = correct,
       cand_distractors = [
         misconception q2 ''Multiplied by the effort arm instead of dividing by it.'',
         misconception load ''Ignored the arms and assumed the effort equals the load.'',
         misconception q3 ''Used the wrong arm on one side of the balance.''],
       cand_difficulty = -0.2\<rparr>, rng)
   }"

definition mc_gear_ratio :: build where
  "mc_gear_ratio rng = do {
     (driving_teeth, rng) \<leftarrow> rng_range rng 2 12;
     (drawn, rng) \<leftarrow> rng_range rng 2 4;
     let driven_teeth = driving_teeth * drawn;
     (drawn, rng) \<leftarrow> rng_range rng 2 9;
     let turns = drawn * driven_teeth;
     q1 \<leftarrow> checked_div (driving_teeth * turns) driven_teeth;
     let correct = q1;
     q2 \<leftarrow> checked_div (driven_teeth * turns) driving_teeth;
     Some (Some \<lparr>
       cand_stem = ''A gear with '' @ show_int driving_teeth @ '' teeth drives a gear with '' @ show_int driven_teeth @ '' teeth. If the driving gear makes '' @ show_int turns @ '' turns, how many turns does the driven gear make?'',
       cand_expression = ''('' @ show_int driving_teeth @ '' * '' @ show_int turns @ '') / '' @ show_int driven_teeth,
       cand_correct = correct,
       cand_distractors = [
         misconception q2 ''Inverted the gear ratio.'',
         misconception turns ''Assumed both gears turn at the same speed.'',
         misconception (driving_teeth + turns) ''Added the tooth count instead of using the ratio.''],
       cand_difficulty = -0.1\<rparr>, rng)
   }"

definition mc_pulley_effort :: build where
  "mc_pulley_effort rng = do {
     (strands, rng) \<leftarrow> rng_range rng 2 6;
     (drawn, rng) \<leftarrow> rng_range rng 2 30;
     let load = drawn * strands;
     q1 \<leftarrow> checked_div load strands;
     let correct = q1;
     q2 \<leftarrow> checked_div load (strands - 1);
     Some (Some \<lparr>
       cand_stem = ''A block and tackle has '' @ show_int strands @ '' supporting strands. Ignoring friction and the weight of the blocks, how many pounds of effort are needed to lift a load of '' @ show_int load @ '' pounds?'',
       cand_expression = show_int load @ '' / '' @ show_int strands,
       cand_correct = correct,
       cand_distractors = [
         misconception (load * strands) ''Multiplied by the number of strands instead of dividing.'',
         misconception (load - strands) ''Subtracted the number of strands from the load.'',
         misconception q2 ''Counted one strand too few.''],
       cand_difficulty = -0.4\<rparr>, rng)
   }"

definition mc_wheel_and_axle :: build where
  "mc_wheel_and_axle rng = do {
     (axle_radius, rng) \<leftarrow> rng_range rng 1 4;
     (drawn, rng) \<leftarrow> rng_range rng 3 6;
     let wheel_radius = axle_radius * drawn;
     (drawn, rng) \<leftarrow> rng_range rng 2 20;
     let load = drawn * wheel_radius;
     q1 \<leftarrow> checked_div (load * axle_radius) wheel_radius;
     let correct = q1;
     q2 \<leftarrow> checked_div (load * wheel_radius) axle_radius;
     q3 \<leftarrow> checked_div load (wheel_radius - axle_radius);
     Some (Some \<lparr>
       cand_stem = ''A wheel with a radius of '' @ show_int wheel_radius @ '' inches is fastened to an axle with a radius of '' @ show_int axle_radius @ '' inches. How many pounds of effort at the rim of the wheel will balance a load of '' @ show_int load @ '' pounds on the axle?'',
       cand_expression = ''('' @ show_int load @ '' * '' @ show_int axle_radius @ '') / '' @ show_int wheel_radius,
       cand_correct = correct,
       cand_distractors = [
         misconception q2 ''Inverted the ratio of the radii.'',
         misconception load ''Assumed the effort equals the load whatever the radii are.'',
         misconception q3 ''Used the difference of the radii as a ratio.''],
       cand_difficulty = -0.3\<rparr>, rng)
   }"

definition mc_pressure :: build where
  "mc_pressure rng = do {
     (area, rng) \<leftarrow> rng_range rng 2 12;
     (pressure, rng) \<leftarrow> rng_range rng 3 40;
     let force = area * pressure;
     q1 \<leftarrow> checked_div force area;
     let correct = q1;
     Some (Some \<lparr>
       cand_stem = ''A force of '' @ show_int force @ '' pounds acts on a piston with an area of '' @ show_int area @ '' square inches. How many pounds per square inch of pressure does the piston exert?'',
       cand_expression = show_int force @ '' / '' @ show_int area,
       cand_correct = correct,
       cand_distractors = [
         misconception (force * area) ''Multiplied by the area instead of dividing by it.'',
         misconception area ''Reported the area rather than the pressure.'',
         misconception (force - area) ''Subtracted the area from the force.''],
       cand_difficulty = -0.3\<rparr>, rng)
   }"

definition mc_hydraulic_lift :: build where
  "mc_hydraulic_lift rng = do {
     (small_area, rng) \<leftarrow> rng_range rng 1 5;
     (drawn, rng) \<leftarrow> rng_range rng 3 8;
     let large_area = small_area * drawn;
     (drawn, rng) \<leftarrow> rng_range rng 2 20;
     q1 \<leftarrow> checked_div (drawn * large_area) small_area;
     let effort = q1;
     q2 \<leftarrow> checked_div (effort * large_area) small_area;
     let correct = q2;
     q3 \<leftarrow> checked_div (effort * small_area) large_area;
     Some (Some \<lparr>
       cand_stem = ''In a hydraulic jack, '' @ show_int effort @ '' pounds of effort is applied to a piston with an area of '' @ show_int small_area @ '' square inches. The fluid acts on a second piston with an area of '' @ show_int large_area @ '' square inches. How many pounds can the second piston lift?'',
       cand_expression = ''('' @ show_int effort @ '' * '' @ show_int large_area @ '') / '' @ show_int small_area,
       cand_correct = correct,
       cand_distractors = [
         misconception q3 ''Inverted the ratio of the piston areas.'',
         misconception effort ''Assumed the fluid transmits the force unchanged.'',
         misconception (effort + large_area) ''Added the area instead of using the ratio.''],
       cand_difficulty = -0.1\<rparr>, rng)
   }"

definition mc_inclined_plane :: build where
  "mc_inclined_plane rng = do {
     (height, rng) \<leftarrow> rng_range rng 1 5;
     (drawn, rng) \<leftarrow> rng_range rng 2 6;
     let len = height * drawn;
     (drawn, rng) \<leftarrow> rng_range rng 2 25;
     let weight = drawn * len;
     q1 \<leftarrow> checked_div (weight * height) len;
     let correct = q1;
     let rise_s = (if height = 1 then ''1 foot'' else show_int height @ '' feet'');
     q2 \<leftarrow> checked_div (weight * len) height;
     q3 \<leftarrow> checked_div weight (len - height);
     Some (Some \<lparr>
       cand_stem = ''A ramp '' @ show_int len @ '' feet long rises '' @ rise_s @ ''. Ignoring friction, how many pounds of effort are needed to push a '' @ show_int weight @ ''-pound crate up the ramp?'',
       cand_expression = ''('' @ show_int weight @ '' * '' @ show_int height @ '') / '' @ show_int len,
       cand_correct = correct,
       cand_distractors = [
         misconception q2 ''Inverted the ratio of the ramp's rise to its length.'',
         misconception weight ''Assumed the effort equals the weight whatever the slope is.'',
         misconception q3 ''Used the difference between the length and the rise as a ratio.''],
       cand_difficulty = -0.2\<rparr>, rng)
   }"

definition mc_mechanical_advantage :: build where
  "mc_mechanical_advantage rng = do {
     (load_arm, rng) \<leftarrow> rng_range rng 1 8;
     (advantage, rng) \<leftarrow> rng_range rng 2 9;
     let effort_arm = load_arm * advantage;
     Some (Some \<lparr>
       cand_stem = ''The effort arm of a lever is '' @ show_int effort_arm @ '' feet and its load arm is '' @ show_int load_arm @ '' feet. What is the mechanical advantage of the lever?'',
       cand_expression = show_int effort_arm @ '' / '' @ show_int load_arm,
       cand_correct = advantage,
       cand_distractors = [
         misconception load_arm ''Reported the load arm instead of the ratio of the arms.'',
         misconception (effort_arm + load_arm) ''Added the arms instead of dividing them.'',
         misconception (advantage + 1) ''Counted one extra multiplication of the effort.''],
       cand_difficulty = -0.5\<rparr>, rng)
   }"

section \<open>The template table\<close>

definition TEMPLATES :: "template list" where
  "TEMPLATES = [
     \<lparr>template_id = ''ar.rate_pages'', template_subtest = ''AR'', template_objective = ''OBJ-AR-RATE-01'', template_build = ar_rate_pages\<rparr>,
     \<lparr>template_id = ''ar.percent_of'', template_subtest = ''AR'', template_objective = ''OBJ-AR-PERCENT-01'', template_build = ar_percent_of\<rparr>,
     \<lparr>template_id = ''ar.unit_price'', template_subtest = ''AR'', template_objective = ''OBJ-AR-PROPORTION-01'', template_build = ar_unit_price\<rparr>,
     \<lparr>template_id = ''ar.average_sum'', template_subtest = ''AR'', template_objective = ''OBJ-AR-AVERAGE-01'', template_build = ar_average_sum\<rparr>,
     \<lparr>template_id = ''ar.simple_interest'', template_subtest = ''AR'', template_objective = ''OBJ-AR-INTEREST-01'', template_build = ar_simple_interest\<rparr>,
     \<lparr>template_id = ''ar.rectangle_perimeter'', template_subtest = ''AR'', template_objective = ''OBJ-AR-GEOMETRY-01'', template_build = ar_rectangle_perimeter\<rparr>,
     \<lparr>template_id = ''ar.triangle_area'', template_subtest = ''AR'', template_objective = ''OBJ-AR-GEOMETRY-02'', template_build = ar_triangle_area\<rparr>,
     \<lparr>template_id = ''ar.work_rate'', template_subtest = ''AR'', template_objective = ''OBJ-AR-RATE-02'', template_build = ar_work_rate\<rparr>,
     \<lparr>template_id = ''ar.distance_rate'', template_subtest = ''AR'', template_objective = ''OBJ-AR-RATE-03'', template_build = ar_distance_rate\<rparr>,
     \<lparr>template_id = ''ar.discount_price'', template_subtest = ''AR'', template_objective = ''OBJ-AR-PERCENT-02'', template_build = ar_discount_price\<rparr>,
     \<lparr>template_id = ''ar.unit_conversion'', template_subtest = ''AR'', template_objective = ''OBJ-AR-MEASURE-01'', template_build = ar_unit_conversion\<rparr>,
     \<lparr>template_id = ''ar.production_rate'', template_subtest = ''AR'', template_objective = ''OBJ-AR-RATE-04'', template_build = ar_production_rate\<rparr>,
     \<lparr>template_id = ''ar.batch_proportion'', template_subtest = ''AR'', template_objective = ''OBJ-AR-PROPORTION-02'', template_build = ar_batch_proportion\<rparr>,
     \<lparr>template_id = ''ar.percent_remaining'', template_subtest = ''AR'', template_objective = ''OBJ-AR-PERCENT-03'', template_build = ar_percent_remaining\<rparr>,
     \<lparr>template_id = ''mk.linear_solve'', template_subtest = ''MK'', template_objective = ''OBJ-MK-ALGEBRA-01'', template_build = mk_linear_solve\<rparr>,
     \<lparr>template_id = ''mk.evaluate_expression'', template_subtest = ''MK'', template_objective = ''OBJ-MK-ALGEBRA-02'', template_build = mk_evaluate_expression\<rparr>,
     \<lparr>template_id = ''mk.slope'', template_subtest = ''MK'', template_objective = ''OBJ-MK-COORDINATE-01'', template_build = mk_slope\<rparr>,
     \<lparr>template_id = ''mk.exponent_power'', template_subtest = ''MK'', template_objective = ''OBJ-MK-EXPONENT-01'', template_build = mk_exponent_power\<rparr>,
     \<lparr>template_id = ''mk.volume_box'', template_subtest = ''MK'', template_objective = ''OBJ-MK-GEOMETRY-01'', template_build = mk_volume_box\<rparr>,
     \<lparr>template_id = ''mk.fraction_of'', template_subtest = ''MK'', template_objective = ''OBJ-MK-FRACTION-01'', template_build = mk_fraction_of\<rparr>,
     \<lparr>template_id = ''mc.lever_effort'', template_subtest = ''MC'', template_objective = ''OBJ-MC-LEVER-01'', template_build = mc_lever_effort\<rparr>,
     \<lparr>template_id = ''mc.gear_ratio'', template_subtest = ''MC'', template_objective = ''OBJ-MC-GEARS-01'', template_build = mc_gear_ratio\<rparr>,
     \<lparr>template_id = ''mc.pulley_effort'', template_subtest = ''MC'', template_objective = ''OBJ-MC-PULLEY-01'', template_build = mc_pulley_effort\<rparr>,
     \<lparr>template_id = ''mc.wheel_and_axle'', template_subtest = ''MC'', template_objective = ''OBJ-MC-WHEEL-01'', template_build = mc_wheel_and_axle\<rparr>,
     \<lparr>template_id = ''mc.pressure'', template_subtest = ''MC'', template_objective = ''OBJ-MC-FLUID-01'', template_build = mc_pressure\<rparr>,
     \<lparr>template_id = ''mc.hydraulic_lift'', template_subtest = ''MC'', template_objective = ''OBJ-MC-FLUID-02'', template_build = mc_hydraulic_lift\<rparr>,
     \<lparr>template_id = ''mc.inclined_plane'', template_subtest = ''MC'', template_objective = ''OBJ-MC-PLANE-01'', template_build = mc_inclined_plane\<rparr>,
     \<lparr>template_id = ''mc.mechanical_advantage'', template_subtest = ''MC'', template_objective = ''OBJ-MC-ADVANTAGE-01'', template_build = mc_mechanical_advantage\<rparr>]"

definition templates_for :: "string \<Rightarrow> string list" where
  "templates_for subtest = map template_id (filter (\<lambda>t. template_subtest t = subtest) TEMPLATES)"

end
