(* ===== verification/Proof_Eval.thy ===== *)
theory Proof_Eval
  imports Prelude
begin

text \<open>
  The answer-proof evaluator, \<open>crates/vector-questions/src/proof.rs\<close>: a recursive-descent
  parser over the bytes of an expression that evaluates as it reads, with checked
  \<open>i128\<close> arithmetic and exact division.

  The four parsing methods are mutually recursive and each contains a loop. They are
  modelled as the code has them, over a parser record with a position, with a fuel
  argument; \<open>evaluate\<close> supplies \<open>4 * length + 4\<close>, which is shown to be enough for every
  input. The reference is the grammar of the module's own documentation, as inductive
  relations from text to syntax trees, and the checked meaning \<open>sem\<close> of a tree: the
  evaluator is proved sound and complete for it.
\<close>

section \<open>The evaluator\<close>

datatype proof_error =
    Empty
  | UnexpectedCharacter char nat
  | UnexpectedEnd
  | UnclosedParenthesis
  | UnmatchedClosingParenthesis
  | NumberTooLarge string
  | DivisionByZero
  | NonExactDivision int int
  | Overflow
  | AnswerNotAnInteger string
  | AnswerMismatch int int

text \<open>
  What a call does: it returns a value, returns an error, panics, or has run out of the
  model's fuel. The one panic of the module is \<open>i128::MIN % -1\<close>.
\<close>

datatype 'a outcome = Value 'a | Error proof_error | Panic | Out_of_fuel

fun and_then :: "'a outcome \<Rightarrow> ('a \<Rightarrow> 'b outcome) \<Rightarrow> 'b outcome" where
  "and_then (Value v) f = f v"
| "and_then (Error e) f = Error e"
| "and_then Panic f = Panic"
| "and_then Out_of_fuel f = Out_of_fuel"

fun ok_or_overflow :: "int option \<Rightarrow> int outcome" where
  "ok_or_overflow (Some v) = Value v"
| "ok_or_overflow None = Error Overflow"

definition checked_add :: "int \<Rightarrow> int \<Rightarrow> int outcome" where
  "checked_add a b = ok_or_overflow (checked_i128 (a + b))"

definition checked_sub :: "int \<Rightarrow> int \<Rightarrow> int outcome" where
  "checked_sub a b = ok_or_overflow (checked_i128 (a - b))"

definition checked_mul :: "int \<Rightarrow> int \<Rightarrow> int outcome" where
  "checked_mul a b = ok_or_overflow (checked_i128 (a * b))"

definition checked_neg :: "int \<Rightarrow> int outcome" where
  "checked_neg a = ok_or_overflow (checked_i128 (- a))"

definition exact_div :: "int \<Rightarrow> int \<Rightarrow> int outcome" where
  "exact_div a b =
     (if b = 0 then Error DivisionByZero
      else if a = - (2 ^ 127) \<and> b = - 1 then Panic
      else if a smod b \<noteq> 0 then Error (NonExactDivision a b)
      else Value (a sdiv b))"

record parser =
  input :: string
  position :: nat

definition new_parser :: "string \<Rightarrow> parser" where
  "new_parser s = \<lparr>input = s, position = 0\<rparr>"

definition peek :: "parser \<Rightarrow> char option" where
  "peek p = (if position p < length (input p) then Some (input p ! position p) else None)"

definition bump :: "parser \<Rightarrow> parser" where
  "bump p = p\<lparr>position := Suc (position p)\<rparr>"

text \<open>\<open>skip_whitespace\<close>: a loop over spaces and tabs; newlines are not skipped.\<close>

definition blank :: "char \<Rightarrow> bool" where
  "blank c \<longleftrightarrow> c = CHR '' '' \<or> c = CHR 0x09"

lemma peek_Some_less: "peek p = Some c \<Longrightarrow> position p < length (input p)"
  by (simp add: peek_def split: if_splits)

function skip_whitespace :: "parser \<Rightarrow> parser" where
  "skip_whitespace p =
     (case peek p of
        Some c \<Rightarrow> if blank c then skip_whitespace (bump p) else p
      | None \<Rightarrow> p)"
  by pat_completeness auto
termination
  by (relation "measure (\<lambda>p. length (input p) - position p)")
    (auto simp: bump_def dest: peek_Some_less)

text \<open>The digits of a number literal: the inner loop of \<open>parse_primary\<close>.\<close>

function skip_digits :: "parser \<Rightarrow> parser" where
  "skip_digits p =
     (case peek p of
        Some c \<Rightarrow> if is_digit c then skip_digits (bump p) else p
      | None \<Rightarrow> p)"
  by pat_completeness auto
termination
  by (relation "measure (\<lambda>p. length (input p) - position p)")
    (auto simp: bump_def dest: peek_Some_less)

declare skip_whitespace.simps [simp del] skip_digits.simps [simp del]

definition slice :: "parser \<Rightarrow> nat \<Rightarrow> nat \<Rightarrow> string" where
  "slice p i j = take (j - i) (drop i (input p))"

fun number :: "string \<Rightarrow> int outcome" where
  "number literal =
     (case parse_i128 literal of Some v \<Rightarrow> Value v | None \<Rightarrow> Error (NumberTooLarge literal))"

declare number.simps [simp del]

fun parse_expression :: "nat \<Rightarrow> parser \<Rightarrow> (int \<times> parser) outcome"
  and expression_loop :: "nat \<Rightarrow> int \<Rightarrow> parser \<Rightarrow> (int \<times> parser) outcome"
  and parse_term :: "nat \<Rightarrow> parser \<Rightarrow> (int \<times> parser) outcome"
  and term_loop :: "nat \<Rightarrow> int \<Rightarrow> parser \<Rightarrow> (int \<times> parser) outcome"
  and parse_unary :: "nat \<Rightarrow> parser \<Rightarrow> (int \<times> parser) outcome"
  and parse_primary :: "nat \<Rightarrow> parser \<Rightarrow> (int \<times> parser) outcome"
where
  "parse_expression 0 p = Out_of_fuel"
| "parse_expression (Suc n) p =
     and_then (parse_term n p) (\<lambda>(value, p). expression_loop n value p)"
| "expression_loop 0 value p = Out_of_fuel"
| "expression_loop (Suc n) value p =
     (let p = skip_whitespace p in
      if peek p = Some (CHR ''+'') then
        and_then (parse_term n (bump p)) (\<lambda>(right, p).
        and_then (checked_add value right) (\<lambda>value. expression_loop n value p))
      else if peek p = Some (CHR ''-'') then
        and_then (parse_term n (bump p)) (\<lambda>(right, p).
        and_then (checked_sub value right) (\<lambda>value. expression_loop n value p))
      else Value (value, p))"
| "parse_term 0 p = Out_of_fuel"
| "parse_term (Suc n) p =
     and_then (parse_unary n p) (\<lambda>(value, p). term_loop n value p)"
| "term_loop 0 value p = Out_of_fuel"
| "term_loop (Suc n) value p =
     (let p = skip_whitespace p in
      if peek p = Some (CHR ''*'') then
        and_then (parse_unary n (bump p)) (\<lambda>(right, p).
        and_then (checked_mul value right) (\<lambda>value. term_loop n value p))
      else if peek p = Some (CHR ''/'') then
        and_then (parse_unary n (bump p)) (\<lambda>(right, p).
        and_then (exact_div value right) (\<lambda>value. term_loop n value p))
      else Value (value, p))"
| "parse_unary 0 p = Out_of_fuel"
| "parse_unary (Suc n) p =
     (let p = skip_whitespace p in
      if peek p = Some (CHR ''-'') then
        and_then (parse_unary n (bump p)) (\<lambda>(value, p).
        and_then (checked_neg value) (\<lambda>value. Value (value, p)))
      else parse_primary n p)"
| "parse_primary 0 p = Out_of_fuel"
| "parse_primary (Suc n) p =
     (let p = skip_whitespace p in
      case peek p of
        None \<Rightarrow> Error UnexpectedEnd
      | Some b \<Rightarrow>
          if b = CHR ''('' then
            and_then (parse_expression n (bump p)) (\<lambda>(value, p).
              let p = skip_whitespace p in
              case peek p of
                None \<Rightarrow> Error UnclosedParenthesis
              | Some c \<Rightarrow>
                  if c = CHR '')'' then Value (value, bump p)
                  else Error (UnexpectedCharacter c (position p)))
          else if b = CHR '')'' then Error UnmatchedClosingParenthesis
          else if is_digit b then
            (let q = skip_digits p in
             and_then (number (slice p (position p) (position q))) (\<lambda>value. Value (value, q)))
          else Error (UnexpectedCharacter b (position p)))"

definition evaluate :: "string \<Rightarrow> int outcome" where
  "evaluate expression =
     (let trimmed = trim expression in
      if trimmed = [] then Error Empty
      else and_then (parse_expression (4 * length trimmed + 4) (new_parser trimmed)) (\<lambda>(value, p).
        let p = skip_whitespace p in
        if position p \<noteq> length (input p) then
          (case peek p of
             None \<Rightarrow> Panic
           | Some b \<Rightarrow>
               if b = CHR '')'' then Error UnmatchedClosingParenthesis
               else Error (UnexpectedCharacter b (position p)))
        else Value value))"

definition verify_answer :: "string \<Rightarrow> string \<Rightarrow> int outcome" where
  "verify_answer expression answer =
     and_then (evaluate expression) (\<lambda>recomputed.
       case parse_i128 (trim answer) of
         None \<Rightarrow> Error (AnswerNotAnInteger answer)
       | Some declared \<Rightarrow>
           if recomputed \<noteq> declared then Error (AnswerMismatch declared recomputed)
           else Value recomputed)"

section \<open>What is left to read\<close>

definition rest :: "parser \<Rightarrow> string" where
  "rest p = drop (position p) (input p)"

definition adv :: "nat \<Rightarrow> parser \<Rightarrow> parser" where
  "adv k p = p\<lparr>position := position p + k\<rparr>"

named_theorems reading "the parser's cursor in terms of the remaining text"

lemma rest_adv [reading]: "rest (adv k p) = drop k (rest p)"
  by (simp add: rest_def adv_def add.commute)

lemma input_adv [reading]: "input (adv k p) = input p"
  by (simp add: adv_def)

lemma position_adv [reading]: "position (adv k p) = position p + k"
  by (simp add: adv_def)

lemma adv_adv [reading]: "adv j (adv k p) = adv (k + j) p"
  by (simp add: adv_def add.assoc)

lemma adv_0 [reading]: "adv 0 p = p"
  by (simp add: adv_def)

lemma bump_adv [reading]: "bump p = adv 1 p"
  by (simp add: bump_def adv_def)

lemma rest_new [reading]: "rest (new_parser s) = s"
  by (simp add: rest_def new_parser_def)

lemma peek_rest: "peek p = (case rest p of [] \<Rightarrow> None | c # _ \<Rightarrow> Some c)"
  by (auto simp: peek_def rest_def Cons_nth_drop_Suc [symmetric])

lemma skip_whitespace_eq: "skip_whitespace p = adv (length (takeWhile blank (rest p))) p"
proof (induction p rule: skip_whitespace.induct)
  case (1 p)
  show ?case
  proof (cases "rest p")
    case Nil
    then show ?thesis
      by (subst skip_whitespace.simps) (simp add: peek_rest reading)
  next
    case (Cons c s)
    then have "peek p = Some c" by (simp add: peek_rest)
    with Cons 1 [of c] show ?thesis
      by (subst skip_whitespace.simps) (simp add: reading)
  qed
qed

lemma skip_digits_eq: "skip_digits p = adv (length (takeWhile is_digit (rest p))) p"
proof (induction p rule: skip_digits.induct)
  case (1 p)
  show ?case
  proof (cases "rest p")
    case Nil
    then show ?thesis
      by (subst skip_digits.simps) (simp add: peek_rest reading)
  next
    case (Cons c s)
    then have "peek p = Some c" by (simp add: peek_rest)
    with Cons 1 [of c] show ?thesis
      by (subst skip_digits.simps) (simp add: reading)
  qed
qed

lemma slice_digits [reading]:
  "slice p (position p) (position (skip_digits p)) = takeWhile is_digit (rest p)"
  by (simp add: slice_def skip_digits_eq reading rest_def [symmetric] takeWhile_eq_take [symmetric])

lemma rest_skip [reading]: "rest (skip_whitespace p) = dropWhile blank (rest p)"
  by (simp add: skip_whitespace_eq reading dropWhile_eq_drop)

lemma takeWhile_dropWhile_Nil [simp]: "takeWhile P (dropWhile P xs) = []"
  by (induction xs) auto

lemma skip_skip [simp]: "skip_whitespace (skip_whitespace p) = skip_whitespace p"
  by (subst skip_whitespace_eq) (simp add: reading)

section \<open>The documented grammar\<close>

datatype ast =
    Num string
  | Group ast
  | Neg ast
  | Add ast ast
  | Sub ast ast
  | Mul ast ast
  | Div ast ast

text \<open>The meaning of a tree: operands from left to right, every operation checked.\<close>

fun sem :: "ast \<Rightarrow> int outcome" where
  "sem (Num ds) = number ds"
| "sem (Group e) = sem e"
| "sem (Neg e) = and_then (sem e) checked_neg"
| "sem (Add e f) = and_then (sem e) (\<lambda>a. and_then (sem f) (checked_add a))"
| "sem (Sub e f) = and_then (sem e) (\<lambda>a. and_then (sem f) (checked_sub a))"
| "sem (Mul e f) = and_then (sem e) (\<lambda>a. and_then (sem f) (checked_mul a))"
| "sem (Div e f) = and_then (sem e) (\<lambda>a. and_then (sem f) (exact_div a))"

abbreviation blanks :: "string \<Rightarrow> bool" where
  "blanks w \<equiv> list_all blank w"

text \<open>
  \<open>expr := term (('+' | '-') term)*\<close>, \<open>term := unary (('*' | '/') unary)*\<close>,
  \<open>unary := '-' unary | primary\<close>, \<open>primary := number | '(' expr ')'\<close>, with spaces and tabs
  allowed before every token. \<open>expr_rest e s f\<close>: the repetition \<open>s\<close> extends \<open>e\<close> to \<open>f\<close>.
\<close>

inductive expr_text :: "string \<Rightarrow> ast \<Rightarrow> bool"
  and expr_rest :: "ast \<Rightarrow> string \<Rightarrow> ast \<Rightarrow> bool"
  and term_text :: "string \<Rightarrow> ast \<Rightarrow> bool"
  and term_rest :: "ast \<Rightarrow> string \<Rightarrow> ast \<Rightarrow> bool"
  and unary_text :: "string \<Rightarrow> ast \<Rightarrow> bool"
  and primary_text :: "string \<Rightarrow> ast \<Rightarrow> bool"
where
  expr_start: "term_text s t \<Longrightarrow> expr_rest t r e \<Longrightarrow> expr_text (s @ r) e"
| expr_end: "expr_rest e [] e"
| expr_add: "blanks w \<Longrightarrow> term_text s t \<Longrightarrow> expr_rest (Add e t) r f \<Longrightarrow>
    expr_rest e (w @ CHR ''+'' # s @ r) f"
| expr_sub: "blanks w \<Longrightarrow> term_text s t \<Longrightarrow> expr_rest (Sub e t) r f \<Longrightarrow>
    expr_rest e (w @ CHR ''-'' # s @ r) f"
| term_start: "unary_text s t \<Longrightarrow> term_rest t r e \<Longrightarrow> term_text (s @ r) e"
| term_end: "term_rest e [] e"
| term_mul: "blanks w \<Longrightarrow> unary_text s t \<Longrightarrow> term_rest (Mul e t) r f \<Longrightarrow>
    term_rest e (w @ CHR ''*'' # s @ r) f"
| term_div: "blanks w \<Longrightarrow> unary_text s t \<Longrightarrow> term_rest (Div e t) r f \<Longrightarrow>
    term_rest e (w @ CHR ''/'' # s @ r) f"
| unary_neg: "blanks w \<Longrightarrow> unary_text s e \<Longrightarrow> unary_text (w @ CHR ''-'' # s) (Neg e)"
| unary_primary: "primary_text s e \<Longrightarrow> unary_text s e"
| primary_number: "blanks w \<Longrightarrow> ds \<noteq> [] \<Longrightarrow> list_all is_digit ds \<Longrightarrow>
    primary_text (w @ ds) (Num ds)"
| primary_group: "blanks w \<Longrightarrow> expr_text s e \<Longrightarrow> blanks w' \<Longrightarrow>
    primary_text (w @ CHR ''('' # s @ w' @ [CHR '')'']) (Group e)"

section \<open>Completeness: text of the grammar is evaluated to its meaning\<close>

text \<open>What may follow a text without being read as part of it.\<close>

definition no_digit :: "string \<Rightarrow> bool" where
  "no_digit r \<longleftrightarrow> (case r of [] \<Rightarrow> True | c # _ \<Rightarrow> \<not> is_digit c)"

definition no_op :: "char set \<Rightarrow> string \<Rightarrow> bool" where
  "no_op ops r \<longleftrightarrow> (case dropWhile blank r of [] \<Rightarrow> True | c # _ \<Rightarrow> c \<notin> ops)"

abbreviation mul_ops :: "char set" where
  "mul_ops \<equiv> {CHR ''*'', CHR ''/''}"

abbreviation add_ops :: "char set" where
  "add_ops \<equiv> {CHR ''+'', CHR ''-''}"

definition emit :: "int outcome \<Rightarrow> parser \<Rightarrow> (int \<times> parser) outcome" where
  "emit x p = and_then x (\<lambda>v. Value (v, p))"

lemma and_then_assoc [simp]: "and_then (and_then x f) g = and_then x (\<lambda>v. and_then (f v) g)"
  by (cases x) auto

lemma and_then_emit [simp]: "and_then (emit x p) f = and_then x (\<lambda>v. f (v, p))"
  by (simp add: emit_def)

lemma and_then_Value [simp]: "and_then x Value = x"
  by (cases x) auto

lemma blank_simps [simp]:
  "blank (CHR '' '')" "\<not> blank (CHR ''+'')" "\<not> blank (CHR ''-'')" "\<not> blank (CHR ''*'')"
  "\<not> blank (CHR ''/'')" "\<not> blank (CHR ''('')" "\<not> blank (CHR '')'')"
  by (simp_all add: blank_def)

lemma digit_simps [simp]:
  "\<not> is_digit (CHR '' '')" "\<not> is_digit (CHR ''*'')" "\<not> is_digit (CHR ''/'')"
  "\<not> is_digit (CHR ''('')" "\<not> is_digit (CHR '')'')"
  by (simp_all add: is_digit_def byte_def)

lemma digit_not_blank: "is_digit c \<Longrightarrow> \<not> blank c"
  by (auto simp: blank_def is_digit_def byte_def)

lemma blank_not_digit: "blank c \<Longrightarrow> \<not> is_digit c"
  using digit_not_blank by blast

lemma dropWhile_blanks [simp]: "blanks w \<Longrightarrow> dropWhile blank (w @ s) = dropWhile blank s"
  by (induction w) auto

lemma takeWhile_blanks: "blanks w \<Longrightarrow> \<not> blank c \<Longrightarrow> takeWhile blank (w @ c # s) = w"
  by (induction w) auto

lemma skip_blanks:
  "rest p = w @ c # s \<Longrightarrow> blanks w \<Longrightarrow> \<not> blank c \<Longrightarrow> skip_whitespace p = adv (length w) p"
  by (simp add: skip_whitespace_eq takeWhile_blanks)

lemma peek_adv: "rest p = w @ c # s \<Longrightarrow> peek (adv (length w) p) = Some c"
  by (simp add: peek_rest reading)

lemma no_digit_blanks: "blanks w \<Longrightarrow> \<not> is_digit c \<Longrightarrow> no_digit (w @ c # s)"
  by (cases w) (auto simp: no_digit_def blank_not_digit)

lemma no_op_blanks: "blanks w \<Longrightarrow> \<not> blank c \<Longrightarrow> no_op ops (w @ c # s) \<longleftrightarrow> c \<notin> ops"
  by (simp add: no_op_def)

lemma term_rest_follow: "term_rest e s f \<Longrightarrow> no_digit r \<Longrightarrow> no_digit (s @ r)"
  by (cases rule: term_rest.cases) (auto simp: no_digit_blanks)

lemma expr_rest_follow:
  "expr_rest e s f \<Longrightarrow> no_digit r \<Longrightarrow> no_op mul_ops r \<Longrightarrow> no_digit (s @ r) \<and> no_op mul_ops (s @ r)"
  by (cases rule: expr_rest.cases) (auto simp: no_digit_blanks no_op_blanks)

lemma texts_nonempty:
  "expr_text s e \<Longrightarrow> s \<noteq> []" "expr_rest e1 s1 f1 \<Longrightarrow> True" "term_text s2 e2 \<Longrightarrow> s2 \<noteq> []"
  "term_rest e3 s3 f3 \<Longrightarrow> True" "unary_text s4 e4 \<Longrightarrow> s4 \<noteq> []" "primary_text s5 e5 \<Longrightarrow> s5 \<noteq> []"
  by (induction rule: expr_text_expr_rest_term_text_term_rest_unary_text_primary_text.inducts) auto

lemma expression_loop_skip [simp]: "expression_loop n v (skip_whitespace p) = expression_loop n v p"
  by (cases n) simp_all

lemma term_loop_skip [simp]: "term_loop n v (skip_whitespace p) = term_loop n v p"
  by (cases n) simp_all

lemma peek_after_skip: "peek (skip_whitespace p) = (case dropWhile blank (rest p) of [] \<Rightarrow> None | c # _ \<Rightarrow> Some c)"
  by (simp add: peek_rest reading)

lemma expression_loop_end:
  "no_op add_ops (rest p) \<Longrightarrow> expression_loop (Suc n) v p = Value (v, skip_whitespace p)"
  by (cases "dropWhile blank (rest p)") (auto simp: no_op_def peek_after_skip Let_def simp del: dropWhile_eq_Nil_conv)

lemma term_loop_end:
  "no_op mul_ops (rest p) \<Longrightarrow> term_loop (Suc n) v p = Value (v, skip_whitespace p)"
  by (cases "dropWhile blank (rest p)") (auto simp: no_op_def peek_after_skip Let_def simp del: dropWhile_eq_Nil_conv)

lemmas loops = expression_loop.simps term_loop.simps

declare loops [simp del]

lemma bump_skip:
  "rest p = w @ c # s \<Longrightarrow> blanks w \<Longrightarrow> \<not> blank c \<Longrightarrow> bump (skip_whitespace p) = adv (Suc (length w)) p"
  by (simp add: skip_blanks reading)

lemma peek_skip:
  "rest p = w @ c # s \<Longrightarrow> blanks w \<Longrightarrow> \<not> blank c \<Longrightarrow> peek (skip_whitespace p) = Some c"
  by (simp add: peek_after_skip)

definition reads_expr :: "string \<Rightarrow> ast \<Rightarrow> bool" where
  "reads_expr s e \<longleftrightarrow> (\<forall>n p r. rest p = s @ r \<longrightarrow> no_digit r \<longrightarrow> no_op add_ops r \<longrightarrow> no_op mul_ops r \<longrightarrow>
     4 * length (rest p) + 4 \<le> n \<longrightarrow>
     parse_expression n p = emit (sem e) (skip_whitespace (adv (length s) p)))"

definition reads_expr_rest :: "ast \<Rightarrow> string \<Rightarrow> ast \<Rightarrow> bool" where
  "reads_expr_rest e s f \<longleftrightarrow> (\<forall>n p r. rest p = s @ r \<longrightarrow> no_digit r \<longrightarrow> no_op add_ops r \<longrightarrow> no_op mul_ops r \<longrightarrow>
     4 * length (rest p) + 3 \<le> n \<longrightarrow>
     and_then (sem e) (\<lambda>v. expression_loop n v p) = emit (sem f) (skip_whitespace (adv (length s) p)))"

definition reads_term :: "string \<Rightarrow> ast \<Rightarrow> bool" where
  "reads_term s e \<longleftrightarrow> (\<forall>n p r. rest p = s @ r \<longrightarrow> no_digit r \<longrightarrow> no_op mul_ops r \<longrightarrow>
     4 * length (rest p) + 3 \<le> n \<longrightarrow>
     parse_term n p = emit (sem e) (skip_whitespace (adv (length s) p)))"

definition reads_term_rest :: "ast \<Rightarrow> string \<Rightarrow> ast \<Rightarrow> bool" where
  "reads_term_rest e s f \<longleftrightarrow> (\<forall>n p r. rest p = s @ r \<longrightarrow> no_digit r \<longrightarrow> no_op mul_ops r \<longrightarrow>
     4 * length (rest p) + 3 \<le> n \<longrightarrow>
     and_then (sem e) (\<lambda>v. term_loop n v p) = emit (sem f) (skip_whitespace (adv (length s) p)))"

definition reads_unary :: "string \<Rightarrow> ast \<Rightarrow> bool" where
  "reads_unary s e \<longleftrightarrow> (\<forall>n p r. rest p = s @ r \<longrightarrow> no_digit r \<longrightarrow> 4 * length (rest p) + 2 \<le> n \<longrightarrow>
     parse_unary n p = emit (sem e) (adv (length s) p))"

definition reads_primary :: "string \<Rightarrow> ast \<Rightarrow> bool" where
  "reads_primary s e \<longleftrightarrow> (\<forall>n p r. rest p = s @ r \<longrightarrow> no_digit r \<longrightarrow> 4 * length (rest p) + 1 \<le> n \<longrightarrow>
     parse_primary n p = emit (sem e) (adv (length s) p) \<and> peek (skip_whitespace p) \<noteq> Some (CHR ''-''))"

lemma reads_expr_start:
  assumes t: "reads_term s t" "s \<noteq> []" and r: "expr_rest t q e" "reads_expr_rest t q e"
  shows "reads_expr (s @ q) e"
  unfolding reads_expr_def
proof (intro allI impI)
  fix n p r
  assume p: "rest p = (s @ q) @ r" and f: "no_digit r" "no_op add_ops r" "no_op mul_ops r"
    and n: "4 * length (rest p) + 4 \<le> n"
  from n obtain m where m: "n = Suc m" by (cases n) auto
  have *: "parse_term m p = emit (sem t) (skip_whitespace (adv (length s) p))"
    using t(1) p n m expr_rest_follow [OF r(1) f(1,3)] unfolding reads_term_def by (simp del: append_assoc add: append_assoc [symmetric]) (simp add: append_assoc)
  have "and_then (sem t) (\<lambda>v. expression_loop m v (adv (length s) p)) =
      emit (sem e) (skip_whitespace (adv (length q) (adv (length s) p)))"
    using r(2) p f n m t(2) unfolding reads_expr_rest_def by (cases s) (auto simp: reading)
  then show "parse_expression n p = emit (sem e) (skip_whitespace (adv (length (s @ q)) p))"
    by (simp add: m * reading)
qed

lemma reads_term_start:
  assumes t: "reads_unary s t" "s \<noteq> []" and r: "term_rest t q e" "reads_term_rest t q e"
  shows "reads_term (s @ q) e"
  unfolding reads_term_def
proof (intro allI impI)
  fix n p r
  assume p: "rest p = (s @ q) @ r" and f: "no_digit r" "no_op mul_ops r"
    and n: "4 * length (rest p) + 3 \<le> n"
  from n obtain m where m: "n = Suc m" by (cases n) auto
  have *: "parse_unary m p = emit (sem t) (adv (length s) p)"
    using t(1) p n m term_rest_follow [OF r(1) f(1)] unfolding reads_unary_def by simp
  have "and_then (sem t) (\<lambda>v. term_loop m v (adv (length s) p)) =
      emit (sem e) (skip_whitespace (adv (length q) (adv (length s) p)))"
    using r(2) p f n m t(2) unfolding reads_term_rest_def by (cases s) (auto simp: reading)
  then show "parse_term n p = emit (sem e) (skip_whitespace (adv (length (s @ q)) p))"
    by (simp add: m * reading)
qed

text \<open>One round of a loop, for an operator byte and its operation.\<close>

lemma reads_term_step:
  assumes w: "blanks w" and t: "reads_unary s t" and r: "term_rest f' q f" "reads_term_rest f' q f"
    and loop: "\<And>n v p. peek (skip_whitespace p) = Some c \<Longrightarrow> term_loop (Suc n) v p =
        and_then (parse_unary n (bump (skip_whitespace p))) (\<lambda>(right, p).
        and_then (op v right) (\<lambda>value. term_loop n value p))"
    and c: "\<not> blank c" and f': "sem f' = and_then (sem e) (\<lambda>a. and_then (sem t) (op a))"
  shows "reads_term_rest e (w @ c # s @ q) f"
  unfolding reads_term_rest_def
proof (intro allI impI)
  fix n p r
  assume p: "rest p = (w @ c # s @ q) @ r" and f: "no_digit r" "no_op mul_ops r"
    and n: "4 * length (rest p) + 3 \<le> n"
  from n obtain m where m: "n = Suc m" by (cases n) auto
  let ?p = "adv (Suc (length w)) p"
  have *: "parse_unary m ?p = emit (sem t) (adv (length s) ?p)"
    using t p n m term_rest_follow [OF r(1) f(1)] unfolding reads_unary_def by (simp add: reading)
  have "and_then (sem f') (\<lambda>v. term_loop m v (adv (length s) ?p)) =
      emit (sem f) (skip_whitespace (adv (length q) (adv (length s) ?p)))"
    using r(2) p f n m unfolding reads_term_rest_def by (auto simp: reading)
  then show "and_then (sem e) (\<lambda>v. term_loop n v p) =
      emit (sem f) (skip_whitespace (adv (length (w @ c # s @ q)) p))"
    using p w c by (simp add: m loop peek_skip bump_skip * f') (simp add: reading add.assoc)
qed

lemma reads_expr_step:
  assumes w: "blanks w" and t: "reads_term s t" and r: "expr_rest f' q f" "reads_expr_rest f' q f"
    and loop: "\<And>n v p. peek (skip_whitespace p) = Some c \<Longrightarrow> expression_loop (Suc n) v p =
        and_then (parse_term n (bump (skip_whitespace p))) (\<lambda>(right, p).
        and_then (op v right) (\<lambda>value. expression_loop n value p))"
    and c: "\<not> blank c" and f': "sem f' = and_then (sem e) (\<lambda>a. and_then (sem t) (op a))"
  shows "reads_expr_rest e (w @ c # s @ q) f"
  unfolding reads_expr_rest_def
proof (intro allI impI)
  fix n p r
  assume p: "rest p = (w @ c # s @ q) @ r" and f: "no_digit r" "no_op add_ops r" "no_op mul_ops r"
    and n: "4 * length (rest p) + 3 \<le> n"
  from n obtain m where m: "n = Suc m" by (cases n) auto
  let ?p = "adv (Suc (length w)) p"
  have *: "parse_term m ?p = emit (sem t) (skip_whitespace (adv (length s) ?p))"
    using t p n m expr_rest_follow [OF r(1) f(1,3)] unfolding reads_term_def by (simp add: reading)
  have "and_then (sem f') (\<lambda>v. expression_loop m v (adv (length s) ?p)) =
      emit (sem f) (skip_whitespace (adv (length q) (adv (length s) ?p)))"
    using r(2) p f n m unfolding reads_expr_rest_def by (auto simp: reading)
  then show "and_then (sem e) (\<lambda>v. expression_loop n v p) =
      emit (sem f) (skip_whitespace (adv (length (w @ c # s @ q)) p))"
    using p w c by (simp add: m loop peek_skip bump_skip * f') (simp add: reading add.assoc)
qed

lemma reads_unary_neg:
  assumes w: "blanks w" and t: "reads_unary s e"
  shows "reads_unary (w @ CHR ''-'' # s) (Neg e)"
  unfolding reads_unary_def
proof (intro allI impI)
  fix n p r
  assume p: "rest p = (w @ CHR ''-'' # s) @ r" and f: "no_digit r" and n: "4 * length (rest p) + 2 \<le> n"
  from n obtain m where m: "n = Suc m" by (cases n) auto
  have "parse_unary m (adv (Suc (length w)) p) = emit (sem e) (adv (length s) (adv (Suc (length w)) p))"
    using t p n m f unfolding reads_unary_def by (simp add: reading)
  then show "parse_unary n p = emit (sem (Neg e)) (adv (length (w @ CHR ''-'' # s)) p)"
    using p w by (simp add: m peek_skip bump_skip) (simp add: emit_def reading add.assoc)
qed

lemma reads_unary_primary:
  assumes "reads_primary s e"
  shows "reads_unary s e"
  unfolding reads_unary_def
proof (intro allI impI)
  fix n p r
  assume p: "rest p = s @ r" and f: "no_digit r" and n: "4 * length (rest p) + 2 \<le> n"
  from n obtain m where m: "n = Suc m" by (cases n) auto
  have "parse_primary m p = emit (sem e) (adv (length s) p)"
    and "peek (skip_whitespace p) \<noteq> Some (CHR ''-'')"
    using assms p n m f unfolding reads_primary_def by simp_all
  moreover have "parse_primary k (skip_whitespace p) = parse_primary k p" for k
    by (cases k) simp_all
  ultimately show "parse_unary n p = emit (sem e) (adv (length s) p)"
    by (simp add: m)
qed

lemma reads_primary_number:
  assumes w: "blanks w" and ds: "ds \<noteq> []" "list_all is_digit ds"
  shows "reads_primary (w @ ds) (Num ds)"
  unfolding reads_primary_def
proof (intro allI impI)
  fix n p r
  assume p: "rest p = (w @ ds) @ r" and f: "no_digit r" and n: "4 * length (rest p) + 1 \<le> n"
  from n obtain m where m: "n = Suc m" by (cases n) auto
  obtain c cs where c: "ds = c # cs" using ds(1) by (cases ds) auto
  with ds have d: "is_digit c" and "\<not> blank c" by (auto simp: digit_not_blank)
  with p w c have q: "skip_whitespace p = adv (length w) p" and pk: "peek (skip_whitespace p) = Some c"
    by (simp add: skip_blanks, simp add: peek_skip)
  have tw: "takeWhile is_digit (rest (adv (length w) p)) = ds"
    using p ds(2) f by (auto simp: reading takeWhile_append list_all_iff no_digit_def split: list.splits)
  with pk d q m c show "parse_primary n p = emit (sem (Num ds)) (adv (length (w @ ds)) p) \<and>
      peek (skip_whitespace p) \<noteq> Some (CHR ''-'')"
    by (auto simp: Let_def slice_digits) (simp_all add: skip_digits_eq reading emit_def)
qed

lemma reads_primary_group:
  assumes w: "blanks w" "blanks w'" and e: "reads_expr s e"
  shows "reads_primary (w @ CHR ''('' # s @ w' @ [CHR '')'']) (Group e)"
  unfolding reads_primary_def
proof (intro allI impI)
  fix n p r
  assume p: "rest p = (w @ CHR ''('' # s @ w' @ [CHR '')'']) @ r" and n: "4 * length (rest p) + 1 \<le> n"
  from n obtain m where m: "n = Suc m" by (cases n) auto
  let ?p = "adv (Suc (length w)) p" and ?r = "w' @ CHR '')'' # r"
  have f: "no_digit ?r" "no_op add_ops ?r" "no_op mul_ops ?r"
    using w(2) by (simp_all add: no_digit_blanks no_op_blanks)
  have rp: "rest ?p = s @ ?r" using p by (simp add: reading)
  have *: "parse_expression m ?p = emit (sem e) (skip_whitespace (adv (length s) ?p))"
    using e rp f n m p unfolding reads_expr_def by simp
  have r2: "rest (adv (length s) ?p) = w' @ CHR '')'' # r" using p by (simp add: reading)
  have r1: "rest p = w @ CHR ''('' # s @ w' @ CHR '')'' # r" using p by simp
  have "parse_primary n p = emit (sem e) (adv (Suc (length w')) (adv (length s) ?p))"
    using peek_skip [OF r1 w(1)] bump_skip [OF r1 w(1)] peek_skip [OF r2 w(2)] bump_skip [OF r2 w(2)]
    by (simp add: m * Let_def emit_def)
  then show "parse_primary n p = emit (sem (Group e)) (adv (length (w @ CHR ''('' # s @ w' @ [CHR '')''])) p) \<and>
      peek (skip_whitespace p) \<noteq> Some (CHR ''-'')"
    using peek_skip [OF r1 w(1)] by (simp add: reading add.assoc)
qed

lemmas step_facts = peek_skip bump_skip loops

theorem reads_all:
  "expr_text s e \<Longrightarrow> reads_expr s e" "expr_rest e1 s1 f1 \<Longrightarrow> reads_expr_rest e1 s1 f1"
  "term_text s2 e2 \<Longrightarrow> reads_term s2 e2" "term_rest e3 s3 f3 \<Longrightarrow> reads_term_rest e3 s3 f3"
  "unary_text s4 e4 \<Longrightarrow> reads_unary s4 e4" "primary_text s5 e5 \<Longrightarrow> reads_primary s5 e5"
proof (induction rule: expr_text_expr_rest_term_text_term_rest_unary_text_primary_text.inducts)
  case (expr_start s t r e)
  then show ?case by (simp add: reads_expr_start texts_nonempty)
next
  case (expr_end e)
  show ?case
    unfolding reads_expr_rest_def
  proof (intro allI impI)
    fix n p r
    assume "rest p = [] @ r" "no_op add_ops r" "4 * length (rest p) + 3 \<le> n"
    then show "and_then (sem e) (\<lambda>v. expression_loop n v p) = emit (sem e) (skip_whitespace (adv (length []) p))"
      by (cases n) (simp_all add: expression_loop_end emit_def reading)
  qed
next
  case (expr_add w s t e r f)
  then show ?case
    by (intro reads_expr_step [where op = checked_add and f' = "Add e t"]) (simp_all add: loops Let_def)
next
  case (expr_sub w s t e r f)
  then show ?case
    by (intro reads_expr_step [where op = checked_sub and f' = "Sub e t"]) (simp_all add: loops Let_def)
next
  case (term_start s t r e)
  then show ?case by (simp add: reads_term_start texts_nonempty)
next
  case (term_end e)
  show ?case
    unfolding reads_term_rest_def
  proof (intro allI impI)
    fix n p r
    assume "rest p = [] @ r" "no_op mul_ops r" "4 * length (rest p) + 3 \<le> n"
    then show "and_then (sem e) (\<lambda>v. term_loop n v p) = emit (sem e) (skip_whitespace (adv (length []) p))"
      by (cases n) (simp_all add: term_loop_end emit_def reading)
  qed
next
  case (term_mul w s t e r f)
  then show ?case
    by (intro reads_term_step [where op = checked_mul and f' = "Mul e t"]) (simp_all add: loops Let_def)
next
  case (term_div w s t e r f)
  then show ?case
    by (intro reads_term_step [where op = exact_div and f' = "Div e t"]) (simp_all add: loops Let_def)
qed (simp_all add: reads_unary_neg reads_unary_primary reads_primary_number reads_primary_group)

section \<open>Soundness: a value comes from a text of the grammar\<close>

lemma and_then_Value_iff: "and_then x f = Value y \<longleftrightarrow> (\<exists>v. x = Value v \<and> f v = Value y)"
  by (cases x) auto

lemma and_then_fuel_iff: "and_then x f = Out_of_fuel \<longleftrightarrow> x = Out_of_fuel \<or> (\<exists>v. x = Value v \<and> f v = Out_of_fuel)"
  by (cases x) auto

text \<open>\<open>p\<close> becomes \<open>q\<close> by reading exactly \<open>s\<close>.\<close>

definition splits :: "parser \<Rightarrow> string \<Rightarrow> parser \<Rightarrow> bool" where
  "splits p s q \<longleftrightarrow> rest p = s @ rest q \<and> q = adv (length s) p"

lemma splits_trans: "splits p s q \<Longrightarrow> splits q t r \<Longrightarrow> splits p (s @ t) r"
  by (auto simp: splits_def adv_adv)

lemma splits_refl: "splits p [] p"
  by (simp add: splits_def reading)

lemma splits_skip: "splits p (takeWhile blank (rest p)) (skip_whitespace p)"
  by (simp add: splits_def rest_skip, simp add: skip_whitespace_eq)

lemma splits_bump: "peek p = Some c \<Longrightarrow> splits p [c] (bump p)"
  by (auto simp: splits_def peek_rest reading split: list.splits)

lemma blanks_takeWhile [simp]: "blanks (takeWhile blank s)"
  by (auto simp: list_all_iff dest: set_takeWhileD)

lemma splits_token:
  assumes "peek (skip_whitespace p) = Some c" and "splits (bump (skip_whitespace p)) t q"
  shows "splits p (takeWhile blank (rest p) @ c # t) q"
  using splits_trans [OF splits_skip splits_trans [OF splits_bump [OF assms(1)] assms(2)]] by simp

lemma splits_digits: "splits p (takeWhile is_digit (rest p)) (skip_digits p)"
  by (simp add: splits_def skip_digits_eq rest_adv dropWhile_eq_drop [symmetric])

lemma splits_shorter: "splits p s q \<Longrightarrow> length (rest p) = length s + length (rest q)"
  by (simp add: splits_def)

lemma expr_rest_blanks: "expr_rest e s f \<Longrightarrow> s \<noteq> [] \<Longrightarrow> blanks w \<Longrightarrow> expr_rest e (w @ s) f"
proof (cases rule: expr_rest.cases, assumption, goal_cases)
  case (2 w' s t r)
  then show ?thesis using expr_add [of "w @ w'" s t e r f] by simp
next
  case (3 w' s t r)
  then show ?thesis using expr_sub [of "w @ w'" s t e r f] by simp
qed simp

lemma term_rest_blanks: "term_rest e s f \<Longrightarrow> s \<noteq> [] \<Longrightarrow> blanks w \<Longrightarrow> term_rest e (w @ s) f"
proof (cases rule: term_rest.cases, assumption, goal_cases)
  case (2 w' s t r)
  then show ?thesis using term_mul [of "w @ w'" s t e r f] by simp
next
  case (3 w' s t r)
  then show ?thesis using term_div [of "w @ w'" s t e r f] by simp
qed simp

text \<open>A text, then what a repetition after it reads: the white space between belongs to the repetition.\<close>

lemma expr_rest_glue:
  assumes "splits p (s @ w) q" "blanks w" "expr_rest t r f" "splits q (r @ w') q'" "blanks w'"
  shows "\<exists>r' w''. splits p ((s @ r') @ w'') q' \<and> blanks w'' \<and> expr_rest t r' f"
proof (cases "r = []")
  case True
  with assms splits_trans [OF assms(1,4)] show ?thesis
    by (intro exI [of _ "[]"] exI [of _ "w @ w'"]) simp
next
  case False
  with assms splits_trans [OF assms(1,4)] show ?thesis
    by (intro exI [of _ "w @ r"] exI [of _ w']) (simp add: expr_rest_blanks)
qed

lemma term_rest_glue:
  assumes "splits p s q" "term_rest t r f" "splits q (r @ w') q'" "blanks w'"
  shows "\<exists>r' w''. splits p ((s @ r') @ w'') q' \<and> blanks w'' \<and> term_rest t r' f"
  using splits_trans [OF assms(1,3)] assms by (intro exI [of _ r] exI [of _ w']) simp

definition sound_expr :: "nat \<Rightarrow> bool" where
  "sound_expr n \<longleftrightarrow> (\<forall>p v q. parse_expression n p = Value (v, q) \<longrightarrow>
     (\<exists>s w e. splits p (s @ w) q \<and> blanks w \<and> expr_text s e \<and> sem e = Value v))"

definition sound_expr_loop :: "nat \<Rightarrow> bool" where
  "sound_expr_loop n \<longleftrightarrow> (\<forall>u p v q e. expression_loop n u p = Value (v, q) \<longrightarrow> sem e = Value u \<longrightarrow>
     (\<exists>s w f. splits p (s @ w) q \<and> blanks w \<and> expr_rest e s f \<and> sem f = Value v))"

definition sound_term :: "nat \<Rightarrow> bool" where
  "sound_term n \<longleftrightarrow> (\<forall>p v q. parse_term n p = Value (v, q) \<longrightarrow>
     (\<exists>s w e. splits p (s @ w) q \<and> blanks w \<and> term_text s e \<and> sem e = Value v))"

definition sound_term_loop :: "nat \<Rightarrow> bool" where
  "sound_term_loop n \<longleftrightarrow> (\<forall>u p v q e. term_loop n u p = Value (v, q) \<longrightarrow> sem e = Value u \<longrightarrow>
     (\<exists>s w f. splits p (s @ w) q \<and> blanks w \<and> term_rest e s f \<and> sem f = Value v))"

definition sound_unary :: "nat \<Rightarrow> bool" where
  "sound_unary n \<longleftrightarrow> (\<forall>p v q. parse_unary n p = Value (v, q) \<longrightarrow>
     (\<exists>s e. splits p s q \<and> unary_text s e \<and> sem e = Value v))"

definition sound_primary :: "nat \<Rightarrow> bool" where
  "sound_primary n \<longleftrightarrow> (\<forall>p v q. parse_primary n p = Value (v, q) \<longrightarrow>
     (\<exists>s e. splits p s q \<and> primary_text s e \<and> sem e = Value v))"

lemma sound_expr_Suc:
  assumes "sound_term n" "sound_expr_loop n"
  shows "sound_expr (Suc n)"
  unfolding sound_expr_def
proof (intro allI impI)
  fix p v q
  assume "parse_expression (Suc n) p = Value (v, q)"
  then obtain u p' where t: "parse_term n p = Value (u, p')" and l: "expression_loop n u p' = Value (v, q)"
    by (auto simp: and_then_Value_iff)
  from t assms(1) obtain s w e where a: "splits p (s @ w) p'" "blanks w" "term_text s e" "sem e = Value u"
    unfolding sound_term_def by blast
  from l a(4) assms(2) obtain r w' f where b: "splits p' (r @ w') q" "blanks w'" "expr_rest e r f" "sem f = Value v"
    unfolding sound_expr_loop_def by blast
  from expr_rest_glue [OF a(1,2) b(3,1,2)] obtain r' w'' where
    "splits p ((s @ r') @ w'') q" "blanks w''" "expr_rest e r' f" by blast
  with a b show "\<exists>s w e. splits p (s @ w) q \<and> blanks w \<and> expr_text s e \<and> sem e = Value v"
    using expr_start by blast
qed

lemma sound_term_Suc:
  assumes "sound_unary n" "sound_term_loop n"
  shows "sound_term (Suc n)"
  unfolding sound_term_def
proof (intro allI impI)
  fix p v q
  assume "parse_term (Suc n) p = Value (v, q)"
  then obtain u p' where t: "parse_unary n p = Value (u, p')" and l: "term_loop n u p' = Value (v, q)"
    by (auto simp: and_then_Value_iff)
  from t assms(1) obtain s e where a: "splits p s p'" "unary_text s e" "sem e = Value u"
    unfolding sound_unary_def by blast
  from l a(3) assms(2) obtain r w' f where b: "splits p' (r @ w') q" "blanks w'" "term_rest e r f" "sem f = Value v"
    unfolding sound_term_loop_def by blast
  from term_rest_glue [OF a(1) b(3,1,2)] obtain r' w'' where
    "splits p ((s @ r') @ w'') q" "blanks w''" "term_rest e r' f" by blast
  with a b show "\<exists>s w e. splits p (s @ w) q \<and> blanks w \<and> term_text s e \<and> sem e = Value v"
    using term_start by blast
qed

lemma sound_term_step:
  assumes c: "peek (skip_whitespace p) = Some c"
    and run: "and_then (parse_unary n (bump (skip_whitespace p)))
      (\<lambda>(right, p). and_then (op u right) (\<lambda>value. term_loop n value p)) = Value (v, q)"
    and e: "sem e = Value u" and IH: "sound_unary n" "sound_term_loop n"
    and node: "\<And>t. sem (node e t) = and_then (sem e) (\<lambda>a. and_then (sem t) (op a))"
    and rule: "\<And>w s t r f. blanks w \<Longrightarrow> unary_text s t \<Longrightarrow> term_rest (node e t) r f \<Longrightarrow>
      term_rest e (w @ c # s @ r) f"
  shows "\<exists>s w f. splits p (s @ w) q \<and> blanks w \<and> term_rest e s f \<and> sem f = Value v"
proof -
  from run obtain x p' y where t: "parse_unary n (bump (skip_whitespace p)) = Value (x, p')"
    and y: "op u x = Value y" and l: "term_loop n y p' = Value (v, q)"
    by (auto simp: and_then_Value_iff)
  from t IH(1) obtain s t where a: "splits (bump (skip_whitespace p)) s p'" "unary_text s t" "sem t = Value x"
    unfolding sound_unary_def by blast
  have "sem (node e t) = Value y" by (simp add: node e a y)
  with l IH(2) obtain r w' f where b: "splits p' (r @ w') q" "blanks w'" "term_rest (node e t) r f" "sem f = Value v"
    unfolding sound_term_loop_def by blast
  let ?w = "takeWhile blank (rest p)"
  have "splits p ((?w @ c # s @ r) @ w') q"
    using splits_trans [OF splits_token [OF c a(1)] b(1)] by simp
  moreover have "term_rest e (?w @ c # s @ r) f" by (rule rule [OF _ a(2) b(3)]) simp
  ultimately show ?thesis using b(2,4) by blast
qed

lemma sound_expr_step:
  assumes c: "peek (skip_whitespace p) = Some c"
    and run: "and_then (parse_term n (bump (skip_whitespace p)))
      (\<lambda>(right, p). and_then (op u right) (\<lambda>value. expression_loop n value p)) = Value (v, q)"
    and e: "sem e = Value u" and IH: "sound_term n" "sound_expr_loop n"
    and node: "\<And>t. sem (node e t) = and_then (sem e) (\<lambda>a. and_then (sem t) (op a))"
    and rule: "\<And>w s t r f. blanks w \<Longrightarrow> term_text s t \<Longrightarrow> expr_rest (node e t) r f \<Longrightarrow>
      expr_rest e (w @ c # s @ r) f"
  shows "\<exists>s w f. splits p (s @ w) q \<and> blanks w \<and> expr_rest e s f \<and> sem f = Value v"
proof -
  from run obtain x p' y where t: "parse_term n (bump (skip_whitespace p)) = Value (x, p')"
    and y: "op u x = Value y" and l: "expression_loop n y p' = Value (v, q)"
    by (auto simp: and_then_Value_iff)
  from t IH(1) obtain s w t where a: "splits (bump (skip_whitespace p)) (s @ w) p'" "blanks w"
      "term_text s t" "sem t = Value x"
    unfolding sound_term_def by blast
  have "sem (node e t) = Value y" by (simp add: node e a y)
  with l IH(2) obtain r w' f where b: "splits p' (r @ w') q" "blanks w'" "expr_rest (node e t) r f" "sem f = Value v"
    unfolding sound_expr_loop_def by blast
  let ?w = "takeWhile blank (rest p)"
  have "splits p ((?w @ c # s) @ w) p'" using splits_token [OF c a(1)] by simp
  from expr_rest_glue [OF this a(2) b(3,1,2)] obtain r' w'' where
    g: "splits p ((?w @ c # s @ r') @ w'') q" "blanks w''" "expr_rest (node e t) r' f" by auto
  moreover have "expr_rest e (?w @ c # s @ r') f" by (rule rule [OF _ a(3) g(3)]) simp
  ultimately show ?thesis using b(4) by blast
qed

lemma sound_term_loop_Suc:
  assumes IH: "sound_unary n" "sound_term_loop n"
  shows "sound_term_loop (Suc n)"
  unfolding sound_term_loop_def
proof (intro allI impI)
  fix u p v q e
  assume run: "term_loop (Suc n) u p = Value (v, q)" and e: "sem e = Value u"
  let ?pk = "peek (skip_whitespace p)"
  consider "?pk = Some (CHR ''*'')" | "?pk = Some (CHR ''/'')" | "?pk \<notin> Some ` mul_ops" by auto
  then show "\<exists>s w f. splits p (s @ w) q \<and> blanks w \<and> term_rest e s f \<and> sem f = Value v"
  proof cases
    case 1
    show ?thesis
      by (rule sound_term_step [OF 1 _ e IH, where op = checked_mul and node = Mul])
        (use 1 run in \<open>simp_all add: loops Let_def term_mul\<close>)
  next
    case 2
    show ?thesis
      by (rule sound_term_step [OF 2 _ e IH, where op = exact_div and node = Div])
        (use 2 run in \<open>simp_all add: loops Let_def term_div\<close>)
  next
    case 3
    with run have "v = u" and "q = skip_whitespace p" by (auto simp: loops Let_def)
    with e splits_skip [of p] term_end [of e] show ?thesis
      by (intro exI [of _ "[]"] exI [of _ "takeWhile blank (rest p)"] exI [of _ e]) simp
  qed
qed

lemma sound_expr_loop_Suc:
  assumes IH: "sound_term n" "sound_expr_loop n"
  shows "sound_expr_loop (Suc n)"
  unfolding sound_expr_loop_def
proof (intro allI impI)
  fix u p v q e
  assume run: "expression_loop (Suc n) u p = Value (v, q)" and e: "sem e = Value u"
  let ?pk = "peek (skip_whitespace p)"
  consider "?pk = Some (CHR ''+'')" | "?pk = Some (CHR ''-'')" | "?pk \<notin> Some ` add_ops" by auto
  then show "\<exists>s w f. splits p (s @ w) q \<and> blanks w \<and> expr_rest e s f \<and> sem f = Value v"
  proof cases
    case 1
    show ?thesis
      by (rule sound_expr_step [OF 1 _ e IH, where op = checked_add and node = Add])
        (use 1 run in \<open>simp_all add: loops Let_def expr_add\<close>)
  next
    case 2
    show ?thesis
      by (rule sound_expr_step [OF 2 _ e IH, where op = checked_sub and node = Sub])
        (use 2 run in \<open>simp_all add: loops Let_def expr_sub\<close>)
  next
    case 3
    with run have "v = u" and "q = skip_whitespace p" by (auto simp: loops Let_def)
    with e splits_skip [of p] expr_end [of e] show ?thesis
      by (intro exI [of _ "[]"] exI [of _ "takeWhile blank (rest p)"] exI [of _ e]) simp
  qed
qed

lemma primary_text_blanks: "primary_text s e \<Longrightarrow> blanks w \<Longrightarrow> primary_text (w @ s) e"
proof (cases rule: primary_text.cases, assumption, goal_cases)
  case (1 w' ds)
  then show ?thesis using primary_number [of "w @ w'" ds] by simp
next
  case (2 w1 t d w2)
  then show ?thesis using primary_group [of "w @ w1" t d w2] by simp
qed

lemma sound_unary_Suc:
  assumes IH: "sound_unary n" "sound_primary n"
  shows "sound_unary (Suc n)"
  unfolding sound_unary_def
proof (intro allI impI)
  fix p v q
  assume run: "parse_unary (Suc n) p = Value (v, q)"
  let ?w = "takeWhile blank (rest p)"
  show "\<exists>s e. splits p s q \<and> unary_text s e \<and> sem e = Value v"
  proof (cases "peek (skip_whitespace p) = Some (CHR ''-'')")
    case True
    with run obtain x where u: "parse_unary n (bump (skip_whitespace p)) = Value (x, q)"
      and v: "checked_neg x = Value v"
      by (auto simp: and_then_Value_iff)
    from u IH(1) obtain s e where a: "splits (bump (skip_whitespace p)) s q" "unary_text s e" "sem e = Value x"
      unfolding sound_unary_def by blast
    have "unary_text (?w @ CHR ''-'' # s) (Neg e)" by (rule unary_neg [OF _ a(2)]) simp
    with splits_token [OF True a(1)] a(3) v show ?thesis
      by (intro exI [of _ "?w @ CHR ''-'' # s"] exI [of _ "Neg e"]) simp
  next
    case False
    with run have "parse_primary n (skip_whitespace p) = Value (v, q)" by simp
    with IH(2) obtain s e where a: "splits (skip_whitespace p) s q" "primary_text s e" "sem e = Value v"
      unfolding sound_primary_def by blast
    with splits_trans [OF splits_skip a(1)] show ?thesis
      using unary_primary primary_text_blanks blanks_takeWhile by blast
  qed
qed

lemma sound_primary_Suc:
  assumes IH: "sound_expr n"
  shows "sound_primary (Suc n)"
  unfolding sound_primary_def
proof (intro allI impI)
  fix p v q
  assume run: "parse_primary (Suc n) p = Value (v, q)"
  let ?w = "takeWhile blank (rest p)" and ?p = "skip_whitespace p"
  from run obtain c where c: "peek ?p = Some c" by (auto simp: Let_def split: option.splits)
  show "\<exists>s e. splits p s q \<and> primary_text s e \<and> sem e = Value v"
  proof (cases "c = CHR ''(''")
    case True
    with run c obtain p' where x: "parse_expression n (bump ?p) = Value (v, p')"
      and cl: "peek (skip_whitespace p') = Some (CHR '')'')" and q: "q = bump (skip_whitespace p')"
      by (auto simp: Let_def and_then_Value_iff split: option.splits if_splits)
    from x IH obtain s w e where a: "splits (bump ?p) (s @ w) p'" "blanks w" "expr_text s e" "sem e = Value v"
      unfolding sound_expr_def by blast
    let ?u = "takeWhile blank (rest p')"
    have t: "splits p' (?u @ [CHR '')'']) q"
      using splits_token [OF cl splits_refl] q by simp
    from c True have c': "peek ?p = Some (CHR ''('')" by simp
    from splits_token [OF c' splits_trans [OF a(1) t]]
    have "splits p (?w @ CHR ''('' # s @ (w @ ?u) @ [CHR '')'']) q" by simp
    moreover have "primary_text (?w @ CHR ''('' # s @ (w @ ?u) @ [CHR '')'']) (Group e)"
      by (rule primary_group [OF _ a(3)]) (simp_all add: a(2))
    ultimately show ?thesis using a(4) by (metis sem.simps(2))
  next
    case False
    let ?d = "takeWhile is_digit (rest ?p)"
    from run c False have d: "is_digit c" and num: "number ?d = Value v" and q: "q = skip_digits ?p"
      by (auto simp: Let_def and_then_Value_iff slice_digits split: if_splits)
    from c d have "?d \<noteq> []" by (auto simp: peek_rest split: list.splits)
    then have "primary_text (?w @ ?d) (Num ?d)"
      by (intro primary_number) (auto simp: list_all_iff dest: set_takeWhileD)
    moreover have "splits p (?w @ ?d) q"
      using splits_trans [OF splits_skip [of p] splits_digits [of ?p]] q by simp
    ultimately show ?thesis using num by (metis sem.simps(1))
  qed
qed

lemma sound_all:
  "sound_expr n \<and> sound_expr_loop n \<and> sound_term n \<and> sound_term_loop n \<and> sound_unary n \<and> sound_primary n"
proof (induction n)
  case 0
  show ?case
    by (simp add: sound_expr_def sound_expr_loop_def sound_term_def sound_term_loop_def
        sound_unary_def sound_primary_def loops)
next
  case (Suc n)
  then show ?case
    by (simp add: sound_expr_Suc sound_expr_loop_Suc sound_term_Suc sound_term_loop_Suc
        sound_unary_Suc sound_primary_Suc)
qed

section \<open>The fuel is enough\<close>

lemma parse_term_shorter: "parse_term n p = Value (v, q) \<Longrightarrow> length (rest q) < length (rest p)"
proof -
  assume "parse_term n p = Value (v, q)"
  then obtain s w e where "splits p (s @ w) q" "term_text s e"
    using sound_all [of n] unfolding sound_term_def by blast
  then show ?thesis using texts_nonempty(3) [of s e] splits_shorter [of p "s @ w" q] by auto
qed

lemma parse_unary_shorter: "parse_unary n p = Value (v, q) \<Longrightarrow> length (rest q) < length (rest p)"
proof -
  assume "parse_unary n p = Value (v, q)"
  then obtain s e where "splits p s q" "unary_text s e"
    using sound_all [of n] unfolding sound_unary_def by blast
  then show ?thesis using texts_nonempty(5) [of s e] splits_shorter [of p s q] by auto
qed

lemma rest_skip_le: "length (rest (skip_whitespace p)) \<le> length (rest p)"
  by (simp add: rest_skip length_dropWhile_le)

lemma bump_shorter: "peek p = Some c \<Longrightarrow> length (rest (bump p)) < length (rest p)"
  by (auto simp: peek_rest reading split: list.splits)

lemma token_shorter: "peek (skip_whitespace p) = Some c \<Longrightarrow>
    Suc (length (rest (bump (skip_whitespace p)))) \<le> length (rest p)"
  using bump_shorter [of "skip_whitespace p" c] rest_skip_le [of p] by simp

lemma checked_not_fuel [simp]:
  "checked_add a b \<noteq> Out_of_fuel" "checked_sub a b \<noteq> Out_of_fuel" "checked_mul a b \<noteq> Out_of_fuel"
  "checked_neg a \<noteq> Out_of_fuel" "exact_div a b \<noteq> Out_of_fuel" "number ds \<noteq> Out_of_fuel"
  by (auto simp: checked_add_def checked_sub_def checked_mul_def checked_neg_def exact_div_def
      number.simps checked_i128_def split: option.splits)

definition fuelled :: "nat \<Rightarrow> bool" where
  "fuelled n \<longleftrightarrow> (\<forall>p v.
     (4 * length (rest p) + 4 \<le> n \<longrightarrow> parse_expression n p \<noteq> Out_of_fuel) \<and>
     (4 * length (rest p) + 3 \<le> n \<longrightarrow> expression_loop n v p \<noteq> Out_of_fuel) \<and>
     (4 * length (rest p) + 3 \<le> n \<longrightarrow> parse_term n p \<noteq> Out_of_fuel) \<and>
     (4 * length (rest p) + 3 \<le> n \<longrightarrow> term_loop n v p \<noteq> Out_of_fuel) \<and>
     (4 * length (rest p) + 2 \<le> n \<longrightarrow> parse_unary n p \<noteq> Out_of_fuel) \<and>
     (4 * length (rest p) + 1 \<le> n \<longrightarrow> parse_primary n p \<noteq> Out_of_fuel))"

lemma fuelledD:
  assumes "fuelled n"
  shows "4 * length (rest p) + 4 \<le> n \<Longrightarrow> parse_expression n p \<noteq> Out_of_fuel"
    and "4 * length (rest p) + 3 \<le> n \<Longrightarrow> expression_loop n v p \<noteq> Out_of_fuel"
    and "4 * length (rest p) + 3 \<le> n \<Longrightarrow> parse_term n p \<noteq> Out_of_fuel"
    and "4 * length (rest p) + 3 \<le> n \<Longrightarrow> term_loop n v p \<noteq> Out_of_fuel"
    and "4 * length (rest p) + 2 \<le> n \<Longrightarrow> parse_unary n p \<noteq> Out_of_fuel"
    and "4 * length (rest p) + 1 \<le> n \<Longrightarrow> parse_primary n p \<noteq> Out_of_fuel"
  using assms unfolding fuelled_def by blast+

text \<open>A step, an operation that returns, and the loop again.\<close>

lemma chain_fuel:
  assumes "x \<noteq> Out_of_fuel" and "\<And>u q w. x = Value (u, q) \<Longrightarrow> k w q \<noteq> Out_of_fuel"
    and "\<And>u. op u \<noteq> Out_of_fuel"
  shows "and_then x (\<lambda>(u, q). and_then (op u) (\<lambda>w. k w q)) \<noteq> Out_of_fuel"
proof
  assume "and_then x (\<lambda>(u, q). and_then (op u) (\<lambda>w. k w q)) = Out_of_fuel"
  with assms(1) obtain u q where "x = Value (u, q)" and "and_then (op u) (\<lambda>w. k w q) = Out_of_fuel"
    by (auto simp: and_then_fuel_iff)
  with assms(2,3) show False by (auto simp: and_then_fuel_iff)
qed

lemma fuelled_Suc:
  assumes "fuelled n"
  shows "4 * length (rest p) + 4 \<le> Suc n \<Longrightarrow> parse_expression (Suc n) p \<noteq> Out_of_fuel"
    and "4 * length (rest p) + 3 \<le> Suc n \<Longrightarrow> expression_loop (Suc n) v p \<noteq> Out_of_fuel"
    and "4 * length (rest p) + 3 \<le> Suc n \<Longrightarrow> parse_term (Suc n) p \<noteq> Out_of_fuel"
    and "4 * length (rest p) + 3 \<le> Suc n \<Longrightarrow> term_loop (Suc n) v p \<noteq> Out_of_fuel"
    and "4 * length (rest p) + 2 \<le> Suc n \<Longrightarrow> parse_unary (Suc n) p \<noteq> Out_of_fuel"
    and "4 * length (rest p) + 1 \<le> Suc n \<Longrightarrow> parse_primary (Suc n) p \<noteq> Out_of_fuel"
proof -
  note IH = fuelledD [OF assms]
  let ?b = "bump (skip_whitespace p)"
  show "parse_expression (Suc n) p \<noteq> Out_of_fuel" if l: "4 * length (rest p) + 4 \<le> Suc n"
  proof -
    have "expression_loop n w q \<noteq> Out_of_fuel" if "parse_term n p = Value (u, q)" for w u q
      by (rule IH(2)) (use l parse_term_shorter [OF that] in simp)
    with IH(3) [of p] l show ?thesis by (auto simp: and_then_fuel_iff)
  qed
  show "parse_term (Suc n) p \<noteq> Out_of_fuel" if l: "4 * length (rest p) + 3 \<le> Suc n"
  proof -
    have "term_loop n w q \<noteq> Out_of_fuel" if "parse_unary n p = Value (u, q)" for w u q
      by (rule IH(4)) (use l parse_unary_shorter [OF that] in simp)
    with IH(5) [of p] l show ?thesis by (auto simp: and_then_fuel_iff)
  qed
  show "expression_loop (Suc n) v p \<noteq> Out_of_fuel" if l: "4 * length (rest p) + 3 \<le> Suc n"
  proof -
    have "and_then (parse_term n ?b) (\<lambda>(u, q). and_then (op u) (\<lambda>w. expression_loop n w q)) \<noteq> Out_of_fuel"
      if pk: "peek (skip_whitespace p) = Some c" and op: "\<And>u. op u \<noteq> Out_of_fuel" for c op
    proof (rule chain_fuel [OF _ _ op])
      show "parse_term n ?b \<noteq> Out_of_fuel" using IH(3) [of ?b] token_shorter [OF pk] l by simp
      show "expression_loop n w q \<noteq> Out_of_fuel" if "parse_term n ?b = Value (u, q)" for u q w
        using IH(2) [of q w] token_shorter [OF pk] l parse_term_shorter [OF that] by simp
    qed
    then show ?thesis by (simp add: loops Let_def)
  qed
  show "term_loop (Suc n) v p \<noteq> Out_of_fuel" if l: "4 * length (rest p) + 3 \<le> Suc n"
  proof -
    have "and_then (parse_unary n ?b) (\<lambda>(u, q). and_then (op u) (\<lambda>w. term_loop n w q)) \<noteq> Out_of_fuel"
      if pk: "peek (skip_whitespace p) = Some c" and op: "\<And>u. op u \<noteq> Out_of_fuel" for c op
    proof (rule chain_fuel [OF _ _ op])
      show "parse_unary n ?b \<noteq> Out_of_fuel" using IH(5) [of ?b] token_shorter [OF pk] l by simp
      show "term_loop n w q \<noteq> Out_of_fuel" if "parse_unary n ?b = Value (u, q)" for u q w
        using IH(4) [of q w] token_shorter [OF pk] l parse_unary_shorter [OF that] by simp
    qed
    then show ?thesis by (simp add: loops Let_def)
  qed
  show "parse_unary (Suc n) p \<noteq> Out_of_fuel" if l: "4 * length (rest p) + 2 \<le> Suc n"
  proof (cases "peek (skip_whitespace p) = Some (CHR ''-'')")
    case True
    with IH(5) [of ?b] token_shorter [OF True] l show ?thesis by (auto simp: and_then_fuel_iff)
  next
    case False
    with IH(6) [of "skip_whitespace p"] rest_skip_le [of p] l show ?thesis by simp
  qed
  show "parse_primary (Suc n) p \<noteq> Out_of_fuel" if l: "4 * length (rest p) + 1 \<le> Suc n"
  proof (cases "peek (skip_whitespace p)")
    case None
    then show ?thesis by simp
  next
    case (Some c)
    have "parse_expression n ?b \<noteq> Out_of_fuel" using IH(1) [of ?b] token_shorter [OF Some] l by simp
    with Some show ?thesis
      by (auto simp: and_then_fuel_iff Let_def simp del: number.simps split: option.splits if_splits)
  qed
qed

lemma fuelled_all: "fuelled n"
proof (induction n)
  case 0
  show ?case by (simp add: fuelled_def)
next
  case (Suc n)
  from fuelled_Suc [OF Suc.IH] show ?case by (simp only: fuelled_def) blast
qed

section \<open>The evaluator against its grammar\<close>

lemma strip_while_stops: "strip_while f s = [] \<or> f (strip_while f s) = 0"
proof (induction f s rule: strip_while.induct)
  case (1 f s)
  then show ?case by (cases "f s = 0 \<or> s = []") (auto simp: strip_while.simps [of f s])
qed

lemma ws_rlen_blank: "blank c \<Longrightarrow> ws_rlen (c # s) = 1"
  by (auto simp: blank_def byte_def ws_rlen.simps ws_len.simps)

lemma trim_no_blank_end: "trim s = t @ w \<Longrightarrow> blanks w \<Longrightarrow> w = []"
proof (rule ccontr)
  assume t: "trim s = t @ w" and w: "blanks w" and "w \<noteq> []"
  then obtain u c where "w = u @ [c]" by (cases w rule: rev_cases) auto
  with t w have c: "blank c" and "rev (trim s) = c # rev u @ rev t" by auto
  moreover obtain r where "rev (trim s) = strip_while ws_rlen r" by (simp add: trim_def trim_end_def)
  ultimately show False using strip_while_stops [of ws_rlen r] ws_rlen_blank [OF c] by auto
qed

lemma evaluate_text:
  assumes "expr_text (trim s) e"
  shows "evaluate s = sem e"
proof -
  let ?p = "new_parser (trim s)"
  have "parse_expression (4 * length (trim s) + 4) ?p = emit (sem e) (skip_whitespace (adv (length (trim s)) ?p))"
    using reads_all(1) [OF assms] unfolding reads_expr_def
    by (auto simp: rest_new no_digit_def no_op_def)
  moreover have "skip_whitespace (adv (length (trim s)) ?p) = adv (length (trim s)) ?p"
    by (simp add: skip_whitespace_eq reading)
  moreover have "trim s \<noteq> []" using texts_nonempty(1) [OF assms] .
  ultimately show ?thesis
    by (simp add: evaluate_def Let_def input_adv position_adv) (simp add: new_parser_def)
qed

text \<open>
  C1. Completeness and functional behaviour: on every text of the documented grammar the
  evaluator returns exactly the checked left-to-right meaning of its syntax tree, errors
  and the panic included.
\<close>

theorem evaluate_complete: "expr_text (trim s) e \<Longrightarrow> evaluate s = sem e"
  by (rule evaluate_text)

theorem evaluate_complete_witness: "evaluate ''12 * 150'' = Value 1800"
proof -
  have a: "unary_text ''12'' (Num ''12'')" and b: "unary_text '' 150'' (Num ''150'')"
    using primary_number [of "[]" "''12''"] primary_number [of "'' ''" "''150''"]
    by (auto intro!: unary_primary simp: is_digit_def byte_def)
  have "term_text (''12'' @ '' '' @ CHR ''*'' # '' 150'' @ []) (Mul (Num ''12'') (Num ''150''))"
    by (intro term_start [OF a] term_mul [OF _ b] term_end) simp
  then have "expr_text ((''12'' @ '' '' @ CHR ''*'' # '' 150'' @ []) @ []) (Mul (Num ''12'') (Num ''150''))"
    by (rule expr_start [OF _ expr_end])
  then have "expr_text (trim ''12 * 150'') (Mul (Num ''12'') (Num ''150''))"
    by (simp add: trim_plain plain_def byte_def)
  from evaluate_complete [OF this] show ?thesis
    by (simp add: number.simps parse_unsigned_def digits_val_def digit_val_def is_digit_def byte_def
        checked_mul_def checked_i128_def in_i128_def)
qed

lemma evaluate_value: "evaluate s = Value v \<longleftrightarrow> (\<exists>e. expr_text (trim s) e \<and> sem e = Value v)"
proof
  assume ev: "evaluate s = Value v"
  let ?p = "new_parser (trim s)"
  from ev obtain q where q: "parse_expression (4 * length (trim s) + 4) ?p = Value (v, q)"
    and e: "position (skip_whitespace q) = length (input (skip_whitespace q))"
    by (auto simp: evaluate_def Let_def and_then_Value_iff split: if_splits option.splits)
  from q obtain t w e where a: "splits ?p (t @ w) q" "blanks w" "expr_text t e" "sem e = Value v"
    using sound_all unfolding sound_expr_def by blast
  have "splits ?p ((t @ w) @ takeWhile blank (rest q)) (skip_whitespace q)"
    by (rule splits_trans [OF a(1) splits_skip])
  moreover have "rest (skip_whitespace q) = []" using e by (simp add: rest_def)
  ultimately have "trim s = t @ (w @ takeWhile blank (rest q))"
    by (simp add: splits_def rest_new)
  moreover from this a(2) have "w @ takeWhile blank (rest q) = []"
    by (intro trim_no_blank_end [of s t]) simp_all
  ultimately have "trim s = t" by simp
  with a(3,4) show "\<exists>e. expr_text (trim s) e \<and> sem e = Value v" by blast
qed (auto simp: evaluate_text)

text \<open>
  C2. The evaluator computes the value \<open>v\<close> for exactly the expressions of the grammar whose
  checked meaning is \<open>v\<close>: nothing outside the grammar is ever given a value.
\<close>

theorem evaluate_iff: "evaluate s = Value v \<longleftrightarrow> (\<exists>e. expr_text (trim s) e \<and> sem e = Value v)"
  by (rule evaluate_value)


lemma sem_in_range: "sem e = Value v \<Longrightarrow> in_i128 v"
proof (induction e arbitrary: v)
  case (Num ds)
  then show ?case
    by (cases ds) (auto simp: number.simps bind_eq_Some_conv split: option.splits if_splits)
next
  case (Div e f)
  then obtain a b where a: "in_i128 a" and d: "exact_div a b = Value v"
    by (auto simp: and_then_Value_iff)
  then have b: "b dvd a" "b \<noteq> 0" "v = a div b" and nw: "\<not> (a = - (2 ^ 127) \<and> b = - 1)"
    by (auto simp: exact_div_def smod_zero_iff sdiv_exact split: if_splits)
  then have m: "a = b * v" by simp
  show ?case
  proof (cases "b = 1 \<or> b = - 1")
    case True
    with a m nw show ?thesis by (auto simp: in_i128_def)
  next
    case False
    with b have "2 \<le> \<bar>b\<bar>" by arith
    then have "2 * \<bar>v\<bar> \<le> \<bar>b\<bar> * \<bar>v\<bar>" by (intro mult_right_mono) auto
    with a m have "2 * \<bar>v\<bar> \<le> \<bar>a\<bar>" by (simp add: abs_mult)
    with a show ?thesis unfolding in_i128_def by linarith
  qed
qed (auto simp: and_then_Value_iff checked_add_def checked_sub_def checked_mul_def checked_neg_def
    checked_i128_def split: if_splits)

lemma verify_value:
  "verify_answer expression answer = Value v \<longleftrightarrow>
    (\<exists>e. expr_text (trim expression) e \<and> sem e = Value v) \<and> parse_i128 (trim answer) = Some v \<and> in_i128 v"
proof -
  have "verify_answer expression answer = Value v \<longleftrightarrow>
      evaluate expression = Value v \<and> parse_i128 (trim answer) = Some v"
    by (auto simp: verify_answer_def and_then_Value_iff split: option.splits if_splits)
  moreover have "evaluate expression = Value v \<longleftrightarrow> (\<exists>e. expr_text (trim expression) e \<and> sem e = Value v)"
    by (rule evaluate_value)
  ultimately show ?thesis using sem_in_range by blast
qed

text \<open>
  C4. The verifier accepts a declared answer exactly when the expression is a text of the
  grammar whose checked value is the integer the answer's text denotes; the value it returns
  is that integer, and it fits in \<open>i128\<close>.
\<close>

theorem verify_answer_iff:
  "verify_answer expression answer = Value v \<longleftrightarrow>
    (\<exists>e. expr_text (trim expression) e \<and> sem e = Value v) \<and> parse_i128 (trim answer) = Some v \<and> in_i128 v"
  by (rule verify_value)

section \<open>Printing a tree\<close>

text \<open>
  A reference printer in the layout the question templates use: binary operators between
  single spaces, parentheses only where the tree has a \<^const>\<open>Group\<close>. A tree is printable when
  every operand binds at least as tightly as its position in the grammar asks.
\<close>

fun pp :: "ast \<Rightarrow> string" where
  "pp (Num ds) = ds"
| "pp (Group e) = CHR ''('' # pp e @ '')''"
| "pp (Neg e) = CHR ''-'' # pp e"
| "pp (Add e f) = pp e @ '' + '' @ pp f"
| "pp (Sub e f) = pp e @ '' - '' @ pp f"
| "pp (Mul e f) = pp e @ '' * '' @ pp f"
| "pp (Div e f) = pp e @ '' / '' @ pp f"

fun level :: "ast \<Rightarrow> nat" where
  "level (Num _) = 0"
| "level (Group _) = 0"
| "level (Neg _) = 1"
| "level (Mul _ _) = 2"
| "level (Div _ _) = 2"
| "level (Add _ _) = 3"
| "level (Sub _ _) = 3"

fun printable :: "ast \<Rightarrow> bool" where
  "printable (Num ds) = (ds \<noteq> [] \<and> list_all is_digit ds)"
| "printable (Group e) = printable e"
| "printable (Neg e) = (printable e \<and> level e \<le> 1)"
| "printable (Mul e f) = (printable e \<and> printable f \<and> level e \<le> 2 \<and> level f \<le> 1)"
| "printable (Div e f) = (printable e \<and> printable f \<and> level e \<le> 2 \<and> level f \<le> 1)"
| "printable (Add e f) = (printable e \<and> printable f \<and> level f \<le> 2)"
| "printable (Sub e f) = (printable e \<and> printable f \<and> level f \<le> 2)"

lemma unary_text_blanks: "unary_text s e \<Longrightarrow> blanks w \<Longrightarrow> unary_text (w @ s) e"
proof (cases rule: unary_text.cases, assumption, goal_cases)
  case (1 w' s e)
  then show ?thesis using unary_neg [of "w @ w'" s e] by simp
next
  case 2
  then show ?thesis by (simp add: unary_primary primary_text_blanks)
qed

lemma term_text_blanks: "term_text s e \<Longrightarrow> blanks w \<Longrightarrow> term_text (w @ s) e"
  using term_start [OF unary_text_blanks] by (auto elim!: term_text.cases simp del: append_assoc simp: append_assoc [symmetric])

lemmas grows = expr_add expr_sub term_mul term_div

lemmas expr_single = expr_add [OF _ _ expr_end] expr_sub [OF _ _ expr_end]

lemmas term_single = term_mul [OF _ _ term_end] term_div [OF _ _ term_end]

lemma rest_snoc:
  "expr_text s0 e0 \<Longrightarrow> True"
  "expr_rest e1 r1 f1 \<Longrightarrow> blanks w \<longrightarrow> term_text s t \<longrightarrow>
    expr_rest e1 (r1 @ w @ CHR ''+'' # s) (Add f1 t) \<and> expr_rest e1 (r1 @ w @ CHR ''-'' # s) (Sub f1 t)"
  "term_text s2 e2 \<Longrightarrow> True"
  "term_rest e3 r3 f3 \<Longrightarrow> blanks w \<longrightarrow> unary_text s t \<longrightarrow>
    term_rest e3 (r3 @ w @ CHR ''*'' # s) (Mul f3 t) \<and> term_rest e3 (r3 @ w @ CHR ''/'' # s) (Div f3 t)"
  "unary_text s4 e4 \<Longrightarrow> True"
  "primary_text s5 e5 \<Longrightarrow> True"
proof (induction rule: expr_text_expr_rest_term_text_term_rest_unary_text_primary_text.inducts)
  case (expr_end e)
  show ?case using expr_single [of w s t e] by simp
next
  case (expr_add w1 s1 t1 e r f)
  then show ?case using grows by simp
next
  case (expr_sub w1 s1 t1 e r f)
  then show ?case using grows by simp
next
  case (term_end e)
  show ?case using term_single [of w s t e] by simp
next
  case (term_mul w1 s1 t1 e r f)
  then show ?case using grows by simp
next
  case (term_div w1 s1 t1 e r f)
  then show ?case using grows by simp
qed simp_all

lemma expr_text_binary:
  assumes "expr_text a e" "term_text b f"
  shows "expr_text (a @ '' + '' @ b) (Add e f)" "expr_text (a @ '' - '' @ b) (Sub e f)"
proof -
  from assms(1) obtain s t r where a: "a = s @ r" "term_text s t" "expr_rest t r e"
    by (auto elim: expr_text.cases)
  have b: "term_text ('' '' @ b) f" using term_text_blanks [OF assms(2), of "'' ''"] by simp
  from rest_snoc(2) [OF a(3), of "'' ''" "'' '' @ b" f] b
  show "expr_text (a @ '' + '' @ b) (Add e f)" "expr_text (a @ '' - '' @ b) (Sub e f)"
    using expr_start [OF a(2)] by (simp_all add: a(1))
qed

lemma term_text_binary:
  assumes "term_text a e" "unary_text b f"
  shows "term_text (a @ '' * '' @ b) (Mul e f)" "term_text (a @ '' / '' @ b) (Div e f)"
proof -
  from assms(1) obtain s t r where a: "a = s @ r" "unary_text s t" "term_rest t r e"
    by (auto elim: term_text.cases)
  have b: "unary_text ('' '' @ b) f" using unary_text_blanks [OF assms(2), of "'' ''"] by simp
  from rest_snoc(4) [OF a(3), of "'' ''" "'' '' @ b" f] b
  show "term_text (a @ '' * '' @ b) (Mul e f)" "term_text (a @ '' / '' @ b) (Div e f)"
    using term_start [OF a(2)] by (simp_all add: a(1))
qed

lemma unary_term: "unary_text s e \<Longrightarrow> term_text s e"
  using term_start [OF _ term_end] by simp

lemma term_expr: "term_text s e \<Longrightarrow> expr_text s e"
  using expr_start [OF _ expr_end] by simp

lemma pp_texts:
  "printable e \<Longrightarrow> (level e \<le> 1 \<longrightarrow> unary_text (pp e) e) \<and> (level e \<le> 2 \<longrightarrow> term_text (pp e) e) \<and>
    expr_text (pp e) e"
proof (induction e)
  case (Num ds)
  then have "unary_text ds (Num ds)" using primary_number [of "[]" ds] by (simp add: unary_primary)
  then show ?case by (simp add: unary_term term_expr)
next
  case (Group e)
  then have "unary_text (pp (Group e)) (Group e)"
    using primary_group [of "[]" "pp e" e "[]"] by (simp add: unary_primary)
  then show ?case by (simp add: unary_term term_expr)
next
  case (Neg e)
  then have "unary_text (pp (Neg e)) (Neg e)" using unary_neg [of "[]" "pp e" e] by simp
  then show ?case by (simp add: unary_term term_expr)
next
  case (Mul e f)
  then have "term_text (pp (Mul e f)) (Mul e f)" using term_text_binary(1) [of "pp e" e "pp f" f] by simp
  then show ?case by (simp add: term_expr)
next
  case (Div e f)
  then have "term_text (pp (Div e f)) (Div e f)" using term_text_binary(2) [of "pp e" e "pp f" f] by simp
  then show ?case by (simp add: term_expr)
qed (use expr_text_binary in auto)

lemma plain_brackets [simp]: "plain (CHR ''('')" "plain (CHR '')'')" "plain (CHR ''-'')"
  by (simp_all add: plain_def byte_def)

lemma pp_ends: "printable e \<Longrightarrow> pp e \<noteq> [] \<and> plain (hd (pp e)) \<and> plain (last (pp e))"
  by (induction e) (auto simp: list_all_iff plain_digit)

lemma evaluate_pp: "printable e \<Longrightarrow> evaluate (pp e) = sem e"
  using pp_texts [of e] pp_ends [of e] evaluate_text [of "pp e" e] by (simp add: trim_plain)

text \<open>
  Round trip: printing a tree and evaluating the text gives the meaning of the tree, so
  the parser reads precedence, associativity and grouping back as they were written.
\<close>

theorem evaluate_print: "printable e \<Longrightarrow> evaluate (pp e) = sem e"
  by (rule evaluate_pp)

theorem evaluate_print_witness:
  "evaluate (pp (Div (Div (Num ''100'') (Num ''5'')) (Num ''2''))) = Value 10"
proof -
  have "printable (Div (Div (Num ''100'') (Num ''5'')) (Num ''2''))"
    by (simp add: is_digit_def byte_def)
  from evaluate_print [OF this] show ?thesis
    by (simp add: number.simps parse_unsigned_def digits_val_def digit_val_def is_digit_def byte_def
        exact_div_def checked_i128_def in_i128_def smod_nonneg sdiv_nonneg)
qed

text \<open>
  The evaluator's one panic: the remainder is taken before the overflow of the division is
  considered, so \<open>i128::MIN / -1\<close> panics where every other overflow is an error.
\<close>

theorem evaluate_min_div_minus_one:
  "evaluate ''(-170141183460469231731687303715884105727 - 1) / -1'' = Panic"
proof -
  let ?e = "Div (Group (Sub (Neg (Num ''170141183460469231731687303715884105727'')) (Num ''1''))) (Neg (Num ''1''))"
  have "printable ?e" by (simp add: is_digit_def byte_def)
  from evaluate_pp [OF this] show ?thesis
    by (simp add: number.simps parse_unsigned_def digits_val_def digit_val_def is_digit_def byte_def
        exact_div_def checked_neg_def checked_sub_def checked_i128_def in_i128_def)
qed

end
