(* ===== verification/Template_Proofs.thy ===== *)
theory Template_Proofs
  imports Templates Proof_Eval
begin

text \<open>
  What every question template guarantees, by a small calculus over the draws: a template
  never panics, and a candidate it returns carries an expression that, read by the
  independent evaluator of \<open>Proof_Eval\<close>, has exactly the declared value, a stem that is not
  blank, and rationales that are not blank. \<open>draw\<close> is the collection of the calculus' rules.
\<close>

named_theorems draw "rules for the draws and checked steps of a template"

section \<open>Expressions over small numbers\<close>

text \<open>
  The trees of the templates' expressions have literals below \<open>2 ^ 20\<close>; then no operation of
  a tree of few nodes can overflow, and only the exactness of its divisions is left to show.
\<close>

definition num :: "int \<Rightarrow> ast" where
  "num i = Num (show_int i)"

fun dval :: "ast \<Rightarrow> int" where
  "dval (Num ds) = int (digits_val ds)"
| "dval (Group e) = dval e"
| "dval (Neg e) = - dval e"
| "dval (Add e f) = dval e + dval f"
| "dval (Sub e f) = dval e - dval f"
| "dval (Mul e f) = dval e * dval f"
| "dval (Div e f) = dval e div dval f"

fun bits :: "ast \<Rightarrow> nat" where
  "bits (Num _) = 20"
| "bits (Group e) = bits e"
| "bits (Neg e) = bits e"
| "bits (Add e f) = Suc (max (bits e) (bits f))"
| "bits (Sub e f) = Suc (max (bits e) (bits f))"
| "bits (Mul e f) = bits e + bits f"
| "bits (Div e f) = max (bits e) (bits f)"

fun exact :: "ast \<Rightarrow> bool" where
  "exact (Num ds) = (ds \<noteq> [] \<and> list_all is_digit ds \<and> digits_val ds < 2 ^ 20)"
| "exact (Group e) = exact e"
| "exact (Neg e) = exact e"
| "exact (Add e f) = (exact e \<and> exact f)"
| "exact (Sub e f) = (exact e \<and> exact f)"
| "exact (Mul e f) = (exact e \<and> exact f)"
| "exact (Div e f) = (exact e \<and> exact f \<and> dval f \<noteq> 0 \<and> dval f dvd dval e)"

lemma exact_bound: "exact e \<Longrightarrow> \<bar>dval e\<bar> < 2 ^ bits e"
proof (induction e)
  case (Add e f)
  then have "\<bar>dval e + dval f\<bar> < 2 ^ bits e + 2 ^ bits f" by simp
  also have "\<dots> \<le> 2 ^ max (bits e) (bits f) + 2 ^ max (bits e) (bits f)"
    by (intro add_mono power_increasing) simp_all
  finally show ?case by simp
next
  case (Sub e f)
  then have "\<bar>dval e - dval f\<bar> < 2 ^ bits e + 2 ^ bits f" by simp
  also have "\<dots> \<le> 2 ^ max (bits e) (bits f) + 2 ^ max (bits e) (bits f)"
    by (intro add_mono power_increasing) simp_all
  finally show ?case by simp
next
  case (Mul e f)
  then show ?case by (auto simp: abs_mult power_add intro!: mult_strict_mono)
next
  case (Div e f)
  then obtain k where k: "dval e = dval f * k" and f: "dval f \<noteq> 0" and e: "\<bar>dval e\<bar> < 2 ^ bits e" by auto
  have "1 * \<bar>k\<bar> \<le> \<bar>dval f\<bar> * \<bar>k\<bar>" using f by (intro mult_right_mono) auto
  also have "\<dots> = \<bar>dval e\<bar>" by (simp add: k abs_mult)
  finally have "\<bar>dval (Div e f)\<bar> \<le> \<bar>dval e\<bar>" using f k by simp
  also note e
  also have "(2::int) ^ bits e \<le> 2 ^ max (bits e) (bits f)" by (intro power_increasing) simp_all
  finally show ?case by simp
qed simp_all

lemma in_i128_bits: "\<bar>v\<bar> < 2 ^ k \<Longrightarrow> k \<le> 120 \<Longrightarrow> in_i128 v"
  using power_increasing [of k 120 "2 :: int"] unfolding in_i128_def by (auto simp: abs_less_iff)

lemma sem_exact: "exact e \<Longrightarrow> bits e \<le> 120 \<Longrightarrow> sem e = Value (dval e)"
proof (induction e)
  case (Num ds)
  then show ?case
    using in_i128_bits [OF exact_bound [OF Num(1)]]
    by (simp add: number.simps parse_i128_digits checked_i128_def)
next
  case (Neg e)
  then show ?case using in_i128_bits [OF exact_bound [of "Neg e"]] by (simp add: checked_neg_def checked_i128_def)
next
  case (Add e f)
  then show ?case using in_i128_bits [OF exact_bound [of "Add e f"]] by (simp add: checked_add_def checked_i128_def)
next
  case (Sub e f)
  then show ?case using in_i128_bits [OF exact_bound [of "Sub e f"]] by (simp add: checked_sub_def checked_i128_def)
next
  case (Mul e f)
  then show ?case using in_i128_bits [OF exact_bound [of "Mul e f"]] by (simp add: checked_mul_def checked_i128_def)
next
  case (Div e f)
  have "\<bar>dval e\<bar> < 2 ^ 120"
    using exact_bound [of e] Div.prems power_increasing [of "bits e" 120 "2 :: int"] by simp
  with Div show ?case by (auto simp: exact_div_def smod_zero_iff sdiv_exact)
qed simp

lemma num_facts [simp]:
  assumes "0 \<le> i"
  shows "printable (num i)" "level (num i) = 0" "dval (num i) = i" "bits (num i) = 20"
    "exact (num i) = (i < 2 ^ 20)"
proof -
  have "show_int i = show_nat (nat i)" using assms by (rule show_int_nonneg)
  then show "printable (num i)" "level (num i) = 0" "dval (num i) = i" "bits (num i) = 20"
      "exact (num i) = (i < 2 ^ 20)"
    using assms by (simp_all add: num_def show_nat_nonempty list_all_iff show_nat_digits digits_val_show_nat nat_less_iff)
qed

lemma pp_num [simp]: "pp (num i) = show_int i"
  by (simp add: num_def)

section \<open>Good candidates\<close>

definition proves :: "string \<Rightarrow> int \<Rightarrow> bool" where
  "proves x v \<longleftrightarrow> (\<exists>e. x = pp e \<and> printable e \<and> exact e \<and> bits e \<le> 120 \<and> dval e = v)"

definition good :: "candidate \<Rightarrow> bool" where
  "good c \<longleftrightarrow> proves (cand_expression c) (cand_correct c) \<and> trim (cand_stem c) \<noteq> [] \<and>
     list_all (\<lambda>(_, why). trim why \<noteq> []) (cand_distractors c)"

definition sound :: "(candidate option \<times> rng) option \<Rightarrow> bool" where
  "sound m \<longleftrightarrow> (case m of None \<Rightarrow> False | Some (None, _) \<Rightarrow> True | Some (Some c, _) \<Rightarrow> good c)"

lemma goodI:
  assumes "printable e" "exact e" "bits e \<le> 120" "dval e = cand_correct c"
    and "cand_expression c = pp e" "cand_stem c \<noteq> []" "plain (hd (cand_stem c))"
    and "list_all (\<lambda>(_, why). why \<noteq> [] \<and> plain (hd why)) (cand_distractors c)"
  shows "sound (Some (Some c, rng))"
proof -
  have "list_all (\<lambda>(_, why). trim why \<noteq> []) (cand_distractors c)"
    using assms(8) by (auto simp: list_all_iff trim_nonempty)
  then show ?thesis
    using assms(1-7) trim_nonempty [of "cand_stem c"] by (auto simp: sound_def good_def proves_def)
qed

lemma sound_none [draw]: "sound (Some (None, rng))"
  by (simp add: sound_def)

lemma sound_range [draw]:
  assumes "low \<le> high" "high - low < 2 ^ 63"
    and "\<And>v rng. low \<le> v \<Longrightarrow> v \<le> high \<Longrightarrow> sound (f v rng)"
  shows "sound (Option.bind (rng_range rng low high) (\<lambda>(v, rng). f v rng))"
  using rng_range_bounds [OF assms(1,2), of rng] assms(3) by auto

lemma fold_min_le: "v \<in> set items \<Longrightarrow> fold min items m \<le> (v :: int)"
  and fold_min_start: "fold min items m \<le> (m :: int)"
proof (induction items arbitrary: m)
  case (Cons x xs)
  { case 1 then show ?case using Cons(2) [of "min x m"] Cons(1) by force }
  { case 2 then show ?case using Cons(2) [of "min x m"] by simp }
qed simp_all

lemma fold_max_ge: "v \<in> set items \<Longrightarrow> (v :: int) \<le> fold max items m"
  and fold_max_start: "(m :: int) \<le> fold max items m"
proof (induction items arbitrary: m)
  case (Cons x xs)
  { case 1 then show ?case using Cons(2) [of "max x m"] Cons(1) by force }
  { case 2 then show ?case using Cons(2) [of "max x m"] by simp }
qed simp_all

lemma sound_pick [draw]:
  assumes "items \<noteq> []" "length items < 2 ^ 64"
    and "\<And>v rng. fold min items 1000 \<le> v \<Longrightarrow> v \<le> fold max items 0 \<Longrightarrow> sound (f v rng)"
  shows "sound (Option.bind (rng_pick rng (items :: int list)) (\<lambda>(v, rng). f v rng))"
  using rng_pick_member [OF assms(1,2), of rng] assms(3) fold_min_le fold_max_ge by auto

lemma sound_index [draw]:
  assumes "i < length items"
    and "\<And>v. fold min items 1000 \<le> v \<Longrightarrow> v \<le> fold max items 0 \<Longrightarrow> sound (f v)"
  shows "sound (Option.bind (index_vec (items :: int list) i) f)"
  using assms fold_min_le fold_max_ge by (auto simp: index_vec_def)

lemma sound_div [draw]:
  assumes "b \<noteq> 0" and "\<And>q. q = a sdiv b \<Longrightarrow> sound (f q)"
  shows "sound (Option.bind (checked_div a b) f)"
  using assms by (simp add: checked_div_def)

lemma sound_rem [draw]:
  assumes "b \<noteq> 0" and "\<And>q. q = a smod b \<Longrightarrow> sound (f q)"
  shows "sound (Option.bind (checked_rem a b) f)"
  using assms by (simp add: checked_rem_def)

lemma sound_if [draw]:
  assumes "c \<Longrightarrow> sound x" and "\<not> c \<Longrightarrow> sound y"
  shows "sound (if c then x else y)"
  using assms by simp

lemma sound_let [draw]:
  assumes "\<And>x. x = e \<Longrightarrow> sound (f x)"
  shows "sound (Let e f)"
  using assms by simp

text \<open>What the candidates' side conditions need.\<close>

lemma plain_show_int [simp]: "0 \<le> i \<Longrightarrow> plain (hd (show_int i @ s))" "show_int i @ s \<noteq> []"
  by (simp_all add: show_int_nonneg show_nat_nonempty plain_digit show_nat_hd)
    (simp add: show_int_nonempty)

lemma show_literals: "show_int 2 = ''2''" "show_int 60 = ''60''" "show_int 100 = ''100''"
  by code_simp+

lemma small_products:
  assumes "0 \<le> a" "a \<le> 1000" "0 \<le> b" "b \<le> 1000"
  shows "a * b < (1048576 :: int)" "c \<le> 1000 \<Longrightarrow> a * b + c < 1048576" "c \<le> 1000 \<Longrightarrow> c + a * b < 1048576"
  using mult_mono [of a 1000 b 1000] assms by simp_all

lemma small_triples:
  assumes "0 \<le> a" "a \<le> 100" "0 \<le> b" "b \<le> 100" "0 \<le> c" "c \<le> 100"
  shows "a * (b * c) < (1048576 :: int)" "0 \<le> d \<Longrightarrow> d \<le> 100 \<Longrightarrow> a * b + c * d < 1048576"
  using mult_mono [of a 100 "b * c" 10000] mult_mono [of b 100 c 100] mult_mono [of a 100 b 100]
    mult_mono [of c 100 d 100] assms by simp_all

lemmas candidate_simps = show_literals misconception_def smod_zero_iff sdiv_exact small_products small_triples

lemma sound_ar_rate_pages: "sound (ar_rate_pages rng)"
  unfolding ar_rate_pages_def
  apply (intro draw; (simp; fail)?)
  subgoal for rate r1 hours r2 correct
    by (rule goodI [of "Mul (Mul (num rate) (num hours)) (num 60)"]) (simp_all add: candidate_simps)
  done

lemma sound_ar_percent_of: "sound (ar_percent_of rng)"
  unfolding ar_percent_of_def
  apply (intro draw; (simp; fail)?)
  subgoal for percent r1 drawn_number r2 number correct
    by (rule goodI [of "Div (Group (Mul (num number) (num percent))) (num 100)"]) (simp_all add: candidate_simps)
  done

lemma sound_ar_unit_price: "sound (ar_unit_price rng)"
  unfolding ar_unit_price_def
  apply (intro draw; (simp; fail)?)
  subgoal for count r1 unit r2 drawn_wanted r3 wanted given_cost correct
    by (rule goodI [of "Mul (Div (num given_cost) (num count)) (num wanted)"]) (simp_all add: candidate_simps)
  done

lemma sound_ar_average_sum: "sound (ar_average_sum rng)"
  unfolding ar_average_sum_def
  apply (intro draw; (simp; fail)?)
  subgoal for count r1 average r2 correct
    by (rule goodI [of "Mul (num count) (num average)"]) (simp_all add: candidate_simps)
  done

lemma sound_ar_simple_interest: "sound (ar_simple_interest rng)"
  unfolding ar_simple_interest_def
  apply (intro draw; (simp; fail)?)
  subgoal for drawn_principal r1 principal rate r2 years r3 correct
    by (rule goodI [of "Div (Group (Mul (Mul (num principal) (num rate)) (num years))) (num 100)"]) (simp_all add: candidate_simps)
  done

lemma sound_ar_rectangle_perimeter: "sound (ar_rectangle_perimeter rng)"
  unfolding ar_rectangle_perimeter_def
  apply (intro draw; (simp; fail)?)
  subgoal for len r1 width r2 correct
    by (rule goodI [of "Mul (num 2) (Group (Add (num len) (num width)))"]) (simp_all add: candidate_simps)
  done

lemma sound_ar_triangle_area: "sound (ar_triangle_area rng)"
  unfolding ar_triangle_area_def
  apply (intro draw; (simp; fail)?)
  subgoal for drawn_base r1 base drawn_height r2 height correct
    by (rule goodI [of "Div (Group (Mul (num base) (num height))) (num 2)"]) (simp_all add: candidate_simps)
  done

lemma sound_ar_work_rate: "sound (ar_work_rate rng)"
  unfolding ar_work_rate_def
  apply (intro draw; (simp; fail)?)
  subgoal for first r1 second r2 numerator denominator q1 q2 correct
    by (rule goodI [of "Div (Group (Mul (num first) (num second))) (Group (Add (num first) (num second)))"]) (simp_all add: candidate_simps)
  done

lemma sound_ar_distance_rate: "sound (ar_distance_rate rng)"
  unfolding ar_distance_rate_def
  apply (intro draw; (simp; fail)?)
  subgoal for speed r1 hours r2 extra_minutes total_minutes correct
    by (rule goodI [of "Div (Mul (num speed) (Group (Add (Mul (num hours) (num 60)) (num extra_minutes)))) (num 60)"]) (simp_all add: candidate_simps)
  done

lemma sound_ar_discount_price: "sound (ar_discount_price rng)"
  unfolding ar_discount_price_def
  apply (intro draw; (simp; fail)?)
  subgoal for drawn_price r1 price k r2 percent discount correct
    by (rule goodI [of "Sub (num price) (Group (Div (Mul (num price) (num percent)) (num 100)))"]) (simp_all add: candidate_simps)
  done

lemma sound_ar_unit_conversion: "sound (ar_unit_conversion rng)"
  unfolding ar_unit_conversion_def
  apply (intro draw; (simp; fail)?)
  subgoal for hours r1 drawn_minutes r2 minutes correct
    by (rule goodI [of "Add (Mul (num hours) (num 60)) (num minutes)"]) (simp_all add: candidate_simps)
  done

lemma sound_ar_production_rate: "sound (ar_production_rate rng)"
  unfolding ar_production_rate_def
  apply (intro draw; (simp; fail)?)
  subgoal for machines r1 hours r2 per_machine_per_hour r3 correct
    by (rule goodI [of "Mul (Mul (num machines) (num per_machine_per_hour)) (num hours)"]) (simp_all add: candidate_simps)
  done

lemma sound_ar_batch_proportion: "sound (ar_batch_proportion rng)"
  unfolding ar_batch_proportion_def
  apply (intro draw; (simp; fail)?)
  subgoal for per_batch r1 batches r2 wanted r3 q1 q2 correct q3 q4 q5
    by (rule goodI [of "Div (Mul (num per_batch) (num wanted)) (num batches)"]) (simp_all add: candidate_simps)
  done

lemma sound_ar_percent_remaining: "sound (ar_percent_remaining rng)"
  unfolding ar_percent_remaining_def
  apply (intro draw; (simp; fail)?)
  subgoal for drawn_total r1 total k r2 percent part correct
    by (rule goodI [of "Sub (num total) (Group (Div (Mul (num total) (num percent)) (num 100)))"]) (simp_all add: candidate_simps)
  done

lemma sound_mk_linear_solve: "sound (mk_linear_solve rng)"
  unfolding mk_linear_solve_def
  apply (intro draw; (simp; fail)?)
  subgoal for coefficient r1 solution r2 drawn_constant r3 "constant" total q1
    by (rule goodI [of "Div (Group (Sub (num total) (num constant))) (num coefficient)"]) (simp_all add: candidate_simps)
  done

lemma sound_mk_evaluate_expression: "sound (mk_evaluate_expression rng)"
  unfolding mk_evaluate_expression_def
  apply (intro draw; (simp; fail)?)
  subgoal for coefficient r1 x r2 x' "constant" r3 correct
    by (rule goodI [of "Add (Mul (num coefficient) (num x')) (num constant)"]) (simp_all add: candidate_simps)
  done

lemma sound_mk_slope: "sound (mk_slope rng)"
  unfolding mk_slope_def
  apply (intro draw; (simp; fail)?)
  subgoal for slope r1 run r2 rise x1 r3 y1 r4 x2 y2
    by (rule goodI [of "Div (Group (Sub (num y2) (num y1))) (Group (Sub (num x2) (num x1)))"]) (simp_all add: candidate_simps)
  done

lemma sound_mk_exponent_power: "sound (mk_exponent_power rng)"
  unfolding mk_exponent_power_def
  apply (intro draw; (simp; fail)?)
  subgoal for base r1 inner r2 outer r3 correct raised raised' reversed reversed'
    by (rule goodI [of "Mul (num inner) (num outer)"]) (simp_all add: candidate_simps)
  done

lemma sound_mk_volume_box: "sound (mk_volume_box rng)"
  unfolding mk_volume_box_def
  apply (intro draw; (simp; fail)?)
  subgoal for len r1 width r2 height r3 correct
    by (rule goodI [of "Mul (Mul (num len) (num width)) (num height)"]) (simp_all add: candidate_simps)
  done

lemma sound_mk_fraction_of: "sound (mk_fraction_of rng)"
  unfolding mk_fraction_of_def
  apply (intro draw; (simp; fail)?)
  subgoal for denominator r1 numerator r2 drawn_total r3 total q1 correct inverted_numerator q2 q3 q4
    by (rule goodI [of "Div (Group (Mul (num total) (num numerator))) (num denominator)"]) (simp_all add: candidate_simps)
  done

lemma sound_mc_lever_effort: "sound (mc_lever_effort rng)"
  unfolding mc_lever_effort_def
  apply (intro draw; (simp; fail)?)
  subgoal for load_arm r1 drawn_effort_arm r2 effort_arm drawn_load r3 load q1 correct short_arm q2 q3
    by (rule goodI [of "Div (Group (Mul (num load) (num load_arm))) (num effort_arm)"]) (simp_all add: candidate_simps)
  done

lemma sound_mc_gear_ratio: "sound (mc_gear_ratio rng)"
  unfolding mc_gear_ratio_def
  apply (intro draw; (simp; fail)?)
  subgoal for driving_teeth r1 drawn_driven_teeth r2 driven_teeth drawn_turns r3 turns q1 correct q2
    by (rule goodI [of "Div (Group (Mul (num driving_teeth) (num turns))) (num driven_teeth)"]) (simp_all add: candidate_simps)
  done

lemma sound_mc_pulley_effort: "sound (mc_pulley_effort rng)"
  unfolding mc_pulley_effort_def
  apply (intro draw; (simp; fail)?)
  subgoal for strands r1 drawn_load r2 load q1 correct q2
    by (rule goodI [of "Div (num load) (num strands)"]) (simp_all add: candidate_simps)
  done

lemma sound_mc_wheel_and_axle: "sound (mc_wheel_and_axle rng)"
  unfolding mc_wheel_and_axle_def
  apply (intro draw; (simp; fail)?)
  subgoal for axle_radius r1 drawn_wheel_radius r2 wheel_radius drawn_load r3 load q1 correct q2 q3
    by (rule goodI [of "Div (Group (Mul (num load) (num axle_radius))) (num wheel_radius)"]) (simp_all add: candidate_simps)
  done

lemma sound_mc_pressure: "sound (mc_pressure rng)"
  unfolding mc_pressure_def
  apply (intro draw; (simp; fail)?)
  subgoal for area r1 pressure r2 force q1 correct
    by (rule goodI [of "Div (num force) (num area)"]) (simp_all add: candidate_simps)
  done

lemma sound_mc_hydraulic_lift: "sound (mc_hydraulic_lift rng)"
  unfolding mc_hydraulic_lift_def
  apply (intro draw; (simp; fail)?)
  subgoal for small_area r1 drawn_large_area r2 large_area drawn_effort r3 q1 effort q2 correct q3
    by (rule goodI [of "Div (Group (Mul (num effort) (num large_area))) (num small_area)"]) (simp_all add: candidate_simps)
  done

lemma sound_mc_inclined_plane: "sound (mc_inclined_plane rng)"
  unfolding mc_inclined_plane_def
  apply (intro draw; (simp; fail)?)
  subgoal for height r1 drawn_len r2 len drawn_weight r3 weight q1 correct rise_s q2 q3
    by (rule goodI [of "Div (Group (Mul (num weight) (num height))) (num len)"]) (simp_all add: candidate_simps)
  done

lemma sound_mc_mechanical_advantage: "sound (mc_mechanical_advantage rng)"
  unfolding mc_mechanical_advantage_def
  apply (intro draw; (simp; fail)?)
  subgoal for load_arm r1 advantage r2 effort_arm
    by (rule goodI [of "Div (num effort_arm) (num load_arm)"]) (simp_all add: candidate_simps)
  done

lemmas template_soundness =
  sound_ar_rate_pages
  sound_ar_percent_of
  sound_ar_unit_price
  sound_ar_average_sum
  sound_ar_simple_interest
  sound_ar_rectangle_perimeter
  sound_ar_triangle_area
  sound_ar_work_rate
  sound_ar_distance_rate
  sound_ar_discount_price
  sound_ar_unit_conversion
  sound_ar_production_rate
  sound_ar_batch_proportion
  sound_ar_percent_remaining
  sound_mk_linear_solve
  sound_mk_evaluate_expression
  sound_mk_slope
  sound_mk_exponent_power
  sound_mk_volume_box
  sound_mk_fraction_of
  sound_mc_lever_effort
  sound_mc_gear_ratio
  sound_mc_pulley_effort
  sound_mc_wheel_and_axle
  sound_mc_pressure
  sound_mc_hydraulic_lift
  sound_mc_inclined_plane
  sound_mc_mechanical_advantage

end
