(* ===== verification/Provenance.thy ===== *)
theory Provenance
  imports Prelude
begin

text \<open>
  Content hashes, \<open>crates/vector-questions/src/provenance.rs\<close>. SHA-256 is the parameter \<open>sha\<close>
  (bytes to hex) and Unicode's \<open>str::to_lowercase\<close> the parameter \<open>lc\<close>.
\<close>

datatype content_hash = ContentHash string

fun as_str :: "content_hash \<Rightarrow> string" where
  "as_str (ContentHash h) = h"

definition hash_of :: "(string \<Rightarrow> string) \<Rightarrow> string \<Rightarrow> content_hash" where
  "hash_of sha bytes = ContentHash (sha bytes)"

definition hash_of_text :: "(string \<Rightarrow> string) \<Rightarrow> string \<Rightarrow> content_hash" where
  "hash_of_text sha text = hash_of sha (str_replace [CHR 0x0D, CHR 0x0A] [CHR 0x0A] text)"

definition is_hexdigit :: "char \<Rightarrow> bool" where
  "is_hexdigit c \<longleftrightarrow> is_digit c \<or> 65 \<le> byte c \<and> byte c \<le> 70 \<or> 97 \<le> byte c \<and> byte c \<le> 102"

definition parse_hash :: "(string \<Rightarrow> string) \<Rightarrow> string \<Rightarrow> (content_hash, string) result" where
  "parse_hash lc value =
     (let trimmed = lc (trim value) in
      if length trimmed \<noteq> 64
      then Err (''a SHA-256 digest must be 64 hex characters, got '' @ show_nat (length trimmed))
      else if \<not> list_all is_hexdigit trimmed then Err ''digest contains non-hexadecimal characters''
      else Ok (ContentHash trimmed))"

definition hash_is_empty :: "content_hash \<Rightarrow> bool" where
  "hash_is_empty h \<longleftrightarrow> trim (as_str h) = []"

definition hash_matches :: "(string \<Rightarrow> string) \<Rightarrow> content_hash \<Rightarrow> string \<Rightarrow> bool" where
  "hash_matches sha h bytes \<longleftrightarrow> hash_of sha bytes = h"

definition hashes_match :: "content_hash \<Rightarrow> content_hash \<Rightarrow> bool" where
  "hashes_match a b = (if hash_is_empty a \<or> hash_is_empty b then False else a = b)"

end
