(* ===== verification/Factory.thy ===== *)
theory Factory
  imports Template_Proofs Provenance
begin

text \<open>
  The item factory, \<open>crates/vector-questions/src/factory.rs\<close>: assembling a candidate into an
  item, generating one and many items from a seed, and the independent verification of an
  item. \<^const>\<open>None\<close> on the outside of a result is a panic. The answer check \<open>verify\<close> relies on
  is its argument \<open>check\<close>, bound to \<open>proof::verify_answer\<close> by \<open>verify\<close>; the contract it needs
  is the locale \<open>answer_route\<close>, interpreted on the evaluator of \<open>Proof_Eval\<close>.
\<close>

section \<open>Items\<close>

record generated_item =
  item_subtest :: string
  item_objective_id :: string
  item_template_id :: string
  item_stem :: string
  options :: "string list"
  correct_index :: nat
  item_expression :: string
  item_answer :: string
  distractor_rationales :: "(nat \<times> string) list"
  item_difficulty :: rat
  item_seed :: "64 word"

text \<open>\<open>content_hash\<close>: the text that is hashed, and its digest by the hash function \<open>sha\<close>.\<close>

definition canonical :: "generated_item \<Rightarrow> string" where
  "canonical item =
     item_subtest item @ [CHR 0x01] @ item_stem item @ [CHR 0x01]
     @ concat (map (\<lambda>option. option @ [CHR 0x02]) (options item))
     @ [CHR 0x01] @ show_nat (correct_index item)"

definition content_hash :: "(string \<Rightarrow> string) \<Rightarrow> generated_item \<Rightarrow> string" where
  "content_hash sha item = as_str (hash_of_text sha (canonical item))"

text \<open>
  \<open>VerificationFailure\<close>. \<open>ProofRejected\<close> keeps the error itself, where the code keeps its
  display text.
\<close>

datatype verification_failure =
    ProofRejected proof_error
  | TooFewOptions nat
  | CorrectIndexOutOfRange nat nat
  | CorrectOptionDisagreesWithProof string string
  | DuplicateOption string
  | DistractorEqualsAnswer nat string
  | RationaleCoverage "nat list" "nat list"
  | Blank string

section \<open>Assembly\<close>

text \<open>\<open>numbers_printed_in\<close>: \<open>current\<close> is the run of digits being read.\<close>

fun numbers_loop :: "string \<Rightarrow> string set \<Rightarrow> string \<Rightarrow> string set" where
  "numbers_loop current out [] = (if current \<noteq> [] then insert current out else out)"
| "numbers_loop current out (ch # text) =
     (if is_digit ch then numbers_loop (current @ [ch]) out text
      else if current \<noteq> [] then numbers_loop [] (insert current out) text
      else numbers_loop [] out text)"

definition numbers_printed_in :: "string \<Rightarrow> string set" where
  "numbers_printed_in text = numbers_loop [] {} text"

type_synonym entry = "int \<times> string option"

fun add_distractors :: "entry list \<Rightarrow> (int \<times> string) list \<Rightarrow> entry list" where
  "add_distractors entries [] = entries"
| "add_distractors entries ((value, why) # ds) =
     (if list_ex (\<lambda>(existing, _). existing = value) entries then add_distractors entries ds
      else add_distractors (entries @ [(value, Some why)]) ds)"

fun collect_rationales :: "nat \<Rightarrow> entry list \<Rightarrow> (nat \<times> string) list \<Rightarrow> (nat \<times> string) list" where
  "collect_rationales index [] m = m"
| "collect_rationales index ((_, why) # entries) m =
     (case why of
        Some w \<Rightarrow> collect_rationales (Suc index) entries (bt_insert index w m)
      | None \<Rightarrow> collect_rationales (Suc index) entries m)"

definition prints_a_distractor :: "template \<Rightarrow> candidate \<Rightarrow> entry list \<Rightarrow> bool" where
  "prints_a_distractor template candidate entries =
     (let stem_numbers = numbers_printed_in (cand_stem candidate) in
      (template_subtest template = ''AR'' \<or> template_subtest template = ''MK'') \<and>
      list_ex (\<lambda>(value, why). why \<noteq> None \<and> show_int value \<in> stem_numbers) entries)"

definition assemble :: "template \<Rightarrow> candidate \<Rightarrow> rng \<Rightarrow> 64 word \<Rightarrow> generated_item option option" where
  "assemble template candidate rng seed =
     (let entries = add_distractors [(cand_correct candidate, None)] (cand_distractors candidate) in
      if length entries \<noteq> 4 then Some None
      else if prints_a_distractor template candidate entries then Some None
      else let (entries, rng) = rng_shuffle rng entries in do {
        index \<leftarrow> find_index (\<lambda>(_, why). why = None) entries;
        Some (Some \<lparr>
          item_subtest = template_subtest template,
          item_objective_id = template_objective template,
          item_template_id = template_id template,
          item_stem = cand_stem candidate,
          options = map (\<lambda>(v, _). show_int v) entries,
          correct_index = index,
          item_expression = cand_expression candidate,
          item_answer = show_int (cand_correct candidate),
          distractor_rationales = collect_rationales 0 entries [],
          item_difficulty = cand_difficulty candidate,
          item_seed = seed\<rparr>)
      })"

section \<open>Generation\<close>

fun attempt_loop :: "template list \<Rightarrow> 64 word \<Rightarrow> nat list \<Rightarrow> generated_item option option" where
  "attempt_loop choices seed [] = Some None"
| "attempt_loop choices seed (attempt # attempts) =
     (let attempt_seed = seed XOR (word_of_nat attempt * 0x9E3779B97F4A7C15);
          (u, _) = next_u64 attempt_seed
      in do {
        template \<leftarrow> index_vec choices (unat (u mod word_of_nat (length choices)));
        (built, _) \<leftarrow> template_build template (attempt_seed XOR 0xA5A55A5A12345678);
        case built of
          None \<Rightarrow> attempt_loop choices seed attempts
        | Some candidate \<Rightarrow> do {
            assembled \<leftarrow> assemble template candidate (attempt_seed XOR 0x0F0FF0F0DEADBEEF) seed;
            case assembled of
              Some item \<Rightarrow> Some (Some item)
            | None \<Rightarrow> attempt_loop choices seed attempts
          }
      })"

definition generate_one :: "string \<Rightarrow> 64 word \<Rightarrow> generated_item option option" where
  "generate_one subtest seed =
     (let choices = filter (\<lambda>t. template_subtest t = subtest) TEMPLATES in
      if choices = [] then Some None
      else attempt_loop choices seed [0..<64])"

text \<open>The loop of \<open>generate_many\<close>: the first argument counts the attempts that are left.\<close>

fun many_loop :: "nat \<Rightarrow> string \<Rightarrow> nat \<Rightarrow> 64 word \<Rightarrow> (string \<times> string) set \<Rightarrow> generated_item list \<Rightarrow>
    generated_item list option" where
  "many_loop 0 subtest wanted seed seen out = Some out"
| "many_loop (Suc left) subtest wanted seed seen out =
     (if length out < wanted then
        let seed = seed + 0x9E3779B97F4A7C15 in do {
          generated \<leftarrow> generate_one subtest seed;
          case generated of
            None \<Rightarrow> many_loop left subtest wanted seed seen out
          | Some item \<Rightarrow>
              let question = (item_stem item, item_answer item) in
              if question \<notin> seen
              then many_loop left subtest wanted seed (insert question seen) (out @ [item])
              else many_loop left subtest wanted seed seen out
        }
      else Some out)"

definition attempt_limit :: "nat \<Rightarrow> nat" where
  "attempt_limit wanted = max (min (wanted * 64) (2 ^ 64 - 1)) 64"

definition generate_many :: "string \<Rightarrow> nat \<Rightarrow> 64 word \<Rightarrow> generated_item list option" where
  "generate_many subtest wanted base_seed = many_loop (attempt_limit wanted) subtest wanted base_seed {} []"

section \<open>Verification\<close>

fun check_options :: "int \<Rightarrow> nat \<Rightarrow> string list \<Rightarrow> string list \<Rightarrow> (unit, verification_failure) result" where
  "check_options recomputed correct earlier [] = Ok ()"
| "check_options recomputed correct earlier (option # later) =
     (let index = length earlier in
      if trim option = [] then Err (Blank (''option '' @ show_nat index))
      else if option \<in> set earlier then Err (DuplicateOption option)
      else if index \<noteq> correct \<and> parse_i128 (trim option) = Some recomputed
      then Err (DistractorEqualsAnswer index option)
      else check_options recomputed correct (earlier @ [option]) later)"

fun check_rationales :: "(nat \<times> string) list \<Rightarrow> (unit, verification_failure) result" where
  "check_rationales [] = Ok ()"
| "check_rationales ((index, rationale) # m) =
     (if trim rationale = [] then Err (Blank (''rationale for option '' @ show_nat index))
      else check_rationales m)"

definition check_coverage :: "nat \<Rightarrow> nat \<Rightarrow> (nat \<times> string) list \<Rightarrow> (unit, verification_failure) result" where
  "check_coverage n correct rationales =
     (let expected = filter (\<lambda>i. i \<noteq> correct) [0..<n];
          present = map fst rationales;
          missing = filter (\<lambda>i. i \<notin> set present) expected;
          extra = filter (\<lambda>i. i \<notin> set expected) present
      in if missing \<noteq> [] \<or> extra \<noteq> [] then Err (RationaleCoverage missing extra) else Ok ())"

definition verify_with ::
  "(string \<Rightarrow> string \<Rightarrow> int outcome) \<Rightarrow> generated_item \<Rightarrow> (unit, verification_failure) result option" where
  "verify_with check item =
     (if trim (item_stem item) = [] then Some (Err (Blank ''stem''))
      else if length (options item) < 2 then Some (Err (TooFewOptions (length (options item))))
      else if length (options item) \<le> correct_index item
      then Some (Err (CorrectIndexOutOfRange (correct_index item) (length (options item))))
      else case check (item_expression item) (item_answer item) of
        Panic \<Rightarrow> None
      | Out_of_fuel \<Rightarrow> None
      | Error e \<Rightarrow> Some (Err (ProofRejected e))
      | Value recomputed \<Rightarrow>
          (let correct_option = options item ! correct_index item in
           if parse_i128 (trim correct_option) \<noteq> Some recomputed
           then Some (Err (CorrectOptionDisagreesWithProof correct_option (show_int recomputed)))
           else Some (
             try_bind (check_options recomputed (correct_index item) [] (options item)) (\<lambda>_.
             try_bind (check_coverage (length (options item)) (correct_index item)
               (distractor_rationales item)) (\<lambda>_.
             check_rationales (distractor_rationales item))))))"

definition verify :: "generated_item \<Rightarrow> (unit, verification_failure) result option" where
  "verify item = verify_with verify_answer item"

section \<open>The entries of an item\<close>

lemma add_distractors_distinct:
  "distinct (map fst entries) \<Longrightarrow> distinct (map fst (add_distractors entries ds))"
  by (induction entries ds rule: add_distractors.induct) (auto simp: list_ex_iff case_prod_unfold)

lemma add_distractors_shape:
  "\<exists>ds'. add_distractors entries ds = entries @ map (\<lambda>(v, w). (v, Some w)) ds' \<and> set ds' \<subseteq> set ds"
proof (induction entries ds rule: add_distractors.induct)
  case (2 entries v why ds)
  show ?case
  proof (cases "list_ex (\<lambda>(existing, _). existing = v) entries")
    case True
    with 2(1) show ?thesis by auto
  next
    case False
    with 2(2) obtain ds' where "set ds' \<subseteq> set ds" and
      "add_distractors (entries @ [(v, Some why)]) ds =
        (entries @ [(v, Some why)]) @ map (\<lambda>(v, w). (v, Some w)) ds'" by auto
    with False show ?thesis by (intro exI [of _ "(v, why) # ds'"]) auto
  qed
qed simp

lemma bt_insert_subset: "set (bt_insert k v m) \<subseteq> insert (k, v) (set m)"
  by (induction k v m rule: bt_insert.induct) auto

lemma collect_rationales_keys:
  "set (map fst (collect_rationales n entries m)) =
    set (map fst m) \<union> {n + j | j. j < length entries \<and> snd (entries ! j) \<noteq> None}"
proof (induction n entries m rule: collect_rationales.induct)
  case (2 n v why entries m)
  have split: "{n + j | j. j < length ((v, why) # entries) \<and> snd (((v, why) # entries) ! j) \<noteq> None} =
    (if why = None then {} else {n}) \<union> {Suc n + j | j. j < length entries \<and> snd (entries ! j) \<noteq> None}"
    (is "?l = ?r")
  proof (intro set_eqI iffI)
    fix x
    assume "x \<in> ?l"
    then obtain j where "x = n + j" "j < length ((v, why) # entries)" "snd (((v, why) # entries) ! j) \<noteq> None" by blast
    then show "x \<in> ?r" by (cases j) auto
  next
    fix x
    assume "x \<in> ?r"
    then consider "why \<noteq> None" "x = n" | j where "x = Suc n + j" "j < length entries" "snd (entries ! j) \<noteq> None"
      by (auto split: if_splits)
    then show "x \<in> ?l"
    proof cases
      case 1
      then show ?thesis by (intro CollectI exI [of _ 0]) simp
    next
      case 2
      then show ?thesis by (intro CollectI exI [of _ "Suc j"]) simp
    qed
  qed
  show ?case
  proof (cases why)
    case None
    with 2(1) [OF None] split show ?thesis by simp
  next
    case (Some w)
    with 2(2) [OF Some] split set_fst_bt_insert [of n w m] show ?thesis by simp
  qed
qed simp

lemma collect_rationales_values:
  "(i, w) \<in> set (collect_rationales n entries m) \<Longrightarrow> (i, w) \<in> set m \<or> (\<exists>v. (v, Some w) \<in> set entries)"
proof (induction n entries m rule: collect_rationales.induct)
  case (2 n v why entries m)
  then show ?case using bt_insert_subset by (cases why) fastforce+
qed simp

text \<open>The shuffled entries: distinct values, the correct one and only it without a rationale.\<close>

definition entries_ok :: "int \<Rightarrow> (int \<times> string) list \<Rightarrow> entry list \<Rightarrow> bool" where
  "entries_ok c ds entries \<longleftrightarrow> distinct (map fst entries) \<and> (c, None) \<in> set entries \<and>
     (\<forall>(v, why) \<in> set entries. (why = None \<longrightarrow> v = c) \<and> (\<forall>w. why = Some w \<longrightarrow> (v, w) \<in> set ds))"

lemma entries_ok_added: "entries_ok c ds (add_distractors [(c, None)] ds)"
  using add_distractors_distinct [of "[(c, None)]" ds] add_distractors_shape [of "[(c, None)]" ds]
  by (auto simp: entries_ok_def)

lemma entries_ok_permuted:
  assumes "mset es' = mset es" "entries_ok c ds es"
  shows "entries_ok c ds es'"
proof -
  have "mset (map fst es') = mset (map fst es)" using assms(1) by simp
  then have "distinct (map fst es') = distinct (map fst es)" by (rule mset_eq_imp_distinct_iff)
  moreover have "set es' = set es" using assms(1) by (rule mset_eq_setD)
  ultimately show ?thesis using assms(2) by (simp add: entries_ok_def)
qed

lemma entries_ok_index:
  assumes "entries_ok c ds es"
  obtains i where "find_index (\<lambda>(_, why). why = None) es = Some i" "i < length es" "es ! i = (c, None)"
    "\<And>j. j < length es \<Longrightarrow> snd (es ! j) = None \<longleftrightarrow> j = i"
proof -
  obtain i where f: "find_index (\<lambda>(_, why). why = None) es = Some i"
    using assms find_index_None [of "\<lambda>(_, why). why = None" es] by (fastforce simp: entries_ok_def)
  from find_index_Some [OF f] have i: "i < length es" "snd (es ! i) = None" by (auto split: prod.splits)
  have val: "fst (es ! j) = c" if "j < length es" "snd (es ! j) = None" for j
  proof -
    have "es ! j \<in> set es" using that by simp
    with assms that show ?thesis by (cases "es ! j") (auto simp: entries_ok_def)
  qed
  have "j = i" if j: "j < length es" "snd (es ! j) = None" for j
  proof -
    have "map fst es ! j = map fst es ! i" using val [OF j] val [OF i] i j by simp
    with assms i j show ?thesis by (simp add: entries_ok_def nth_eq_iff_index_eq del: nth_map)
  qed
  moreover have "es ! i = (c, None)" using i val [OF i] by (simp add: prod_eq_iff)
  ultimately show ?thesis using that f i by blast
qed

text \<open>Everything an assembled item carries comes from such entries.\<close>

lemma assemble_entries:
  assumes "assemble template candidate rng seed = Some (Some item)"
  obtains es i where "entries_ok (cand_correct candidate) (cand_distractors candidate) es" "length es = 4" "i < 4"
    "es ! i = (cand_correct candidate, None)" "\<And>j. j < 4 \<Longrightarrow> snd (es ! j) = None \<longleftrightarrow> j = i"
    "\<not> prints_a_distractor template candidate es"
    "item = \<lparr>item_subtest = template_subtest template, item_objective_id = template_objective template,
      item_template_id = template_id template, item_stem = cand_stem candidate,
      options = map (\<lambda>(v, _). show_int v) es, correct_index = i, item_expression = cand_expression candidate,
      item_answer = show_int (cand_correct candidate), distractor_rationales = collect_rationales 0 es [],
      item_difficulty = cand_difficulty candidate, item_seed = seed\<rparr>"
proof -
  define es0 where "es0 = add_distractors [(cand_correct candidate, None)] (cand_distractors candidate)"
  obtain es rng' where es: "rng_shuffle rng es0 = (es, rng')" by fastforce
  from assms have len: "length es0 = 4" and np: "\<not> prints_a_distractor template candidate es0"
    by (auto simp: assemble_def Let_def es0_def split: if_splits)
  have perm: "mset es = mset es0" using mset_rng_shuffle [of es0 rng] len es by simp
  have ok: "entries_ok (cand_correct candidate) (cand_distractors candidate) es"
    using entries_ok_permuted [OF perm] entries_ok_added by (simp add: es0_def)
  obtain i where i: "find_index (\<lambda>(_, why). why = None) es = Some i" "i < length es"
      "es ! i = (cand_correct candidate, None)" "\<And>j. j < length es \<Longrightarrow> snd (es ! j) = None \<longleftrightarrow> j = i"
    using entries_ok_index [OF ok] by blast
  have lens: "length es = 4" using perm len mset_eq_length by metis
  have "set es = set es0" using perm by (rule mset_eq_setD)
  then have "\<not> prints_a_distractor template candidate es"
    using np by (simp add: prints_a_distractor_def Let_def list_ex_iff)
  moreover have "item = \<lparr>item_subtest = template_subtest template, item_objective_id = template_objective template,
      item_template_id = template_id template, item_stem = cand_stem candidate,
      options = map (\<lambda>(v, _). show_int v) es, correct_index = i, item_expression = cand_expression candidate,
      item_answer = show_int (cand_correct candidate), distractor_rationales = collect_rationales 0 es [],
      item_difficulty = cand_difficulty candidate, item_seed = seed\<rparr>"
    using assms es i(1) by (simp add: assemble_def Let_def es0_def [symmetric] split: if_splits)
  ultimately show ?thesis using that ok lens i(2-4) by auto
qed

section \<open>The contract of the answer check\<close>

text \<open>What an item must be to pass: \<open>v\<close> is the value the answer check establishes.\<close>

definition well_posed :: "generated_item \<Rightarrow> int \<Rightarrow> bool" where
  "well_posed item v \<longleftrightarrow>
     trim (item_stem item) \<noteq> [] \<and> 2 \<le> length (options item) \<and> correct_index item < length (options item) \<and>
     distinct (options item) \<and> list_all (\<lambda>option. trim option \<noteq> []) (options item) \<and>
     list_all (\<lambda>i. parse_i128 (trim (options item ! i)) = Some v \<longleftrightarrow> i = correct_index item)
       [0..<length (options item)] \<and>
     set (map fst (distractor_rationales item)) = {i. i < length (options item) \<and> i \<noteq> correct_index item} \<and>
     list_all (\<lambda>(_, rationale). trim rationale \<noteq> []) (distractor_rationales item)"

lemma check_options_iff:
  "check_options v correct earlier later = Ok () \<longleftrightarrow>
    distinct later \<and> set earlier \<inter> set later = {} \<and> (\<forall>option \<in> set later. trim option \<noteq> []) \<and>
    (\<forall>j < length later. length earlier + j \<noteq> correct \<longrightarrow> parse_i128 (trim (later ! j)) \<noteq> Some v)"
proof (induction v correct earlier later rule: check_options.induct)
  case (2 v correct earlier option later)
  have "(\<forall>j < length (option # later). length earlier + j \<noteq> correct \<longrightarrow>
        parse_i128 (trim ((option # later) ! j)) \<noteq> Some v) \<longleftrightarrow>
      (length earlier \<noteq> correct \<longrightarrow> parse_i128 (trim option) \<noteq> Some v) \<and>
      (\<forall>j < length later. length (earlier @ [option]) + j \<noteq> correct \<longrightarrow> parse_i128 (trim (later ! j)) \<noteq> Some v)"
    by (simp add: All_less_Suc2)
  with 2 show ?case by (auto simp: Let_def)
qed simp

lemma check_coverage_iff:
  "check_coverage n correct rationales = Ok () \<longleftrightarrow>
    set (map fst rationales) = {i. i < n \<and> i \<noteq> correct}"
  by (auto simp: check_coverage_def Let_def filter_empty_conv)

lemma check_rationales_iff:
  "check_rationales m = Ok () \<longleftrightarrow> list_all (\<lambda>(_, rationale). trim rationale \<noteq> []) m"
  by (induction m rule: check_rationales.induct) auto

locale answer_route =
  fixes check :: "string \<Rightarrow> string \<Rightarrow> int outcome"
  assumes reads_answer: "check x a = Value v \<Longrightarrow> parse_i128 (trim a) = Some v"
    and accepts: "proves x v \<Longrightarrow> check x (show_int v) = Value v"
begin

lemma in_range: "proves x v \<Longrightarrow> parse_i128 (trim (show_int v)) = Some v"
  using accepts reads_answer by blast

lemma verified_iff:
  "verify_with check item = Some (Ok ()) \<longleftrightarrow>
    (\<exists>v. check (item_expression item) (item_answer item) = Value v \<and> well_posed item v)"
proof -
  have opts: "parse_i128 (trim (options item ! correct_index item)) = Some v \<and>
      (\<forall>j < length (options item). j \<noteq> correct_index item \<longrightarrow> parse_i128 (trim (options item ! j)) \<noteq> Some v) \<longleftrightarrow>
      list_all (\<lambda>i. parse_i128 (trim (options item ! i)) = Some v \<longleftrightarrow> i = correct_index item) [0..<length (options item)]"
    if "correct_index item < length (options item)" for v
    using that by (auto simp: list_all_iff)
  have run: "verify_with check item = Some (Ok ()) \<longleftrightarrow> well_posed item v"
    if "check (item_expression item) (item_answer item) = Value v" for v
  proof (cases "correct_index item < length (options item)")
    case True
    show ?thesis
      unfolding well_posed_def opts [OF True, symmetric]
      by (simp add: verify_with_def that Let_def try_bind_Ok_iff check_options_iff check_coverage_iff
          check_rationales_iff list_all_iff not_less [symmetric] True)
  qed (simp add: verify_with_def that well_posed_def)
  show ?thesis
    by (cases "check (item_expression item) (item_answer item)")
      (simp_all add: run, simp_all add: verify_with_def)
qed

text \<open>An item assembled from a good candidate passes.\<close>

lemma assembled_verified:
  assumes "good candidate" and "assemble template candidate rng seed = Some (Some item)"
  shows "verify_with check item = Some (Ok ())"
proof -
  obtain es i where ok: "entries_ok (cand_correct candidate) (cand_distractors candidate) es"
    and lens: "length es = 4" and i: "i < 4" "es ! i = (cand_correct candidate, None)"
      "\<And>j. j < 4 \<Longrightarrow> snd (es ! j) = None \<longleftrightarrow> j = i"
    and item': "item = \<lparr>item_subtest = template_subtest template, item_objective_id = template_objective template,
      item_template_id = template_id template, item_stem = cand_stem candidate,
      options = map (\<lambda>(v, _). show_int v) es, correct_index = i, item_expression = cand_expression candidate,
      item_answer = show_int (cand_correct candidate), distractor_rationales = collect_rationales 0 es [],
      item_difficulty = cand_difficulty candidate, item_seed = seed\<rparr>"
    using assemble_entries [OF assms(2)] by metis
  have item: "options item = map (\<lambda>(v, _). show_int v) es" "correct_index item = i"
      "item_stem item = cand_stem candidate" "item_expression item = cand_expression candidate"
      "item_answer item = show_int (cand_correct candidate)"
      "distractor_rationales item = collect_rationales 0 es []"
    by (simp_all add: item')
  have proof_ok: "proves (cand_expression candidate) (cand_correct candidate)"
    using assms(1) by (simp add: good_def)
  have opt: "options item ! j = show_int (fst (es ! j))" if "j < 4" for j
    using that lens by (simp add: item case_prod_unfold)
  have inj: "fst (es ! j) = cand_correct candidate \<longleftrightarrow> j = i" if "j < 4" for j
  proof -
    have "map fst es ! j = map fst es ! i \<longleftrightarrow> j = i"
      using ok that i(1) lens nth_eq_iff_index_eq [of "map fst es" j i] by (simp add: entries_ok_def del: nth_map)
    then show ?thesis using that i lens by simp
  qed
  have "distinct (map show_int (map fst es))"
    using ok by (simp add: entries_ok_def distinct_map inj_on_def)
  then have "distinct (options item)" by (simp add: item case_prod_unfold comp_def)
  moreover have "parse_i128 (trim (options item ! j)) = Some (cand_correct candidate) \<longleftrightarrow> j = i" if "j < 4" for j
  proof -
    have "parse_i128 (show_int v) = Some (cand_correct candidate) \<longleftrightarrow> v = cand_correct candidate" for v
      using in_range [OF proof_ok] parse_i128_show_int_Some [of v] by (auto simp: trim_show_int)
    then show ?thesis using opt [OF that] inj [OF that] by (simp add: trim_show_int)
  qed
  moreover have "set (map fst (distractor_rationales item)) = {j. j < 4 \<and> j \<noteq> i}"
    using collect_rationales_keys [of 0 es "[]"] i lens by (auto simp: item)
  moreover have "list_all (\<lambda>(_, rationale). trim rationale \<noteq> []) (distractor_rationales item)"
    using collect_rationales_values [of _ _ 0 es "[]"] ok assms(1)
    by (fastforce simp: item list_all_iff entries_ok_def good_def)
  moreover have "length (options item) = 4" using lens by (simp add: item)
  moreover have "trim (item_stem item) \<noteq> []" using assms(1) by (simp add: item good_def)
  moreover have "list_all (\<lambda>option. trim option \<noteq> []) (options item)"
    by (simp add: item list_all_iff case_prod_unfold trim_show_int show_int_nonempty)
  ultimately have "well_posed item (cand_correct candidate)"
    using i(1) lens by (auto simp: well_posed_def item(2) list_all_iff)
  then show ?thesis
    using verified_iff accepts [OF proof_ok] by (auto simp: item)
qed

end

interpretation evaluator: answer_route verify_answer
proof
  show "parse_i128 (trim a) = Some v" if "verify_answer x a = Value v" for x a v
    using that verify_value by blast
  show "verify_answer x (show_int v) = Value v" if "proves x v" for x v
  proof -
    from that obtain e where e: "x = pp e" "printable e" "exact e" "bits e \<le> 120" "dval e = v"
      by (auto simp: proves_def)
    then have "evaluate x = Value v" and "in_i128 v"
      using evaluate_pp [OF e(2)] sem_exact [OF e(3,4)] in_i128_bits [OF exact_bound [OF e(3)] e(4)] by simp_all
    then show ?thesis by (simp add: verify_answer_def trim_show_int parse_i128_show_int)
  qed
qed

section \<open>Generated items\<close>

lemma templates_sound: "list_all (\<lambda>t. sound (template_build t rng)) TEMPLATES"
  by (simp add: TEMPLATES_def template_soundness)

lemma assemble_returns: "\<exists>x. assemble template candidate rng seed = Some x"
proof -
  define es0 where "es0 = add_distractors [(cand_correct candidate, None)] (cand_distractors candidate)"
  obtain es rng' where es: "rng_shuffle rng es0 = (es, rng')" by fastforce
  show ?thesis
  proof (cases "length es0 = 4")
    case True
    have "mset es = mset es0" using mset_rng_shuffle [of es0 rng] True es by simp
    then have "entries_ok (cand_correct candidate) (cand_distractors candidate) es"
      using entries_ok_permuted entries_ok_added es0_def by blast
    then show ?thesis
      using es by (elim entries_ok_index) (simp add: assemble_def es0_def [symmetric])
  qed (simp add: assemble_def es0_def [symmetric])
qed

text \<open>
  No wrong option can be copied out of the stem: in the two arithmetic subtests none is a
  number the stem prints.
\<close>

definition uncopyable :: "generated_item \<Rightarrow> bool" where
  "uncopyable item \<longleftrightarrow> (item_subtest item = ''AR'' \<or> item_subtest item = ''MK'' \<longrightarrow>
     list_all (\<lambda>i. i \<noteq> correct_index item \<longrightarrow> options item ! i \<notin> numbers_printed_in (item_stem item))
       [0..<length (options item)])"

text \<open>The marked option is the declared answer, and name, subtest and objective are those of a template.\<close>

definition states_answer :: "generated_item \<Rightarrow> bool" where
  "states_answer item \<longleftrightarrow> correct_index item < length (options item) \<and> options item ! correct_index item = item_answer item \<and>
     (\<exists>t \<in> set TEMPLATES. item_template_id item = template_id t \<and> item_subtest item = template_subtest t \<and>
        item_objective_id item = template_objective t)"

lemma assemble_facts:
  assumes "assemble template candidate rng seed = Some (Some item)"
  shows "item_subtest item = template_subtest template" and "uncopyable item" and "template \<in> set TEMPLATES \<Longrightarrow> states_answer item"
proof -
  obtain es i where lens: "length es = 4" and at: "i < 4" "es ! i = (cand_correct candidate, None)"
    and i: "\<And>j. j < 4 \<Longrightarrow> snd (es ! j) = None \<longleftrightarrow> j = i"
    and np: "\<not> prints_a_distractor template candidate es"
    and item: "item = \<lparr>item_subtest = template_subtest template, item_objective_id = template_objective template,
      item_template_id = template_id template, item_stem = cand_stem candidate,
      options = map (\<lambda>(v, _). show_int v) es, correct_index = i, item_expression = cand_expression candidate,
      item_answer = show_int (cand_correct candidate), distractor_rationales = collect_rationales 0 es [],
      item_difficulty = cand_difficulty candidate, item_seed = seed\<rparr>"
    using assemble_entries [OF assms] by metis
  show "item_subtest item = template_subtest template" by (simp add: item)
  show "states_answer item" if "template \<in> set TEMPLATES" using that at lens by (auto simp: states_answer_def item)
  show "uncopyable item"
    unfolding uncopyable_def list_all_iff
  proof (intro impI ballI)
    fix j
    assume ar: "item_subtest item = ''AR'' \<or> item_subtest item = ''MK''"
      and "j \<in> set [0..<length (options item)]" and ne: "j \<noteq> correct_index item"
    then have j: "j < 4" by (simp add: item lens)
    then have "es ! j \<in> set es" and "snd (es ! j) \<noteq> None" using lens i ne by (auto simp: item)
    then have "show_int (fst (es ! j)) \<notin> numbers_printed_in (cand_stem candidate)"
      using np ar by (auto simp: prints_a_distractor_def Let_def list_ex_iff item case_prod_unfold)
    then show "options item ! j \<notin> numbers_printed_in (item_stem item)"
      using j lens by (simp add: item case_prod_unfold)
  qed
qed

text \<open>What the result of a call may be: absent, or verified, of the subtest, and not copyable.\<close>

definition acceptable :: "string \<Rightarrow> generated_item option option \<Rightarrow> bool" where
  "acceptable subtest x \<longleftrightarrow> (case x of None \<Rightarrow> False | Some None \<Rightarrow> True
     | Some (Some item) \<Rightarrow> verify item = Some (Ok ()) \<and> item_subtest item = subtest \<and> uncopyable item \<and> states_answer item)"

lemma attempt_loop_acceptable:
  assumes "choices \<noteq> []" "length choices < 2 ^ 64"
    and "\<forall>t \<in> set choices. t \<in> set TEMPLATES \<and> template_subtest t = subtest \<and> (\<forall>rng. sound (template_build t rng))"
  shows "acceptable subtest (attempt_loop choices seed attempts)"
proof (induction attempts)
  case Nil
  show ?case by (simp add: acceptable_def)
next
  case (Cons attempt attempts)
  let ?s = "seed XOR (word_of_nat attempt * 0x9E3779B97F4A7C15)"
  obtain u r where u: "next_u64 ?s = (u, r)" by fastforce
  let ?i = "unat (u mod word_of_nat (length choices))"
  have "unat (word_of_nat (length choices) :: 64 word) = length choices"
    using assms(2) by (simp add: unat_of_nat take_bit_nat_eq_self)
  then have i: "?i < length choices" using assms(1) by (simp add: unat_mod_distrib)
  define t where "t = choices ! ?i"
  have t: "template_subtest t = subtest" "t \<in> set TEMPLATES" "sound (template_build t (?s XOR 0xA5A55A5A12345678))"
    using assms(3) i by (auto simp: t_def)
  then obtain c r' where b: "template_build t (?s XOR 0xA5A55A5A12345678) = Some (c, r')"
    by (auto simp: sound_def split: option.splits)
  show ?case
  proof (cases c)
    case None
    then show ?thesis using Cons i u b by (simp add: Let_def index_vec_def t_def)
  next
    case (Some candidate)
    obtain x where x: "assemble t candidate (?s XOR 0x0F0FF0F0DEADBEEF) seed = Some x"
      using assemble_returns by blast
    have good: "good candidate" using t(3) b Some by (simp add: sound_def)
    show ?thesis
    proof (cases x)
      case None
      then show ?thesis using Cons i u b x Some by (simp add: Let_def index_vec_def t_def)
    next
      case (Some item)
      from x Some have "verify item = Some (Ok ())" "item_subtest item = subtest" "uncopyable item" "states_answer item"
        using evaluator.assembled_verified [OF good] assemble_facts t(1,2) by (auto simp: verify_def)
      then show ?thesis
        using i u b x Some \<open>c = Some candidate\<close> by (simp add: Let_def index_vec_def t_def acceptable_def)
    qed
  qed
qed

lemma generate_one_acceptable: "acceptable subtest (generate_one subtest seed)"
proof -
  let ?c = "filter (\<lambda>t. template_subtest t = subtest) TEMPLATES"
  have "length ?c \<le> length TEMPLATES" by (rule length_filter_le)
  also have "length TEMPLATES < 2 ^ 64" by (simp add: TEMPLATES_def)
  finally have l: "length ?c < 2 ^ 64" .
  have "acceptable subtest (attempt_loop ?c seed [0..<64])" if "?c \<noteq> []"
    by (rule attempt_loop_acceptable [OF that l]) (use templates_sound in \<open>auto simp: list_all_iff\<close>)
  moreover have "acceptable subtest (Some None)" by (simp add: acceptable_def)
  ultimately show ?thesis unfolding generate_one_def Let_def by (simp only: if_split) blast
qed

definition question :: "generated_item \<Rightarrow> string \<times> string" where
  "question item = (item_stem item, item_answer item)"

lemma many_loop_result:
  assumes "length out \<le> wanted" "distinct (map question out)" "seen = set (map question out)"
    and "list_all (\<lambda>i. verify i = Some (Ok ()) \<and> item_subtest i = subtest \<and> states_answer i) out"
  shows "\<exists>items. many_loop left subtest wanted seed seen out = Some items \<and> length items \<le> wanted \<and>
    distinct (map question items) \<and> list_all (\<lambda>i. verify i = Some (Ok ()) \<and> item_subtest i = subtest \<and> states_answer i) items"
  using assms
proof (induction left arbitrary: seed seen out)
  case (Suc left)
  let ?s = "seed + 0x9E3779B97F4A7C15"
  show ?case
  proof (cases "length out < wanted")
    case True
    from generate_one_acceptable [of subtest ?s] obtain x where x: "generate_one subtest ?s = Some x"
      by (auto simp: acceptable_def split: option.splits)
    show ?thesis
    proof (cases x)
      case None
      then show ?thesis using True Suc x by simp
    next
      case (Some item)
      have item: "verify item = Some (Ok ())" "item_subtest item = subtest" "states_answer item"
        using generate_one_acceptable [of subtest ?s] by (simp_all add: x Some acceptable_def)
      show ?thesis
      proof (cases "question item \<in> seen")
        case True
        then show ?thesis using \<open>length out < wanted\<close> Suc x Some by (simp add: Let_def question_def)
      next
        case False
        then show ?thesis
          using \<open>length out < wanted\<close> Suc.prems Suc.IH [of "out @ [item]" "insert (question item) seen" ?s] x Some item
          by (simp add: Let_def question_def)
      qed
    qed
  qed (use Suc in simp)
qed simp

lemma generate_many_result:
  "\<exists>items. generate_many subtest wanted seed = Some items \<and> length items \<le> wanted \<and> distinct (map question items) \<and>
    list_all (\<lambda>i. verify i = Some (Ok ()) \<and> item_subtest i = subtest \<and> states_answer i) items"
  using many_loop_result [of "[]" wanted "{}" subtest "attempt_limit wanted" seed] by (simp add: generate_many_def)

section \<open>Digit runs\<close>

text \<open>\<open>s\<close> is a maximal run of digits of \<open>text\<close>: no digit stands directly before or after it.\<close>

definition digit_run :: "string \<Rightarrow> string \<Rightarrow> bool" where
  "digit_run text s \<longleftrightarrow> s \<noteq> [] \<and> list_all is_digit s \<and>
     (\<exists>pre post. text = pre @ s @ post \<and> (pre = [] \<or> \<not> is_digit (last pre)) \<and>
       (post = [] \<or> \<not> is_digit (hd post)))"

lemma append_split:
  assumes "xs @ ys = zs @ ts"
  obtains us where "xs = zs @ us" "us @ ys = ts" | us where "zs = xs @ us" "ys = us @ ts"
  using assms by (metis append_eq_append_conv2)

lemma digit_run_end:
  assumes cur: "list_all is_digit cur"
  shows "digit_run cur s \<longleftrightarrow> s = cur \<and> cur \<noteq> []"
proof
  assume "digit_run cur s"
  then obtain pre post where s: "s \<noteq> []" "cur = pre @ s @ post"
    "pre = [] \<or> \<not> is_digit (last pre)" "post = [] \<or> \<not> is_digit (hd post)"
    unfolding digit_run_def by blast
  with cur have "pre = []" "post = []" by (auto simp: list_all_iff)
  with s show "s = cur \<and> cur \<noteq> []" by simp
next
  assume "s = cur \<and> cur \<noteq> []"
  with cur show "digit_run cur s"
    unfolding digit_run_def by (intro conjI exI [of _ "[]"]) simp_all
qed

lemma digit_run_skip: "\<not> is_digit c \<Longrightarrow> digit_run text s \<Longrightarrow> digit_run (cur @ c # text) s"
proof -
  assume c: "\<not> is_digit c" and "digit_run text s"
  then obtain pre post where s: "s \<noteq> []" "list_all is_digit s" "text = pre @ s @ post"
    "pre = [] \<or> \<not> is_digit (last pre)" "post = [] \<or> \<not> is_digit (hd post)"
    unfolding digit_run_def by blast
  then have "cur @ c # text = (cur @ c # pre) @ s @ post \<and> \<not> is_digit (last (cur @ c # pre))"
    using c by auto
  with s show ?thesis unfolding digit_run_def by blast
qed

lemma digit_run_here: "list_all is_digit cur \<Longrightarrow> cur \<noteq> [] \<Longrightarrow> \<not> is_digit c \<Longrightarrow> digit_run (cur @ c # text) cur"
  unfolding digit_run_def by (intro conjI exI [of _ "[]"] exI [of _ "c # text"]) simp_all

lemma digit_run_split:
  assumes cur: "list_all is_digit cur" and c: "\<not> is_digit c" and run: "digit_run (cur @ c # text) s"
  shows "s = cur \<or> digit_run text s"
proof -
  from run obtain pre post where s: "s \<noteq> []" "list_all is_digit s" and eq: "cur @ c # text = pre @ s @ post"
    and b: "pre = [] \<or> \<not> is_digit (last pre)" "post = [] \<or> \<not> is_digit (hd post)"
    unfolding digit_run_def by blast
  from eq show ?thesis
  proof (cases rule: append_split)
    case (2 us)
    with s c obtain us' where us: "us = c # us'" by (cases us) (auto simp: neq_Nil_conv)
    with 2 b s have "digit_run text s"
      unfolding digit_run_def by (intro conjI exI [of _ us'] exI [of _ post]) (auto split: if_splits)
    then show ?thesis ..
  next
    case (1 us)
    have pre: "pre = []"
      using b(1) cur 1(1) by (cases pre rule: rev_cases) auto
    with 1 have "cur @ c # text = s @ post" by simp
    then show ?thesis
    proof (cases rule: append_split)
      case (1 vs)
      with b(2) cur show ?thesis by (cases vs) auto
    next
      case (2 vs)
      with s(2) c show ?thesis by (cases vs) auto
    qed
  qed
qed

lemma numbers_loop_iff:
  "list_all is_digit cur \<Longrightarrow> s \<in> numbers_loop cur out unread \<longleftrightarrow> s \<in> out \<or> digit_run (cur @ unread) s"
proof (induction cur out unread rule: numbers_loop.induct)
  case (1 current out)
  then show ?case by (auto simp: digit_run_end)
next
  case (2 current out ch unread)
  have "digit_run (current @ ch # unread) s \<longleftrightarrow> s = current \<and> current \<noteq> [] \<or> digit_run unread s"
    if "\<not> is_digit ch"
  proof
    assume run: "digit_run (current @ ch # unread) s"
    then have "s \<noteq> []" by (simp add: digit_run_def)
    with digit_run_split [OF 2(4) that run] show "s = current \<and> current \<noteq> [] \<or> digit_run unread s" by auto
  qed (use 2(4) that digit_run_here digit_run_skip in blast)
  with 2 show ?case by auto
qed

section \<open>Properties\<close>

text \<open>
  Every item the factory generates passes the independent verification: for every
  subtest and seed the call returns without a panic, and an item it returns is accepted by
  \<open>verify\<close>, which reads the expression's text through its own parser.
\<close>

theorem generate_one_verified:
  "case generate_one subtest seed of
     None \<Rightarrow> False
   | Some None \<Rightarrow> True
   | Some (Some item) \<Rightarrow> verify item = Some (Ok ()) \<and> item_subtest item = subtest"
  using generate_one_acceptable [of subtest seed] by (auto simp: acceptable_def split: option.splits)

text \<open>
  C5. A batch never exceeds the requested size, holds no question twice (same stem and
  answer), and consists of verified items of the subtest; the loop ends for every seed.
\<close>

theorem generate_many_distinct_verified:
  "\<exists>items. generate_many subtest wanted seed = Some items \<and> length items \<le> wanted \<and>
     distinct (map (\<lambda>item. (item_stem item, item_answer item)) items) \<and>
     list_all (\<lambda>item. verify item = Some (Ok ()) \<and> item_subtest item = subtest) items"
  using generate_many_result [of subtest wanted seed] by (auto simp: question_def [abs_def] list_all_iff)

text \<open>
  In the two arithmetic subtests no wrong option of a generated item is a number that
  the stem prints, so it cannot be copied out of the question.
\<close>

theorem generated_not_copyable:
  "case generate_one subtest seed of
     Some (Some item) \<Rightarrow>
       (if subtest = ''AR'' \<or> subtest = ''MK''
        then filter (\<lambda>i. i \<noteq> correct_index item \<and> options item ! i \<in> numbers_printed_in (item_stem item))
               [0..<length (options item)] = []
        else True)
   | _ \<Rightarrow> True"
  using generate_one_acceptable [of subtest seed]
  by (auto simp: acceptable_def uncopyable_def list_all_iff filter_empty_conv split: option.splits)

text \<open>
  What acceptance means: \<open>verify\<close> accepts an item exactly when the answer check
  establishes a value \<open>v\<close> and the item is well posed for it: the stem and all options and
  rationales are not blank, the options differ, the option at \<open>correct_index\<close> and no other
  denotes \<open>v\<close>, and the rationales cover exactly the wrong options.
\<close>

theorem verify_iff:
  "verify item = Some (Ok ()) \<longleftrightarrow>
    (\<exists>v. verify_answer (item_expression item) (item_answer item) = Value v \<and> well_posed item v)"
  unfolding verify_def by (rule evaluator.verified_iff)

text \<open>
  \<open>Rng::range\<close> returns a value of the closed range it is given, and panics only for an
  empty one (or one whose width overflows \<open>i64\<close>).
\<close>

theorem rng_range_in_bounds:
  "case rng_range rng low high of
     None \<Rightarrow> high < low \<or> 2 ^ 63 \<le> high - low
   | Some (v, _) \<Rightarrow> low \<le> v \<and> v \<le> high"
proof (cases "low \<le> high \<and> high - low < 2 ^ 63")
  case True
  then obtain v r where "rng_range rng low high = Some (v, r)" "low \<le> v" "v \<le> high"
    using rng_range_bounds by blast
  then show ?thesis by simp
qed (auto simp: rng_range_def)

text \<open>The shuffle rearranges: no entry is lost, duplicated or invented.\<close>

theorem shuffle_permutes: "length items < 2 ^ 64 \<Longrightarrow> mset (fst (rng_shuffle rng items)) = mset items"
  by (rule mset_rng_shuffle)

theorem shuffle_permutes_witness:
  "mset (fst (rng_shuffle 7 [10, 20, 30, 40 :: int])) = mset [10, 20, 30, 40]"
  by (rule shuffle_permutes) simp

text \<open>
  \<open>numbers_printed_in\<close> finds exactly the maximal runs of digits of a text: the numbers
  as they are printed, never a part of one.
\<close>

theorem numbers_printed_in_iff: "s \<in> numbers_printed_in stem \<longleftrightarrow> digit_run stem s"
  using numbers_loop_iff [of "[]" s "{}" stem] by (simp add: numbers_printed_in_def)

end
