(* ===== verification/Exam.thy ===== *)
theory Exam
  imports Prelude
begin

text \<open>
  The exam simulator, \<open>crates/vector-domain/src/exam.rs\<close>: timing profiles, and the session
  with its navigation operations. An operation returns its result and the session after it.
  \<open>u32\<close> and \<open>usize\<close> values are natural numbers: the session only compares, counts and
  subtracts with saturation, except for the sum of the seconds in \<open>start\<close>, whose overflow
  panics (\<^const>\<open>None\<close>). \<open>str::to_lowercase\<close> is Unicode's and is the parameter \<open>lc\<close>.
\<close>

datatype exam_form = Cat | Paper

fun allows_backtracking :: "exam_form \<Rightarrow> bool" where
  "allows_backtracking Cat = False"
| "allows_backtracking Paper = True"

lemma allows_backtracking_iff [simp]: "allows_backtracking f \<longleftrightarrow> f = Paper"
  by (cases f) auto

section \<open>Timing profiles\<close>

record timing_profile =
  profile_id :: string
  profile_version :: nat
  profile_form :: exam_form
  per_subtest_seconds :: "(string \<times> nat) list"
  profile_pausable :: bool
  source_reviewed_on :: string

definition seconds_for :: "timing_profile \<Rightarrow> string \<Rightarrow> nat option" where
  "seconds_for profile subtest =
     map_option snd (List.find (\<lambda>(code, _). eq_ignore_case code subtest) (per_subtest_seconds profile))"

fun check_subtests :: "(string \<times> nat) list \<Rightarrow> (unit, string) result" where
  "check_subtests [] = Ok ()"
| "check_subtests ((code, seconds) # rest) =
     (if trim code = [] then Err ''subtest code must not be empty''
      else if seconds = 0 then Err (''subtest '' @ code @ '' has zero time'')
      else check_subtests rest)"

definition validate :: "(string \<Rightarrow> string) \<Rightarrow> timing_profile \<Rightarrow> (unit, string) result" where
  "validate lc profile =
     (if trim (profile_id profile) = [] then Err ''timing profile id must not be empty''
      else if profile_version profile = 0 then Err ''timing profile version must be >= 1''
      else if per_subtest_seconds profile = []
      then Err ''timing profile must cover at least one subtest''
      else try_bind (check_subtests (per_subtest_seconds profile)) (\<lambda>_.
        let codes = map (\<lambda>(c, _). lc c) (per_subtest_seconds profile) in
        if length (sort_dedup codes) \<noteq> length codes
        then Err ''duplicate subtest code in timing profile''
        else Ok ()))"

section \<open>Sessions\<close>

record exam_session =
  session_profile_id :: string
  session_profile_version :: nat
  form :: exam_form
  items :: "string list"
  cursor :: nat
  answers :: "(nat \<times> nat option) list"
  locked :: "nat list"
  remaining_seconds :: nat
  finished :: bool

datatype exam_error =
    OutOfRange nat nat
  | BacktrackingForbidden
  | AlreadyFinished
  | TimeExpired
  | InvalidOption nat

definition OPTIONS_PER_ITEM :: nat where
  "OPTIONS_PER_ITEM = 4"

definition start :: "(string \<Rightarrow> string) \<Rightarrow> timing_profile \<Rightarrow> string list \<Rightarrow> (exam_session, string) result option" where
  "start lc profile questions =
     (case validate lc profile of
        Err e \<Rightarrow> Some (Err e)
      | Ok _ \<Rightarrow>
          if questions = [] then Some (Err ''an exam session requires at least one item'')
          else let remaining = sum_list (map snd (per_subtest_seconds profile)) in
            if 2 ^ 32 \<le> remaining then None
            else Some (Ok \<lparr>
              session_profile_id = profile_id profile,
              session_profile_version = profile_version profile,
              form = profile_form profile,
              items = questions,
              cursor = 0,
              answers = [(0, None)],
              locked = [],
              remaining_seconds = remaining,
              finished = False\<rparr>))"

definition current_item :: "exam_session \<Rightarrow> string option" where
  "current_item s = (if cursor s < length (items s) then Some (items s ! cursor s) else None)"

definition check_playable :: "exam_session \<Rightarrow> (unit, exam_error) result" where
  "check_playable s =
     (if finished s then Err AlreadyFinished
      else if remaining_seconds s = 0 then Err TimeExpired
      else Ok ())"

fun set_slot :: "nat \<Rightarrow> nat option \<Rightarrow> (nat \<times> nat option) list \<Rightarrow> (nat \<times> nat option) list" where
  "set_slot index value [] = [(index, value)]"
| "set_slot index value ((i, v) # slots) =
     (if i = index then (i, value) # slots else (i, v) # set_slot index value slots)"

definition set_answer :: "nat \<Rightarrow> nat option \<Rightarrow> exam_session \<Rightarrow> exam_session" where
  "set_answer index value s = s\<lparr>answers := set_slot index value (answers s)\<rparr>"

definition answer_at :: "exam_session \<Rightarrow> nat \<Rightarrow> nat option option" where
  "answer_at s index = map_option snd (List.find (\<lambda>(i, _). i = index) (answers s))"

type_synonym exam_step = "(unit, exam_error) result \<times> exam_session"

text \<open>An operation that begins with \<open>self.check_playable()?\<close>.\<close>

definition playing :: "exam_session \<Rightarrow> exam_step \<Rightarrow> exam_step" where
  "playing s continue = (case check_playable s of Err e \<Rightarrow> (Err e, s) | Ok _ \<Rightarrow> continue)"

definition answer :: "nat \<Rightarrow> exam_session \<Rightarrow> exam_step" where
  "answer option s = playing s
     (if OPTIONS_PER_ITEM \<le> option then (Err (InvalidOption option), s)
      else if form s = Cat \<and> cursor s \<in> set (locked s) then (Err BacktrackingForbidden, s)
      else let s = set_answer (cursor s) (Some option) s in
        (Ok (), if form s = Cat then s\<lparr>locked := locked s @ [cursor s]\<rparr> else s))"

definition ensure_slot :: "nat \<Rightarrow> exam_session \<Rightarrow> exam_session" where
  "ensure_slot index s = (if answer_at s index = None then set_answer index None s else s)"

definition advance :: "exam_session \<Rightarrow> exam_step" where
  "advance s = playing s
     (if length (items s) \<le> cursor s + 1 then (Ok (), s\<lparr>finished := True\<rparr>)
      else let s = s\<lparr>cursor := cursor s + 1\<rparr> in (Ok (), ensure_slot (cursor s) s))"

definition skip :: "exam_session \<Rightarrow> exam_step" where
  "skip s = playing s (advance (set_answer (cursor s) None s))"

definition previous :: "exam_session \<Rightarrow> exam_step" where
  "previous s = playing s
     (if \<not> allows_backtracking (form s) then (Err BacktrackingForbidden, s)
      else if cursor s = 0 then (Err (OutOfRange 0 (length (items s))), s)
      else (Ok (), s\<lparr>cursor := cursor s - 1\<rparr>))"

definition go_to :: "nat \<Rightarrow> exam_session \<Rightarrow> exam_step" where
  "go_to index s = playing s
     (if \<not> allows_backtracking (form s) then (Err BacktrackingForbidden, s)
      else if length (items s) \<le> index then (Err (OutOfRange index (length (items s))), s)
      else (Ok (), ensure_slot index (s\<lparr>cursor := index\<rparr>)))"

definition revise :: "nat \<Rightarrow> nat \<Rightarrow> exam_session \<Rightarrow> exam_step" where
  "revise index option s = playing s
     (if OPTIONS_PER_ITEM \<le> option then (Err (InvalidOption option), s)
      else if \<not> allows_backtracking (form s) \<or> index \<in> set (locked s)
      then (Err BacktrackingForbidden, s)
      else if length (items s) \<le> index then (Err (OutOfRange index (length (items s))), s)
      else (Ok (), set_answer index (Some option) s))"

text \<open>\<open>saturating_sub\<close> is the subtraction of natural numbers.\<close>

definition tick :: "nat \<Rightarrow> exam_session \<Rightarrow> exam_session" where
  "tick seconds s =
     (let s = s\<lparr>remaining_seconds := remaining_seconds s - seconds\<rparr> in
      if remaining_seconds s = 0 then s\<lparr>finished := True\<rparr> else s)"

definition pausable :: "exam_session \<Rightarrow> timing_profile \<Rightarrow> bool" where
  "pausable s profile \<longleftrightarrow> profile_pausable profile \<and> profile_id profile = session_profile_id s"

definition answered_count :: "exam_session \<Rightarrow> nat" where
  "answered_count s = length (filter (\<lambda>(_, v). v \<noteq> None) (answers s))"

definition is_complete :: "exam_session \<Rightarrow> bool" where
  "is_complete s \<longleftrightarrow>
     list_all (\<lambda>i. case answer_at s i of Some (Some _) \<Rightarrow> True | _ \<Rightarrow> False) [0..<length (items s)]"

definition default_profiles :: "timing_profile list" where
  "default_profiles = [
     \<lparr>profile_id = ''cat-standard'', profile_version = 1, profile_form = Cat,
      per_subtest_seconds = [(''AR'', 39 * 60), (''WK'', 11 * 60), (''PC'', 22 * 60),
        (''MK'', 20 * 60), (''GS'', 11 * 60)],
      profile_pausable = False, source_reviewed_on = ''2026-09-01''\<rparr>,
     \<lparr>profile_id = ''paper-standard'', profile_version = 1, profile_form = Paper,
      per_subtest_seconds = [(''AR'', 36 * 60), (''WK'', 11 * 60), (''PC'', 22 * 60),
        (''MK'', 24 * 60), (''GS'', 11 * 60)],
      profile_pausable = False, source_reviewed_on = ''2026-09-01''\<rparr>]"

section \<open>Runs of a session\<close>

datatype event =
    Answer nat
  | Advance
  | Skip
  | Previous
  | GoTo nat
  | Revise nat nat
  | Tick nat

fun perform :: "event \<Rightarrow> exam_session \<Rightarrow> exam_step" where
  "perform (Answer option) s = answer option s"
| "perform Advance s = advance s"
| "perform Skip s = skip s"
| "perform Previous s = previous s"
| "perform (GoTo index) s = go_to index s"
| "perform (Revise index option) s = revise index option s"
| "perform (Tick seconds) s = (Ok (), tick seconds s)"

definition after :: "event \<Rightarrow> exam_session \<Rightarrow> exam_session" where
  "after e s = snd (perform e s)"

text \<open>The sessions that a started session can become.\<close>

inductive session_reachable :: "(string \<Rightarrow> string) \<Rightarrow> exam_session \<Rightarrow> bool" for lc where
  started: "start lc profile questions = Some (Ok s) \<Longrightarrow> session_reachable lc s"
| event: "session_reachable lc s \<Longrightarrow> session_reachable lc (after e s)"

section \<open>Answer slots\<close>

named_theorems exam "the operations of a session, unfolded"

lemma answer_at_map_of: "answer_at s = map_of (answers s)"
  by (simp add: fun_eq_iff answer_at_def find_map_of)

lemma map_of_set_slot: "map_of (set_slot i v m) = (map_of m)(i \<mapsto> v)"
  by (induction i v m rule: set_slot.induct) auto

lemma keys_set_slot: "set (map fst (set_slot i v m)) = insert i (set (map fst m))"
  by (induction i v m rule: set_slot.induct) auto

lemma distinct_set_slot: "distinct (map fst m) \<Longrightarrow> distinct (map fst (set_slot i v m))"
proof (induction i v m rule: set_slot.induct)
  case (2 k x i v slots)
  then show ?case using keys_set_slot [of k x slots] by auto
qed simp

lemma set_set_slot: "set (set_slot i v m) \<subseteq> insert (i, v) (set m)"
  by (induction i v m rule: set_slot.induct) auto

lemma answer_at_set_answer: "answer_at (set_answer i v s) = (answer_at s)(i \<mapsto> v)"
  by (simp add: answer_at_map_of set_answer_def map_of_set_slot)

lemma set_answer_fields [simp]:
  "items (set_answer i v s) = items s" "cursor (set_answer i v s) = cursor s"
  "locked (set_answer i v s) = locked s" "form (set_answer i v s) = form s"
  "remaining_seconds (set_answer i v s) = remaining_seconds s" "finished (set_answer i v s) = finished s"
  by (simp_all add: set_answer_def)

lemma answer_at_updates [simp]:
  "answer_at (s\<lparr>cursor := c\<rparr>) = answer_at s" "answer_at (s\<lparr>locked := l\<rparr>) = answer_at s"
  "answer_at (s\<lparr>finished := f\<rparr>) = answer_at s" "answer_at (s\<lparr>remaining_seconds := r\<rparr>) = answer_at s"
  by (simp_all add: answer_at_map_of)

lemma ensure_slot_fields [simp]:
  "items (ensure_slot i s) = items s" "cursor (ensure_slot i s) = cursor s"
  "locked (ensure_slot i s) = locked s" "form (ensure_slot i s) = form s"
  "remaining_seconds (ensure_slot i s) = remaining_seconds s" "finished (ensure_slot i s) = finished s"
  by (simp_all add: ensure_slot_def)

lemma answer_at_ensure_slot:
  "answer_at (ensure_slot i s) j = (if j = i \<and> answer_at s i = None then Some None else answer_at s j)"
  by (simp add: ensure_slot_def answer_at_set_answer)

lemmas [exam] = after_def playing_def check_playable_def answer_def advance_def skip_def previous_def
  go_to_def revise_def tick_def Let_def

section \<open>The invariant of a session\<close>

definition answers_ok :: "exam_session \<Rightarrow> bool" where
  "answers_ok s \<longleftrightarrow> distinct (map fst (answers s)) \<and>
     (\<forall>(i, v) \<in> set (answers s). i < length (items s) \<and> (\<forall>option. v = Some option \<longrightarrow> option < OPTIONS_PER_ITEM))"

definition session_ok :: "exam_session \<Rightarrow> bool" where
  "session_ok s \<longleftrightarrow> cursor s < length (items s) \<and> answers_ok s \<and>
     distinct (locked s) \<and> (\<forall>i \<in> set (locked s). i \<le> cursor s) \<and> (form s = Paper \<longrightarrow> locked s = []) \<and>
     (remaining_seconds s = 0 \<longrightarrow> finished s)"

lemma answers_ok_set_answer:
  "answers_ok s \<Longrightarrow> i < length (items s) \<Longrightarrow> \<forall>option. v = Some option \<longrightarrow> option < OPTIONS_PER_ITEM \<Longrightarrow>
    answers_ok (set_answer i v s)"
  using set_set_slot [of i v "answers s"] distinct_set_slot [of "answers s" i v]
  by (fastforce simp: answers_ok_def set_answer_def)

lemma answers_ok_updates [simp]:
  "answers_ok (s\<lparr>cursor := c\<rparr>) = answers_ok s" "answers_ok (s\<lparr>locked := l\<rparr>) = answers_ok s"
  "answers_ok (s\<lparr>finished := f\<rparr>) = answers_ok s" "answers_ok (s\<lparr>remaining_seconds := r\<rparr>) = answers_ok s"
  by (simp_all add: answers_ok_def)

lemma answers_ok_ensure_slot: "answers_ok s \<Longrightarrow> i < length (items s) \<Longrightarrow> answers_ok (ensure_slot i s)"
  by (simp add: ensure_slot_def answers_ok_set_answer)

lemma session_ok_after: "session_ok s \<Longrightarrow> session_ok (after e s)"
  by (cases e)
    (auto simp: exam session_ok_def answers_ok_set_answer answers_ok_ensure_slot not_le
      intro: le_SucI split: exam_form.splits)

lemma check_subtests_positive: "check_subtests xs = Ok () \<Longrightarrow> xs \<noteq> [] \<Longrightarrow> \<exists>n \<in> set xs. snd n \<noteq> 0"
  by (induction xs rule: check_subtests.induct) (auto split: if_splits)

lemma start_ok:
  assumes "start lc profile questions = Some (Ok s)"
  shows "session_ok s \<and> \<not> finished s \<and> items s = questions \<and> form s = profile_form profile"
proof -
  from assms have v: "validate lc profile = Ok ()" and q: "questions \<noteq> []"
    by (auto simp: start_def Let_def split: result.splits if_splits)
  from v have "check_subtests (per_subtest_seconds profile) = Ok ()" "per_subtest_seconds profile \<noteq> []"
    by (auto simp: validate_def try_bind_Ok_iff split: if_splits)
  then have "\<exists>n \<in> set (per_subtest_seconds profile). snd n \<noteq> 0" by (rule check_subtests_positive)
  with assms q show ?thesis
    by (fastforce simp: start_def session_ok_def answers_ok_def Let_def split: result.splits if_splits)
qed

lemma reachable_ok: "session_reachable lc s \<Longrightarrow> session_ok s"
  by (induction rule: session_reachable.induct) (auto simp: session_ok_after dest: start_ok)

text \<open>The session a two-item exam on the first default profile starts with, after one answer.\<close>

definition sample :: exam_session where
  "sample = \<lparr>session_profile_id = ''cat-standard'', session_profile_version = 1, form = Cat,
     items = [''q1'', ''q2''], cursor = 0, answers = [(0, Some 2)], locked = [0],
     remaining_seconds = 6180, finished = False\<rparr>"

lemma sample_started:
  "\<exists>s. start (\<lambda>c. c) (hd default_profiles) [''q1'', ''q2''] = Some (Ok s) \<and> after (Answer 2) s = sample"
  by (simp add: start_def validate_def default_profiles_def trim_plain sort_dedup_def exam
      OPTIONS_PER_ITEM_def set_answer_def sample_def)

lemma sample_reachable: "session_reachable (\<lambda>c. c) sample"
  using sample_started session_reachable.intros by metis

section \<open>Properties\<close>

text \<open>
  C16. Every session that can be reached from \<open>start\<close> is well formed: the cursor and every
  answer slot are inside the exam, no item has two slots, every recorded option is one of
  the four, locked items are at or before the cursor (and the paper form locks none), and
  the clock is at zero only in a finished session, so no operation ever reports \<open>TimeExpired\<close>.
\<close>

theorem reachable_session_ok:
  "session_reachable lc s \<Longrightarrow> session_ok s \<and> check_playable s \<noteq> Err TimeExpired"
  using reachable_ok [of lc s] by (simp add: session_ok_def check_playable_def)

theorem reachable_session_ok_witness: "session_ok sample \<and> check_playable sample \<noteq> Err TimeExpired"
  by (rule reachable_session_ok [OF sample_reachable])

text \<open>The operations that would go back.\<close>

fun backtracks :: "event \<Rightarrow> bool" where
  "backtracks Previous = True"
| "backtracks (GoTo _) = True"
| "backtracks (Revise _ _) = True"
| "backtracks _ = False"

text \<open>
  On the computer-adaptive form a session never goes back: \<open>previous\<close>, \<open>go_to\<close> and \<open>revise\<close>
  are refused and change nothing, and no operation moves the cursor back, changes the form
  or unlocks an item.
\<close>

theorem cat_never_goes_back:
  assumes "form s = Cat"
  shows "form (after e s) = Cat \<and> cursor s \<le> cursor (after e s) \<and> set (locked s) \<subseteq> set (locked (after e s)) \<and>
    (backtracks e \<longrightarrow> after e s = s \<and> \<not> is_ok (fst (perform e s)))"
  using assms by (cases e) (auto simp: exam)

theorem cat_never_goes_back_witness: "after Previous sample = sample \<and> \<not> is_ok (fst (perform Previous sample))"
  using cat_never_goes_back [of sample Previous] by (simp add: sample_def)

text \<open>
  A committed answer of the computer-adaptive form is never changed by answering,
  advancing, revising or the clock; the one operation that touches the slot of a locked
  item is \<open>skip\<close> on the current item.
\<close>

theorem cat_locked_answer_kept:
  assumes "form s = Cat" "i \<in> set (locked s)" "e \<noteq> Skip \<or> i \<noteq> cursor s" "answer_at s i \<noteq> None"
  shows "answer_at (after e s) i = answer_at s i"
  using assms by (cases e) (auto simp: exam answer_at_set_answer answer_at_ensure_slot)

theorem cat_locked_answer_kept_witness: "answer_at (after (Answer 3) sample) 0 = Some (Some 2)"
  using cat_locked_answer_kept [of sample 0 "Answer 3"] by (simp add: sample_def answer_at_map_of)

text \<open>
  \<open>skip\<close> is that exception in fact: on the computer-adaptive form an answer that was
  given, and so locked, is erased when the learner then skips the item.
\<close>

theorem cat_skip_erases_locked_answer:
  "\<exists>s. start (\<lambda>c. c) (hd default_profiles) [''q1'', ''q2''] = Some (Ok s) \<and>
     answer_at (after (Answer 2) s) 0 = Some (Some 2) \<and> 0 \<in> set (locked (after (Answer 2) s)) \<and>
     answer_at (after Skip (after (Answer 2) s)) 0 = Some None"
  by (simp add: start_def validate_def default_profiles_def trim_plain sort_dedup_def exam
      OPTIONS_PER_ITEM_def answer_at_map_of set_answer_def ensure_slot_def)

text \<open>
  A refused operation leaves the session exactly as it was, and a finished session
  refuses everything but the clock.
\<close>

theorem refused_changes_nothing:
  "(case fst (perform e s) of Err _ \<Rightarrow> snd (perform e s) = s | Ok _ \<Rightarrow> True) \<and>
   (if finished s then (\<exists>t. e = Tick t) \<or> fst (perform e s) = Err AlreadyFinished else True)"
  by (cases e) (auto simp: exam split: result.splits if_splits)

lemma answered_keys:
  assumes "distinct (map fst m)"
  shows "length (filter (\<lambda>(_, v). v \<noteq> None) m) = card {i. \<exists>x. map_of m i = Some (Some x)}"
proof -
  let ?m = "filter (\<lambda>(_, v). v \<noteq> None) m"
  have "distinct (map fst ?m)" using assms by (simp add: distinct_map_filter)
  then have "length ?m = card (fst ` set ?m)"
    using distinct_card [of "map fst ?m"] by simp
  also have "fst ` set ?m = {i. \<exists>x. map_of m i = Some (Some x)}"
    using assms by (force simp: image_iff)
  finally show ?thesis .
qed

lemma committed_iff: "(case x of Some (Some _) \<Rightarrow> True | _ \<Rightarrow> False) \<longleftrightarrow> (\<exists>o'. x = Some (Some o'))"
  by (auto split: option.splits)

text \<open>
  A well-formed session is complete exactly when as many options are committed as it
  has items, and never counts more.
\<close>

theorem complete_iff_all_answered:
  assumes "session_ok s"
  shows "answered_count s \<le> length (items s) \<and> (is_complete s \<longleftrightarrow> answered_count s = length (items s))"
proof -
  let ?A = "{i. \<exists>x. map_of (answers s) i = Some (Some x)}"
  have d: "distinct (map fst (answers s))" and b: "?A \<subseteq> {..<length (items s)}"
    using assms by (auto simp: session_ok_def answers_ok_def dest!: map_of_SomeD)
  have n: "answered_count s = card ?A" using answered_keys [OF d] by (simp add: answered_count_def)
  have "is_complete s \<longleftrightarrow> {..<length (items s)} \<subseteq> ?A"
    by (auto simp: is_complete_def list_all_iff answer_at_map_of committed_iff)
  moreover have "card ?A \<le> length (items s)" using card_mono [OF _ b] by simp
  moreover have "{..<length (items s)} \<subseteq> ?A \<longleftrightarrow> card ?A = length (items s)"
  proof
    assume "{..<length (items s)} \<subseteq> ?A"
    with b have "?A = {..<length (items s)}" by (rule antisym)
    then show "card ?A = length (items s)" by (simp only: card_lessThan)
  next
    assume "card ?A = length (items s)"
    then have "card ?A = card {..<length (items s)}" by (simp only: card_lessThan)
    from card_subset_eq [OF finite_lessThan b this] show "{..<length (items s)} \<subseteq> ?A" by (rule equalityD2)
  qed
  ultimately show ?thesis by (simp add: n)
qed

theorem complete_iff_all_answered_witness: "answered_count sample \<le> length (items sample)"
  using complete_iff_all_answered [of sample] reachable_ok [OF sample_reachable] by simp

end
