(* ===== verification/Policy.thy ===== *)
theory Policy
  imports Prelude
begin

text \<open>
  Sourced policy records, \<open>crates/vector-domain/src/policy.rs\<close>: trust tiers, freshness, the
  store with one growing version line per family, and the two resolvers that refuse to
  serve a stale record. A \<open>chrono::NaiveDate\<close> is its day number, an \<^typ>\<open>int\<close>, and
  \<open>NaiveDate::parse_from_str\<close> with \<open>%Y-%m-%d\<close> is the parameter \<open>parse_date\<close>; dates near the
  limits of the calendar type, where adding days panics, are not modelled.
\<close>

section \<open>Tiers, claims and records\<close>

datatype trust_tier = A | B | C | D

fun may_justify_policy :: "trust_tier \<Rightarrow> bool" where
  "may_justify_policy D = False"
| "may_justify_policy _ = True"

fun tier_freshness_days :: "trust_tier \<Rightarrow> int" where
  "tier_freshness_days A = 90"
| "tier_freshness_days B = 90"
| "tier_freshness_days C = 180"
| "tier_freshness_days D = 30"

datatype claim_kind = ProviderTerms | JobOrCutoff | AsvabPolicy | StableAcademic

fun freshness_days :: "claim_kind \<Rightarrow> int" where
  "freshness_days ProviderTerms = 7"
| "freshness_days JobOrCutoff = 30"
| "freshness_days AsvabPolicy = 90"
| "freshness_days StableAcademic = 365"

record policy_source =
  source_id :: string
  canonical_url :: string
  publisher :: string
  tier :: trust_tier
  retrieved_on :: string
  effective_on :: "string option"
  license_note :: string

text \<open>\<open>PolicyPayload\<close>, fields in the code's order.\<close>

datatype policy_payload =
    JobTarget string nat string
  | CompositeFormula string "string list" string
  | RetestPolicy nat bool

record policy_record =
  record_id :: string
  family :: string
  version :: nat
  claim :: claim_kind
  source :: policy_source
  payload :: policy_payload

datatype freshness =
    Current
  | Expired int int
  | Unverifiable

fun is_current :: "freshness \<Rightarrow> bool" where
  "is_current Current = True"
| "is_current _ = False"

definition record_freshness :: "(string \<Rightarrow> int option) \<Rightarrow> policy_record \<Rightarrow> int \<Rightarrow> freshness" where
  "record_freshness parse_date r now =
     (if \<not> may_justify_policy (tier (source r)) then Unverifiable
      else case parse_date (retrieved_on (source r)) of
        None \<Rightarrow> Unverifiable
      | Some retrieved \<Rightarrow>
          (let age = now - retrieved in
           if age < 0 then Unverifiable
           else let window = freshness_days (claim r) in
             if age \<le> window then Current else Expired age window))"

definition current_payload :: "(string \<Rightarrow> int option) \<Rightarrow> policy_record \<Rightarrow> int \<Rightarrow> (policy_payload, freshness) result" where
  "current_payload parse_date r now =
     (let f = record_freshness parse_date r now in if is_current f then Ok (payload r) else Err f)"

section \<open>The store\<close>

type_synonym policy_store = "policy_record list"

datatype policy_error =
    UntrustedTier
  | NonMonotonicVersion nat nat
  | FamilyMismatch
  | UnknownFamily string

definition of_family :: "policy_store \<Rightarrow> string \<Rightarrow> policy_store" where
  "of_family store fam = filter (\<lambda>r. family r = fam) store"

text \<open>\<open>Iterator::max\<close>; and \<open>max_by_key\<close>, which returns the last of equal maxima.\<close>

fun max_of :: "nat list \<Rightarrow> nat option" where
  "max_of [] = None"
| "max_of (x # xs) = Some (fold max xs x)"

fun max_by_key :: "('a \<Rightarrow> nat) \<Rightarrow> 'a list \<Rightarrow> 'a option" where
  "max_by_key key [] = None"
| "max_by_key key (x # xs) = Some (foldl (\<lambda>m y. if key m \<le> key y then y else m) x xs)"

definition publish :: "policy_record \<Rightarrow> policy_store \<Rightarrow> (policy_store, policy_error) result" where
  "publish r store =
     (if \<not> may_justify_policy (tier (source r)) then Err UntrustedTier
      else case max_of (map version (of_family store (family r))) of
        Some existing \<Rightarrow>
          if version r \<le> existing then Err (NonMonotonicVersion existing (version r))
          else Ok (store @ [r])
      | None \<Rightarrow> Ok (store @ [r]))"

definition latest_viewable :: "policy_store \<Rightarrow> string \<Rightarrow> policy_record option" where
  "latest_viewable store fam = max_by_key version (of_family store fam)"

definition current :: "(string \<Rightarrow> int option) \<Rightarrow> policy_store \<Rightarrow> string \<Rightarrow> int \<Rightarrow> (policy_record, freshness) result" where
  "current parse_date store fam now =
     (case latest_viewable store fam of
        Some r \<Rightarrow>
          if is_current (record_freshness parse_date r now) then Ok r
          else Err (record_freshness parse_date r now)
      | None \<Rightarrow> Err Unverifiable)"

definition families :: "policy_store \<Rightarrow> string list" where
  "families store = sort_dedup (map family store)"

section \<open>The resolvers\<close>

record job_target =
  target_job_name :: string
  target_composite :: string
  target_required :: nat
  target_source_id :: string
  target_tier :: trust_tier

datatype job_target_error = NotFoundOrStale string

fun resolve_loop :: "(string \<Rightarrow> int option) \<Rightarrow> policy_store \<Rightarrow> string \<Rightarrow> int \<Rightarrow> string list \<Rightarrow>
    (job_target, job_target_error) result" where
  "resolve_loop parse_date store job_name now [] = Err (NotFoundOrStale job_name)"
| "resolve_loop parse_date store job_name now (fam # fams) =
     (case current parse_date store fam now of
        Err _ \<Rightarrow> resolve_loop parse_date store job_name now fams
      | Ok r \<Rightarrow>
          (case payload r of
             JobTarget name required composite \<Rightarrow>
               if eq_ignore_case name job_name then
                 Ok \<lparr>target_job_name = name, target_composite = composite, target_required = required,
                     target_source_id = source_id (source r), target_tier = tier (source r)\<rparr>
               else resolve_loop parse_date store job_name now fams
           | _ \<Rightarrow> resolve_loop parse_date store job_name now fams))"

definition resolve_job_target :: "(string \<Rightarrow> int option) \<Rightarrow> policy_store \<Rightarrow> string \<Rightarrow> int \<Rightarrow>
    (job_target, job_target_error) result" where
  "resolve_job_target parse_date store job_name now =
     resolve_loop parse_date store job_name now (families store)"

record retest_plan =
  earliest_retest :: int
  plan_wait_days :: nat
  plan_waiver_available :: bool
  plan_source_id :: string

fun plan_loop :: "(string \<Rightarrow> int option) \<Rightarrow> policy_store \<Rightarrow> int \<Rightarrow> int \<Rightarrow> string list \<Rightarrow>
    (retest_plan, job_target_error) result" where
  "plan_loop parse_date store last_test now [] = Err (NotFoundOrStale ''retest-policy'')"
| "plan_loop parse_date store last_test now (fam # fams) =
     (case current parse_date store fam now of
        Err _ \<Rightarrow> plan_loop parse_date store last_test now fams
      | Ok r \<Rightarrow>
          (case payload r of
             RetestPolicy wait_days waiver \<Rightarrow>
               Ok \<lparr>earliest_retest = last_test + int wait_days, plan_wait_days = wait_days,
                   plan_waiver_available = waiver, plan_source_id = source_id (source r)\<rparr>
           | _ \<Rightarrow> plan_loop parse_date store last_test now fams))"

definition plan_retest :: "(string \<Rightarrow> int option) \<Rightarrow> policy_store \<Rightarrow> int \<Rightarrow> int \<Rightarrow>
    (retest_plan, job_target_error) result" where
  "plan_retest parse_date store last_test now = plan_loop parse_date store last_test now (families store)"

section \<open>The store's invariant\<close>

text \<open>The stores that publishing records from the empty store can give.\<close>

inductive published :: "policy_store \<Rightarrow> bool" where
  empty: "published []"
| publish: "published store \<Longrightarrow> publish r store = Ok store' \<Longrightarrow> published store'"

definition store_ok :: "policy_store \<Rightarrow> bool" where
  "store_ok store \<longleftrightarrow> (\<forall>r \<in> set store. may_justify_policy (tier (source r))) \<and>
     (\<forall>fam. sorted_wrt (<) (map version (of_family store fam)))"

lemma max_of_greatest: "max_of xs = Some m \<Longrightarrow> x \<in> set xs \<Longrightarrow> x \<le> m"
proof (cases xs)
  case (Cons y ys)
  have "max_of xs = Some (Max (set xs))" by (simp add: Cons Max.set_eq_fold [symmetric])
  then show "max_of xs = Some m \<Longrightarrow> x \<in> set xs \<Longrightarrow> x \<le> m" by auto
qed simp

lemma store_ok_publish:
  assumes "store_ok store" "publish r store = Ok store'"
  shows "store_ok store'"
proof -
  have s: "store' = store @ [r]" and t: "may_justify_policy (tier (source r))"
    using assms(2) by (auto simp: publish_def split: option.splits if_splits)
  have new: "v < version r" if "v \<in> set (map version (of_family store (family r)))" for v
    using assms(2) that max_of_greatest [OF _ that]
    by (cases "map version (of_family store (family r))") (force simp: publish_def split: option.splits if_splits)+
  have "sorted_wrt (<) (map version (of_family store' fam))" for fam
    using assms(1) new by (auto simp: s of_family_def store_ok_def sorted_wrt_append)
  then show ?thesis using assms(1) t by (auto simp: store_ok_def s)
qed

lemma published_ok: "published store \<Longrightarrow> store_ok store"
proof (induction rule: published.induct)
  case empty
  show ?case by (simp add: store_ok_def of_family_def)
next
  case (publish store r store')
  then show ?case using store_ok_publish by blast
qed

lemma max_by_key_sorted:
  assumes "sorted_wrt (<) (map key xs)" "xs \<noteq> []"
  shows "max_by_key key xs = Some (last xs)"
proof -
  have "foldl (\<lambda>m y. if key m \<le> key y then y else m) x ys = last (x # ys)"
    if "sorted_wrt (<) (map key (x # ys))" for x ys
    using that by (induction ys arbitrary: x) auto
  with assms show ?thesis by (cases xs) auto
qed

lemma latest_viewable_last:
  assumes "store_ok store"
  shows "latest_viewable store fam = (if of_family store fam = [] then None else Some (last (of_family store fam)))"
  using assms max_by_key_sorted [of version "of_family store fam"]
  by (auto simp: latest_viewable_def store_ok_def)

section \<open>What current means\<close>

definition fresh_at :: "(string \<Rightarrow> int option) \<Rightarrow> int \<Rightarrow> policy_record \<Rightarrow> bool" where
  "fresh_at parse_date now r \<longleftrightarrow> tier (source r) \<noteq> D \<and>
     (\<exists>d. parse_date (retrieved_on (source r)) = Some d \<and> d \<le> now \<and> now - d \<le> freshness_days (claim r))"

lemma may_justify_policy_iff [simp]: "may_justify_policy t \<longleftrightarrow> t \<noteq> D"
  by (cases t) auto

lemma is_current_iff: "is_current (record_freshness parse_date r now) \<longleftrightarrow> fresh_at parse_date now r"
  by (auto simp: record_freshness_def fresh_at_def Let_def split: option.splits)

lemma current_Ok_iff:
  "current parse_date store fam now = Ok r \<longleftrightarrow> latest_viewable store fam = Some r \<and> fresh_at parse_date now r"
  by (auto simp: current_def is_current_iff split: option.splits)

text \<open>A record that may be served: the latest of its family, and fresh.\<close>

definition servable :: "(string \<Rightarrow> int option) \<Rightarrow> policy_store \<Rightarrow> int \<Rightarrow> policy_record \<Rightarrow> bool" where
  "servable parse_date store now r \<longleftrightarrow>
     (\<exists>fam. latest_viewable store fam = Some r \<and> fresh_at parse_date now r)"

lemma latest_in_families: "latest_viewable store fam = Some r \<Longrightarrow> fam \<in> set (families store)"
  by (cases "of_family store fam") (auto simp: latest_viewable_def of_family_def families_def filter_eq_Cons_iff)

lemma servable_families:
  "servable parse_date store now r \<longleftrightarrow> (\<exists>fam \<in> set (families store). current parse_date store fam now = Ok r)"
  by (auto simp: servable_def current_Ok_iff intro: latest_in_families)

lemma plan_loop_result:
  "case plan_loop parse_date store last_test now fams of
     Ok plan \<Rightarrow> (\<exists>fam \<in> set fams. \<exists>r. current parse_date store fam now = Ok r \<and>
       payload r = RetestPolicy (plan_wait_days plan) (plan_waiver_available plan) \<and>
       earliest_retest plan = last_test + int (plan_wait_days plan) \<and> plan_source_id plan = source_id (source r))
   | Err _ \<Rightarrow> (\<forall>fam \<in> set fams. \<forall>r w v. current parse_date store fam now = Ok r \<longrightarrow> payload r \<noteq> RetestPolicy w v)"
  by (induction fams) (auto split: result.splits policy_payload.splits)

lemma resolve_loop_result:
  "case resolve_loop parse_date store job now fams of
     Ok target \<Rightarrow> (\<exists>fam \<in> set fams. \<exists>r. current parse_date store fam now = Ok r \<and>
       payload r = JobTarget (target_job_name target) (target_required target) (target_composite target) \<and>
       eq_ignore_case (target_job_name target) job \<and> target_source_id target = source_id (source r) \<and>
       target_tier target = tier (source r))
   | Err _ \<Rightarrow> (\<forall>fam \<in> set fams. \<forall>r n q c. current parse_date store fam now = Ok r \<longrightarrow>
       payload r = JobTarget n q c \<longrightarrow> \<not> eq_ignore_case n job)"
  by (induction fams) (auto split: result.splits policy_payload.splits if_splits)

section \<open>Properties\<close>

text \<open>
  Publishing keeps the store sound: no tier-D source is ever stored, the versions of a
  family strictly increase in the order they were published, and so the latest viewable
  record of a family is the last one published for it.
\<close>

theorem published_store_ok:
  "published store \<Longrightarrow> (\<forall>r \<in> set store. tier (source r) \<noteq> D) \<and>
    sorted_wrt (<) (map version (of_family store fam)) \<and>
    latest_viewable store fam = (if of_family store fam = [] then None else Some (last (of_family store fam)))"
  using published_ok [of store] latest_viewable_last [of store fam] by (simp add: store_ok_def)

definition sample_record :: "nat \<Rightarrow> policy_record" where
  "sample_record v = \<lparr>record_id = ''r'', family = ''retest-wait'', version = v, claim = AsvabPolicy,
     source = \<lparr>source_id = ''s'', canonical_url = ''u'', publisher = ''p'', tier = A,
       retrieved_on = ''2026-09-01'', effective_on = None, license_note = ''n''\<rparr>,
     payload = RetestPolicy 30 False\<rparr>"

theorem published_store_ok_witness:
  "latest_viewable [sample_record 1, sample_record 3] ''retest-wait'' = Some (sample_record 3)"
proof -
  have "published [sample_record 1]"
    by (rule published.publish [OF published.empty, of "sample_record 1"])
      (simp add: publish_def of_family_def sample_record_def)
  then have "published [sample_record 1, sample_record 3]"
    by (rule published.publish [of _ "sample_record 3"]) (simp add: publish_def of_family_def sample_record_def)
  from published_store_ok [OF this, of "''retest-wait''"] show ?thesis
    by (simp add: of_family_def sample_record_def)
qed

text \<open>
  A record is presented as current exactly when it is the latest of its family, its
  source may justify policy, and its retrieval date is readable, not in the future and
  within the window of its claim kind; an expired record never gives way to an older one.
\<close>

theorem current_iff:
  "current parse_date store fam now = Ok r \<longleftrightarrow> latest_viewable store fam = Some r \<and> fresh_at parse_date now r"
  by (rule current_Ok_iff)

text \<open>
  A retest plan is computed exactly when a servable retest policy exists, and its date
  and waiver are that policy's; without one the planner refuses.
\<close>

theorem plan_retest_sourced:
  "case plan_retest parse_date store last_test now of
     Ok plan \<Rightarrow> (\<exists>r. servable parse_date store now r \<and>
       payload r = RetestPolicy (plan_wait_days plan) (plan_waiver_available plan) \<and>
       earliest_retest plan = last_test + int (plan_wait_days plan) \<and> plan_source_id plan = source_id (source r))
   | Err _ \<Rightarrow> \<not> (\<exists>r w v. servable parse_date store now r \<and> payload r = RetestPolicy w v)"
  using plan_loop_result [where fams = "families store" and parse_date = parse_date and store = store and last_test = last_test and now = now]
  by (fastforce simp: plan_retest_def servable_families split: result.splits)

text \<open>
  A job target is resolved exactly when a servable record names the job (letter case
  aside), and its figures and its source are that record's.
\<close>

theorem resolve_job_target_sourced:
  "case resolve_job_target parse_date store job now of
     Ok target \<Rightarrow> (\<exists>r. servable parse_date store now r \<and>
       payload r = JobTarget (target_job_name target) (target_required target) (target_composite target) \<and>
       eq_ignore_case (target_job_name target) job \<and> target_source_id target = source_id (source r) \<and>
       target_tier target = tier (source r))
   | Err _ \<Rightarrow> \<not> (\<exists>r n q c. servable parse_date store now r \<and> payload r = JobTarget n q c \<and> eq_ignore_case n job)"
  using resolve_loop_result [where fams = "families store" and parse_date = parse_date and store = store and job = job and now = now]
  by (fastforce simp: resolve_job_target_def servable_families split: result.splits)

end
