(* ===== verification/Paths.thy ===== *)
theory Paths
  imports Prelude
begin

text \<open>
  Lexical normalization of paths, shared by the archive check of the ingestion sandbox
  (\<open>normalize\<close>) and the scoped roots of the capability registry (\<open>normalize_path\<close>): both
  split at separators, drop empty and \<open>.\<close> segments, keep \<open>..\<close>, and join what is left. The
  facts here turn comparisons of normalized strings into comparisons of segment lists.
\<close>

definition unify :: "string \<Rightarrow> string" where
  "unify path = map (\<lambda>c. if c = CHR 0x5C then CHR ''/'' else c) path"

fun normalize_loop :: "string \<Rightarrow> string list \<Rightarrow> string" where
  "normalize_loop out [] = out"
| "normalize_loop out (segment # segments) =
     (if segment = [] \<or> segment = ''.'' then normalize_loop out segments
      else normalize_loop ((if out \<noteq> [] then out @ ''/'' else out) @ segment) segments)"

definition normalize :: "string \<Rightarrow> string" where
  "normalize path = normalize_loop [] (split_on (CHR ''/'') (unify path))"

definition has_dotdot :: "string \<Rightarrow> bool" where
  "has_dotdot path \<longleftrightarrow> list_ex (\<lambda>s. s = ''..'') (split_on (CHR ''/'') path)"

section \<open>Segments\<close>

text \<open>The segments of a path that count.\<close>

definition segments :: "string \<Rightarrow> string list" where
  "segments path = filter (\<lambda>s. s \<noteq> [] \<and> s \<noteq> ''.'') (split_on (CHR ''/'') (unify path))"

definition plain_segments :: "string list \<Rightarrow> bool" where
  "plain_segments xs \<longleftrightarrow> (\<forall>s \<in> set xs. s \<noteq> [] \<and> CHR ''/'' \<notin> set s)"

lemma split_on_no_sep: "s \<in> set (split_on d t) \<Longrightarrow> d \<notin> set s"
proof (induction t arbitrary: s)
  case (Cons c t)
  then show ?case by (cases "split_on d t") (auto split: if_splits)
qed simp

lemma plain_segments_segments: "plain_segments (segments path)"
  by (auto simp: plain_segments_def segments_def dest: split_on_no_sep)

lemma join_Cons: "xs \<noteq> [] \<Longrightarrow> join sep (x # xs) = x @ sep @ join sep xs"
  by (cases xs) auto

lemma join_nonempty: "plain_segments xs \<Longrightarrow> join ''/'' xs = [] \<longleftrightarrow> xs = []"
  by (cases xs; cases "tl xs") (auto simp: plain_segments_def join_Cons)

lemma join_append: "xs \<noteq> [] \<Longrightarrow> ys \<noteq> [] \<Longrightarrow> join sep (xs @ ys) = join sep xs @ sep @ join sep ys"
proof (induction xs)
  case (Cons x xs)
  then show ?case by (cases xs) (auto simp: join_Cons)
qed simp

text \<open>A segment that counts.\<close>

definition counts :: "string \<Rightarrow> bool" where
  "counts s \<longleftrightarrow> s \<noteq> [] \<and> s \<noteq> ''.''"

lemma segments_counts: "segments path = filter counts (split_on (CHR ''/'') (unify path))"
  by (simp add: segments_def counts_def [abs_def])

lemma normalize_loop_counts:
  "normalize_loop out (s # ss) =
    (if counts s then normalize_loop ((if out \<noteq> [] then out @ ''/'' else out) @ s) ss else normalize_loop out ss)"
  by (simp add: counts_def)

lemma normalize_loop_join:
  "\<forall>s \<in> set xs. CHR ''/'' \<notin> set s \<Longrightarrow> plain_segments done_segs \<Longrightarrow>
    normalize_loop (join ''/'' done_segs) xs = join ''/'' (done_segs @ filter counts xs)"
proof (induction xs arbitrary: done_segs)
  case (Cons x xs)
  show ?case
  proof (cases "counts x")
    case True
    have p: "plain_segments (done_segs @ [x])" using Cons.prems True by (auto simp: plain_segments_def counts_def)
    have "(if join ''/'' done_segs \<noteq> [] then join ''/'' done_segs @ ''/'' else join ''/'' done_segs) @ x =
        join ''/'' (done_segs @ [x])"
      using join_append [of done_segs "[x]" "''/''"] join_nonempty [OF Cons.prems(2)] by (cases "done_segs = []") simp_all
    then show ?thesis
      using Cons.IH [OF _ p] Cons.prems True by (simp add: normalize_loop_counts del: normalize_loop.simps)
  next
    case False
    then show ?thesis
      using Cons.IH [OF _ Cons.prems(2)] Cons.prems by (simp add: normalize_loop_counts del: normalize_loop.simps)
  qed
qed simp

lemma normalize_join: "normalize path = join ''/'' (segments path)"
  using normalize_loop_join [of "split_on (CHR ''/'') (unify path)" "[]"]
  by (simp add: normalize_def segments_counts plain_segments_def split_on_no_sep)

lemma split_on_append: "d \<notin> set s \<Longrightarrow> split_on d (s @ d # t) = s # split_on d t"
  by (induction s) auto

lemma split_on_single: "d \<notin> set s \<Longrightarrow> split_on d s = [s]"
  by (induction s) auto

lemma split_join: "plain_segments xs \<Longrightarrow> xs \<noteq> [] \<Longrightarrow> split_on (CHR ''/'') (join ''/'' xs) = xs"
proof (induction xs)
  case (Cons x xs)
  show ?case
  proof (cases xs)
    case Nil
    with Cons show ?thesis by (simp add: split_on_single plain_segments_def)
  next
    case (Cons y ys)
    with Cons.prems Cons.IH have "split_on (CHR ''/'') (join ''/'' xs) = xs"
      by (simp add: plain_segments_def)
    with Cons Cons.prems show ?thesis
      using split_on_append [of "CHR ''/''" x "join ''/'' xs"] by (simp add: join_Cons plain_segments_def)
  qed
qed simp

lemma join_inj:
  assumes "plain_segments xs" "plain_segments ys"
  shows "join ''/'' xs = join ''/'' ys \<longleftrightarrow> xs = ys"
  using assms split_join join_nonempty by metis

text \<open>A path text begins with another and a separator exactly when its segments extend the other's.\<close>

lemma join_extends:
  assumes "plain_segments xs" "plain_segments ys" "ys \<noteq> []"
  shows "starts_with (join ''/'' xs) (join ''/'' ys @ ''/'') \<longleftrightarrow> (\<exists>zs. zs \<noteq> [] \<and> xs = ys @ zs)"
proof
  assume "starts_with (join ''/'' xs) (join ''/'' ys @ ''/'')"
  then obtain t where t: "join ''/'' xs = join ''/'' ys @ CHR ''/'' # t" by (auto simp: starts_with_iff)
  have split: "split_on (CHR ''/'') (join ''/'' ys @ CHR ''/'' # t) = ys @ split_on (CHR ''/'') t"
    using assms(2,3)
  proof (induction ys)
    case (Cons y ys)
    then show ?case
      by (cases ys) (auto simp: join_Cons plain_segments_def split_on_append simp flip: append_assoc,
          auto simp: split_on_append)
  qed simp
  have "xs \<noteq> []" using t by auto
  then have "xs = ys @ split_on (CHR ''/'') t" using split_join [OF assms(1)] split t by simp
  then show "\<exists>zs. zs \<noteq> [] \<and> xs = ys @ zs" by (intro exI [of _ "split_on (CHR ''/'') t"]) simp
next
  assume "\<exists>zs. zs \<noteq> [] \<and> xs = ys @ zs"
  then show "starts_with (join ''/'' xs) (join ''/'' ys @ ''/'')"
    using join_append [OF assms(3)] by (auto simp: starts_with_iff)
qed

lemma has_dotdot_join: "plain_segments xs \<Longrightarrow> has_dotdot (join ''/'' xs) \<longleftrightarrow> ''..'' \<in> set xs"
  by (cases "xs = []") (auto simp: has_dotdot_def split_join list_ex_iff)

end
