(* ===== verification/Lifecycle.thy ===== *)
theory Lifecycle
  imports Prelude
begin

text \<open>
  The contract that state machines with guarded transitions share: a move to a state either
  fails or ends in that state along an allowed transition. Clients move an object through a
  list of target states; \<open>run_moves\<close> stops at the first refusal, as \<open>?\<close> does.
\<close>

fun run_moves :: "('s \<Rightarrow> 'i \<Rightarrow> ('i, 'e) result) \<Rightarrow> 's list \<Rightarrow> 'i \<Rightarrow> ('i, 'e) result" where
  "run_moves move [] i = Ok i"
| "run_moves move (t # ts) i = try_bind (move t i) (run_moves move ts)"

locale lifecycle =
  fixes allowed :: "'s \<Rightarrow> 's \<Rightarrow> bool"
    and move :: "'s \<Rightarrow> 'i \<Rightarrow> ('i, 'e) result"
    and state :: "'i \<Rightarrow> 's"
  assumes move_ok: "move t i = Ok j \<Longrightarrow> allowed (state i) t \<and> state j = t"
begin

lemma run_path:
  "run_moves move ts i = Ok j \<Longrightarrow> successively allowed (state i # ts) \<and> state j = last (state i # ts)"
proof (induction ts arbitrary: i)
  case (Cons t ts)
  then obtain k where k: "move t i = Ok k" "run_moves move ts k = Ok j" by (auto simp: try_bind_Ok_iff)
  from move_ok [OF k(1)] Cons.IH [OF k(2)] show ?case by (cases ts) auto
qed simp

text \<open>A step of a run is a move along an allowed transition.\<close>

lemma run_step:
  assumes "run_moves move (us @ [s, t] @ vs) i = Ok j"
  shows "allowed s t"
  using run_path [OF assms] by (simp add: successively_append_iff successively_Cons)

end

end
