(* ===== verification/Ingestion.thy ===== *)
theory Ingestion
  imports Paths Lifecycle Provenance
begin

text \<open>
  Source ingestion and the item lifecycle, \<open>crates/vector-questions/src/ingestion.rs\<close>.
  Unicode's \<open>str::to_lowercase\<close> is the parameter \<open>lc\<close>.
\<close>

section \<open>The ingestion sandbox\<close>

text \<open>The derived order of \<open>TrustTier\<close>: the declaration order, A the least.\<close>

datatype trust_tier = A | B | C | D

fun tier_rank :: "trust_tier \<Rightarrow> nat" where
  "tier_rank A = 0"
| "tier_rank B = 1"
| "tier_rank C = 2"
| "tier_rank D = 3"

lemma tier_rank_inj: "tier_rank a = tier_rank b \<Longrightarrow> a = b"
  by (cases a; cases b) simp_all

instantiation trust_tier :: linorder
begin

definition less_eq_trust_tier :: "trust_tier \<Rightarrow> trust_tier \<Rightarrow> bool" where
  "less_eq_trust_tier a b \<longleftrightarrow> tier_rank a \<le> tier_rank b"

definition less_trust_tier :: "trust_tier \<Rightarrow> trust_tier \<Rightarrow> bool" where
  "less_trust_tier a b \<longleftrightarrow> tier_rank a < tier_rank b"

instance
  by standard (auto simp: less_eq_trust_tier_def less_trust_tier_def intro: tier_rank_inj)

end

datatype license = PublicDomain | Permissive | Licensed | Unknown | Prohibited

fun permits_ingestion :: "license \<Rightarrow> bool" where
  "permits_ingestion PublicDomain = True"
| "permits_ingestion Permissive = True"
| "permits_ingestion Licensed = True"
| "permits_ingestion _ = False"

datatype ingest_refusal =
    ControlledMaterial
  | LicenseForbids license
  | TrustTooLow trust_tier trust_tier
  | TooLarge nat nat
  | UnsupportedMediaType string
  | ActiveContent
  | PathTraversal string

definition MAX_INGEST_BYTES :: nat where
  "MAX_INGEST_BYTES = 8 * 1024 * 1024"

definition ALLOWED_MEDIA_TYPES :: "string list" where
  "ALLOWED_MEDIA_TYPES = [''text/plain'', ''text/markdown'', ''text/csv'', ''application/json'']"

record source_payload =
  payload_source_id :: string
  media_type :: string
  payload_license :: license
  payload_tier :: trust_tier
  payload_text :: string
  claims_official_items :: bool

definition CONTROLLED_MARKERS :: "string list" where
  "CONTROLLED_MARKERS = [
     ''this is a real asvab question'',
     ''official asvab test item'',
     ''actual test question'',
     ''leaked exam'',
     ''from the real test'',
     ''do not distribute - official'']"

definition looks_controlled :: "(string \<Rightarrow> string) \<Rightarrow> string \<Rightarrow> bool" where
  "looks_controlled lc text = (let lowered = lc text in list_ex (\<lambda>m. contains lowered m) CONTROLLED_MARKERS)"

definition ACTIVE_MARKERS :: "string list" where
  "ACTIVE_MARKERS = [''<script'', ''<iframe'', ''javascript:'', ''<object'', ''<embed'', ''<?php'']"

definition has_active_content :: "(string \<Rightarrow> string) \<Rightarrow> string \<Rightarrow> bool" where
  "has_active_content lc text = (let lowered = lc text in list_ex (\<lambda>m. contains lowered m) ACTIVE_MARKERS)"

definition sandbox_parse :: "(string \<Rightarrow> string) \<Rightarrow> source_payload \<Rightarrow> trust_tier \<Rightarrow> (string, ingest_refusal) result" where
  "sandbox_parse lc p trust_floor =
     (if claims_official_items p \<or> looks_controlled lc (payload_text p) then Err ControlledMaterial
      else if \<not> permits_ingestion (payload_license p) then Err (LicenseForbids (payload_license p))
      else if payload_tier p > trust_floor then Err (TrustTooLow (payload_tier p) trust_floor)
      else if length (payload_text p) > MAX_INGEST_BYTES
      then Err (TooLarge (length (payload_text p)) MAX_INGEST_BYTES)
      else if media_type p \<notin> set ALLOWED_MEDIA_TYPES then Err (UnsupportedMediaType (media_type p))
      else if has_active_content lc (payload_text p) then Err ActiveContent
      else Ok (payload_text p))"

definition check_archive_entry :: "string \<Rightarrow> string \<Rightarrow> (unit, ingest_refusal) result" where
  "check_archive_entry entry root =
     (let normalized_entry = normalize entry;
          normalized_root = normalize root
      in
      if starts_with entry ''/'' \<or> starts_with entry [CHR 0x5C] then Err (PathTraversal entry)
      else if length entry \<ge> 2 \<and> entry ! 1 = CHR '':'' then Err (PathTraversal entry)
      else if has_dotdot normalized_entry then Err (PathTraversal entry)
      else if normalized_root = [] then Ok ()
      else if normalized_entry = normalized_root
           \<or> strip_prefix normalized_entry (normalized_root @ ''/'') \<noteq> None then Ok ()
      else Err (PathTraversal entry))"

section \<open>The item lifecycle\<close>

datatype item_state =
    Draft
  | MachineValidated
  | IndependentVerified
  | ContentReviewed
  | Active
  | Quarantined

fun state_is_servable :: "item_state \<Rightarrow> bool" where
  "state_is_servable Active = True"
| "state_is_servable _ = False"

datatype answer_proof =
    Executable string string
  | SourceBacked string string

fun is_deterministic :: "answer_proof \<Rightarrow> bool" where
  "is_deterministic (Executable _ _) = True"
| "is_deterministic (SourceBacked _ _) = False"

record item_provenance =
  objective_id :: string
  source_ids :: "string list"
  item_proof :: answer_proof
  reviewer :: string
  item_hash :: content_hash
  generator_hash :: "content_hash option"
  verifier_hash :: "content_hash option"

datatype provenance_error =
    MissingObjective
  | MissingSources
  | MissingProof
  | MissingReviewer
  | MissingContentHash
  | VerifierNotIndependent
  | InvalidTransition item_state item_state

definition is_complete :: "item_provenance \<Rightarrow> (unit, provenance_error) result" where
  "is_complete p =
     (if trim (objective_id p) = [] then Err MissingObjective
      else if source_ids p = [] \<or> list_all (\<lambda>s. trim s = []) (source_ids p) then Err MissingSources
      else if trim (as_str (item_hash p)) = [] then Err MissingContentHash
      else if trim (reviewer p) = [] then Err MissingReviewer
      else case (generator_hash p, verifier_hash p) of
        (Some g, Some v) \<Rightarrow> if g = v then Err VerifierNotIndependent else Ok ()
      | _ \<Rightarrow> Ok ())"

record content_item =
  item_id :: string
  item_state :: item_state
  provenance :: item_provenance

fun is_allowed_transition :: "item_state \<Rightarrow> item_state \<Rightarrow> bool" where
  "is_allowed_transition Draft MachineValidated = True"
| "is_allowed_transition MachineValidated IndependentVerified = True"
| "is_allowed_transition IndependentVerified ContentReviewed = True"
| "is_allowed_transition ContentReviewed Active = True"
| "is_allowed_transition _ Quarantined = True"
| "is_allowed_transition Quarantined Draft = True"
| "is_allowed_transition _ _ = False"

definition new_item :: "string \<Rightarrow> item_provenance \<Rightarrow> content_item" where
  "new_item i p = \<lparr>item_id = i, item_state = Draft, provenance = p\<rparr>"

text \<open>A refused \<open>advance_to\<close> leaves the item as it was.\<close>

definition advance_to :: "item_state \<Rightarrow> content_item \<Rightarrow> (content_item, provenance_error) result" where
  "advance_to to item =
     (if \<not> is_allowed_transition (item_state item) to then Err (InvalidTransition (item_state item) to)
      else try_bind (if to = Active then is_complete (provenance item) else Ok ()) (\<lambda>_.
        Ok (item\<lparr>item_state := to\<rparr>)))"

definition item_is_servable :: "content_item \<Rightarrow> bool" where
  "item_is_servable item \<longleftrightarrow> state_is_servable (item_state item) \<and> is_ok (is_complete (provenance item))"

section \<open>Runs through the lifecycle\<close>

interpretation item_life: lifecycle is_allowed_transition advance_to item_state
proof
  show "is_allowed_transition (item_state i) t \<and> item_state j = t" if "advance_to t i = Ok j" for t i j
    using that by (auto simp: advance_to_def try_bind_Ok_iff split: if_splits)
qed

lemma advance_to_facts:
  assumes "advance_to t i = Ok j"
  shows "provenance j = provenance i" and "t = Active \<Longrightarrow> is_complete (provenance i) = Ok ()"
  using assms by (auto simp: advance_to_def try_bind_Ok_iff split: if_splits)

lemma run_provenance: "run_moves advance_to ts i = Ok j \<Longrightarrow> provenance j = provenance i"
  by (induction ts arbitrary: i) (auto simp: try_bind_Ok_iff dest: advance_to_facts(1))

lemma run_complete:
  "run_moves advance_to ts i = Ok j \<Longrightarrow> Active \<in> set ts \<Longrightarrow> is_complete (provenance i) = Ok ()"
  by (induction ts arbitrary: i) (force simp: try_bind_Ok_iff dest: advance_to_facts)+

text \<open>Every state but the first has one way in: the pipeline's own.\<close>

lemma predecessors:
  "is_allowed_transition s Active \<longleftrightarrow> s = ContentReviewed"
  "is_allowed_transition s ContentReviewed \<longleftrightarrow> s = IndependentVerified"
  "is_allowed_transition s IndependentVerified \<longleftrightarrow> s = MachineValidated"
  "is_allowed_transition s MachineValidated \<longleftrightarrow> s = Draft"
  by (cases s; simp)+

lemma path_back:
  assumes "successively is_allowed_transition (Draft # ts)" "Draft # ts = us @ [t] @ vs" "t \<noteq> Draft"
  obtains s us' where "us = us' @ [s]" "is_allowed_transition s t" "Draft # ts = us' @ [s] @ (t # vs)"
proof -
  from assms(2,3) obtain us' s where us: "us = us' @ [s]" by (cases us rule: rev_cases) auto
  with assms(1,2) have "is_allowed_transition s t" by (simp add: successively_append_iff successively_Cons)
  with us assms(2) that show ?thesis by auto
qed

lemma active_path:
  assumes "successively is_allowed_transition (Draft # ts)" "last (Draft # ts) = Active"
  shows "\<exists>us. Draft # ts = us @ [Draft, MachineValidated, IndependentVerified, ContentReviewed, Active]"
proof -
  let ?p = "Draft # ts"
  from assms(2) obtain u1 where p1: "?p = u1 @ [Active] @ []"
    by (metis append_butlast_last_id append_Nil2 list.distinct(1))
  from path_back [OF assms(1) p1] obtain u2 where p2: "?p = u2 @ [ContentReviewed] @ [Active]"
    by (auto simp: predecessors)
  from path_back [OF assms(1) p2] obtain u3 where p3: "?p = u3 @ [IndependentVerified] @ [ContentReviewed, Active]"
    by (auto simp: predecessors)
  from path_back [OF assms(1) p3] obtain u4 where p4: "?p = u4 @ [MachineValidated] @ [IndependentVerified, ContentReviewed, Active]"
    by (auto simp: predecessors)
  from path_back [OF assms(1) p4] obtain u5 where "?p = u5 @ [Draft] @ [MachineValidated, IndependentVerified, ContentReviewed, Active]"
    by (auto simp: predecessors)
  then show ?thesis by auto
qed

section \<open>Markers\<close>

abbreviation ascii :: "string \<Rightarrow> bool" where
  "ascii s \<equiv> list_all (\<lambda>c. byte c < 128) s"

lemma contains_lowered:
  assumes "text = pre @ m' @ post" "ascii_lower m' = m"
  shows "contains (ascii_lower text) m"
  using assms by (auto simp: contains_iff ascii_lower_def)

section \<open>Properties\<close>

text \<open>
  C17. No zip-slip: an archive entry is accepted exactly when it is relative, names no drive,
  has no \<open>..\<close> segment, and its segments begin with the segments of the root. Containment is
  by whole segments, so a sibling whose name merely starts like the root is refused.
\<close>

theorem check_archive_entry_iff:
  "check_archive_entry entry root = Ok () \<longleftrightarrow>
    \<not> starts_with entry ''/'' \<and> \<not> starts_with entry [CHR 0x5C] \<and>
    \<not> (2 \<le> length entry \<and> entry ! 1 = CHR '':'') \<and>
    ''..'' \<notin> set (segments entry) \<and> (\<exists>zs. segments entry = segments root @ zs)"
proof -
  note p = plain_segments_segments
  have empty: "normalize root = [] \<longleftrightarrow> segments root = []"
    by (simp add: normalize_join join_nonempty p)
  have eq: "normalize entry = normalize root \<longleftrightarrow> segments entry = segments root"
    by (simp add: normalize_join join_inj p)
  have ext: "strip_prefix (normalize entry) (normalize root @ ''/'') \<noteq> None \<longleftrightarrow>
      (\<exists>zs. zs \<noteq> [] \<and> segments entry = segments root @ zs)" if "segments root \<noteq> []"
    using join_extends [OF p [of entry] p [of root] that] by (simp add: normalize_join strip_prefix_def)
  have dots: "has_dotdot (normalize entry) \<longleftrightarrow> ''..'' \<in> set (segments entry)"
    by (simp add: normalize_join has_dotdot_join p)
  have inside: "normalize entry = normalize root \<or> strip_prefix (normalize entry) (normalize root @ ''/'') \<noteq> None \<longleftrightarrow>
      (\<exists>zs. segments entry = segments root @ zs)" if "segments root \<noteq> []"
    unfolding eq ext [OF that] by (metis append_Nil2)
  show ?thesis
    by (cases "segments root = []")
      (simp_all only: check_archive_entry_def Let_def empty dots inside if_True if_False simp_thms append_Nil, auto)
qed

text \<open>
  The sandbox sees a marker in any letter case: an ASCII text in which a controlled or
  active-content marker occurs, however capitalized, never enters.
\<close>

theorem sandbox_refuses_markers:
  assumes "\<And>t. ascii t \<Longrightarrow> lc t = ascii_lower t" and "ascii (payload_text p)"
    and "payload_text p = pre @ m @ post" and "ascii_lower m \<in> set (CONTROLLED_MARKERS @ ACTIVE_MARKERS)"
  shows "\<not> is_ok (sandbox_parse lc p trust_floor)"
proof -
  have "contains (lc (payload_text p)) (ascii_lower m)"
    using assms(1) [OF assms(2)] contains_lowered [OF assms(3)] by simp
  then have "looks_controlled lc (payload_text p) \<or> has_active_content lc (payload_text p)"
    using assms(4) unfolding looks_controlled_def has_active_content_def Let_def list_ex_iff set_append by blast
  then show ?thesis by (auto simp: sandbox_parse_def)
qed

definition sample_payload :: source_payload where
  "sample_payload = \<lparr>payload_source_id = ''s'', media_type = ''text/plain'', payload_license = PublicDomain,
     payload_tier = A, payload_text = ''a LEAKED Exam'', claims_official_items = False\<rparr>"

theorem sandbox_refuses_markers_witness: "\<not> is_ok (sandbox_parse ascii_lower sample_payload D)"
proof (rule sandbox_refuses_markers)
  show "payload_text sample_payload = ''a '' @ ''LEAKED Exam'' @ []" by (simp add: sample_payload_def)
  show "ascii (payload_text sample_payload)" by (simp add: sample_payload_def byte_def)
  have "ascii_lower ''LEAKED Exam'' = ''leaked exam''" by code_simp
  then show "ascii_lower ''LEAKED Exam'' \<in> set (CONTROLLED_MARKERS @ ACTIVE_MARKERS)"
    by (simp add: CONTROLLED_MARKERS_def)
qed simp

text \<open>
  No item becomes active around the pipeline: a run from a new item that ends active has
  just passed through machine validation, independent verification and content review, in
  this order and without interruption, and its provenance is complete, so it is servable.
\<close>

theorem active_items_passed_the_pipeline:
  assumes "run_moves advance_to ts (new_item i p) = Ok item" and "item_state item = Active"
  shows "(\<exists>us. Draft # ts = us @ [Draft, MachineValidated, IndependentVerified, ContentReviewed, Active]) \<and>
    is_complete (provenance item) = Ok () \<and> item_is_servable item"
proof -
  have path: "successively is_allowed_transition (Draft # ts)" "last (Draft # ts) = Active"
    using item_life.run_path [OF assms(1)] assms(2) by (simp_all add: new_item_def)
  from path(2) have "Active \<in> set ts" by (cases ts rule: rev_cases) simp_all
  with run_complete [OF assms(1)] run_provenance [OF assms(1)]
  have "is_complete (provenance item) = Ok ()" by (simp add: new_item_def)
  with active_path [OF path] assms(2) show ?thesis by (simp add: item_is_servable_def)
qed

definition sample_provenance :: item_provenance where
  "sample_provenance = \<lparr>objective_id = ''OBJ-AR-RATE-01'', source_ids = [''s''], item_proof = Executable ''1 + 1'' ''2'',
     reviewer = ''r'', item_hash = ContentHash ''ab'', generator_hash = None, verifier_hash = None\<rparr>"

theorem active_items_passed_the_pipeline_witness:
  "\<exists>item. run_moves advance_to [MachineValidated, IndependentVerified, ContentReviewed, Active]
      (new_item ''i'' sample_provenance) = Ok item \<and> item_is_servable item"
proof -
  obtain item where run: "run_moves advance_to [MachineValidated, IndependentVerified, ContentReviewed, Active]
      (new_item ''i'' sample_provenance) = Ok item" and "item_state item = Active"
    by (simp add: advance_to_def new_item_def is_complete_def sample_provenance_def trim_plain)
  from active_items_passed_the_pipeline [OF this] run show ?thesis by blast
qed

end
