(* ===== verification/Repair_Broker.thy ===== *)
theory Repair_Broker
  imports Lifecycle
begin

text \<open>
  The repair broker, \<open>crates/vector-repair/src/broker.rs\<close>: the scope handed to a repair agent
  and the staged case whose order is the safety property. Creating the isolated worktree
  runs \<open>git\<close> (\<open>worktree.rs\<close>) and is the parameter \<open>create\<close>. An operation returns its result
  and the case after it. The health report of the case is not modelled.
\<close>

section \<open>Scopes\<close>

record repair_transporter =
  transporter_id :: string
  selected :: bool

record repair_scope =
  repository_rules :: "string list"
  crash_evidence :: "string list"
  affected_code :: "string list"
  forbidden_paths :: "string list"

definition default_scoped :: "string list \<Rightarrow> string list \<Rightarrow> repair_scope" where
  "default_scoped evidence code = \<lparr>
     repository_rules = [''AGENTS.md'', ''.agent/DONE_LAW.md''],
     crash_evidence = evidence,
     affected_code = code,
     forbidden_paths = [''vector.db'', ''.env'', ''.agent/evidence/**/livefire/**'']\<rparr>"

definition unify_separators :: "string \<Rightarrow> string" where
  "unify_separators path = map (\<lambda>c. if c = CHR 0x5C then CHR ''/'' else c) path"

definition path_matches :: "string \<Rightarrow> string \<Rightarrow> bool" where
  "path_matches path pattern =
     (let pattern = unify_separators pattern in
      case strip_suffix pattern ''/**'' of
        Some prefix \<Rightarrow> path = prefix \<or> starts_with path (prefix @ ''/'')
      | None \<Rightarrow> path = pattern)"

definition may_read :: "repair_scope \<Rightarrow> string \<Rightarrow> bool" where
  "may_read scope path =
     (let normalized = unify_separators path in
      if list_ex (\<lambda>f. path_matches normalized f) (forbidden_paths scope) then False
      else list_ex (\<lambda>allowed. path_matches normalized allowed)
             (repository_rules scope @ crash_evidence scope @ affected_code scope))"

section \<open>Cases\<close>

datatype repair_stage =
    AwaitingTransporterChoice
  | WorktreeReady
  | AgentDispatched
  | Reproduced
  | FixProposed
  | EvidenceRecorded
  | PatchPreviewed
  | ApprovalGranted
  | Abandoned

record repair_case =
  case_id :: string
  stage :: repair_stage
  scope :: repair_scope
  transporter :: repair_transporter
  reproduced :: bool
  evidence_hashes :: "string list"
  previewed :: bool
  approved :: bool

datatype repair_error =
    OutOfOrder repair_stage repair_stage
  | NoTransporter
  | NotReproduced
  | NoEvidence
  | NotPreviewed
  | ApprovalRequired
  | ScopeViolation string
  | WorktreeUnavailable string

definition is_allowed_repair_transition :: "repair_stage \<Rightarrow> repair_stage \<Rightarrow> bool" where
  "is_allowed_repair_transition source to \<longleftrightarrow>
     (source, to) \<in> set [
       (AwaitingTransporterChoice, WorktreeReady),
       (WorktreeReady, AgentDispatched),
       (AgentDispatched, Reproduced),
       (Reproduced, FixProposed),
       (FixProposed, EvidenceRecorded),
       (EvidenceRecorded, PatchPreviewed),
       (PatchPreviewed, ApprovalGranted)] \<or> to = Abandoned"

definition open_case :: "string \<Rightarrow> repair_scope \<Rightarrow> repair_case" where
  "open_case i s = \<lparr>case_id = i, stage = AwaitingTransporterChoice, scope = s,
     transporter = \<lparr>transporter_id = [], selected = False\<rparr>, reproduced = False,
     evidence_hashes = [], previewed = False, approved = False\<rparr>"

text \<open>A refused \<open>advance\<close> changes nothing, so it is a result of the case.\<close>

definition advance :: "repair_stage \<Rightarrow> repair_case \<Rightarrow> (repair_case, repair_error) result" where
  "advance to c =
     (if \<not> is_allowed_repair_transition (stage c) to then Err (OutOfOrder (stage c) to)
      else Ok (c\<lparr>stage := to\<rparr>))"

definition select_transporter :: "string \<Rightarrow> repair_case \<Rightarrow> repair_case" where
  "select_transporter i c = c\<lparr>transporter := \<lparr>transporter_id = i, selected = True\<rparr>\<rparr>"

definition prepare_worktree :: "('spec \<Rightarrow> ('w, string) result) \<Rightarrow> 'spec \<Rightarrow> repair_case \<Rightarrow>
    ('w \<times> repair_case, repair_error) result" where
  "prepare_worktree create spec c =
     (if \<not> selected (transporter c) then Err NoTransporter
      else if forbidden_paths (scope c) = [] then Err (ScopeViolation ''vector.db'')
      else if may_read (scope c) ''vector.db'' then Err (ScopeViolation ''vector.db'')
      else case create spec of
        Err message \<Rightarrow> Err (WorktreeUnavailable message)
      | Ok worktree \<Rightarrow> try_bind (advance WorktreeReady c) (\<lambda>c. Ok (worktree, c)))"

definition dispatch_agent :: "repair_case \<Rightarrow> (repair_case, repair_error) result" where
  "dispatch_agent c = advance AgentDispatched c"

definition record_reproduction :: "repair_case \<Rightarrow> (repair_case, repair_error) result" where
  "record_reproduction c = try_bind (advance Reproduced c) (\<lambda>c. Ok (c\<lparr>reproduced := True\<rparr>))"

definition propose_fix :: "repair_case \<Rightarrow> (repair_case, repair_error) result" where
  "propose_fix c = (if \<not> reproduced c then Err NotReproduced else advance FixProposed c)"

definition record_evidence :: "string list \<Rightarrow> repair_case \<Rightarrow> (repair_case, repair_error) result" where
  "record_evidence hashes c =
     (if hashes = [] then Err NoEvidence
      else try_bind (advance EvidenceRecorded c) (\<lambda>c. Ok (c\<lparr>evidence_hashes := hashes\<rparr>)))"

definition preview_patch :: "repair_case \<Rightarrow> (repair_case, repair_error) result" where
  "preview_patch c = try_bind (advance PatchPreviewed c) (\<lambda>c. Ok (c\<lparr>previewed := True\<rparr>))"

definition grant_approval :: "repair_case \<Rightarrow> (repair_case, repair_error) result" where
  "grant_approval c =
     (if \<not> previewed c then Err NotPreviewed
      else try_bind (advance ApprovalGranted c) (\<lambda>c. Ok (c\<lparr>approved := True\<rparr>)))"

definition may_open_pull_request :: "repair_case \<Rightarrow> (unit, repair_error) result" where
  "may_open_pull_request c =
     (if stage c \<noteq> ApprovalGranted \<or> \<not> approved c then Err ApprovalRequired
      else if \<not> previewed c then Err NotPreviewed
      else if evidence_hashes c = [] then Err NoEvidence
      else Ok ())"

definition may_merge :: "repair_case \<Rightarrow> bool" where
  "may_merge c = False"

section \<open>Runs\<close>

text \<open>The calls a client can make; \<open>Prepare\<close> carries what creating the worktree returned.\<close>

datatype call =
    Select string
  | Prepare "(unit, string) result"
  | Dispatch
  | Reproduce
  | Propose
  | Record "string list"
  | Preview
  | Approve

fun perform :: "call \<Rightarrow> repair_case \<Rightarrow> (repair_case, repair_error) result" where
  "perform (Select i) c = Ok (select_transporter i c)"
| "perform (Prepare created) c = try_bind (prepare_worktree (\<lambda>_. created) () c) (\<lambda>(_, c). Ok c)"
| "perform Dispatch c = dispatch_agent c"
| "perform Reproduce c = record_reproduction c"
| "perform Propose c = propose_fix c"
| "perform (Record hashes) c = record_evidence hashes c"
| "perform Preview c = preview_patch c"
| "perform Approve c = grant_approval c"

text \<open>The stage a call is for, if it is one of the pipeline's.\<close>

fun goal :: "call \<Rightarrow> repair_stage option" where
  "goal (Select _) = None"
| "goal (Prepare _) = Some WorktreeReady"
| "goal Dispatch = Some AgentDispatched"
| "goal Reproduce = Some Reproduced"
| "goal Propose = Some FixProposed"
| "goal (Record _) = Some EvidenceRecorded"
| "goal Preview = Some PatchPreviewed"
| "goal Approve = Some ApprovalGranted"

text \<open>
  A session: any calls in any order, a refused call leaving the case as it was. The second
  component is the list of stages whose calls succeeded, in order.
\<close>

fun session :: "call list \<Rightarrow> repair_case \<Rightarrow> repair_case \<times> repair_stage list" where
  "session [] c = (c, [])"
| "session (k # ks) c =
     (case perform k c of
        Err _ \<Rightarrow> session ks c
      | Ok d \<Rightarrow>
          let (e, done_stages) = session ks d in
          (e, (case goal k of Some s \<Rightarrow> [s] | None \<Rightarrow> []) @ done_stages))"

definition pipeline :: "repair_stage list" where
  "pipeline = [WorktreeReady, AgentDispatched, Reproduced, FixProposed, EvidenceRecorded,
     PatchPreviewed, ApprovalGranted]"

fun stage_rank :: "repair_stage \<Rightarrow> nat" where
  "stage_rank AwaitingTransporterChoice = 0"
| "stage_rank WorktreeReady = 1"
| "stage_rank AgentDispatched = 2"
| "stage_rank Reproduced = 3"
| "stage_rank FixProposed = 4"
| "stage_rank EvidenceRecorded = 5"
| "stage_rank PatchPreviewed = 6"
| "stage_rank ApprovalGranted = 7"
| "stage_rank Abandoned = 8"

section \<open>The order of the pipeline\<close>

interpretation repair_life: lifecycle is_allowed_repair_transition advance stage
proof
  show "is_allowed_repair_transition (stage c) to \<and> stage d = to" if "advance to c = Ok d" for to c d
    using that by (auto simp: advance_def split: if_splits)
qed

lemma advance_Ok_iff:
  "advance to c = Ok d \<longleftrightarrow> is_allowed_repair_transition (stage c) to \<and> d = c\<lparr>stage := to\<rparr>"
  by (auto simp: advance_def)

lemma allowed_iff:
  "is_allowed_repair_transition s WorktreeReady \<longleftrightarrow> s = AwaitingTransporterChoice"
  "is_allowed_repair_transition s AgentDispatched \<longleftrightarrow> s = WorktreeReady"
  "is_allowed_repair_transition s Reproduced \<longleftrightarrow> s = AgentDispatched"
  "is_allowed_repair_transition s FixProposed \<longleftrightarrow> s = Reproduced"
  "is_allowed_repair_transition s EvidenceRecorded \<longleftrightarrow> s = FixProposed"
  "is_allowed_repair_transition s PatchPreviewed \<longleftrightarrow> s = EvidenceRecorded"
  "is_allowed_repair_transition s ApprovalGranted \<longleftrightarrow> s = PatchPreviewed"
  by (auto simp: is_allowed_repair_transition_def)

text \<open>What the stage of a case says about the case.\<close>

definition case_ok :: "repair_case \<Rightarrow> bool" where
  "case_ok c \<longleftrightarrow> stage c \<noteq> Abandoned \<and>
     (reproduced c \<longleftrightarrow> 3 \<le> stage_rank (stage c)) \<and>
     (5 \<le> stage_rank (stage c) \<longrightarrow> evidence_hashes c \<noteq> []) \<and>
     (previewed c \<longleftrightarrow> 6 \<le> stage_rank (stage c)) \<and>
     (approved c \<longleftrightarrow> stage c = ApprovalGranted) \<and>
     (1 \<le> stage_rank (stage c) \<longrightarrow> selected (transporter c) \<and> \<not> may_read (scope c) ''vector.db'')"

lemma case_ok_open: "case_ok (open_case i s)"
  by (simp add: case_ok_def open_case_def)

lemmas operations = select_transporter_def prepare_worktree_def dispatch_agent_def record_reproduction_def
  propose_fix_def record_evidence_def preview_patch_def grant_approval_def

definition done_before :: "repair_case \<Rightarrow> repair_stage list" where
  "done_before c = take (stage_rank (stage c)) pipeline"

lemma prepare_worktree_Ok_iff:
  "prepare_worktree create spec c = Ok (w, d) \<longleftrightarrow> selected (transporter c) \<and> forbidden_paths (scope c) \<noteq> [] \<and>
    \<not> may_read (scope c) ''vector.db'' \<and> create spec = Ok w \<and> advance WorktreeReady c = Ok d"
  by (auto simp: prepare_worktree_def try_bind_Ok_iff split: result.splits)

lemma perform_ok:
  assumes "perform k c = Ok d" "case_ok c"
  shows "case_ok d \<and> done_before d = done_before c @ (case goal k of Some s \<Rightarrow> [s] | None \<Rightarrow> [])"
proof (cases k)
  case (Select i)
  with assms show ?thesis by (simp add: select_transporter_def case_ok_def done_before_def, clarsimp)
next
  case (Prepare created)
  with assms(1) have "selected (transporter c)" "\<not> may_read (scope c) ''vector.db''"
    "stage c = AwaitingTransporterChoice" "d = c\<lparr>stage := WorktreeReady\<rparr>"
    by (auto simp: try_bind_Ok_iff prepare_worktree_Ok_iff advance_Ok_iff allowed_iff)
  with assms(2) Prepare show ?thesis by (simp add: case_ok_def done_before_def pipeline_def)
next
  case Dispatch
  with assms(1) have "stage c = WorktreeReady" "d = c\<lparr>stage := AgentDispatched\<rparr>"
    by (auto simp: operations advance_Ok_iff allowed_iff)
  with assms(2) Dispatch show ?thesis by (simp add: case_ok_def done_before_def pipeline_def)
next
  case Reproduce
  with assms(1) have "stage c = AgentDispatched" "d = c\<lparr>stage := Reproduced, reproduced := True\<rparr>"
    by (auto simp: operations advance_Ok_iff allowed_iff try_bind_Ok_iff)
  with assms(2) Reproduce show ?thesis by (simp add: case_ok_def done_before_def pipeline_def)
next
  case Propose
  with assms(1) have "stage c = Reproduced" "d = c\<lparr>stage := FixProposed\<rparr>"
    by (auto simp: operations advance_Ok_iff allowed_iff split: if_splits)
  with assms(2) Propose show ?thesis by (simp add: case_ok_def done_before_def pipeline_def)
next
  case (Record hashes)
  with assms(1) have "hashes \<noteq> []" "stage c = FixProposed"
    "d = c\<lparr>stage := EvidenceRecorded, evidence_hashes := hashes\<rparr>"
    by (auto simp: operations advance_Ok_iff allowed_iff try_bind_Ok_iff split: if_splits)
  with assms(2) Record show ?thesis by (simp add: case_ok_def done_before_def pipeline_def)
next
  case Preview
  with assms(1) have "stage c = EvidenceRecorded" "d = c\<lparr>stage := PatchPreviewed, previewed := True\<rparr>"
    by (auto simp: operations advance_Ok_iff allowed_iff try_bind_Ok_iff)
  with assms(2) Preview show ?thesis by (simp add: case_ok_def done_before_def pipeline_def)
next
  case Approve
  with assms(1) have "stage c = PatchPreviewed" "d = c\<lparr>stage := ApprovalGranted, approved := True\<rparr>"
    by (auto simp: operations advance_Ok_iff allowed_iff try_bind_Ok_iff split: if_splits)
  with assms(2) Approve show ?thesis by (simp add: case_ok_def done_before_def pipeline_def)
qed

lemma session_ok:
  "session ks c = (e, ds) \<Longrightarrow> case_ok c \<Longrightarrow> case_ok e \<and> done_before e = done_before c @ ds"
proof (induction ks arbitrary: c ds)
  case (Cons k ks)
  show ?case
  proof (cases "perform k c")
    case (Err x)
    with Cons show ?thesis by simp
  next
    case (Ok d)
    obtain es where es: "session ks d = (e, es)" "ds = (case goal k of Some s \<Rightarrow> [s] | None \<Rightarrow> []) @ es"
      using Cons.prems(1) Ok by (auto split: prod.splits)
    from perform_ok [OF Ok Cons.prems(2)] Cons.IH [OF es(1)] es(2) show ?thesis by simp
  qed
qed simp

lemma session_from_open:
  assumes "session ks (open_case i s) = (c, ds)"
  shows "case_ok c" "ds = done_before c"
  using session_ok [OF assms case_ok_open] by (simp_all add: done_before_def open_case_def)

lemma may_open_iff: "case_ok c \<Longrightarrow> may_open_pull_request c = Ok () \<longleftrightarrow> stage c = ApprovalGranted"
  by (auto simp: may_open_pull_request_def case_ok_def)

lemma whole_pipeline_iff: "stage c \<noteq> Abandoned \<Longrightarrow> done_before c = pipeline \<longleftrightarrow> stage c = ApprovalGranted"
  by (cases "stage c") (simp_all add: done_before_def pipeline_def)

section \<open>Properties\<close>

text \<open>
  A pull request may be opened after a session, whatever its calls, exactly when the
  calls that succeeded went through all seven stages of the pipeline in order; merging is
  never permitted.
\<close>

theorem pull_request_needs_whole_pipeline:
  "(may_open_pull_request (fst (session ks (open_case i s))) = Ok () \<longleftrightarrow>
      snd (session ks (open_case i s)) = pipeline) \<and>
   \<not> may_merge (fst (session ks (open_case i s)))"
proof -
  obtain c ds where s: "session ks (open_case i s) = (c, ds)" by fastforce
  from session_from_open [OF s] have "case_ok c" "ds = done_before c" .
  then show ?thesis
    using may_open_iff whole_pipeline_iff by (simp add: s may_merge_def case_ok_def)
qed

text \<open>
  No stage is skipped, repeated or reordered: the stages a session completes are a
  prefix of the pipeline, as long as the rank of the stage it is in, and past the first of
  them a transporter is selected and the scope cannot read the learner's database.
\<close>

theorem stages_in_order:
  "snd (session ks (open_case i s)) = take (stage_rank (stage (fst (session ks (open_case i s))))) pipeline \<and>
   (if snd (session ks (open_case i s)) = [] then True
    else selected (transporter (fst (session ks (open_case i s)))) \<and>
      \<not> may_read (scope (fst (session ks (open_case i s)))) ''vector.db'')"
proof -
  obtain c ds where s: "session ks (open_case i s) = (c, ds)" by fastforce
  from session_from_open [OF s] have c: "case_ok c" "ds = done_before c" .
  then have "ds = [] \<or> 1 \<le> stage_rank (stage c)" by (cases "stage c") (simp_all add: done_before_def)
  then show ?thesis using c by (auto simp: s case_ok_def done_before_def)
qed

text \<open>
  Under the default scope the learner's database and the environment file stay
  unreadable whatever evidence and code is granted, but the third forbidden pattern, whose
  inner \<open>**\<close> is matched literally, does not keep an agent from live-fire evidence.
\<close>

theorem default_scope_reads:
  "\<not> may_read (default_scoped evidence code) ''vector.db'' \<and>
   \<not> may_read (default_scoped evidence code) ''.env'' \<and>
   may_read (default_scoped [''.agent/evidence/**''] []) ''.agent/evidence/run-1/livefire/transcript.json''"
proof -
  have db: "path_matches ''vector.db'' ''vector.db''" "unify_separators ''vector.db'' = ''vector.db''"
    "path_matches ''.env'' ''.env''" "unify_separators ''.env'' = ''.env''"
    by code_simp+
  have "may_read (default_scoped [''.agent/evidence/**''] []) ''.agent/evidence/run-1/livefire/transcript.json''"
    by code_simp
  then show ?thesis by (simp add: may_read_def default_scoped_def db)
qed

end
