(* ===== verification/Mcp_Protocol.thy ===== *)
theory Mcp_Protocol
  imports Prelude
begin

text \<open>
  The JSON-RPC framing, \<open>crates/vector-mcp/src/protocol.rs\<close>. A \<open>serde_json::Value\<close> is the
  datatype \<open>json\<close>; an object is the list of its members, found by key, whose order the model
  does not use. What the code takes from \<open>serde_json\<close> and from the Unicode tables is in the
  record \<open>text_host\<close>: reading a value (or the parser's message), writing one, and \<open>{:?}\<close> of
  a string.
\<close>

datatype json_number = Integer int | Floating string

datatype json =
    JNull
  | JBool bool
  | JNumber json_number
  | JString string
  | JArray "json list"
  | JObject "(string \<times> json) list"

record text_host =
  from_text :: "string \<Rightarrow> (json, string) result"
  to_text :: "json \<Rightarrow> string"
  debug_text :: "string \<Rightarrow> string"

fun as_object :: "json \<Rightarrow> (string \<times> json) list option" where
  "as_object (JObject members) = Some members"
| "as_object _ = None"

fun is_array :: "json \<Rightarrow> bool" where
  "is_array (JArray _) = True"
| "is_array _ = False"

fun as_text :: "json \<Rightarrow> string option" where
  "as_text (JString s) = Some s"
| "as_text _ = None"

fun is_text_or_number :: "json \<Rightarrow> bool" where
  "is_text_or_number (JString _) = True"
| "is_text_or_number (JNumber _) = True"
| "is_text_or_number _ = False"

fun get_member :: "json \<Rightarrow> string \<Rightarrow> json option" where
  "get_member (JObject members) key = map_of members key"
| "get_member _ key = None"

definition JSONRPC_VERSION :: string where
  "JSONRPC_VERSION = ''2.0''"

definition MCP_PROTOCOL_VERSION :: string where
  "MCP_PROTOCOL_VERSION = ''2024-11-05''"

definition PARSE_ERROR :: int where "PARSE_ERROR = -32700"
definition INVALID_REQUEST :: int where "INVALID_REQUEST = -32600"
definition METHOD_NOT_FOUND :: int where "METHOD_NOT_FOUND = -32601"
definition INVALID_PARAMS :: int where "INVALID_PARAMS = -32602"
definition INTERNAL_ERROR :: int where "INTERNAL_ERROR = -32603"
definition DENIED :: int where "DENIED = -32001"
definition TOOL_FAILED :: int where "TOOL_FAILED = -32002"

record request =
  request_version :: string
  request_id :: "json option"
  request_method :: string
  request_params :: "json option"

record rpc_error =
  error_code :: int
  error_message :: string
  error_data :: "json option"

record response =
  response_version :: string
  response_id :: json
  response_result :: "json option"
  response_error :: "rpc_error option"

definition success :: "json \<Rightarrow> json \<Rightarrow> response" where
  "success i v = \<lparr>response_version = JSONRPC_VERSION, response_id = i, response_result = Some v, response_error = None\<rparr>"

definition failed :: "json \<Rightarrow> int \<Rightarrow> string \<Rightarrow> response" where
  "failed i code message = \<lparr>response_version = JSONRPC_VERSION, response_id = i, response_result = None,
     response_error = Some \<lparr>error_code = code, error_message = message, error_data = None\<rparr>\<rparr>"

definition with_data :: "json \<Rightarrow> response \<Rightarrow> response" where
  "with_data d r = (case response_error r of
     Some e \<Rightarrow> r\<lparr>response_error := Some (e\<lparr>error_data := Some d\<rparr>)\<rparr>
   | None \<Rightarrow> r)"

definition is_error :: "response \<Rightarrow> bool" where
  "is_error r \<longleftrightarrow> response_error r \<noteq> None"

definition code_of :: "response \<Rightarrow> int option" where
  "code_of r = map_option error_code (response_error r)"

text \<open>The batch branch of the code stands after the object check, so it is never taken.\<close>

definition parse_request :: "text_host \<Rightarrow> string \<Rightarrow> (request, response) result" where
  "parse_request h line =
     (case from_text h line of
        Err message \<Rightarrow> Err (failed JNull PARSE_ERROR (''invalid JSON: '' @ message))
      | Ok v \<Rightarrow>
          (case as_object v of
             None \<Rightarrow> Err (failed JNull INVALID_REQUEST ''a JSON-RPC message must be an object'')
           | Some object \<Rightarrow>
               if is_array v then Err (failed JNull INVALID_REQUEST ''batch requests are not supported'')
               else (let i = map_of object ''id'';
                         fail = (\<lambda>code message. failed (case i of Some x \<Rightarrow> x | None \<Rightarrow> JNull) code message)
                     in
                     case Option.bind (map_of object ''jsonrpc'') as_text of
                       None \<Rightarrow> Err (fail INVALID_REQUEST ''missing jsonrpc version'')
                     | Some version \<Rightarrow>
                         if version \<noteq> JSONRPC_VERSION
                         then Err (fail INVALID_REQUEST (''unsupported jsonrpc version '' @ debug_text h version))
                         else case Option.bind (map_of object ''method'') as_text of
                             None \<Rightarrow> Err (fail INVALID_REQUEST ''missing or empty method'')
                           | Some meth \<Rightarrow>
                               if meth = [] then Err (fail INVALID_REQUEST ''missing or empty method'')
                               else if (case i of Some x \<Rightarrow> \<not> is_text_or_number x | None \<Rightarrow> False)
                               then Err (failed JNull INVALID_REQUEST ''id must be a string or a number'')
                               else Ok \<lparr>request_version = JSONRPC_VERSION, request_id = i, request_method = meth,
                                        request_params = map_of object ''params''\<rparr>)))"

definition is_notification :: "request \<Rightarrow> bool" where
  "is_notification r \<longleftrightarrow> request_id r = None"

text \<open>A tool result as its JSON value.\<close>

record call_tool_result =
  result_content :: "string list"
  result_is_error :: bool

definition text_result :: "string \<Rightarrow> call_tool_result" where
  "text_result t = \<lparr>result_content = [t], result_is_error = False\<rparr>"

definition failure_result :: "string \<Rightarrow> call_tool_result" where
  "failure_result t = \<lparr>result_content = [t], result_is_error = True\<rparr>"

definition content_block :: "string \<Rightarrow> json" where
  "content_block t = JObject [(''type'', JString ''text''), (''text'', JString t)]"

definition result_members :: "call_tool_result \<Rightarrow> (string \<times> json) list" where
  "result_members r = (''content'', JArray (map content_block (result_content r))) #
     (if result_is_error r then [(''isError'', JBool True)] else [])"

section \<open>What parsing promises\<close>

text \<open>A parsed request has a method, and an id that can be echoed.\<close>

lemma parse_request_Ok:
  "parse_request h line = Ok r \<Longrightarrow> request_method r \<noteq> [] \<and>
    (case request_id r of Some i \<Rightarrow> is_text_or_number i | None \<Rightarrow> True)"
  by (auto simp: parse_request_def Let_def split: result.splits option.splits if_splits)

lemma parse_request_Err:
  "parse_request h line = Err e \<Longrightarrow> response_result e = None \<and> code_of e \<in> {Some PARSE_ERROR, Some INVALID_REQUEST}"
  by (auto simp: parse_request_def Let_def failed_def code_of_def split: result.splits option.splits if_splits)

end
