(* ===== verification/Ledger.thy ===== *)
theory Ledger
  imports Prelude
begin

text \<open>
  The contract of an append-only ledger: every operation appends exactly one record, stamped
  with the name of the next number. Clients learn that the ledger only grows, has one record
  per operation in order, and never stamps two records alike. Also here: \<open>{:06}\<close>, the
  zero-padded decimal the ledgers stamp with.
\<close>

definition show_padded :: "nat \<Rightarrow> nat \<Rightarrow> string" where
  "show_padded w n = (let s = show_nat n in replicate (w - length s) (CHR ''0'') @ s)"

lemma digits_val_zeros: "digits_val (replicate k (CHR ''0'') @ s) = digits_val s"
  by (induction k) (simp_all add: digits_val_def digit_val_def byte_def)

lemma digits_val_show_padded: "digits_val (show_padded w n) = n"
  by (simp add: show_padded_def Let_def digits_val_zeros digits_val_show_nat)

lemma show_padded_inj: "show_padded w m = show_padded w n \<longleftrightarrow> m = n"
  by (metis digits_val_show_padded)

locale ledger =
  fixes step :: "'c \<Rightarrow> 's \<Rightarrow> 's"
    and ok :: "'s \<Rightarrow> bool"
    and log :: "'s \<Rightarrow> 'r list"
    and next_number :: "'s \<Rightarrow> nat"
    and stamp :: "'r \<Rightarrow> 'k"
    and stamp_of :: "nat \<Rightarrow> 'k"
  assumes ok_step: "ok s \<Longrightarrow> ok (step c s)"
    and step_appends: "ok s \<Longrightarrow>
      (log (step c s) = log s \<and> next_number (step c s) = next_number s) \<or>
      (\<exists>r. log (step c s) = log s @ [r] \<and> stamp r = stamp_of (next_number s) \<and>
         next_number (step c s) = Suc (next_number s))"
    and stamp_inj: "stamp_of m = stamp_of n \<Longrightarrow> m = n"
begin

lemma run_ok: "ok s \<Longrightarrow> ok (fold step cs s)"
  by (induction cs arbitrary: s) (simp_all add: ok_step)

lemma run_grows:
  "ok s \<Longrightarrow> \<exists>rs. log (fold step cs s) = log s @ rs \<and>
    next_number (fold step cs s) = next_number s + length rs \<and>
    map stamp rs = map stamp_of [next_number s ..< next_number s + length rs]"
proof (induction cs arbitrary: s)
  case (Cons c cs)
  from Cons.IH [OF ok_step [OF Cons.prems, of c]] obtain rs where rs:
    "log (fold step cs (step c s)) = log (step c s) @ rs"
    "next_number (fold step cs (step c s)) = next_number (step c s) + length rs"
    "map stamp rs = map stamp_of [next_number (step c s) ..< next_number (step c s) + length rs]"
    by blast
  from step_appends [OF Cons.prems, of c] show ?case
  proof
    assume "log (step c s) = log s \<and> next_number (step c s) = next_number s"
    with rs show ?thesis by auto
  next
    assume "\<exists>r. log (step c s) = log s @ [r] \<and> stamp r = stamp_of (next_number s) \<and>
         next_number (step c s) = Suc (next_number s)"
    then obtain r where "log (step c s) = log s @ [r]" "stamp r = stamp_of (next_number s)"
      "next_number (step c s) = Suc (next_number s)" by blast
    with rs show ?thesis by (intro exI [of _ "r # rs"]) (simp add: upt_conv_Cons del: upt_Suc)
  qed
qed simp

text \<open>The ledger only grows, and from an empty one no two records are stamped alike.\<close>

lemma run_appends: "ok s \<Longrightarrow> \<exists>rs. log (fold step cs s) = log s @ rs"
  using run_grows [of s cs] by auto

lemma run_stamps_distinct:
  assumes "ok s" and "log s = []"
  shows "distinct (map stamp (log (fold step cs s)))"
  using run_grows [OF assms(1), of cs] assms(2)
  by (auto simp: distinct_map inj_on_def dest: stamp_inj)

end

end
