(* ===== verification/Replace.thy ===== *)
theory Replace
  imports Prelude
begin

text \<open>
  When a replacement removes its pattern, and when it leaves another marker absent. Two
  strings clash when neither begins with the other; a replacement cannot help an occurrence
  of a marker across its edges when the marker's suffixes clash with the replacement's start
  (or are what the pattern already began with) and the replacement's suffixes clash with the
  marker. Both conditions are decidable checks on the literals.
\<close>

fun clash :: "string \<Rightarrow> string \<Rightarrow> bool" where
  "clash (c # s) (d # t) = (if c = d then clash s t else True)"
| "clash _ _ = False"

lemma clash_def: "clash s t \<longleftrightarrow> \<not> starts_with s t \<and> \<not> starts_with t s"
  by (induction s t rule: clash.induct) (auto elim: starts_with.elims)

fun suffixes_of :: "string \<Rightarrow> string list" where
  "suffixes_of [] = []"
| "suffixes_of (c # s) = (c # s) # suffixes_of s"

definition harmless :: "string \<Rightarrow> string \<Rightarrow> string \<Rightarrow> bool" where
  "harmless pat rep p \<longleftrightarrow> p \<noteq> [] \<and> pat \<noteq> [] \<and>
     list_all (\<lambda>q. if clash rep q then True else starts_with rep q \<and> starts_with pat q) (suffixes_of p) \<and>
     list_all (\<lambda>r. clash r p) (suffixes_of rep)"

lemma starts_with_appendD: "starts_with (s @ t) q \<Longrightarrow> starts_with s q \<or> starts_with q s"
proof (induction s arbitrary: q)
  case Nil
  then show ?case by (cases q) auto
next
  case (Cons c s)
  then show ?case by (cases q) auto
qed

lemma starts_with_trans: "starts_with s p \<Longrightarrow> starts_with p q \<Longrightarrow> starts_with s q"
  by (auto simp: starts_with_iff)

lemma starts_with_replace:
  assumes "pat \<noteq> []"
  shows "list_all (\<lambda>q. starts_with rep q \<and> starts_with pat q \<or> clash rep q) (suffixes_of q) \<Longrightarrow>
    starts_with (str_replace pat rep s) q \<Longrightarrow> starts_with s q"
proof (induction pat rep s arbitrary: q rule: str_replace.induct)
  case (2 pat rep c s)
  show ?case
  proof (cases "q = []")
    case False
    then obtain d q' where q: "q = d # q'" by (cases q) auto
    show ?thesis
    proof (cases "pat \<noteq> [] \<and> starts_with (c # s) pat")
      case True
      then have "starts_with (rep @ str_replace pat rep (drop (length pat) (c # s))) q" using 2 by simp
      then have "\<not> clash rep q" by (auto simp: clash_def dest: starts_with_appendD)
      with 2(3) q have "starts_with pat q" by auto
      with True show ?thesis using starts_with_trans by blast
    next
      case False
      with 2 q show ?thesis by auto
    qed
  qed simp
qed (simp)

lemma contains_append_clash:
  "list_all (\<lambda>r. clash r p) (suffixes_of s) \<Longrightarrow> p \<noteq> [] \<Longrightarrow> contains (s @ t) p \<longleftrightarrow> contains t p"
proof (induction s)
  case (Cons c s)
  have "\<not> starts_with ((c # s) @ t) p"
  proof
    assume "starts_with ((c # s) @ t) p"
    from starts_with_appendD [OF this] Cons.prems show False by (simp add: clash_def)
  qed
  with Cons show ?case by simp
qed simp

lemma contains_drop: "contains (drop n s) p \<Longrightarrow> contains s p"
  by (metis append.assoc append_take_drop_id contains_iff)

lemma contains_replace:
  assumes "harmless pat rep p"
  shows "contains (str_replace pat rep s) p \<Longrightarrow> contains s p"
  using assms
proof (induction pat rep s rule: str_replace.induct)
  case (2 pat rep c s)
  from 2(4) have h: "p \<noteq> []" "pat \<noteq> []" "list_all (\<lambda>r. clash r p) (suffixes_of rep)"
    "list_all (\<lambda>q. starts_with rep q \<and> starts_with pat q \<or> clash rep q) (suffixes_of p)"
    by (auto simp: harmless_def list_all_iff split: if_splits)
  show ?case
  proof (cases "starts_with (c # s) pat")
    case True
    with 2(3) h have "contains (str_replace pat rep (drop (length pat) (c # s))) p"
      by (simp add: contains_append_clash)
    with 2(1) 2(4) True h have "contains (drop (length pat) (c # s)) p" by simp
    then show ?thesis by (rule contains_drop)
  next
    case False
    then have r: "str_replace pat rep (c # s) = c # str_replace pat rep s" by simp
    show ?thesis
    proof (cases "starts_with (str_replace pat rep (c # s)) p")
      case True
      from starts_with_replace [OF h(2) h(4) this] show ?thesis by simp
    next
      case no_start: False
      with 2(3) r have "contains (str_replace pat rep s) p" by simp
      with 2(2) 2(4) False show ?thesis by auto
    qed
  qed
qed simp

lemma replace_removes:
  assumes "harmless pat rep pat"
  shows "\<not> contains (str_replace pat rep s) pat"
  using assms
proof (induction pat rep s rule: str_replace.induct)
  case (1 pat rep)
  then show ?case by (simp add: harmless_def)
next
  case (2 pat rep c s)
  from 2(3) have h: "pat \<noteq> []" "list_all (\<lambda>r. clash r pat) (suffixes_of rep)"
    "list_all (\<lambda>q. starts_with rep q \<and> starts_with pat q \<or> clash rep q) (suffixes_of pat)"
    by (auto simp: harmless_def list_all_iff split: if_splits)
  show ?case
  proof (cases "starts_with (c # s) pat")
    case True
    with 2 h show ?thesis by (simp add: contains_append_clash)
  next
    case False
    then have r: "str_replace pat rep (c # s) = c # str_replace pat rep s" by simp
    have "\<not> starts_with (str_replace pat rep (c # s)) pat"
      using starts_with_replace [OF h(1) h(3)] False by blast
    with r False 2 show ?thesis by simp
  qed
qed

text \<open>A chain of replacements, in the order they are applied.\<close>

fun replace_all :: "(string \<times> string) list \<Rightarrow> string \<Rightarrow> string" where
  "replace_all [] s = s"
| "replace_all ((pat, rep) # rs) s = replace_all rs (str_replace pat rep s)"

fun harmless_chain :: "(string \<times> string) list \<Rightarrow> bool" where
  "harmless_chain [] = True"
| "harmless_chain ((pat, rep) # rs) =
     (harmless pat rep pat \<and> list_all (\<lambda>(pat', rep'). harmless pat' rep' pat) rs \<and> harmless_chain rs)"

lemma replace_all_keeps:
  "list_all (\<lambda>(pat, rep). harmless pat rep p) rs \<Longrightarrow> contains (replace_all rs s) p \<Longrightarrow> contains s p"
  by (induction rs s rule: replace_all.induct) (auto dest: contains_replace)

lemma replace_all_removes:
  "harmless_chain rs \<Longrightarrow> (pat, rep) \<in> set rs \<Longrightarrow> \<not> contains (replace_all rs s) pat"
  by (induction rs s rule: replace_all.induct) (auto dest: replace_all_keeps simp: replace_removes)

end
