(* ===== verification/Content_Qa.thy ===== *)
theory Content_Qa
  imports Ledger "HOL-Library.Multiset" "HOL-Library.Sublist"
begin

text \<open>
  The content review ledger, \<open>crates/vector-content/src/content_qa.rs\<close>: review states, the
  operations that record a decision, an activation or a rollback, and the audit trail. The
  sequence counter (a \<open>u64\<close>) is a natural. Difficulty calibration is floating point and is
  not modelled beyond its guards.
\<close>

section \<open>Items under review\<close>

datatype review_state = Unreviewed | InReview | Approved | Rejected | Superseded

fun is_activatable :: "review_state \<Rightarrow> bool" where
  "is_activatable Approved = True"
| "is_activatable _ = False"

record review_decision =
  reviewer :: string
  decision_state :: review_state
  decision_note :: string
  decided_on :: string

record audit_entry =
  sequence :: nat
  entry_item :: string
  from_state :: review_state
  to_state :: review_state
  actor :: string
  entry_note :: string
  entry_at :: string

datatype review_error =
    NotReviewed string
  | MissingRationale
  | MissingReviewer
  | InvalidTransition review_state review_state
  | UnknownItem string

record content_item =
  item_id :: string
  review :: review_state
  decisions :: "review_decision list"
  item_history :: "audit_entry list"

definition new_item :: "string \<Rightarrow> content_item" where
  "new_item i = \<lparr>item_id = i, review = Unreviewed, decisions = [], item_history = []\<rparr>"

record content_qa =
  qa_items :: "content_item list"
  next_sequence :: nat

definition new_qa :: content_qa where
  "new_qa = \<lparr>qa_items = [], next_sequence = 1\<rparr>"

definition add_item :: "string \<Rightarrow> content_qa \<Rightarrow> content_qa" where
  "add_item i q =
     (if \<not> list_ex (\<lambda>x. item_id x = i) (qa_items q) then q\<lparr>qa_items := qa_items q @ [new_item i]\<rparr> else q)"

definition find_item :: "content_qa \<Rightarrow> string \<Rightarrow> content_item option" where
  "find_item q i = List.find (\<lambda>x. item_id x = i) (qa_items q)"

definition history_of :: "content_qa \<Rightarrow> string \<Rightarrow> audit_entry list" where
  "history_of q i = (case find_item q i of Some x \<Rightarrow> item_history x | None \<Rightarrow> [])"

fun is_allowed_transition :: "review_state \<Rightarrow> review_state \<Rightarrow> bool" where
  "is_allowed_transition Unreviewed InReview = True"
| "is_allowed_transition InReview Approved = True"
| "is_allowed_transition InReview Rejected = True"
| "is_allowed_transition Rejected InReview = True"
| "is_allowed_transition Approved Rejected = True"
| "is_allowed_transition _ _ = False"

text \<open>\<open>iter_mut().find\<close> and a change in place: the first item with the id.\<close>

fun update_item :: "string \<Rightarrow> (content_item \<Rightarrow> content_item) \<Rightarrow> content_item list \<Rightarrow> content_item list" where
  "update_item i f [] = []"
| "update_item i f (x # xs) = (if item_id x = i then f x # xs else x # update_item i f xs)"

type_synonym qa_step = "(unit, review_error) result \<times> content_qa"

definition decide :: "string \<Rightarrow> string \<Rightarrow> review_state \<Rightarrow> string \<Rightarrow> string \<Rightarrow> content_qa \<Rightarrow> qa_step" where
  "decide i who state note at q =
     (if trim who = [] then (Err MissingReviewer, q)
      else if trim note = [] then (Err MissingRationale, q)
      else case find_item q i of
        None \<Rightarrow> (Err (UnknownItem i), q)
      | Some item \<Rightarrow>
          if \<not> is_allowed_transition (review item) state then (Err (InvalidTransition (review item) state), q)
          else (Ok (), q\<lparr>next_sequence := next_sequence q + 1, qa_items := update_item i
            (\<lambda>x. x\<lparr>review := state,
                  decisions := decisions x @
                    [\<lparr>reviewer = who, decision_state = state, decision_note = note, decided_on = at\<rparr>],
                  item_history := item_history x @
                    [\<lparr>sequence = next_sequence q, entry_item = i, from_state = review item, to_state = state,
                      actor = who, entry_note = note, entry_at = at\<rparr>]\<rparr>) (qa_items q)\<rparr>))"

definition activate :: "string \<Rightarrow> string \<Rightarrow> string \<Rightarrow> content_qa \<Rightarrow> qa_step" where
  "activate i who at q =
     (case find_item q i of
        None \<Rightarrow> (Err (UnknownItem i), q)
      | Some item \<Rightarrow>
          if \<not> is_activatable (review item) then (Err (NotReviewed i), q)
          else (Ok (), q\<lparr>next_sequence := next_sequence q + 1, qa_items := update_item i
            (\<lambda>x. x\<lparr>item_history := item_history x @
                    [\<lparr>sequence = next_sequence q, entry_item = i, from_state = review item, to_state = Superseded,
                      actor = who, entry_note = ''activated'', entry_at = at\<rparr>],
                  review := Superseded\<rparr>) (qa_items q)\<rparr>))"

definition rollback :: "string \<Rightarrow> string \<Rightarrow> string \<Rightarrow> string \<Rightarrow> content_qa \<Rightarrow> qa_step" where
  "rollback i who reason at q =
     (if trim reason = [] then (Err MissingRationale, q)
      else case find_item q i of
        None \<Rightarrow> (Err (UnknownItem i), q)
      | Some item \<Rightarrow>
          (Ok (), q\<lparr>next_sequence := next_sequence q + 1, qa_items := update_item i
            (\<lambda>x. x\<lparr>review := Rejected,
                  item_history := item_history x @
                    [\<lparr>sequence = next_sequence q, entry_item = i, from_state = review item, to_state = Rejected,
                      actor = who, entry_note = reason, entry_at = at\<rparr>]\<rparr>) (qa_items q)\<rparr>))"

text \<open>\<open>sort_by_key\<close> is stable, as \<^const>\<open>sort_key\<close> is.\<close>

definition audit :: "content_qa \<Rightarrow> audit_entry list" where
  "audit q = sort_key sequence (concat (map item_history (qa_items q)))"

section \<open>Runs of the ledger\<close>

datatype qa_op =
    Add string
  | Decide string string review_state string string
  | Activate string string string
  | Rollback string string string string

fun perform_op :: "qa_op \<Rightarrow> content_qa \<Rightarrow> qa_step" where
  "perform_op (Add i) q = (Ok (), add_item i q)"
| "perform_op (Decide i who state note at) q = decide i who state note at q"
| "perform_op (Activate i who at) q = activate i who at q"
| "perform_op (Rollback i who reason at) q = rollback i who reason at q"

definition after_op :: "qa_op \<Rightarrow> content_qa \<Rightarrow> content_qa" where
  "after_op c q = snd (perform_op c q)"

text \<open>
  The one change an operation makes, if any: it adds an unreviewed item, or appends one entry
  to one item. \<open>entry_allowed\<close> is what every entry satisfies.
\<close>

definition entry_allowed :: "audit_entry \<Rightarrow> bool" where
  "entry_allowed e \<longleftrightarrow>
     (if to_state e = Approved then from_state e = InReview \<and> trim (actor e) \<noteq> [] \<and> trim (entry_note e) \<noteq> []
      else if to_state e = Superseded then from_state e = Approved
      else if to_state e = Unreviewed then False
      else trim (entry_note e) \<noteq> [])"

definition appends :: "audit_entry \<Rightarrow> content_item \<Rightarrow> content_item \<Rightarrow> bool" where
  "appends e x y \<longleftrightarrow> item_id y = item_id x \<and> item_history y = item_history x @ [e] \<and> review y = to_state e"

inductive changes :: "content_qa \<Rightarrow> content_qa \<Rightarrow> bool" where
  none: "changes q q"
| added: "i \<notin> item_id ` set (qa_items q) \<Longrightarrow> changes q (q\<lparr>qa_items := qa_items q @ [new_item i]\<rparr>)"
| entered: "qa_items q = xs @ x # ys \<Longrightarrow> appends e x y \<Longrightarrow> sequence e = next_sequence q \<Longrightarrow>
    from_state e = review x \<Longrightarrow> entry_allowed e \<Longrightarrow>
    changes q (q\<lparr>next_sequence := Suc (next_sequence q), qa_items := xs @ y # ys\<rparr>)"

inductive_cases changesE: "changes q r"

lemma find_split:
  "List.find P l = Some x \<Longrightarrow> \<exists>xs ys. l = xs @ x # ys \<and> P x \<and> (\<forall>z \<in> set xs. \<not> P z)"
proof (induction l)
  case (Cons a l)
  show ?case
  proof (cases "P a")
    case True
    with Cons.prems show ?thesis by (intro exI [of _ "[]"] exI [of _ l]) simp
  next
    case False
    with Cons obtain xs ys where "l = xs @ x # ys" "P x" "\<forall>z \<in> set xs. \<not> P z" by auto
    with False show ?thesis by (intro exI [of _ "a # xs"] exI [of _ ys]) simp
  qed
qed simp

lemma update_split:
  "item_id x = i \<Longrightarrow> \<forall>z \<in> set xs. item_id z \<noteq> i \<Longrightarrow> update_item i f (xs @ x # ys) = xs @ f x # ys"
  by (induction xs) auto

lemma entered_update:
  defines "e \<equiv> \<lambda>y. last (item_history y)"
  assumes "find_item q i = Some x" "appends (e (f x)) x (f x)" "sequence (e (f x)) = next_sequence q"
    "from_state (e (f x)) = review x" "entry_allowed (e (f x))"
  shows "changes q (q\<lparr>next_sequence := Suc (next_sequence q), qa_items := update_item i f (qa_items q)\<rparr>)"
proof -
  obtain xs ys where "qa_items q = xs @ x # ys" "item_id x = i" "\<forall>z \<in> set xs. item_id z \<noteq> i"
    using find_split [OF assms(2) [unfolded find_item_def]] by auto
  with changes.entered [OF this(1) assms(3-6)] show ?thesis by (simp add: update_split)
qed

lemma decided_allowed:
  "is_allowed_transition (from_state e) (to_state e) \<Longrightarrow> trim (actor e) \<noteq> [] \<Longrightarrow> trim (entry_note e) \<noteq> [] \<Longrightarrow>
    entry_allowed e"
  by (cases "from_state e"; cases "to_state e") (simp_all add: entry_allowed_def)

lemma activatable_iff: "is_activatable s \<longleftrightarrow> s = Approved"
  by (cases s) simp_all

lemma after_op_changes: "changes q (after_op c q)"
proof (cases c)
  case (Add i)
  then show ?thesis by (auto simp: after_op_def add_item_def list_ex_iff intro: changes.intros)
next
  case (Decide i who state msg at)
  then show ?thesis
    by (auto simp: after_op_def decide_def appends_def split: option.split
        intro!: changes.none entered_update intro: decided_allowed)
next
  case (Activate i who at)
  show ?thesis
  proof (cases "find_item q i")
    case None
    with Activate show ?thesis by (simp add: after_op_def activate_def changes.none)
  next
    case (Some x)
    show ?thesis
    proof (cases "review x = Approved")
      case True
      with Activate Some show ?thesis
        by (simp add: after_op_def activate_def) (rule entered_update [OF Some], simp_all add: appends_def entry_allowed_def)
    next
      case False
      with Activate Some show ?thesis by (simp add: after_op_def activate_def activatable_iff changes.none)
    qed
  qed
next
  case (Rollback i who reason at)
  then show ?thesis
    by (auto simp: after_op_def rollback_def entry_allowed_def appends_def split: option.split
        intro!: changes.none entered_update)
qed

section \<open>The audit trail\<close>

text \<open>The state a history leads to, when its entries connect.\<close>

fun follows :: "review_state \<Rightarrow> audit_entry list \<Rightarrow> review_state option" where
  "follows s [] = Some s"
| "follows s (e # es) = (if from_state e = s then follows (to_state e) es else None)"

definition item_ok :: "nat \<Rightarrow> content_item \<Rightarrow> bool" where
  "item_ok n x \<longleftrightarrow> follows Unreviewed (item_history x) = Some (review x) \<and>
     (\<forall>e \<in> set (item_history x). entry_allowed e \<and> sequence e < n)"

definition qa_ok :: "content_qa \<Rightarrow> bool" where
  "qa_ok q \<longleftrightarrow> distinct (map item_id (qa_items q)) \<and> list_all (item_ok (next_sequence q)) (qa_items q)"

lemma follows_append: "follows s (es @ [e]) = (if follows s es = Some (from_state e) then Some (to_state e) else None)"
  by (induction s es rule: follows.induct) auto

lemma item_ok_Suc: "item_ok n x \<Longrightarrow> item_ok (Suc n) x"
  by (auto simp: item_ok_def)

lemma item_ok_appends:
  "item_ok n x \<Longrightarrow> appends e x y \<Longrightarrow> sequence e = n \<Longrightarrow> from_state e = review x \<Longrightarrow> entry_allowed e \<Longrightarrow> item_ok (Suc n) y"
  by (auto simp: item_ok_def appends_def follows_append)

lemma changes_ok: "changes q r \<Longrightarrow> qa_ok q \<Longrightarrow> qa_ok r"
proof (induction rule: changes.induct)
  case (entered q xs x ys e y)
  then have "list_all (item_ok (Suc (next_sequence q))) (xs @ y # ys)"
    using item_ok_appends by (auto simp: qa_ok_def list_all_iff item_ok_Suc)
  with entered show ?case by (auto simp: qa_ok_def appends_def)
qed (auto simp: qa_ok_def item_ok_def new_item_def)

lemma sort_key_last:
  assumes "\<forall>x \<in> set (xs @ ys). f x < (f e :: nat)"
  shows "sort_key f (xs @ e # ys) = sort_key f (xs @ ys) @ [e]"
proof (rule properties_for_sort_key)
  show "mset (sort_key f (xs @ ys) @ [e]) = mset (xs @ e # ys)" by simp
  show "filter (\<lambda>y. f k = f y) (sort_key f (xs @ ys) @ [e]) = filter (\<lambda>y. f k = f y) (xs @ e # ys)" for k
  proof (cases "f k = f e")
    case True
    with assms have "filter (\<lambda>y. f k = f y) xs = []" "filter (\<lambda>y. f k = f y) ys = []"
      by (auto simp: filter_empty_conv)
    with True sort_key_stable [of f "f k" "xs @ ys"] show ?thesis by (simp add: eq_commute [of "f k"])
  next
    case False
    with sort_key_stable [of f "f k" "xs @ ys"] show ?thesis by (simp add: eq_commute [of "f k"])
  qed
  show "sorted (map f (sort_key f (xs @ ys) @ [e]))"
    using assms by (auto simp: sorted_append intro: less_imp_le)
qed

lemma changes_audit:
  "changes q r \<Longrightarrow> qa_ok q \<Longrightarrow> audit r = audit q \<and> next_sequence r = next_sequence q \<or>
    (\<exists>e. audit r = audit q @ [e] \<and> sequence e = next_sequence q \<and> next_sequence r = Suc (next_sequence q))"
proof (induction rule: changes.induct)
  case (entered q xs x ys e y)
  let ?h = "\<lambda>l. concat (map item_history l)"
  have "\<forall>a \<in> set ((?h xs @ item_history x) @ ?h ys). sequence a < sequence e"
    using entered by (auto simp: qa_ok_def item_ok_def list_all_iff)
  from sort_key_last [OF this] entered show ?case by (auto simp: audit_def appends_def)
qed (auto simp: audit_def new_item_def)

interpretation review_ledger: ledger after_op qa_ok audit next_sequence sequence "\<lambda>n. n"
proof
  show "qa_ok (after_op c q)" if "qa_ok q" for c q
    using changes_ok [OF after_op_changes that] .
  show "audit (after_op c q) = audit q \<and> next_sequence (after_op c q) = next_sequence q \<or>
      (\<exists>e. audit (after_op c q) = audit q @ [e] \<and> sequence e = next_sequence q \<and>
        next_sequence (after_op c q) = Suc (next_sequence q))" if "qa_ok q" for c q
    using changes_audit [OF after_op_changes that] .
qed simp

lemma new_qa_ok: "qa_ok new_qa" "audit new_qa = []" "next_sequence new_qa = 1"
  by (simp_all add: qa_ok_def new_qa_def audit_def)

abbreviation run_qa :: "qa_op list \<Rightarrow> content_qa" where
  "run_qa cs \<equiv> fold after_op cs new_qa"

lemma run_item_ok: "x \<in> set (qa_items (run_qa cs)) \<Longrightarrow> item_ok (next_sequence (run_qa cs)) x"
  using review_ledger.run_ok [OF new_qa_ok(1), of cs] by (simp add: qa_ok_def list_all_iff)

text \<open>
  After any operations, refused ones included, the audit trail numbers its entries 1, 2,
  3, ... without a gap; more operations only extend it; and every item's own history is a
  connected path from unreviewed to its present state.
\<close>

theorem audit_trail_complete:
  "map sequence (audit (run_qa cs)) = [1..<next_sequence (run_qa cs)] \<and>
   prefix (audit (run_qa cs)) (audit (run_qa (cs @ more_ops))) \<and>
   list_all (\<lambda>x. follows Unreviewed (item_history x) = Some (review x)) (qa_items (run_qa cs))"
proof (intro conjI)
  show "map sequence (audit (run_qa cs)) = [1..<next_sequence (run_qa cs)]"
    using review_ledger.run_grows [OF new_qa_ok(1), of cs] new_qa_ok by auto
  show "prefix (audit (run_qa cs)) (audit (run_qa (cs @ more_ops)))"
    using review_ledger.run_appends [OF review_ledger.run_ok [OF new_qa_ok(1)], of more_ops cs] by (auto simp: prefix_def)
  show "list_all (\<lambda>x. follows Unreviewed (item_history x) = Some (review x)) (qa_items (run_qa cs))"
    using run_item_ok by (auto simp: list_all_iff item_ok_def)
qed

lemma approved_history:
  assumes "item_ok n x" "review x = Approved"
  shows "\<exists>h e. item_history x = h @ [e] \<and> from_state e = InReview \<and> to_state e = Approved \<and>
    trim (actor e) \<noteq> [] \<and> trim (entry_note e) \<noteq> []"
proof (cases "item_history x" rule: rev_cases)
  case Nil
  with assms show ?thesis by (simp add: item_ok_def)
next
  case (snoc h e)
  with assms have "to_state e = Approved" "entry_allowed e"
    by (auto simp: item_ok_def follows_append split: if_splits)
  with snoc show ?thesis by (auto simp: entry_allowed_def)
qed

text \<open>
  An item can be activated only when the last entry of its history is an approval, given
  out of an open review by a named reviewer with a rationale.
\<close>

theorem activation_needs_approval:
  assumes "fst (activate i who at (run_qa cs)) = Ok ()"
  shows "\<exists>x h e. find_item (run_qa cs) i = Some x \<and> item_history x = h @ [e] \<and> from_state e = InReview \<and>
    to_state e = Approved \<and> trim (actor e) \<noteq> [] \<and> trim (entry_note e) \<noteq> []"
proof -
  obtain x where x: "find_item (run_qa cs) i = Some x" "review x = Approved"
    using assms by (auto simp: activate_def activatable_iff split: option.splits if_splits)
  then have "x \<in> set (qa_items (run_qa cs))" using find_Some_set unfolding find_item_def by fastforce
  from approved_history [OF run_item_ok [OF this] x(2)] x(1) show ?thesis by blast
qed

theorem activation_needs_approval_witness:
  "\<exists>x h e. find_item (run_qa [Add ''a'', Decide ''a'' ''r'' InReview ''n'' ''d'', Decide ''a'' ''r'' Approved ''ok'' ''d'']) ''a'' = Some x \<and>
    item_history x = h @ [e] \<and> from_state e = InReview \<and>
    to_state e = Approved \<and> trim (actor e) \<noteq> [] \<and> trim (entry_note e) \<noteq> []"
  by (rule activation_needs_approval [where who = "''op''" and at = "''d''"]) code_simp

end
