(* ===== verification/Text_Tools.thy ===== *)
theory Text_Tools
  imports Prelude
begin

text \<open>
  What the modules that read source texts take from Rust's \<open>str\<close>: its characters, the words
  between white space, trimming by character classes, lines, and searching. A text is its
  UTF-8 bytes, a character the bytes of one scalar value, so byte offsets are list positions.
  The Unicode tables the code consults are the record \<open>unicode\<close>; white space is the property
  of the prelude. \<open>textual\<close> collects the facts about words and trimming.
\<close>

named_theorems textual "characters, words and trimming"

record unicode =
  to_lower :: "string \<Rightarrow> string"
  to_upper :: "string \<Rightarrow> string"
  alphabetic :: "string \<Rightarrow> bool"
  alphanumeric :: "string \<Rightarrow> bool"
  uppercase :: "string \<Rightarrow> bool"
  lowercase :: "string \<Rightarrow> bool"

section \<open>Characters\<close>

definition char_width :: "char \<Rightarrow> nat" where
  "char_width c = (if byte c < 128 then 1 else if byte c < 224 then 2 else if byte c < 240 then 3 else 4)"

function chars :: "string \<Rightarrow> string list" where
  "chars [] = []"
| "chars (c # s) = take (char_width c) (c # s) # chars (drop (char_width c) (c # s))"
  by pat_completeness auto
termination
  by (relation "measure length") (auto simp: char_width_def)

declare chars.simps(2) [simp del]

definition white :: "string \<Rightarrow> bool" where
  "white c \<longleftrightarrow> c \<noteq> [] \<and> ws_len c = length c"

definition one_of :: "string \<Rightarrow> string \<Rightarrow> bool" where
  "one_of cs c \<longleftrightarrow> (case c of [x] \<Rightarrow> x \<in> set cs | _ \<Rightarrow> False)"

text \<open>Classes of ASCII characters.\<close>

fun ascii_class :: "(char \<Rightarrow> bool) \<Rightarrow> string \<Rightarrow> bool" where
  "ascii_class p [x] = p x"
| "ascii_class p _ = False"

definition is_upper :: "char \<Rightarrow> bool" where
  "is_upper c \<longleftrightarrow> 65 \<le> byte c \<and> byte c \<le> 90"

definition is_lower :: "char \<Rightarrow> bool" where
  "is_lower c \<longleftrightarrow> 97 \<le> byte c \<and> byte c \<le> 122"

definition ascii_uppercase :: "string \<Rightarrow> bool" where
  "ascii_uppercase = ascii_class is_upper"

definition ascii_digit :: "string \<Rightarrow> bool" where
  "ascii_digit = ascii_class is_digit"

definition ascii_alphabetic :: "string \<Rightarrow> bool" where
  "ascii_alphabetic = ascii_class (\<lambda>c. is_upper c \<or> is_lower c)"

definition ascii_alphanumeric :: "string \<Rightarrow> bool" where
  "ascii_alphanumeric = ascii_class (\<lambda>c. is_upper c \<or> is_lower c \<or> is_digit c)"

section \<open>Trimming and splitting\<close>

definition drop_ends :: "('a \<Rightarrow> bool) \<Rightarrow> 'a list \<Rightarrow> 'a list" where
  "drop_ends p xs = rev (dropWhile p (rev (dropWhile p xs)))"

definition trim_matches :: "(string \<Rightarrow> bool) \<Rightarrow> string \<Rightarrow> string" where
  "trim_matches p s = concat (drop_ends p (chars s))"

definition trim_start_matches :: "(string \<Rightarrow> bool) \<Rightarrow> string \<Rightarrow> string" where
  "trim_start_matches p s = concat (dropWhile p (chars s))"

definition trim_end_matches :: "(string \<Rightarrow> bool) \<Rightarrow> string \<Rightarrow> string" where
  "trim_end_matches p s = concat (rev (dropWhile p (rev (chars s))))"

definition trim_text :: "string \<Rightarrow> string" where
  "trim_text = trim_matches white"

fun pieces :: "(string \<Rightarrow> bool) \<Rightarrow> string list \<Rightarrow> string list" where
  "pieces p [] = [[]]"
| "pieces p (c # cs) =
     (if p c then [] # pieces p cs
      else case pieces p cs of [] \<Rightarrow> [c] | x # xs \<Rightarrow> (c @ x) # xs)"

text \<open>\<open>split(p)\<close>, \<open>split_whitespace\<close>, and the words joined by single spaces.\<close>

definition split_text :: "(string \<Rightarrow> bool) \<Rightarrow> string \<Rightarrow> string list" where
  "split_text p s = pieces p (chars s)"

definition split_whitespace :: "string \<Rightarrow> string list" where
  "split_whitespace s = filter (\<lambda>w. w \<noteq> []) (split_text white s)"

definition collapse :: "string \<Rightarrow> string" where
  "collapse s = join '' '' (split_whitespace s)"

definition word_count :: "string \<Rightarrow> nat" where
  "word_count s = length (split_whitespace s)"

text \<open>\<open>normalize\<close> of the question modules: words joined by single spaces, in lower case.\<close>

definition fold_text :: "unicode \<Rightarrow> string \<Rightarrow> string" where
  "fold_text u s = to_lower u (collapse s)"

section \<open>Lines and searching\<close>

definition strip_cr :: "string \<Rightarrow> string" where
  "strip_cr l = (if l \<noteq> [] \<and> last l = CHR 0x0D then butlast l else l)"

text \<open>\<open>str::lines\<close>: only a line that ended in a line feed loses a carriage return.\<close>

definition text_lines :: "string \<Rightarrow> string list" where
  "text_lines s =
     (let ls = split_on (CHR 0x0A) s in
      map strip_cr (butlast ls) @ (if last ls = [] then [] else [last ls]))"

fun find_sub :: "string \<Rightarrow> string \<Rightarrow> nat option" where
  "find_sub [] p = (if p = [] then Some 0 else None)"
| "find_sub (c # s) p = (if starts_with (c # s) p then Some 0 else map_option Suc (find_sub s p))"

fun rfind_sub :: "string \<Rightarrow> string \<Rightarrow> nat option" where
  "rfind_sub [] p = (if p = [] then Some 0 else None)"
| "rfind_sub (c # s) p =
     (case rfind_sub s p of Some i \<Rightarrow> Some (Suc i)
      | None \<Rightarrow> if starts_with (c # s) p then Some 0 else None)"

section \<open>Facts\<close>

lemma char_width_pos: "0 < char_width c"
  by (simp add: char_width_def)

lemma concat_chars [simp]: "concat (chars s) = s"
  by (induction s rule: chars.induct) (simp_all add: chars.simps(2))

lemma chars_nonempty: "c \<in> set (chars s) \<Longrightarrow> c \<noteq> []"
proof (induction s rule: chars.induct)
  case (2 d s)
  moreover have "take (char_width d) (d # s) \<noteq> []" using char_width_pos [of d] by (cases "char_width d") auto
  ultimately show ?case by (auto simp: chars.simps(2))
qed simp

lemma chars_Nil_iff [simp]: "chars s = [] \<longleftrightarrow> s = []"
  by (cases s) (simp_all add: chars.simps(2))

text \<open>The characters of an ASCII text are its bytes.\<close>

lemma chars_ascii_Cons: "byte c < 128 \<Longrightarrow> chars (c # s) = [c] # chars s"
  by (simp add: chars.simps(2) char_width_def)

lemma chars_ascii: "\<forall>c \<in> set s. byte c < 128 \<Longrightarrow> chars s = map (\<lambda>c. [c]) s"
  by (induction s) (simp_all add: chars_ascii_Cons)

lemma ascii_class_chars: "\<forall>c \<in> set (chars s). ascii_class p c \<Longrightarrow> (\<forall>c. p c \<longrightarrow> byte c < 128) \<Longrightarrow> \<forall>c \<in> set s. p c"
proof (induction s rule: chars.induct)
  case (2 c s)
  from 2(2) have "ascii_class p (take (char_width c) (c # s))" by (simp add: chars.simps(2))
  then obtain x where x: "take (char_width c) (c # s) = [x]" "p x" by (cases "take (char_width c) (c # s)" rule: ascii_class.cases [of "(p, _)"]) auto
  moreover have "x = c" using x(1) char_width_pos [of c] by (cases "char_width c") auto
  ultimately have "p c" "byte c < 128" using 2(3) by auto
  with 2 show ?case by (simp add: chars_ascii_Cons char_width_def)
qed simp

lemma plain_not_white: "plain c \<Longrightarrow> \<not> white [c]"
  by (simp add: white_def ws_len_plain)

lemma in_dropWhile: "x \<in> set xs \<Longrightarrow> \<not> p x \<Longrightarrow> x \<in> set (dropWhile p xs)"
  by (induction xs) auto

lemma drop_ends_nonempty: "x \<in> set xs \<Longrightarrow> \<not> p x \<Longrightarrow> drop_ends p xs \<noteq> []"
  unfolding drop_ends_def by (metis in_dropWhile empty_iff list.set(1) rev_is_Nil_conv set_rev)

lemma set_drop_ends: "set (drop_ends p xs) \<subseteq> set xs"
  by (auto simp: drop_ends_def dest!: set_dropWhileD)

lemma trim_text_nonempty: "c \<in> set (chars s) \<Longrightarrow> \<not> white c \<Longrightarrow> trim_text s \<noteq> []"
proof
  assume c: "c \<in> set (chars s)" "\<not> white c" and "trim_text s = []"
  then have "\<forall>x \<in> set (drop_ends white (chars s)). x = []" by (simp add: trim_text_def trim_matches_def)
  then have "drop_ends white (chars s) = []"
    using set_drop_ends [of white "chars s"] chars_nonempty [of _ s]
    by (metis all_not_in_conv set_empty subset_iff)
  with drop_ends_nonempty [where p = white, OF c] show False by simp
qed

lemma pieces_nonempty: "pieces p cs \<noteq> []"
  by (induction cs) (auto split: list.splits)

lemma pieces_all: "\<forall>c \<in> set cs. p c \<Longrightarrow> w \<in> set (pieces p cs) \<Longrightarrow> w = []"
  by (induction cs) auto

lemma words_not_white: "split_whitespace s \<noteq> [] \<Longrightarrow> \<exists>c \<in> set (chars s). \<not> white c"
  using pieces_all [of "chars s" white] by (auto simp: split_whitespace_def split_text_def filter_empty_conv)

lemma words_trim [textual]: "split_whitespace s \<noteq> [] \<Longrightarrow> trim_text s \<noteq> []"
  using words_not_white trim_text_nonempty by blast

lemma word_count_trim [textual]: "0 < word_count s \<Longrightarrow> trim_text s \<noteq> []"
  by (rule words_trim) (auto simp: word_count_def)

lemma plain_trim [textual]: "\<forall>c \<in> set s. byte c < 128 \<Longrightarrow> c \<in> set s \<Longrightarrow> plain c \<Longrightarrow> trim_text s \<noteq> []"
  by (rule trim_text_nonempty [of "[c]"]) (auto simp: chars_ascii plain_not_white)

lemma starts_with_length: "starts_with s p \<Longrightarrow> length p \<le> length s"
  by (auto simp: starts_with_iff)

lemma find_sub_Some: "find_sub s p = Some i \<Longrightarrow> i + length p \<le> length s \<and> starts_with (drop i s) p"
proof (induction s p arbitrary: i rule: find_sub.induct)
  case (2 c s p)
  show ?case
  proof (cases "starts_with (c # s) p")
    case True
    from starts_with_length [OF this] True 2(2) show ?thesis by simp
  next
    case False
    with 2(2) obtain k where "find_sub s p = Some k" "i = Suc k" by (auto simp del: starts_with.simps)
    with 2(1) [OF False] show ?thesis by simp
  qed
qed (auto split: if_splits)

section \<open>The words of a collapsed text\<close>

text \<open>Every character of a text but the last has its full width.\<close>

definition full :: "string \<Rightarrow> bool" where
  "full c \<longleftrightarrow> c \<noteq> [] \<and> length c = char_width (hd c)"

lemma chars_full: "c \<in> set (butlast (chars s)) \<Longrightarrow> full c"
proof (induction s rule: chars.induct)
  case (2 d s)
  show ?case
  proof (cases "drop (char_width d) (d # s) = []")
    case False
    then have "length (take (char_width d) (d # s)) = char_width d" by simp
    moreover have "hd (take (char_width d) (d # s)) = d" using char_width_pos [of d] by (cases "char_width d") auto
    ultimately have "full (take (char_width d) (d # s))"
      using char_width_pos [of d] by (auto simp: full_def)
    with 2 False show ?thesis by (auto simp: chars.simps(2) split: if_splits)
  next
    case True
    with 2(2) show ?thesis by (simp add: chars.simps(2))
  qed
qed simp

lemma chars_full_append: "full c \<Longrightarrow> chars (c @ r) = c # chars r"
proof (cases c)
  case (Cons d t)
  assume "full c"
  with Cons have "char_width d = length (d # t)" by (simp add: full_def)
  then have "take (char_width d) (d # (t @ r)) = d # t" "drop (char_width d) (d # (t @ r)) = r" by simp_all
  then show ?thesis unfolding Cons append_Cons chars.simps(2) by simp
qed (simp add: full_def)

lemma chars_of_char: "c \<in> set (chars s) \<Longrightarrow> chars c = [c]"
proof (induction s rule: chars.induct)
  case (2 d s)
  let ?c = "take (char_width d) (d # s)"
  have c: "?c \<noteq> [] \<and> hd ?c = d" using char_width_pos [of d] by (cases "char_width d") auto
  have "chars ?c = [?c]"
  proof -
    obtain t where t: "?c = d # t" using c by (cases ?c) auto
    then have "length (d # t) \<le> char_width d" by (metis length_take min.cobounded2)
    then have "take (char_width d) (d # t) = d # t" "drop (char_width d) (d # t) = []" by simp_all
    then show ?thesis unfolding t chars.simps(2) by simp
  qed
  with 2 show ?case by (auto simp: chars.simps(2))
qed simp

lemma first_word_char:
  "\<forall>c \<in> set (butlast cs). full c \<Longrightarrow> filter (\<lambda>w. w \<noteq> []) (pieces white cs) \<noteq> [] \<Longrightarrow>
    \<exists>c r. join '' '' (filter (\<lambda>w. w \<noteq> []) (pieces white cs)) = c @ r \<and> \<not> white c \<and> c \<in> set cs \<and> (r = [] \<or> full c)"
proof (induction cs)
  case (Cons c cs)
  show ?case
  proof (cases "white c")
    case True
    have "\<forall>c \<in> set (butlast cs). full c" using Cons.prems(1) by (cases cs) auto
    with True Cons show ?thesis by auto
  next
    case False
    obtain x xs where p: "pieces white cs = x # xs" using pieces_nonempty [of white cs] by (cases "pieces white cs") auto
    show ?thesis
    proof (cases "c = []")
      case True
      with Cons.prems have "cs = []" by (cases cs) (auto simp: full_def)
      with True False Cons.prems show ?thesis by simp
    next
      case c: False
      let ?ws = "filter (\<lambda>w. w \<noteq> []) xs"
      have words: "filter (\<lambda>w. w \<noteq> []) (pieces white (c # cs)) = (c @ x) # ?ws" using False c p by simp
      have "\<exists>r. join '' '' ((c @ x) # ?ws) = c @ r \<and> (r = [] \<or> full c)"
      proof (cases cs)
        case Nil
        with p show ?thesis by auto
      next
        case (Cons d ds)
        with \<open>\<forall>c \<in> set (butlast (c # cs)). full c\<close> have "full c" by simp
        then show ?thesis by (cases ?ws) auto
      qed
      with words False show ?thesis by auto
    qed
  qed
qed simp

lemma collapse_trim [textual]: "split_whitespace s \<noteq> [] \<Longrightarrow> trim_text (collapse s) \<noteq> []"
proof -
  assume "split_whitespace s \<noteq> []"
  with first_word_char [of "chars s"] chars_full [of _ s] obtain c r where
    c: "collapse s = c @ r" "\<not> white c" "c \<in> set (chars s)" "r = [] \<or> full c"
    by (auto simp: collapse_def split_whitespace_def split_text_def)
  then have "chars (c @ r) = c # chars r" using chars_of_char chars_full_append by auto
  with c trim_text_nonempty [of c "collapse s"] show ?thesis by simp
qed

lemma pieces_some: "c \<in> set cs \<Longrightarrow> \<not> p c \<Longrightarrow> c \<noteq> [] \<Longrightarrow> \<exists>w \<in> set (pieces p cs). w \<noteq> []"
proof (induction cs)
  case (Cons d cs)
  obtain x xs where "pieces p cs = x # xs" using pieces_nonempty [of p cs] by (cases "pieces p cs") auto
  with Cons show ?case by (cases "d = c") (auto split: if_splits)
qed simp

lemma drop_ends_Nil: "drop_ends p xs = [] \<longleftrightarrow> (\<forall>x \<in> set xs. p x)"
  using drop_ends_nonempty [of _ xs p] by (auto simp: drop_ends_def dest: set_dropWhileD)

lemma trim_text_Nil_iff: "trim_text s = [] \<longleftrightarrow> split_whitespace s = []"
proof
  assume "split_whitespace s = []"
  then have "\<forall>w \<in> set (pieces white (chars s)). w = []" by (auto simp: split_whitespace_def split_text_def filter_empty_conv)
  then have "\<forall>c \<in> set (chars s). white c" using pieces_some [of _ "chars s" white] chars_nonempty by blast
  then have "drop_ends white (chars s) = []" by (simp add: drop_ends_Nil)
  then show "trim_text s = []" by (simp add: trim_text_def trim_matches_def)
qed (use words_trim in blast)

lemma join_Nil_iff: "\<forall>w \<in> set ws. w \<noteq> [] \<Longrightarrow> join sep ws = [] \<longleftrightarrow> ws = []"
  by (cases ws; cases "tl ws") auto

lemma collapse_Nil_iff: "collapse s = [] \<longleftrightarrow> split_whitespace s = []"
  unfolding collapse_def by (rule join_Nil_iff) (simp add: split_whitespace_def)

lemma plain_byte: "plain c \<Longrightarrow> byte c < 128"
  by (simp add: plain_def)

lemma plain_start_trim [textual]: "plain c \<Longrightarrow> trim_text (c # s) \<noteq> []"
  by (rule trim_text_nonempty [of "[c]"]) (simp_all add: chars_ascii_Cons plain_byte plain_not_white)

lemma ascii_classE: "ascii_class p c \<Longrightarrow> (\<And>x. c = [x] \<Longrightarrow> p x \<Longrightarrow> thesis) \<Longrightarrow> thesis"
  by (cases "(p, c)" rule: ascii_class.cases) auto

lemma is_upper_plain: "is_upper c \<Longrightarrow> plain c"
  by (auto simp: is_upper_def plain_def)

text \<open>The tables on ASCII alone, for concrete inputs.\<close>

definition ascii_unicode :: unicode where
  "ascii_unicode = \<lparr>to_lower = ascii_lower, to_upper = ascii_upper,
     alphabetic = ascii_alphabetic, alphanumeric = ascii_alphanumeric, uppercase = ascii_uppercase,
     lowercase = ascii_class is_lower\<rparr>"

section \<open>Evaluation\<close>

text \<open>Code equations on the bits of a byte, for the evaluation of concrete texts.\<close>

lemma char_width_code [code]:
  "char_width (Char b0 b1 b2 b3 b4 b5 b6 b7) =
    (if \<not> b7 then 1 else if \<not> (b6 \<and> b5) then 2 else if \<not> b4 then 3 else 4)"
  by (cases b7; cases b6; cases b5; cases b4) (auto simp: char_width_def byte_def)

lemma is_digit_code [code]:
  "is_digit (Char b0 b1 b2 b3 b4 b5 b6 b7) \<longleftrightarrow> \<not> b7 \<and> \<not> b6 \<and> b5 \<and> b4 \<and> (\<not> b3 \<or> \<not> b2 \<and> \<not> b1)"
  by (cases b7; cases b6; cases b5; cases b4; cases b3; cases b2; cases b1) (auto simp: is_digit_def byte_def)

lemma is_upper_code [code]:
  "is_upper (Char b0 b1 b2 b3 b4 b5 b6 b7) \<longleftrightarrow> \<not> b7 \<and> b6 \<and> \<not> b5 \<and> (b4 \<or> b3 \<or> b2 \<or> b1 \<or> b0) \<and>
    \<not> (b4 \<and> b3 \<and> (b2 \<or> b1 \<and> b0))"
  by (cases b7; cases b6; cases b5; cases b4; cases b3; cases b2; cases b1; cases b0) (simp_all add: is_upper_def byte_def)

lemma is_lower_code [code]:
  "is_lower (Char b0 b1 b2 b3 b4 b5 b6 b7) \<longleftrightarrow> \<not> b7 \<and> b6 \<and> b5 \<and> (b4 \<or> b3 \<or> b2 \<or> b1 \<or> b0) \<and>
    \<not> (b4 \<and> b3 \<and> (b2 \<or> b1 \<and> b0))"
  by (cases b7; cases b6; cases b5; cases b4; cases b3; cases b2; cases b1; cases b0) (simp_all add: is_lower_def byte_def)

definition white_byte :: "char \<Rightarrow> bool" where
  "white_byte c \<longleftrightarrow> ws_len [c] = 1"

lemma white_byte_iff: "white_byte c \<longleftrightarrow> 9 \<le> byte c \<and> byte c \<le> 13 \<or> byte c = 32"
  by (simp add: white_byte_def Let_def ws_len.simps)

lemma white_byte_code [code]:
  "white_byte (Char b0 b1 b2 b3 b4 b5 b6 b7) \<longleftrightarrow> \<not> b7 \<and> \<not> b6 \<and> \<not> b4 \<and>
    (b5 \<and> \<not> (b3 \<or> b2 \<or> b1 \<or> b0) \<or> \<not> b5 \<and> b3 \<and> (\<not> b2 \<and> (b1 \<or> b0) \<or> b2 \<and> \<not> b1))"
  by (cases b7; cases b6; cases b5; cases b4; cases b3; cases b2; cases b1; cases b0) (simp_all add: white_byte_iff byte_def)

lemma white_code [code]:
  "white c = (case c of [] \<Rightarrow> False | x # s \<Rightarrow> (case s of [] \<Rightarrow> white_byte x | _ \<Rightarrow> ws_len c = length c))"
  by (auto simp: white_def white_byte_def split: list.splits)

lemma lower_byte_code [code]:
  "lower_byte (Char b0 b1 b2 b3 b4 b5 b6 b7) =
    (if is_upper (Char b0 b1 b2 b3 b4 b5 b6 b7) then Char b0 b1 b2 b3 b4 True b6 b7 else Char b0 b1 b2 b3 b4 b5 b6 b7)"
  by (cases b7; cases b6; cases b5; cases b4; cases b3; cases b2; cases b1; cases b0)
    (simp_all add: lower_byte_def is_upper_def byte_def char_of_def bit_0)

end
