(* ===== verification/Item_Builder.thy ===== *)
theory Item_Builder
  imports Rng Text_Tools Provenance
begin

text \<open>
  What the source-backed question builders share (\<open>neets.rs\<close>, \<open>thesaurus.rs\<close>,
  \<open>passages.rs\<close>, \<open>facts.rs\<close> of \<open>crates/vector-questions\<close>): the bounded loop that draws items,
  keeps those with a new content hash and stops at the wanted number; the position of the
  correct option and the rationales of the others after the shuffle; and the coverage check
  of the verifiers. The caller's veto is a closure that may keep a state of its own (an
  \<open>FnMut\<close>): a function of its argument and its state. \<^const>\<open>None\<close> on the outside is a panic.
\<close>

section \<open>The loop\<close>

fun build_loop :: "(rng \<Rightarrow> 'a \<Rightarrow> ('i option \<times> rng \<times> 'a) option) \<Rightarrow> ('i \<Rightarrow> string) \<Rightarrow> nat \<Rightarrow> nat \<Rightarrow>
    rng \<Rightarrow> 'a \<Rightarrow> string set \<Rightarrow> 'i list \<Rightarrow> ('i list \<times> 'a) option" where
  "build_loop one hash wanted 0 rng acc seen items = Some (items, acc)"
| "build_loop one hash wanted (Suc attempts) rng acc seen items =
     (if wanted \<le> length items then Some (items, acc)
      else do {
        (built, rng, acc) \<leftarrow> one rng acc;
        case built of
          None \<Rightarrow> build_loop one hash wanted attempts rng acc seen items
        | Some item \<Rightarrow>
            if hash item \<notin> seen
            then build_loop one hash wanted attempts rng acc (insert (hash item) seen) (items @ [item])
            else build_loop one hash wanted attempts rng acc seen items
      })"

text \<open>\<open>count.saturating_mul(k).max(64)\<close> on a \<open>usize\<close>.\<close>

definition attempts_for :: "nat \<Rightarrow> nat \<Rightarrow> nat" where
  "attempts_for k wanted = max (min (wanted * k) (2 ^ 64 - 1)) 64"

text \<open>
  The interface: a builder that, on a sound source, never panics and only returns items that
  are good. Every source provides it for its own verifier.
\<close>

locale item_builder =
  fixes sound :: bool
    and one :: "rng \<Rightarrow> 'a \<Rightarrow> ('i option \<times> rng \<times> 'a) option"
    and good :: "'i \<Rightarrow> bool"
  assumes one_returns: "sound \<Longrightarrow> one rng acc \<noteq> None"
    and one_good: "sound \<Longrightarrow> one rng acc = Some (Some item, rng', acc') \<Longrightarrow> good item"
begin

lemma build_loop_good:
  assumes sound
  shows "list_all good items \<Longrightarrow> distinct (map hash items) \<Longrightarrow> set (map hash items) \<subseteq> seen \<Longrightarrow> length items \<le> wanted \<Longrightarrow>
    \<exists>out acc'. build_loop one hash wanted n rng acc seen items = Some (out, acc') \<and>
      list_all good out \<and> distinct (map hash out) \<and> length out \<le> wanted"
proof (induction n arbitrary: rng acc seen items)
  case (Suc n)
  show ?case
  proof (cases "wanted \<le> length items")
    case True
    with Suc.prems show ?thesis by simp
  next
    case False
    obtain built rng' acc' where one: "one rng acc = Some (built, rng', acc')"
      using one_returns [OF assms, of rng acc] by (cases "one rng acc") auto
    show ?thesis
    proof (cases built)
      case None
      with Suc.IH [OF Suc.prems] False one show ?thesis by simp
    next
      case (Some item)
      with one have good: "good item" using one_good [OF assms] by blast
      show ?thesis
      proof (cases "hash item \<in> seen")
        case True
        with Suc.IH [OF Suc.prems] False one Some show ?thesis by simp
      next
        case new: False
        have "list_all good (items @ [item])" "distinct (map hash (items @ [item]))"
          "set (map hash (items @ [item])) \<subseteq> insert (hash item) seen" "length (items @ [item]) \<le> wanted"
          using Suc.prems good new False by auto
        from Suc.IH [OF this] False one Some new show ?thesis by simp
      qed
    qed
  qed
qed simp

lemma build_good:
  assumes sound
  shows "\<exists>out acc'. build_loop one hash wanted n rng acc {} [] = Some (out, acc') \<and>
      list_all good out \<and> distinct (map hash out) \<and> length out \<le> wanted"
  by (rule build_loop_good [OF assms]) simp_all

end

section \<open>Options and rationales\<close>

text \<open>
  An option with its mark: the correct one is marked \<^const>\<open>True\<close>. \<open>position\<close> of the mark is
  \<^const>\<open>find_index\<close>; the rationales are a \<open>BTreeMap\<close> filled in ascending order of position.
\<close>

type_synonym marked = "string \<times> bool"

definition correct_position :: "marked list \<Rightarrow> nat option" where
  "correct_position opts = find_index snd opts"

fun rationales_from :: "nat \<Rightarrow> (string \<Rightarrow> string) \<Rightarrow> marked list \<Rightarrow> (nat \<times> string) list \<Rightarrow> (nat \<times> string) list" where
  "rationales_from i why [] m = m"
| "rationales_from i why ((opt, correct) # opts) m =
     rationales_from (Suc i) why opts (if correct then m else bt_insert i (why opt) m)"

abbreviation rationales :: "(string \<Rightarrow> string) \<Rightarrow> marked list \<Rightarrow> (nat \<times> string) list" where
  "rationales why opts \<equiv> rationales_from 0 why opts []"

text \<open>Which positions lack a rationale, and which have one they should not have.\<close>

definition coverage_gaps :: "nat \<Rightarrow> nat \<Rightarrow> (nat \<times> string) list \<Rightarrow> nat list \<times> nat list" where
  "coverage_gaps n correct given =
     (let expected = filter (\<lambda>i. i \<noteq> correct) [0..<n];
          present = map fst given
      in (filter (\<lambda>i. i \<notin> set present) expected, filter (\<lambda>i. i \<notin> set expected) present))"

definition one_marked :: "marked list \<Rightarrow> bool" where
  "one_marked opts \<longleftrightarrow> length (filter snd opts) = 1"

lemma rationales_from_simple:
  "\<forall>k \<in> set (map fst m). k < i \<Longrightarrow> rationales_from i why opts m =
    m @ map (\<lambda>(k, opt, _). (k, why opt)) (filter (\<lambda>(k, _, correct). \<not> correct) (zip [i..<i + length opts] opts))"
proof (induction i why opts m rule: rationales_from.induct)
  case (2 i why opt correct opts m)
  have "\<forall>k \<in> set (map fst (if correct then m else bt_insert i (why opt) m)). k < Suc i"
    using 2(2) by (auto simp: bt_insert_last)
  moreover have "[i..<i + length ((opt, correct) # opts)] = i # [Suc i..<Suc i + length opts]"
    by (subst upt_conv_Cons) simp_all
  ultimately show ?case using 2 by (simp add: bt_insert_last del: upt_Suc)
qed simp

lemma rationales_iff:
  "(k, t) \<in> set (rationales why opts) \<longleftrightarrow> k < length opts \<and> \<not> snd (opts ! k) \<and> t = why (fst (opts ! k))"
proof -
  have "rationales why opts =
      map (\<lambda>x. (fst x, why (fst (snd x)))) (filter (\<lambda>x. \<not> snd (snd x)) (zip [0..<length opts] opts))"
    by (simp add: rationales_from_simple case_prod_beta')
  then have "(k, t) \<in> set (rationales why opts) \<longleftrightarrow>
      (\<exists>x \<in> set (zip [0..<length opts] opts). \<not> snd (snd x) \<and> k = fst x \<and> t = why (fst (snd x)))" by auto
  also have "zip [0..<length opts] opts = map (\<lambda>i. (i, opts ! i)) [0..<length opts]"
    by (rule nth_equalityI) auto
  finally show ?thesis by auto
qed

lemma rationales_keys: "fst ` set (rationales why opts) = {k. k < length opts \<and> \<not> snd (opts ! k)}"
proof (intro set_eqI iffI)
  fix k
  assume "k \<in> {k. k < length opts \<and> \<not> snd (opts ! k)}"
  then have "(k, why (fst (opts ! k))) \<in> set (rationales why opts)" by (simp add: rationales_iff)
  then show "k \<in> fst ` set (rationales why opts)" by force
qed (auto simp: rationales_iff)

lemma correct_position_marked:
  assumes "one_marked opts"
  shows "\<exists>k. correct_position opts = Some k \<and> k < length opts \<and> snd (opts ! k) \<and>
    (\<forall>j < length opts. snd (opts ! j) \<longrightarrow> j = k)"
proof -
  have "filter snd opts \<noteq> []" using assms by (auto simp: one_marked_def)
  then have "\<exists>x \<in> set opts. snd x" by (auto simp: filter_empty_conv)
  then obtain k where k: "find_index snd opts = Some k"
    using find_index_None [of snd opts] by (cases "find_index snd opts") auto
  have "card {j. j < length opts \<and> snd (opts ! j)} = 1"
    using assms by (simp add: one_marked_def length_filter_conv_card)
  then obtain m where m: "{j. j < length opts \<and> snd (opts ! j)} = {m}" by (auto simp: card_1_singleton_iff)
  from find_index_Some [OF k] have here: "k < length opts" "snd (opts ! k)" by auto
  have only: "j = m" if "j < length opts" "snd (opts ! j)" for j
  proof -
    from that have "j \<in> {j. j < length opts \<and> snd (opts ! j)}" by simp
    then show ?thesis unfolding m by simp
  qed
  have "k = m" by (rule only [OF here])
  then have uniq: "\<forall>j < length opts. snd (opts ! j) \<longrightarrow> j = k" using only by blast
  show ?thesis unfolding correct_position_def by (intro exI conjI) (rule k, rule here(1), rule here(2), rule uniq)
qed

lemma coverage_gaps_iff:
  "coverage_gaps n correct given = ([], []) \<longleftrightarrow> fst ` set given = {k. k < n \<and> k \<noteq> correct}"
  by (auto simp: coverage_gaps_def Let_def filter_empty_conv)

lemma rationales_marked:
  assumes "one_marked opts" "correct_position opts = Some k"
  shows "fst ` set (rationales why opts) = {j. j < length opts \<and> j \<noteq> k}"
proof -
  have "\<And>j. j < length opts \<Longrightarrow> snd (opts ! j) \<longleftrightarrow> j = k"
    using correct_position_marked [OF assms(1)] assms(2) by auto
  then show ?thesis by (auto simp: rationales_keys)
qed

lemma repeats_iff: "list_ex (\<lambda>e. f e = f x) xs \<longleftrightarrow> f x \<in> f ` set xs"
  unfolding list_ex_iff image_iff by metis

section \<open>A well-formed list of options\<close>

text \<open>
  What every builder keeps of its options: one is marked and it is the answer, no two are the
  same under the comparison \<open>f\<close>, and each is acceptable.
\<close>

definition options_ok :: "(string \<Rightarrow> 'k) \<Rightarrow> (string \<Rightarrow> bool) \<Rightarrow> string \<Rightarrow> marked list \<Rightarrow> bool" where
  "options_ok f ok answer opts \<longleftrightarrow> one_marked opts \<and> (answer, True) \<in> set opts \<and>
     distinct (map (\<lambda>opt. f (fst opt)) opts) \<and> (\<forall>opt \<in> set opts. ok (fst opt))"

lemma options_ok_start: "ok answer \<Longrightarrow> options_ok f ok answer [(answer, True)]"
  by (simp add: options_ok_def one_marked_def)

lemma options_ok_add:
  "options_ok f ok answer opts \<Longrightarrow> ok t \<Longrightarrow> \<not> list_ex (\<lambda>(existing, _). f existing = f t) opts \<Longrightarrow>
    options_ok f ok answer (opts @ [(t, False)])"
  by (auto simp: options_ok_def one_marked_def list_ex_iff)

lemma options_ok_mset:
  assumes "mset opts = mset opts'"
  shows "options_ok f ok answer opts \<longleftrightarrow> options_ok f ok answer opts'"
proof -
  have "mset (map (\<lambda>opt. f (fst opt)) opts) = mset (map (\<lambda>opt. f (fst opt)) opts')" using assms by simp
  then have "distinct (map (\<lambda>opt. f (fst opt)) opts) \<longleftrightarrow> distinct (map (\<lambda>opt. f (fst opt)) opts')"
    by (rule mset_eq_imp_distinct_iff)
  moreover have "mset (filter snd opts) = mset (filter snd opts')" using assms by simp
  then have "one_marked opts \<longleftrightarrow> one_marked opts'" unfolding one_marked_def by (metis mset_eq_length)
  ultimately show ?thesis using mset_eq_setD [OF assms] by (simp add: options_ok_def)
qed

lemma options_ok_shuffle:
  "length opts < 2 ^ 64 \<Longrightarrow> options_ok f ok answer (fst (rng_shuffle rng opts)) \<longleftrightarrow> options_ok f ok answer opts"
  by (rule options_ok_mset) (simp add: mset_rng_shuffle)

lemma options_ok_position:
  assumes "options_ok f ok answer opts"
  obtains k where "correct_position opts = Some k" "k < length opts" "map fst opts ! k = answer"
    "fst ` set (rationales why opts) = {j. j < length opts \<and> j \<noteq> k}"
proof -
  from assms have one: "one_marked opts" and answer: "(answer, True) \<in> set opts" by (auto simp: options_ok_def)
  from correct_position_marked [OF one] obtain k where
    k: "correct_position opts = Some k" "k < length opts" "\<forall>j < length opts. snd (opts ! j) \<longrightarrow> j = k" by blast
  from answer obtain j where "j < length opts" "opts ! j = (answer, True)" by (auto simp: in_set_conv_nth)
  then have "j = k" using k(3) by simp
  with \<open>opts ! j = (answer, True)\<close> have "opts ! k = (answer, True)" by simp
  then have "map fst opts ! k = answer" using k(2) by simp
  then show thesis by (rule that [OF k(1,2) _ rationales_marked [OF one k(1)]])
qed

lemma options_ok_plain:
  "options_ok f ok answer opts \<Longrightarrow> distinct (map f (map fst opts)) \<and> (\<forall>t \<in> set (map fst opts). ok t)"
  by (auto simp: options_ok_def comp_def)

section \<open>Options that carry their reasons\<close>

text \<open>The correct option has none; the reasons of the others, by position, are a \<open>BTreeMap\<close>.\<close>

fun why_map :: "nat \<Rightarrow> (string \<times> string option) list \<Rightarrow> (nat \<times> string) list \<Rightarrow> (nat \<times> string) list" where
  "why_map i [] m = m"
| "why_map i ((_, why) # opts) m = why_map (Suc i) opts (case why of Some w \<Rightarrow> bt_insert i w m | None \<Rightarrow> m)"

definition marks :: "(string \<times> string option) list \<Rightarrow> marked list" where
  "marks opts = map (\<lambda>(t, why). (t, why = None)) opts"

lemma fst_marks [simp]: "map fst (marks opts) = map fst opts" and length_marks [simp]: "length (marks opts) = length opts"
  by (auto simp: marks_def)

lemma find_index_map: "find_index p (map g xs) = find_index (\<lambda>x. p (g x)) xs"
  by (induction xs) auto

lemma correct_marks: "correct_position (marks opts) = find_index (\<lambda>(_, why). why = None) opts"
  by (simp add: correct_position_def marks_def find_index_map case_prod_unfold)

lemma below_Suc: "{j. j < Suc n \<and> P j} = (if P 0 then {0} else {}) \<union> Suc ` {j. j < n \<and> P (Suc j)}"
  by (auto simp: less_Suc_eq_0_disj)

lemma why_map_from:
  "fst ` set (why_map i opts m) = fst ` set m \<union> (\<lambda>j. i + j) ` {j. j < length opts \<and> \<not> snd (marks opts ! j)}"
proof (induction i opts m rule: why_map.induct)
  case (2 i t why opts m)
  have shift: "{j. j < length ((t, why) # opts) \<and> \<not> snd (marks ((t, why) # opts) ! j)} =
      (if why = None then {} else {0}) \<union> Suc ` {j. j < length opts \<and> \<not> snd (marks opts ! j)}"
    unfolding list.size add_Suc_right add_0_right below_Suc by (simp add: marks_def)
  have "fst ` set (case why of Some w \<Rightarrow> bt_insert i w m | None \<Rightarrow> m) = fst ` set m \<union> (if why = None then {} else {i})"
    using set_fst_bt_insert [of i _ m] by (cases why) simp_all
  with 2 show ?case unfolding shift by (simp add: image_Un image_image Un_assoc)
qed simp

lemma why_map_keys: "fst ` set (why_map 0 opts []) = {j. j < length opts \<and> \<not> snd (marks opts ! j)}"
  by (simp add: why_map_from)

lemma marks_shuffle:
  "length opts < 2 ^ 64 \<Longrightarrow> options_ok g ok t (marks (fst (rng_shuffle rng opts))) \<longleftrightarrow> options_ok g ok t (marks opts)"
  by (rule options_ok_mset) (simp add: marks_def mset_rng_shuffle)

end
