(* ===== verification/Glossary.thy ===== *)
theory Glossary
  imports Item_Builder
begin

text \<open>
  Electronics items from the NEETS glossaries, \<open>crates/vector-questions/src/neets.rs\<close>: reading
  a glossary, building items whose options are terms of it, and the independent verification
  of an item against the glossary. The item's \<open>difficulty\<close> is the literal 0.3 and its hash is
  over the parameter \<open>sha\<close>.
\<close>

section \<open>Glossaries\<close>

record glossary_entry =
  entry_term :: string
  entry_definition :: string
  entry_module :: string

record glossary =
  entries :: "glossary_entry list"
  terms :: "string set"

definition EM_DASH :: string where
  "EM_DASH = [CHR 0xE2, CHR 0x80, CHR 0x94]"

definition term_byte :: "char \<Rightarrow> bool" where
  "term_byte c \<longleftrightarrow> is_upper c \<or> is_digit c \<or> c \<in> set '' ,()/-.'' \<or> c = CHR 0x27 \<or> c = CHR ''&''"

definition split_at_dash :: "string \<Rightarrow> (nat \<times> nat) option" where
  "split_at_dash line =
     (case (find_sub line EM_DASH, find_sub line '' - '') of
        (Some a, Some b) \<Rightarrow> Some (if a \<le> b then (a, 3) else (b, 3))
      | (Some a, None) \<Rightarrow> Some (a, 3)
      | (None, Some b) \<Rightarrow> Some (b, 3)
      | (None, None) \<Rightarrow> None)"

definition split_entry :: "string \<Rightarrow> (string \<times> string) option" where
  "split_entry line =
     (case split_at_dash line of
        None \<Rightarrow> None
      | Some (index, width) \<Rightarrow>
          (let word = trim_text (take index line);
               meaning = trim_text (trim_start_matches
                 (\<lambda>c. one_of (''^~ -'' @ [CHR 0x09]) c \<or> c = EM_DASH) (drop (index + width) line))
           in
           if word = [] \<or> meaning = [] then None
           else if length word > 44 then None
           else if \<not> ascii_uppercase (hd (chars word)) then None
           else if \<not> list_all (ascii_class term_byte) (chars word) then None
           else Some (word, meaning)))"

definition looks_like_section_heading :: "string \<Rightarrow> bool" where
  "looks_like_section_heading line =
     (let trimmed = trim_text line in
      if trimmed = [] \<or> length trimmed > 30 then False
      else list_all (ascii_class (\<lambda>c. is_upper c \<or> is_digit c \<or> c = CHR '' '' \<or> c = CHR ''-'')) (chars trimmed)
        \<and> list_ex ascii_uppercase (chars trimmed))"

definition flush :: "string \<Rightarrow> (string \<times> string) option \<Rightarrow> glossary_entry list \<Rightarrow> glossary_entry list" where
  "flush module_name current es =
     (case current of
        None \<Rightarrow> es
      | Some (word, meaning) \<Rightarrow>
          (let meaning = collapse meaning in
           if meaning \<noteq> [] then es @ [\<lparr>entry_term = word, entry_definition = meaning, entry_module = module_name\<rparr>]
           else es))"

fun parse_loop :: "string \<Rightarrow> (string \<times> string) option \<Rightarrow> glossary_entry list \<Rightarrow> string list \<Rightarrow> glossary_entry list" where
  "parse_loop module_name current es [] = flush module_name current es"
| "parse_loop module_name current es (raw # raws) =
     (let line = trim_end_matches (one_of [CHR 0x0D, CHR 0x0A]) raw in
      case split_entry line of
        Some (word, meaning) \<Rightarrow> parse_loop module_name (Some (word, meaning)) (flush module_name current es) raws
      | None \<Rightarrow>
          if looks_like_section_heading line then parse_loop module_name None (flush module_name current es) raws
          else (case current of
              None \<Rightarrow> parse_loop module_name None es raws
            | Some (word, meaning) \<Rightarrow>
                (let trimmed = trim_text line in
                 parse_loop module_name
                   (Some (word, if trimmed \<noteq> [] then meaning @ '' '' @ trimmed else meaning)) es raws)))"

definition parse_neets_glossary :: "unicode \<Rightarrow> string \<Rightarrow> string \<Rightarrow> glossary" where
  "parse_neets_glossary u t module_name =
     (let es = parse_loop module_name None [] (text_lines t) in
      \<lparr>entries = es, terms = set (map (\<lambda>e. fold_text u (entry_term e)) es)\<rparr>)"

definition defines_term :: "unicode \<Rightarrow> glossary \<Rightarrow> string \<Rightarrow> bool" where
  "defines_term u g t \<longleftrightarrow> fold_text u t \<in> terms g"

definition definition_of :: "unicode \<Rightarrow> glossary \<Rightarrow> string \<Rightarrow> string option" where
  "definition_of u g t =
     map_option entry_definition (List.find (\<lambda>e. fold_text u (entry_term e) = fold_text u t) (entries g))"

definition has_definition :: "unicode \<Rightarrow> glossary \<Rightarrow> string \<Rightarrow> string \<Rightarrow> bool" where
  "has_definition u g t d \<longleftrightarrow>
     list_ex (\<lambda>e. fold_text u (entry_term e) = fold_text u t \<and> fold_text u (entry_definition e) = fold_text u d) (entries g)"

definition definitions_of :: "unicode \<Rightarrow> glossary \<Rightarrow> string \<Rightarrow> nat" where
  "definitions_of u g t = length (filter (\<lambda>e. fold_text u (entry_term e) = fold_text u t) (entries g))"

definition position_of :: "unicode \<Rightarrow> glossary \<Rightarrow> string \<Rightarrow> nat option" where
  "position_of u g t = find_index (\<lambda>e. fold_text u (entry_term e) = fold_text u t) (entries g)"

section \<open>Items\<close>

record ei_item =
  ei_objective_id :: string
  ei_term :: string
  ei_prompt :: string
  ei_options :: "string list"
  ei_correct_index :: nat
  ei_rationales :: "(nat \<times> string) list"
  ei_supporting_definition :: string
  ei_module :: string
  ei_seed :: "64 word"

definition ei_canonical :: "unicode \<Rightarrow> ei_item \<Rightarrow> string" where
  "ei_canonical u i =
     ''EI'' @ [CHR 0x01] @ fold_text u (ei_term i) @ [CHR 0x01] @
     fold_text u (case ei_options i of [] \<Rightarrow> [] | opt # _ \<Rightarrow> opt) @
     concat (map (\<lambda>opt. fold_text u opt @ [CHR 0x02]) (ei_options i))"

definition ei_hash :: "unicode \<Rightarrow> (string \<Rightarrow> string) \<Rightarrow> ei_item \<Rightarrow> string" where
  "ei_hash u sha i = as_str (hash_of_text sha (ei_canonical u i))"

definition ei_explanation :: "ei_item \<Rightarrow> string" where
  "ei_explanation i = ''NEETS defines '' @ [CHR 0x22] @ ei_term i @ [CHR 0x22] @ '' as: '' @
     ei_supporting_definition i @ '' ('' @ ei_module i @ '')''"

datatype ei_failure =
    CorrectOptionIsNotTheDefinedTerm string string
  | DistractorIsTheAnswer string
  | DuplicateOption string
  | TooFewOptions nat
  | CorrectIndexOutOfRange nat nat
  | RationaleCoverage "nat list" "nat list"
  | Blank string
  | UnknownTerm string
  | OptionIsNotAGlossaryTerm string

section \<open>Building\<close>

text \<open>The veto of the caller: a term, its definition and the closure's state.\<close>

type_synonym 'a veto = "string \<Rightarrow> string \<Rightarrow> 'a \<Rightarrow> bool \<times> 'a"

definition candidates_at :: "nat \<Rightarrow> nat \<Rightarrow> nat list" where
  "candidates_at index distance = (if distance \<le> index then [index - distance] else []) @ [index + distance]"

text \<open>The inner loop over the candidate positions of one distance.\<close>

fun offer_candidates :: "unicode \<Rightarrow> glossary \<Rightarrow> glossary_entry \<Rightarrow> 'a veto \<Rightarrow> nat list \<Rightarrow> marked list \<Rightarrow> 'a \<Rightarrow> marked list \<times> 'a" where
  "offer_candidates u g entry accept [] opts acc = (opts, acc)"
| "offer_candidates u g entry accept (k # ks) opts acc =
     (if length opts \<ge> 4 then (opts, acc)
      else if length (entries g) \<le> k then offer_candidates u g entry accept ks opts acc
      else (let candidate = entries g ! k in
        if fold_text u (entry_term candidate) = fold_text u (entry_term entry)
        then offer_candidates u g entry accept ks opts acc
        else if list_ex (\<lambda>(existing, _). fold_text u existing = fold_text u (entry_term candidate)) opts
        then offer_candidates u g entry accept ks opts acc
        else if length (entry_term candidate) > length (entry_term entry) + 10
             \<or> length (entry_term entry) > length (entry_term candidate) + 10
        then offer_candidates u g entry accept ks opts acc
        else (case accept (entry_term candidate) (entry_definition candidate) acc of
            (False, acc) \<Rightarrow> offer_candidates u g entry accept ks opts acc
          | (True, acc) \<Rightarrow> offer_candidates u g entry accept ks (opts @ [(entry_term candidate, False)]) acc)))"

fun offer_distances :: "unicode \<Rightarrow> glossary \<Rightarrow> nat \<Rightarrow> glossary_entry \<Rightarrow> 'a veto \<Rightarrow> nat list \<Rightarrow> marked list \<Rightarrow> 'a \<Rightarrow> marked list \<times> 'a" where
  "offer_distances u g index entry accept [] opts acc = (opts, acc)"
| "offer_distances u g index entry accept (d # ds) opts acc =
     (if length opts \<ge> 4 then (opts, acc)
      else (let (opts, acc) = offer_candidates u g entry accept (candidates_at index d) opts acc
            in offer_distances u g index entry accept ds opts acc))"

definition rationale_for :: "unicode \<Rightarrow> glossary \<Rightarrow> string \<Rightarrow> string" where
  "rationale_for u g t =
     (case definition_of u g t of
        Some d \<Rightarrow> ''NEETS defines '' @ [CHR 0x22] @ t @ [CHR 0x22] @ '' differently: '' @ d
      | None \<Rightarrow> [CHR 0x22] @ t @ [CHR 0x22] @ '' is a different term in the same module.'')"

definition build_one :: "unicode \<Rightarrow> glossary \<Rightarrow> 64 word \<Rightarrow> nat \<Rightarrow> 'a veto \<Rightarrow> rng \<Rightarrow> 'a \<Rightarrow> (ei_item option \<times> rng \<times> 'a) option" where
  "build_one u g seed min_words accept rng acc = do {
     (v, rng) \<leftarrow> rng_range rng 0 (int (length (entries g)) - 1);
     entry \<leftarrow> index_vec (entries g) (nat v);
     if word_count (entry_definition entry) < min_words \<or> word_count (entry_definition entry) > 30
     then Some (None, rng, acc)
     else case accept (entry_term entry) (entry_definition entry) acc of
       (False, acc) \<Rightarrow> Some (None, rng, acc)
     | (True, acc) \<Rightarrow>
         let (opts, acc) = offer_distances u g (nat v) entry accept [1..<7] [(entry_term entry, True)] acc in
         if length opts \<noteq> 4 then Some (None, rng, acc)
         else let (opts, rng) = rng_shuffle rng opts in do {
           correct \<leftarrow> correct_position opts;
           Some (Some \<lparr>ei_objective_id = ''OBJ-EI-TERMINOLOGY-01'', ei_term = entry_term entry,
             ei_prompt = ''Which term means: '' @ [CHR 0x22] @ entry_definition entry @ [CHR 0x22] @ ''?'',
             ei_options = map fst opts, ei_correct_index = correct,
             ei_rationales = rationales (rationale_for u g) opts,
             ei_supporting_definition = entry_definition entry, ei_module = entry_module entry,
             ei_seed = seed\<rparr>, rng, acc)
         }
   }"

definition build_items :: "unicode \<Rightarrow> (string \<Rightarrow> string) \<Rightarrow> glossary \<Rightarrow> nat \<Rightarrow> 64 word \<Rightarrow> nat \<Rightarrow> 'a veto \<Rightarrow> 'a \<Rightarrow>
    (ei_item list \<times> 'a) option" where
  "build_items u sha g wanted seed min_words accept acc =
     (if entries g = [] then Some ([], acc)
      else build_loop (build_one u g seed min_words accept) (ei_hash u sha) wanted (attempts_for 8 wanted) seed acc {} [])"

section \<open>Verification\<close>

fun verify_options :: "unicode \<Rightarrow> glossary \<Rightarrow> ei_item \<Rightarrow> nat \<Rightarrow> string list \<Rightarrow> string list \<Rightarrow> (unit, ei_failure) result" where
  "verify_options u g i position earlier [] = Ok ()"
| "verify_options u g i position earlier (opt # opts) =
     (if trim_text opt = [] then Err (Blank (''option '' @ show_nat position))
      else if list_ex (\<lambda>e. fold_text u e = fold_text u opt) earlier then Err (DuplicateOption opt)
      else if \<not> defines_term u g opt then Err (OptionIsNotAGlossaryTerm opt)
      else if position \<noteq> ei_correct_index i \<and> fold_text u opt = fold_text u (ei_term i)
      then Err (DistractorIsTheAnswer opt)
      else verify_options u g i (Suc position) (earlier @ [opt]) opts)"

fun verify_rationales :: "(nat \<times> string) list \<Rightarrow> (unit, ei_failure) result" where
  "verify_rationales [] = Ok ()"
| "verify_rationales ((position, t) # rs) =
     (if trim_text t = [] then Err (Blank (''rationale for option '' @ show_nat position)) else verify_rationales rs)"

definition verify :: "unicode \<Rightarrow> ei_item \<Rightarrow> glossary \<Rightarrow> (unit, ei_failure) result" where
  "verify u i g =
     (if trim_text (ei_term i) = [] then Err (Blank ''term'')
      else if trim_text (ei_prompt i) = [] then Err (Blank ''prompt'')
      else if trim_text (ei_supporting_definition i) = [] then Err (Blank ''supporting definition'')
      else if length (ei_options i) < 2 then Err (TooFewOptions (length (ei_options i)))
      else if length (ei_options i) \<le> ei_correct_index i
      then Err (CorrectIndexOutOfRange (ei_correct_index i) (length (ei_options i)))
      else if \<not> defines_term u g (ei_term i) then Err (UnknownTerm (ei_term i))
      else if \<not> has_definition u g (ei_term i) (ei_supporting_definition i)
      then Err (CorrectOptionIsNotTheDefinedTerm (ei_supporting_definition i) (ei_term i))
      else if fold_text u (ei_options i ! ei_correct_index i) \<noteq> fold_text u (ei_term i)
      then Err (CorrectOptionIsNotTheDefinedTerm (ei_options i ! ei_correct_index i) (ei_term i))
      else try_bind (verify_options u g i 0 [] (ei_options i)) (\<lambda>_.
        let (missing, extra) = coverage_gaps (length (ei_options i)) (ei_correct_index i) (ei_rationales i) in
        if missing \<noteq> [] \<or> extra \<noteq> [] then Err (RationaleCoverage missing extra)
        else verify_rationales (ei_rationales i)))"

section \<open>What an accepted item is\<close>

definition ei_valid :: "unicode \<Rightarrow> ei_item \<Rightarrow> glossary \<Rightarrow> bool" where
  "ei_valid u i g \<longleftrightarrow>
     trim_text (ei_term i) \<noteq> [] \<and> trim_text (ei_prompt i) \<noteq> [] \<and> trim_text (ei_supporting_definition i) \<noteq> [] \<and>
     2 \<le> length (ei_options i) \<and> ei_correct_index i < length (ei_options i) \<and>
     defines_term u g (ei_term i) \<and> has_definition u g (ei_term i) (ei_supporting_definition i) \<and>
     fold_text u (ei_options i ! ei_correct_index i) = fold_text u (ei_term i) \<and>
     (\<forall>opt \<in> set (ei_options i). trim_text opt \<noteq> [] \<and> defines_term u g opt) \<and>
     distinct (map (fold_text u) (ei_options i)) \<and>
     fst ` set (ei_rationales i) = {k. k < length (ei_options i) \<and> k \<noteq> ei_correct_index i} \<and>
     (\<forall>(k, why) \<in> set (ei_rationales i). trim_text why \<noteq> [])"

lemma ei_verify_options_iff:
  "distinct (map (fold_text u) earlier) \<Longrightarrow> verify_options u g i n earlier opts = Ok () \<longleftrightarrow>
    (\<forall>opt \<in> set opts. trim_text opt \<noteq> [] \<and> defines_term u g opt) \<and> distinct (map (fold_text u) (earlier @ opts)) \<and>
    (\<forall>k < length opts. n + k \<noteq> ei_correct_index i \<longrightarrow> fold_text u (opts ! k) \<noteq> fold_text u (ei_term i))"
proof (induction u g i n earlier opts rule: verify_options.induct)
  case (2 u g i n earlier opt opts)
  have shift: "(\<forall>k < length (opt # opts). n + k \<noteq> ei_correct_index i \<longrightarrow> fold_text u ((opt # opts) ! k) \<noteq> fold_text u (ei_term i)) \<longleftrightarrow>
      (n \<noteq> ei_correct_index i \<longrightarrow> fold_text u opt \<noteq> fold_text u (ei_term i)) \<and>
      (\<forall>k < length opts. Suc n + k \<noteq> ei_correct_index i \<longrightarrow> fold_text u (opts ! k) \<noteq> fold_text u (ei_term i))"
    by (auto simp: less_Suc_eq_0_disj all_conj_distrib)
  show ?case unfolding shift using 2 by (auto simp: repeats_iff)
qed simp

lemma ei_verify_rationales_iff: "verify_rationales rs = Ok () \<longleftrightarrow> (\<forall>(k, why) \<in> set rs. trim_text why \<noteq> [])"
  by (induction rs rule: verify_rationales.induct) auto

lemma ei_verify_valid: "verify u i g = Ok () \<longleftrightarrow> ei_valid u i g"
proof -
  have others: "distinct (map (fold_text u) (ei_options i)) \<Longrightarrow> k < length (ei_options i) \<Longrightarrow>
      ei_correct_index i < length (ei_options i) \<Longrightarrow> k \<noteq> ei_correct_index i \<Longrightarrow>
      fold_text u (ei_options i ! k) \<noteq> fold_text u (ei_options i ! ei_correct_index i)" for k
    using nth_eq_iff_index_eq [of "map (fold_text u) (ei_options i)" k "ei_correct_index i"] by simp
  obtain missing extra where gaps:
    "coverage_gaps (length (ei_options i)) (ei_correct_index i) (ei_rationales i) = (missing, extra)" by fastforce
  with coverage_gaps_iff [of "length (ei_options i)" "ei_correct_index i" "ei_rationales i"]
  have cov: "missing = [] \<and> extra = [] \<longleftrightarrow>
      fst ` set (ei_rationales i) = {k. k < length (ei_options i) \<and> k \<noteq> ei_correct_index i}" by simp
  show ?thesis
    unfolding verify_def ei_valid_def gaps cov [symmetric]
    by (simp add: ei_verify_options_iff ei_verify_rationales_iff not_less not_le try_bind_Ok_iff)
      (use others in \<open>auto split: if_splits\<close>)
qed

section \<open>What the parser leaves\<close>

definition entry_ok :: "glossary_entry \<Rightarrow> bool" where
  "entry_ok e \<longleftrightarrow> trim_text (entry_term e) \<noteq> [] \<and> trim_text (entry_definition e) \<noteq> []"

definition glossary_ok :: "unicode \<Rightarrow> glossary \<Rightarrow> bool" where
  "glossary_ok u g \<longleftrightarrow> terms g = (\<lambda>e. fold_text u (entry_term e)) ` set (entries g) \<and> list_all entry_ok (entries g)"

lemma split_entry_term: "split_entry line = Some (word, meaning) \<Longrightarrow> trim_text word \<noteq> []"
proof -
  assume "split_entry line = Some (word, meaning)"
  then have "word \<noteq> []" "ascii_uppercase (hd (chars word))"
    by (auto simp: split_entry_def Let_def split: option.splits if_splits prod.splits)
  then obtain c where "hd (chars word) = [c]" "is_upper c" "chars word \<noteq> []"
    by (auto simp: ascii_uppercase_def elim!: ascii_classE)
  then have "[c] \<in> set (chars word)" "is_upper c" by (metis hd_in_set, simp)
  then show ?thesis
    by (intro trim_text_nonempty [of "[c]"]) (simp_all add: plain_not_white is_upper_plain)
qed

fun pending_ok :: "(string \<times> string) option \<Rightarrow> bool" where
  "pending_ok None = True"
| "pending_ok (Some (word, _)) = (trim_text word \<noteq> [])"

lemma ei_flush_ok: "list_all entry_ok es \<Longrightarrow> pending_ok current \<Longrightarrow> list_all entry_ok (flush name current es)"
  by (auto simp: flush_def Let_def entry_ok_def collapse_Nil_iff collapse_trim split: option.splits)

lemma parse_loop_ok: "list_all entry_ok es \<Longrightarrow> pending_ok current \<Longrightarrow> list_all entry_ok (parse_loop name current es raws)"
proof (induction raws arbitrary: current es)
  case (Cons raw raws)
  have flushed: "list_all entry_ok (flush name current es)" using Cons.prems by (rule ei_flush_ok)
  show ?case
    using Cons.IH [OF flushed] Cons.IH [OF Cons.prems(1)] Cons.prems(2) split_entry_term
    by (auto simp: Let_def split: option.split)
qed (simp add: ei_flush_ok)

lemma parse_glossary_ok: "glossary_ok u (parse_neets_glossary u t name)"
  using parse_loop_ok [of "[]" None] by (simp add: glossary_ok_def parse_neets_glossary_def Let_def)

section \<open>What the builder returns\<close>

text \<open>An option is vetted when it heads an entry that the caller accepted.\<close>

definition vetted :: "glossary \<Rightarrow> 'a veto \<Rightarrow> string \<Rightarrow> bool" where
  "vetted g accept t \<longleftrightarrow> (\<exists>e \<in> set (entries g). entry_term e = t \<and> (\<exists>acc. fst (accept t (entry_definition e) acc)))"

definition ei_good :: "unicode \<Rightarrow> glossary \<Rightarrow> 'a veto \<Rightarrow> ei_item \<Rightarrow> bool" where
  "ei_good u g accept i \<longleftrightarrow> verify u i g = Ok () \<and> length (ei_options i) = 4 \<and> list_all (vetted g accept) (ei_options i)"

lemma offer_candidates_ok:
  "options_ok (fold_text u) (vetted g accept) answer opts \<Longrightarrow> length opts \<le> 4 \<Longrightarrow>
    options_ok (fold_text u) (vetted g accept) answer (fst (offer_candidates u g entry accept ks opts acc)) \<and>
    length (fst (offer_candidates u g entry accept ks opts acc)) \<le> 4"
proof (induction u g entry accept ks opts acc rule: offer_candidates.induct)
  case (2 u g entry accept k ks opts acc)
  let ?c = "entries g ! k"
  show ?case
  proof (cases "accept (entry_term ?c) (entry_definition ?c) acc")
    case (Pair yes acc')
    have add: "options_ok (fold_text u) (vetted g accept) answer (opts @ [(entry_term ?c, False)])"
      if "yes" "k < length (entries g)" "\<not> list_ex (\<lambda>(existing, _). fold_text u existing = fold_text u (entry_term ?c)) opts"
    proof (rule options_ok_add [OF 2(7) _ that(3)])
      have "?c \<in> set (entries g)" "fst (accept (entry_term ?c) (entry_definition ?c) acc)" using that Pair by simp_all
      then show "vetted g accept (entry_term ?c)" by (auto simp: vetted_def)
    qed
    show ?thesis using 2 add Pair by (cases yes) (auto simp: Let_def)
  qed
qed simp

lemma offer_distances_ok:
  "options_ok (fold_text u) (vetted g accept) answer opts \<Longrightarrow> length opts \<le> 4 \<Longrightarrow>
    options_ok (fold_text u) (vetted g accept) answer (fst (offer_distances u g index entry accept ds opts acc))"
proof (induction u g index entry accept ds opts acc rule: offer_distances.induct)
  case (2 u g index entry accept d ds opts acc)
  obtain opts' acc' where offered: "offer_candidates u g entry accept (candidates_at index d) opts acc = (opts', acc')" by fastforce
  with offer_candidates_ok [OF 2(2,3), of entry "candidates_at index d" acc]
  have "options_ok (fold_text u) (vetted g accept) answer opts'" "length opts' \<le> 4" by simp_all
  with 2(1) [OF _ offered [symmetric] refl] 2(2) offered show ?case by simp
qed simp

lemma has_own_definition: "e \<in> set (entries g) \<Longrightarrow> has_definition u g (entry_term e) (entry_definition e)"
  by (auto simp: has_definition_def list_ex_iff)

lemma vetted_term:
  "glossary_ok u g \<Longrightarrow> vetted g accept t \<Longrightarrow> trim_text t \<noteq> [] \<and> defines_term u g t"
  by (auto simp: glossary_ok_def vetted_def entry_ok_def defines_term_def list_all_iff)

lemma ei_built_valid:
  assumes g: "glossary_ok u g" and e: "e \<in> set (entries g)"
    and opts: "options_ok (fold_text u) (vetted g accept) (entry_term e) opts" "length opts = 4"
    and k: "correct_position opts = Some k"
    and i: "ei_term i = entry_term e" "ei_supporting_definition i = entry_definition e"
      "trim_text (ei_prompt i) \<noteq> []" "ei_options i = map fst opts" "ei_correct_index i = k"
      "ei_rationales i = rationales (rationale_for u g) opts"
  shows "ei_good u g accept i"
proof -
  obtain j where "correct_position opts = Some j" "j < length opts" "map fst opts ! j = entry_term e"
    "fst ` set (rationales (rationale_for u g) opts) = {l. l < length opts \<and> l \<noteq> j}"
    using options_ok_position [OF opts(1)] by blast
  moreover have "trim_text (rationale_for u g t) \<noteq> []" for t
    by (auto simp: rationale_for_def plain_start_trim split: option.split)
  moreover have "entry_ok e" "defines_term u g (entry_term e)"
    using g e by (auto simp: glossary_ok_def list_all_iff defines_term_def)
  moreover have "distinct (map (fold_text u) (map fst opts))" "\<forall>t \<in> set (map fst opts). vetted g accept t"
    using options_ok_plain [OF opts(1)] by blast+
  moreover from this(2) have "\<forall>t \<in> set (map fst opts). trim_text t \<noteq> [] \<and> defines_term u g t"
    using vetted_term [OF g] by blast
  ultimately show ?thesis
    using opts(2) k i has_own_definition [OF e]
    unfolding ei_good_def ei_verify_valid ei_valid_def
    by (auto simp: entry_ok_def rationales_iff list_all_iff comp_def)
qed

definition glossary_sound :: "unicode \<Rightarrow> glossary \<Rightarrow> bool" where
  "glossary_sound u g \<longleftrightarrow> glossary_ok u g \<and> entries g \<noteq> [] \<and> length (entries g) < 2 ^ 63"

lemma ei_build_one_result:
  assumes "glossary_sound u g"
  shows "\<exists>built rng' acc'. build_one u g seed min_words accept rng acc = Some (built, rng', acc') \<and>
    (\<forall>item. built = Some item \<longrightarrow> ei_good u g accept item)"
proof -
  let ?n = "length (entries g)"
  have g: "glossary_ok u g" "0 < ?n" "?n < 2 ^ 63" using assms by (auto simp: glossary_sound_def)
  then obtain v rng1 where v: "rng_range rng 0 (int ?n - 1) = Some (v, rng1)" "0 \<le> v" "v \<le> int ?n - 1"
    using rng_range_bounds [of 0 "int ?n - 1" rng] by force
  define e where "e = entries g ! nat v"
  have i: "nat v < ?n" using v g(2) by linarith
  then have e: "e \<in> set (entries g)" "index_vec (entries g) (nat v) = Some e" by (simp_all add: e_def index_vec_def)
  obtain yes acc1 where yes: "accept (entry_term e) (entry_definition e) acc = (yes, acc1)" by fastforce
  obtain opts acc2 where opts: "offer_distances u g (nat v) e accept [Suc 0..<7] [(entry_term e, True)] acc1 = (opts, acc2)"
    by fastforce
  obtain opts' rng2 where shuffled: "rng_shuffle rng1 opts = (opts', rng2)" by fastforce
  show ?thesis
  proof (cases "word_count (entry_definition e) < min_words \<or> word_count (entry_definition e) > 30 \<or> \<not> yes \<or> length opts \<noteq> 4")
    case True
    then show ?thesis by (cases yes) (auto simp: build_one_def v(1) e(2) yes opts)
  next
    case False
    have "vetted g accept (entry_term e)" using e(1) yes False by (auto simp: vetted_def intro!: bexI [of _ e] exI [of _ acc])
    then have "options_ok (fold_text u) (vetted g accept) (entry_term e) [(entry_term e, True)]" by (rule options_ok_start)
    from offer_distances_ok [OF this, of "nat v" e "[Suc 0..<7]" acc1]
    have "options_ok (fold_text u) (vetted g accept) (entry_term e) opts" by (simp add: opts)
    then have ok: "options_ok (fold_text u) (vetted g accept) (entry_term e) opts'" "length opts' = 4"
      using options_ok_shuffle [of opts "fold_text u" "vetted g accept" "entry_term e" rng1]
        length_rng_shuffle [of opts rng1] False by (simp_all add: shuffled)
    obtain k where k: "correct_position opts' = Some k" using options_ok_position [OF ok(1)] by blast
    show ?thesis
      using False unfolding build_one_def
      by (simp add: v(1) e(2) yes opts shuffled k)
        (rule ei_built_valid [OF g(1) e(1) ok k], simp_all add: plain_start_trim)
  qed
qed

interpretation ei: item_builder "glossary_sound u g" "build_one u g seed min_words accept" "ei_good u g accept"
proof
  assume g: "glossary_sound u g"
  show "build_one u g seed min_words accept rng acc \<noteq> None" for rng acc
    using ei_build_one_result [OF g, of seed min_words accept rng acc] by auto
  show "ei_good u g accept item" if "build_one u g seed min_words accept rng acc = Some (Some item, rng', acc')"
    for rng acc item rng' acc'
    using ei_build_one_result [OF g, of seed min_words accept rng acc] that by auto
qed

section \<open>Properties\<close>

text \<open>
  C6. Building items from any parsed glossary never panics; every item built is accepted by the
  independent verifier against that glossary, has four options, each of them a term the
  caller accepted with its definition, no two items have the same content hash, and there are at
  most as many as wanted.
\<close>

theorem glossary_items_verify:
  assumes "length (entries (parse_neets_glossary u t name)) < 2 ^ 63"
  shows "\<exists>items acc'. build_items u sha (parse_neets_glossary u t name) wanted seed min_words accept acc = Some (items, acc') \<and>
    (\<forall>i \<in> set items. verify u i (parse_neets_glossary u t name) = Ok () \<and> length (ei_options i) = 4 \<and>
      (\<forall>opt \<in> set (ei_options i). \<exists>e \<in> set (entries (parse_neets_glossary u t name)).
        entry_term e = opt \<and> (\<exists>acc. fst (accept opt (entry_definition e) acc)))) \<and>
    distinct (map (ei_hash u sha) items) \<and> length items \<le> wanted"
proof (cases "entries (parse_neets_glossary u t name) = []")
  case True
  then show ?thesis by (simp add: build_items_def)
next
  case False
  then have "glossary_sound u (parse_neets_glossary u t name)"
    using assms parse_glossary_ok by (simp add: glossary_sound_def)
  from ei.build_good [OF this, of seed min_words accept "ei_hash u sha" wanted "attempts_for 8 wanted" seed acc] False
  show ?thesis unfolding build_items_def ei_good_def vetted_def list_all_iff by auto
qed

text \<open>
  The verifier accepts an item exactly when it is one question about the glossary: the
  prompt's term and definition belong together in the source, the marked option is that term,
  every option is a different term of the glossary, and every other option, and only those, has
  a rationale.
\<close>

theorem glossary_verify_iff: "verify u i g = Ok () \<longleftrightarrow> ei_valid u i g"
  by (rule ei_verify_valid)

definition sample_glossary :: string where
  "sample_glossary = concat (map (\<lambda>l. l @ [CHR 0x0A]) [''AC - x'', ''y'', [], ''DC - z'', ''END'', ''w''])"

lemma ei_sample_entries: "map (\<lambda>e. (entry_term e, entry_definition e)) (entries (parse_neets_glossary ascii_unicode sample_glossary ''M'')) =
    [(''AC'', ''x y''), (''DC'', ''z'')]"
  by code_simp

lemma glossary_items_verify_witness:
  "\<exists>items acc'. build_items ascii_unicode id (parse_neets_glossary ascii_unicode sample_glossary ''M'') 3 7 1
      (\<lambda>t d n. (t \<noteq> d, n + 1)) (0::nat) = Some (items, acc') \<and>
    distinct (map (ei_hash ascii_unicode id) items) \<and> length items \<le> 3"
proof -
  have "length (entries (parse_neets_glossary ascii_unicode sample_glossary ''M'')) < 2 ^ 63"
    using arg_cong [OF ei_sample_entries, of length] by simp
  from glossary_items_verify [OF this, of id 3 7 1 "\<lambda>t d n. (t \<noteq> d, n + 1)" 0] show ?thesis by blast
qed

end
