(* ===== verification/Thesaurus.thy ===== *)
theory Thesaurus
  imports Item_Builder
begin

text \<open>
  Word Knowledge items from the thesaurus, \<open>crates/vector-questions/src/thesaurus.rs\<close>: the parse
  with its two indexes and its vocabulary, the co-occurrence test by merging posting lists, the
  builder and the independent verification. Entry numbers are cast to \<open>u32\<close>; the difficulty of an item is a float and is left out.
\<close>

section \<open>The source\<close>

record root_entry =
  headword :: string
  related :: "string list"

record thesaurus =
  entries :: "root_entry list"
  lines_by_word :: "string \<rightharpoonup> nat list"
  entry_index :: "string \<rightharpoonup> nat"
  vocabulary :: "string list"

definition same_text :: "string \<Rightarrow> string \<Rightarrow> bool" where
  "same_text a b = eq_ignore_case (trim_text a) (trim_text b)"

definition MIN_DISTRACTOR_LINES :: nat where "MIN_DISTRACTOR_LINES = 6"

definition MAX_DISTRACTOR_LENGTH_GAP :: nat where "MAX_DISTRACTOR_LENGTH_GAP = 4"

definition key :: "unicode \<Rightarrow> string \<Rightarrow> string" where
  "key u w = to_lower u (trim_text w)"

definition is_plain_word :: "unicode \<Rightarrow> string \<Rightarrow> bool" where
  "is_plain_word u w =
     (let trimmed = trim_text w in
      if length trimmed < 3 \<or> length trimmed > 14 then False
      else if \<not> list_all ascii_alphabetic (chars trimmed) then False
      else \<not> (case chars trimmed of [] \<Rightarrow> False | c # _ \<Rightarrow> uppercase u c))"

section \<open>The parse\<close>

text \<open>
  The state of the loop over the lines: the entries, the two indexes, the vocabulary and the
  words seen. \<open>index_word\<close> is the body of the loop over the words of one line.
\<close>

record moby_state =
  m_entries :: "root_entry list"
  m_lines :: "string \<rightharpoonup> nat list"
  m_index :: "string \<rightharpoonup> nat"
  m_vocabulary :: "string list"
  m_seen :: "string set"

definition index_word :: "unicode \<Rightarrow> nat \<Rightarrow> string \<Rightarrow> moby_state \<Rightarrow> moby_state" where
  "index_word u index w s =
     (let s = s\<lparr>m_lines := (m_lines s)(key u w \<mapsto> (case m_lines s (key u w) of None \<Rightarrow> [] | Some l \<Rightarrow> l) @ [index])\<rparr> in
      if is_plain_word u w \<and> key u w \<notin> m_seen s
      then s\<lparr>m_seen := insert (key u w) (m_seen s), m_vocabulary := m_vocabulary s @ [trim_text w]\<rparr>
      else s)"

definition parse_fields :: "string \<Rightarrow> root_entry option" where
  "parse_fields raw =
     (let line = trim_end_matches (one_of [CHR 0x0D, CHR 0x0A]) raw in
      if trim_text line = [] \<or> starts_with line ''#'' then None
      else (case split_text (one_of '','') line of
          [] \<Rightarrow> None
        | first # others \<Rightarrow>
            (let word = trim_text first;
                 others = filter (\<lambda>f. f \<noteq> []) (map trim_text others)
             in if word = [] then None
                else if others = [] then None
                else Some \<lparr>headword = word, related = others\<rparr>)))"

definition parse_line :: "unicode \<Rightarrow> string \<Rightarrow> moby_state \<Rightarrow> moby_state" where
  "parse_line u raw s =
     (case parse_fields raw of
        None \<Rightarrow> s
      | Some e \<Rightarrow>
          (let index = unat (word_of_nat (length (m_entries s)) :: 32 word);
               s = fold (index_word u index) (headword e # related e) s;
               s = s\<lparr>m_entries := m_entries s @ [e]\<rparr>
           in if m_index s (key u (headword e)) = None
              then s\<lparr>m_index := (m_index s)(key u (headword e) \<mapsto> index)\<rparr> else s))"

definition parse_moby :: "unicode \<Rightarrow> string \<Rightarrow> thesaurus" where
  "parse_moby u t =
     (let s = fold (parse_line u) (text_lines t)
        \<lparr>m_entries = [], m_lines = Map.empty, m_index = Map.empty, m_vocabulary = [], m_seen = {}\<rparr>
      in \<lparr>entries = m_entries s, lines_by_word = m_lines s, entry_index = m_index s, vocabulary = sort (m_vocabulary s)\<rparr>)"

section \<open>Lookups\<close>

text \<open>The merge of two posting lists, on what is left of each.\<close>

fun merge_meets :: "nat list \<Rightarrow> nat list \<Rightarrow> bool" where
  "merge_meets (l # left) (r # right) =
     (if l = r then True
      else if l < r then merge_meets left (r # right)
      else merge_meets (l # left) right)"
| "merge_meets _ _ = False"

definition co_occurs :: "unicode \<Rightarrow> thesaurus \<Rightarrow> string \<Rightarrow> string \<Rightarrow> bool" where
  "co_occurs u th a b =
     (case (lines_by_word th (key u a), lines_by_word th (key u b)) of
        (Some left, Some right) \<Rightarrow> merge_meets left right
      | _ \<Rightarrow> False)"

definition related_to :: "unicode \<Rightarrow> thesaurus \<Rightarrow> string \<Rightarrow> string list option option" where
  "related_to u th w =
     (case entry_index th (key u w) of
        None \<Rightarrow> Some None
      | Some index \<Rightarrow> map_option (\<lambda>e. Some (related e)) (index_vec (entries th) index))"

definition lists :: "unicode \<Rightarrow> thesaurus \<Rightarrow> string \<Rightarrow> string \<Rightarrow> bool option" where
  "lists u th w other =
     (case entry_index th (key u w) of
        None \<Rightarrow> Some False
      | Some index \<Rightarrow> map_option (\<lambda>e. list_ex (\<lambda>t. same_text t other) (related e)) (index_vec (entries th) index))"

definition is_root_word :: "unicode \<Rightarrow> thesaurus \<Rightarrow> string \<Rightarrow> bool" where
  "is_root_word u th w \<longleftrightarrow> entry_index th (key u w) \<noteq> None"

definition frequency :: "unicode \<Rightarrow> thesaurus \<Rightarrow> string \<Rightarrow> nat" where
  "frequency u th w = (case lines_by_word th (key u w) of None \<Rightarrow> 0 | Some l \<Rightarrow> length l)"

definition is_mutual :: "unicode \<Rightarrow> thesaurus \<Rightarrow> string \<Rightarrow> string \<Rightarrow> bool option" where
  "is_mutual u th a b = do {
     ab \<leftarrow> lists u th a b;
     if ab then lists u th b a else Some False
   }"

section \<open>Items\<close>

record wk_item =
  wk_objective_id :: string
  wk_headword :: string
  wk_prompt :: string
  wk_options :: "string list"
  wk_correct_index :: nat
  wk_rationales :: "(nat \<times> string) list"
  wk_supporting_line :: string
  wk_related_count :: nat
  wk_seed :: "64 word"

definition wk_canonical :: "unicode \<Rightarrow> wk_item \<Rightarrow> string" where
  "wk_canonical u i =
     ''WK'' @ [CHR 0x01] @ to_lower u (wk_headword i) @ [CHR 0x01] @
     concat (map (\<lambda>opt. to_lower u opt @ [CHR 0x02]) (wk_options i)) @ [CHR 0x01] @ show_nat (wk_correct_index i)"

definition wk_hash :: "unicode \<Rightarrow> (string \<Rightarrow> string) \<Rightarrow> wk_item \<Rightarrow> string" where
  "wk_hash u sha i = as_str (hash_of_text sha (wk_canonical u i))"

definition wk_explanation :: "wk_item \<Rightarrow> string" where
  "wk_explanation i = ''The source lists these terms with '' @ [CHR 0x22] @ wk_headword i @ [CHR 0x22] @ '': '' @ wk_supporting_line i"

datatype wk_failure =
    CorrectOptionNotInSource string string
  | AmbiguousDistractor string string
  | TooFewOptions nat
  | CorrectIndexOutOfRange nat nat
  | DuplicateOption string
  | RationaleCoverage "nat list" "nat list"
  | Blank string
  | UnknownHeadword string

section \<open>Building\<close>

text \<open>
  The three filters of the candidates run lazily, element by element, and the caller's veto,
  a closure with a state, sees the pairs that passed the first two.
\<close>

type_synonym 'a veto = "string \<Rightarrow> string \<Rightarrow> 'a \<Rightarrow> bool \<times> 'a"

fun synonyms :: "unicode \<Rightarrow> thesaurus \<Rightarrow> string \<Rightarrow> 'a veto \<Rightarrow> string list \<Rightarrow> 'a \<Rightarrow> (string list \<times> 'a) option" where
  "synonyms u th head accept [] acc = Some ([], acc)"
| "synonyms u th head accept (w # ws) acc =
     (if is_plain_word u w \<and> key u w \<noteq> key u head
      then do {
        mutual \<leftarrow> is_mutual u th head w;
        let (yes, acc) = (if mutual then accept head w acc else (False, acc));
        (rest, acc) \<leftarrow> synonyms u th head accept ws acc;
        Some (if yes then w # rest else rest, acc)
      }
      else synonyms u th head accept ws acc)"

definition good_distractor :: "unicode \<Rightarrow> thesaurus \<Rightarrow> nat \<Rightarrow> string \<Rightarrow> string \<Rightarrow> marked list \<Rightarrow> string \<Rightarrow> bool" where
  "good_distractor u th min_lines head correct opts w \<longleftrightarrow>
     key u w \<noteq> key u head \<and>
     \<not> list_ex (\<lambda>(existing, _). key u existing = key u w) opts \<and>
     \<not> co_occurs u th head w \<and> is_root_word u th w \<and> \<not> frequency u th w < min_lines \<and>
     \<not> (length w > length correct + MAX_DISTRACTOR_LENGTH_GAP \<or> length correct > length w + MAX_DISTRACTOR_LENGTH_GAP)"

fun probe :: "unicode \<Rightarrow> thesaurus \<Rightarrow> nat \<Rightarrow> string \<Rightarrow> string \<Rightarrow> nat \<Rightarrow> rng \<Rightarrow> marked list \<Rightarrow> (marked list \<times> rng) option" where
  "probe u th min_lines head correct 0 rng opts = Some (opts, rng)"
| "probe u th min_lines head correct (Suc probes) rng opts =
     (if 4 \<le> length opts then Some (opts, rng)
      else do {
        (w, rng) \<leftarrow> rng_pick rng (vocabulary th);
        if good_distractor u th min_lines head correct opts w
        then probe u th min_lines head correct probes rng (opts @ [(w, False)])
        else probe u th min_lines head correct probes rng opts
      })"

definition supporting_line :: "root_entry \<Rightarrow> string" where
  "supporting_line e =
     (let preview = take 12 (related e) in
      if length preview < length (related e)
      then join '', '' preview @ [CHR 0xE2, CHR 0x80, CHR 0xA6] @ '' ('' @ show_nat (length (related e)) @ '' terms)''
      else join '', '' preview)"

definition wk_rationale :: "string \<Rightarrow> string \<Rightarrow> string" where
  "wk_rationale head _ = ''The source does not list this with '' @ [CHR 0x22] @ head @ [CHR 0x22] @
     '', so the two are not treated as synonyms there.''"

definition build_one :: "unicode \<Rightarrow> thesaurus \<Rightarrow> 64 word \<Rightarrow> nat \<Rightarrow> 'a veto \<Rightarrow> rng \<Rightarrow> 'a \<Rightarrow> (wk_item option \<times> rng \<times> 'a) option" where
  "build_one u th seed min_lines accept rng acc = do {
     (v, rng) \<leftarrow> rng_range rng 0 (int (length (entries th)) - 1);
     e \<leftarrow> index_vec (entries th) (nat v);
     if \<not> is_plain_word u (headword e) then Some (None, rng, acc)
     else do {
       (candidates, acc) \<leftarrow> synonyms u th (headword e) accept (related e) acc;
       if candidates = [] then Some (None, rng, acc)
       else do {
         (correct, rng) \<leftarrow> rng_pick rng candidates;
         if key u correct = key u (headword e) then Some (None, rng, acc)
         else do {
           (opts, rng) \<leftarrow> probe u th min_lines (headword e) correct 400 rng [(correct, True)];
           if length opts \<noteq> 4 then Some (None, rng, acc)
           else let (opts, rng) = rng_shuffle rng opts in do {
             k \<leftarrow> correct_position opts;
             Some (Some \<lparr>wk_objective_id = ''OBJ-WK-SYNONYM-01'', wk_headword = headword e,
               wk_prompt = ''Choose the word that most nearly means the same as '' @ to_upper u (headword e) @ ''.'',
               wk_options = map fst opts, wk_correct_index = k,
               wk_rationales = rationales (wk_rationale (headword e)) opts,
               wk_supporting_line = supporting_line e, wk_related_count = length (related e),
               wk_seed = seed\<rparr>, rng, acc)
           }
         }
       }
     }
   }"

definition build_items_configured :: "unicode \<Rightarrow> (string \<Rightarrow> string) \<Rightarrow> thesaurus \<Rightarrow> nat \<Rightarrow> 64 word \<Rightarrow> nat \<Rightarrow> 'a veto \<Rightarrow> 'a \<Rightarrow>
    (wk_item list \<times> 'a) option" where
  "build_items_configured u sha th wanted seed min_lines accept acc =
     (if entries th = [] then Some ([], acc)
      else build_loop (build_one u th seed min_lines accept) (wk_hash u sha) wanted (attempts_for 8 wanted) seed acc {} [])"

definition build_items_filtered :: "unicode \<Rightarrow> (string \<Rightarrow> string) \<Rightarrow> thesaurus \<Rightarrow> nat \<Rightarrow> 64 word \<Rightarrow> 'a veto \<Rightarrow> 'a \<Rightarrow>
    (wk_item list \<times> 'a) option" where
  "build_items_filtered u sha th wanted seed accept acc =
     build_items_configured u sha th wanted seed MIN_DISTRACTOR_LINES accept acc"

definition build_items :: "unicode \<Rightarrow> (string \<Rightarrow> string) \<Rightarrow> thesaurus \<Rightarrow> nat \<Rightarrow> 64 word \<Rightarrow> wk_item list option" where
  "build_items u sha th wanted seed = map_option fst (build_items_filtered u sha th wanted seed (\<lambda>_ _ acc. (True, acc)) ())"

section \<open>Verification\<close>

fun verify_options :: "unicode \<Rightarrow> thesaurus \<Rightarrow> wk_item \<Rightarrow> nat \<Rightarrow> string list \<Rightarrow> string list \<Rightarrow> (unit, wk_failure) result" where
  "verify_options u th i index earlier [] = Ok ()"
| "verify_options u th i index earlier (opt # opts) =
     (if trim_text opt = [] then Err (Blank (''option '' @ show_nat index))
      else if list_ex (\<lambda>e. key u e = key u opt) earlier then Err (DuplicateOption opt)
      else if index \<noteq> wk_correct_index i \<and> co_occurs u th (wk_headword i) opt
      then Err (AmbiguousDistractor opt (wk_headword i))
      else verify_options u th i (Suc index) (earlier @ [opt]) opts)"

fun verify_rationales :: "(nat \<times> string) list \<Rightarrow> (unit, wk_failure) result" where
  "verify_rationales [] = Ok ()"
| "verify_rationales ((index, t) # rs) =
     (if trim_text t = [] then Err (Blank (''rationale for option '' @ show_nat index)) else verify_rationales rs)"

definition verify :: "unicode \<Rightarrow> wk_item \<Rightarrow> thesaurus \<Rightarrow> (unit, wk_failure) result option" where
  "verify u i th =
     (if trim_text (wk_headword i) = [] then Some (Err (Blank ''headword''))
      else if trim_text (wk_prompt i) = [] then Some (Err (Blank ''prompt''))
      else do {
        listed \<leftarrow> related_to u th (wk_headword i);
        Some (if listed = None then Err (UnknownHeadword (wk_headword i))
        else if length (wk_options i) < 2 then Err (TooFewOptions (length (wk_options i)))
        else if length (wk_options i) \<le> wk_correct_index i
        then Err (CorrectIndexOutOfRange (wk_correct_index i) (length (wk_options i)))
        else if \<not> co_occurs u th (wk_headword i) (wk_options i ! wk_correct_index i)
        then Err (CorrectOptionNotInSource (wk_options i ! wk_correct_index i) (wk_headword i))
        else try_bind (verify_options u th i 0 [] (wk_options i)) (\<lambda>_.
          let (missing, extra) = coverage_gaps (length (wk_options i)) (wk_correct_index i) (wk_rationales i) in
          if missing \<noteq> [] \<or> extra \<noteq> [] then Err (RationaleCoverage missing extra)
          else verify_rationales (wk_rationales i)))
      })"

section \<open>What the parse leaves\<close>

definition posting :: "nat list option \<Rightarrow> nat list" where
  "posting l = (case l of None \<Rightarrow> [] | Some l \<Rightarrow> l)"

text \<open>A line of the source, as the set of the keys of its words.\<close>

definition mentions :: "unicode \<Rightarrow> root_entry \<Rightarrow> string \<Rightarrow> bool" where
  "mentions u e k \<longleftrightarrow> (\<exists>w \<in> set (headword e # related e). key u w = k)"

definition vocabulary_ok :: "unicode \<Rightarrow> root_entry list \<Rightarrow> string list \<Rightarrow> bool" where
  "vocabulary_ok u es vocab \<longleftrightarrow> list_all (\<lambda>w. trim_text w \<noteq> []) vocab \<and>
     (vocab = [] \<longrightarrow> (\<forall>e \<in> set es. \<not> is_plain_word u (headword e)))"

definition index_ok :: "unicode \<Rightarrow> root_entry list \<Rightarrow> (string \<rightharpoonup> nat list) \<Rightarrow> (string \<rightharpoonup> nat) \<Rightarrow> bool" where
  "index_ok u es lines index \<longleftrightarrow>
     (\<forall>k. sorted (posting (lines k)) \<and> set (posting (lines k)) = {i. i < length es \<and> mentions u (es ! i) k} \<and>
          index k = find_index (\<lambda>e. key u (headword e) = k) es)"

definition thesaurus_ok :: "unicode \<Rightarrow> thesaurus \<Rightarrow> bool" where
  "thesaurus_ok u th \<longleftrightarrow>
     index_ok u (entries th) (lines_by_word th) (entry_index th) \<and> vocabulary_ok u (entries th) (vocabulary th)"

lemma index_word_frame [simp]:
  "m_entries (index_word u n w s) = m_entries s" "m_index (index_word u n w s) = m_index s"
  by (simp_all add: index_word_def Let_def)

lemma fold_index_frame [simp]:
  "m_entries (fold (index_word u n) ws s) = m_entries s" "m_index (fold (index_word u n) ws s) = m_index s"
  by (induction ws arbitrary: s) simp_all

lemma posting_index_word:
  "posting (m_lines (index_word u n w s) k) = posting (m_lines s k) @ (if key u w = k then [n] else [])"
  by (simp add: index_word_def Let_def posting_def split: option.split)

lemma posting_fold_index:
  "posting (m_lines (fold (index_word u n) ws s) k) =
    posting (m_lines s k) @ replicate (length (filter (\<lambda>w. key u w = k) ws)) n"
  by (induction ws arbitrary: s) (auto simp: posting_index_word replicate_app_Cons_same)

lemma plain_word_text: "is_plain_word u w \<Longrightarrow> trim_text (trim_text w) \<noteq> []"
proof -
  assume "is_plain_word u w"
  then have w: "trim_text w \<noteq> []" "list_all ascii_alphabetic (chars (trim_text w))"
    by (auto simp: is_plain_word_def Let_def split: if_splits)
  then obtain c cs where c: "chars (trim_text w) = c # cs" by (cases "chars (trim_text w)") auto
  with w(2) have "\<not> white c" by (auto simp: ascii_alphabetic_def plain_not_white is_upper_def is_lower_def plain_def elim!: ascii_classE)
  with c show ?thesis by (intro trim_text_nonempty [of c]) simp_all
qed

text \<open>The words seen and the vocabulary.\<close>

definition seen_ok :: "moby_state \<Rightarrow> bool" where
  "seen_ok s \<longleftrightarrow> list_all (\<lambda>w. trim_text w \<noteq> []) (m_vocabulary s) \<and> (m_seen s \<noteq> {} \<longrightarrow> m_vocabulary s \<noteq> [])"

lemma index_word_seen:
  "seen_ok s \<Longrightarrow> seen_ok (index_word u n w s) \<and> m_seen s \<subseteq> m_seen (index_word u n w s) \<and>
    (is_plain_word u w \<longrightarrow> key u w \<in> m_seen (index_word u n w s))"
  by (auto simp: index_word_def seen_ok_def Let_def plain_word_text)

lemma fold_index_seen:
  "seen_ok s \<Longrightarrow> seen_ok (fold (index_word u n) ws s) \<and> m_seen s \<subseteq> m_seen (fold (index_word u n) ws s) \<and>
    (\<forall>w \<in> set ws. is_plain_word u w \<longrightarrow> key u w \<in> m_seen (fold (index_word u n) ws s))"
proof (induction ws arbitrary: s)
  case (Cons w ws)
  with index_word_seen [OF Cons.prems, of u n w] Cons.IH [of "index_word u n w s"] show ?case by auto
qed simp

lemma find_index_snoc:
  "find_index p (xs @ [x]) =
    (case find_index p xs of Some i \<Rightarrow> Some i | None \<Rightarrow> if p x then Some (length xs) else None)"
  by (induction xs) (auto split: option.split)

definition moby_ok :: "unicode \<Rightarrow> moby_state \<Rightarrow> bool" where
  "moby_ok u s \<longleftrightarrow> seen_ok s \<and>
     (\<forall>e \<in> set (m_entries s). is_plain_word u (headword e) \<longrightarrow> key u (headword e) \<in> m_seen s) \<and>
     (length (m_entries s) \<le> 2 ^ 32 \<longrightarrow> index_ok u (m_entries s) (m_lines s) (m_index s))"

lemma index_ok_add:
  assumes ok: "index_ok u es lines index" and n: "n = length es"
    and lines': "\<And>k. posting (lines' k) = posting (lines k) @ replicate (length (filter (\<lambda>w. key u w = k) (headword e # related e))) n"
    and index': "index' = (if index (key u (headword e)) = None then index(key u (headword e) \<mapsto> n) else index)"
  shows "index_ok u (es @ [e]) lines' index'"
  unfolding index_ok_def
proof (intro allI conjI)
  fix k
  let ?r = "replicate (length (filter (\<lambda>w. key u w = k) (headword e # related e))) n"
  have old: "sorted (posting (lines k))" "set (posting (lines k)) = {i. i < length es \<and> mentions u (es ! i) k}"
    "index k = find_index (\<lambda>e. key u (headword e) = k) es" using ok by (auto simp: index_ok_def)
  show "sorted (posting (lines' k))"
    using old(1,2) n unfolding lines' by (auto simp: sorted_append)
  have "set ?r = (if mentions u e k then {n} else {})"
    by (auto simp: mentions_def set_replicate_conv_if filter_empty_conv simp del: replicate.simps)
  moreover have "{i. i < length (es @ [e]) \<and> mentions u ((es @ [e]) ! i) k} =
      {i. i < length es \<and> mentions u (es ! i) k} \<union> (if mentions u e k then {n} else {})"
    unfolding n by (auto simp: nth_append less_Suc_eq split: if_splits)
  ultimately show "set (posting (lines' k)) = {i. i < length (es @ [e]) \<and> mentions u ((es @ [e]) ! i) k}"
    unfolding lines' set_append old(2) by simp
  have "index (key u (headword e)) = find_index (\<lambda>x. key u (headword x) = key u (headword e)) es"
    using ok by (auto simp: index_ok_def)
  then show "index' k = find_index (\<lambda>e. key u (headword e) = k) (es @ [e])"
    using old(3) n unfolding index' by (auto simp: find_index_snoc split: option.split)
qed

lemma parse_line_ok:
  assumes "moby_ok u s"
  shows "moby_ok u (parse_line u raw s)"
proof (cases "parse_fields raw")
  case None
  with assms show ?thesis by (simp add: parse_line_def)
next
  case (Some e)
  let ?n = "unat (word_of_nat (length (m_entries s)) :: 32 word)"
  let ?s = "fold (index_word u ?n) (headword e # related e) s"
  let ?s' = "parse_line u raw s"
  have s': "m_entries ?s' = m_entries s @ [e]" "m_lines ?s' = m_lines ?s" "m_seen ?s' = m_seen ?s" "m_vocabulary ?s' = m_vocabulary ?s"
    "m_index ?s' = (if m_index s (key u (headword e)) = None then (m_index s)(key u (headword e) \<mapsto> ?n) else m_index s)"
    by (simp_all add: parse_line_def Some Let_def)
  have seen: "seen_ok ?s" "m_seen s \<subseteq> m_seen ?s" "is_plain_word u (headword e) \<longrightarrow> key u (headword e) \<in> m_seen ?s"
    using fold_index_seen [of s u ?n "headword e # related e"] assms by (auto simp: moby_ok_def)
  have "index_ok u (m_entries s @ [e]) (m_lines ?s') (m_index ?s')" if "length (m_entries s @ [e]) \<le> 2 ^ 32"
  proof (rule index_ok_add)
    show "index_ok u (m_entries s) (m_lines s) (m_index s)" using assms that by (simp add: moby_ok_def)
    show "?n = length (m_entries s)" using that by (simp add: unat_of_nat take_bit_nat_eq_self)
    show "posting (m_lines ?s' k) = posting (m_lines s k) @
        replicate (length (filter (\<lambda>w. key u w = k) (headword e # related e))) ?n" for k
      unfolding s'(2) by (rule posting_fold_index)
  qed (rule s'(5))
  with seen assms show ?thesis unfolding moby_ok_def s'(1) seen_ok_def s'(3,4) by auto
qed

lemma fold_parse_ok: "moby_ok u s \<Longrightarrow> moby_ok u (fold (parse_line u) ls s)"
  by (induction ls arbitrary: s) (simp_all add: parse_line_ok)

lemma parse_moby_ok:
  assumes "length (entries (parse_moby u t)) \<le> 2 ^ 32"
  shows "thesaurus_ok u (parse_moby u t)"
proof -
  let ?s = "fold (parse_line u) (text_lines t)
    \<lparr>m_entries = [], m_lines = Map.empty, m_index = Map.empty, m_vocabulary = [], m_seen = {}\<rparr>"
  have "moby_ok u ?s" by (rule fold_parse_ok) (simp add: moby_ok_def seen_ok_def index_ok_def posting_def)
  moreover have "parse_moby u t = \<lparr>entries = m_entries ?s, lines_by_word = m_lines ?s, entry_index = m_index ?s, vocabulary = sort (m_vocabulary ?s)\<rparr>"
    by (simp only: parse_moby_def Let_def)
  moreover have "sort (m_vocabulary ?s) = [] \<longleftrightarrow> m_vocabulary ?s = []" by (metis set_empty set_sort)
  ultimately show ?thesis using assms
    by (auto simp: thesaurus_ok_def vocabulary_ok_def moby_ok_def seen_ok_def list_all_iff)
qed

section \<open>What the lookups answer\<close>

lemma merge_meets_iff: "sorted ls \<Longrightarrow> sorted rs \<Longrightarrow> merge_meets ls rs \<longleftrightarrow> set ls \<inter> set rs \<noteq> {}"
proof (induction ls rs rule: merge_meets.induct)
  case (1 l ls r rs)
  consider "l = r" | "l < r" | "r < l" by linarith
  then show ?case
  proof cases
    case 2
    then have "l \<notin> set (r # rs)" using 1(4) by auto
    with 1 2 show ?thesis by auto
  next
    case 3
    then have "r \<notin> set (l # ls)" using 1(3) by auto
    with 1 3 show ?thesis by auto
  qed simp
qed simp_all

definition shares_line :: "unicode \<Rightarrow> thesaurus \<Rightarrow> string \<Rightarrow> string \<Rightarrow> bool" where
  "shares_line u th a b \<longleftrightarrow> list_ex (\<lambda>e. mentions u e (key u a) \<and> mentions u e (key u b)) (entries th)"

lemma co_occurs_line: "thesaurus_ok u th \<Longrightarrow> co_occurs u th a b \<longleftrightarrow> shares_line u th a b"
proof -
  assume "thesaurus_ok u th"
  then have p: "sorted (posting (lines_by_word th k))"
      "set (posting (lines_by_word th k)) = {i. i < length (entries th) \<and> mentions u (entries th ! i) k}" for k
    by (auto simp: thesaurus_ok_def index_ok_def)
  have "co_occurs u th a b \<longleftrightarrow> merge_meets (posting (lines_by_word th (key u a))) (posting (lines_by_word th (key u b)))"
    by (auto simp: co_occurs_def posting_def split: option.split)
  also have "\<dots> \<longleftrightarrow> (\<exists>i < length (entries th). mentions u (entries th ! i) (key u a) \<and> mentions u (entries th ! i) (key u b))"
    by (simp add: merge_meets_iff p) blast
  finally show ?thesis by (simp add: shares_line_def list_ex_length)
qed

lemma entry_lookup:
  assumes "thesaurus_ok u th"
  shows "case entry_index th k of None \<Rightarrow> \<forall>e \<in> set (entries th). key u (headword e) \<noteq> k
    | Some i \<Rightarrow> \<exists>e. index_vec (entries th) i = Some e \<and> e \<in> set (entries th) \<and> key u (headword e) = k"
proof -
  have "entry_index th k = find_index (\<lambda>e. key u (headword e) = k) (entries th)"
    using assms by (simp add: thesaurus_ok_def index_ok_def)
  then show ?thesis
    by (auto simp: index_vec_def find_index_None split: option.split dest!: find_index_Some)
qed

lemma lists_returns: "thesaurus_ok u th \<Longrightarrow> lists u th a b \<noteq> None"
  using entry_lookup [of u th "key u a"] by (auto simp: lists_def split: option.splits)

lemma is_mutual_returns: "thesaurus_ok u th \<Longrightarrow> is_mutual u th a b \<noteq> None"
  using lists_returns [of u th a b] lists_returns [of u th b a] by (auto simp: is_mutual_def)

lemma related_to_returns:
  "thesaurus_ok u th \<Longrightarrow> \<exists>r. related_to u th w = Some r \<and> (r = None \<longleftrightarrow> (\<forall>e \<in> set (entries th). key u (headword e) \<noteq> key u w))"
  using entry_lookup [of u th "key u w"] by (auto simp: related_to_def split: option.splits)

section \<open>What an accepted item is\<close>

definition wk_valid :: "unicode \<Rightarrow> wk_item \<Rightarrow> thesaurus \<Rightarrow> bool" where
  "wk_valid u i th \<longleftrightarrow>
     trim_text (wk_headword i) \<noteq> [] \<and> trim_text (wk_prompt i) \<noteq> [] \<and>
     (\<exists>e \<in> set (entries th). key u (headword e) = key u (wk_headword i)) \<and>
     2 \<le> length (wk_options i) \<and> wk_correct_index i < length (wk_options i) \<and>
     (\<forall>k < length (wk_options i). shares_line u th (wk_headword i) (wk_options i ! k) \<longleftrightarrow> k = wk_correct_index i) \<and>
     (\<forall>opt \<in> set (wk_options i). trim_text opt \<noteq> []) \<and> distinct (map (key u) (wk_options i)) \<and>
     fst ` set (wk_rationales i) = {k. k < length (wk_options i) \<and> k \<noteq> wk_correct_index i} \<and>
     (\<forall>(k, why) \<in> set (wk_rationales i). trim_text why \<noteq> [])"

lemma wk_verify_options_iff:
  "distinct (map (key u) earlier) \<Longrightarrow> verify_options u th i n earlier opts = Ok () \<longleftrightarrow>
    (\<forall>opt \<in> set opts. trim_text opt \<noteq> []) \<and> distinct (map (key u) (earlier @ opts)) \<and>
    (\<forall>k < length opts. n + k \<noteq> wk_correct_index i \<longrightarrow> \<not> co_occurs u th (wk_headword i) (opts ! k))"
proof (induction u th i n earlier opts rule: verify_options.induct)
  case (2 u th i n earlier opt opts)
  have shift: "(\<forall>k < length (opt # opts). n + k \<noteq> wk_correct_index i \<longrightarrow> \<not> co_occurs u th (wk_headword i) ((opt # opts) ! k)) \<longleftrightarrow>
      (n \<noteq> wk_correct_index i \<longrightarrow> \<not> co_occurs u th (wk_headword i) opt) \<and>
      (\<forall>k < length opts. Suc n + k \<noteq> wk_correct_index i \<longrightarrow> \<not> co_occurs u th (wk_headword i) (opts ! k))"
    by (auto simp: less_Suc_eq_0_disj all_conj_distrib)
  show ?case unfolding shift using 2 by (auto simp: repeats_iff)
qed simp

lemma wk_verify_rationales_iff: "verify_rationales rs = Ok () \<longleftrightarrow> (\<forall>(k, why) \<in> set rs. trim_text why \<noteq> [])"
  by (induction rs rule: verify_rationales.induct) auto

lemma wk_verify_valid:
  assumes "thesaurus_ok u th"
  shows "\<exists>r. verify u i th = Some r \<and> (r = Ok () \<longleftrightarrow> wk_valid u i th)"
proof -
  from related_to_returns [OF assms, of "wk_headword i"] obtain r where
    r: "related_to u th (wk_headword i) = Some r"
      "r \<noteq> None \<longleftrightarrow> (\<exists>e \<in> set (entries th). key u (headword e) = key u (wk_headword i))" by blast
  obtain missing extra where gaps:
    "coverage_gaps (length (wk_options i)) (wk_correct_index i) (wk_rationales i) = (missing, extra)" by fastforce
  with coverage_gaps_iff [of "length (wk_options i)" "wk_correct_index i" "wk_rationales i"]
  have cov: "missing = [] \<and> extra = [] \<longleftrightarrow>
      fst ` set (wk_rationales i) = {k. k < length (wk_options i) \<and> k \<noteq> wk_correct_index i}" by simp
  have one: "(\<forall>k < length (wk_options i). shares_line u th (wk_headword i) (wk_options i ! k) \<longleftrightarrow> k = wk_correct_index i) \<longleftrightarrow>
      shares_line u th (wk_headword i) (wk_options i ! wk_correct_index i) \<and>
      (\<forall>k < length (wk_options i). k \<noteq> wk_correct_index i \<longrightarrow> \<not> shares_line u th (wk_headword i) (wk_options i ! k))"
    if "wk_correct_index i < length (wk_options i)" using that by blast
  show ?thesis
    unfolding verify_def wk_valid_def gaps r(2) [symmetric] cov [symmetric]
    by (auto simp: r(1) wk_verify_options_iff wk_verify_rationales_iff not_less not_le try_bind_Ok_iff one
        co_occurs_line [OF assms] split: if_splits)
qed

section \<open>What the builder returns\<close>

definition thesaurus_sound :: "unicode \<Rightarrow> thesaurus \<Rightarrow> bool" where
  "thesaurus_sound u th \<longleftrightarrow> thesaurus_ok u th \<and> entries th \<noteq> [] \<and> length (entries th) \<le> 2 ^ 32 \<and>
     length (vocabulary th) < 2 ^ 64 \<and> list_all (\<lambda>e. length (related e) < 2 ^ 64) (entries th)"

definition accepted_pair :: "unicode \<Rightarrow> thesaurus \<Rightarrow> 'a veto \<Rightarrow> string \<Rightarrow> string \<Rightarrow> bool" where
  "accepted_pair u th accept head w \<longleftrightarrow> is_plain_word u w \<and> is_mutual u th head w = Some True \<and> (\<exists>acc. fst (accept head w acc))"

definition wk_good :: "unicode \<Rightarrow> thesaurus \<Rightarrow> 'a veto \<Rightarrow> wk_item \<Rightarrow> bool" where
  "wk_good u th accept i \<longleftrightarrow> verify u i th = Some (Ok ()) \<and> length (wk_options i) = 4 \<and>
     accepted_pair u th accept (wk_headword i) (wk_options i ! wk_correct_index i)"

lemma synonyms_returns:
  assumes "thesaurus_ok u th"
  shows "\<exists>found acc'. synonyms u th head accept ws acc = Some (found, acc') \<and> length found \<le> length ws \<and>
    set found \<subseteq> {w \<in> set ws. accepted_pair u th accept head w}"
proof (induction ws arbitrary: acc)
  case (Cons w ws)
  show ?case
  proof (cases "is_plain_word u w \<and> key u w \<noteq> key u head")
    case False
    with Cons.IH [of acc] show ?thesis by force
  next
    case True
    obtain mutual where mutual: "is_mutual u th head w = Some mutual" using is_mutual_returns [OF assms] by fastforce
    obtain yes acc1 where yes: "(if mutual then accept head w acc else (False, acc)) = (yes, acc1)" by fastforce
    then have ok: "accepted_pair u th accept head w" if yes
      using that True mutual by (auto simp: accepted_pair_def intro: exI [of _ acc] split: if_splits)
    from Cons.IH [of acc1] obtain found acc' where
      "synonyms u th head accept ws acc1 = Some (found, acc')" "length found \<le> length ws"
      "set found \<subseteq> {w \<in> set ws. accepted_pair u th accept head w}" by blast
    with True mutual yes ok show ?thesis by auto
  qed
qed simp

definition option_fits :: "unicode \<Rightarrow> thesaurus \<Rightarrow> string \<Rightarrow> string \<Rightarrow> string \<Rightarrow> bool" where
  "option_fits u th head correct t \<longleftrightarrow> trim_text t \<noteq> [] \<and> (t = correct \<or> \<not> shares_line u th head t)"

lemma probe_ok:
  assumes th: "thesaurus_ok u th" "vocabulary th \<noteq> []" "length (vocabulary th) < 2 ^ 64"
  shows "options_ok (key u) (option_fits u th head correct) correct opts \<Longrightarrow>
    \<exists>opts' rng'. probe u th min_lines head correct n rng opts = Some (opts', rng') \<and>
      options_ok (key u) (option_fits u th head correct) correct opts'"
proof (induction n arbitrary: rng opts)
  case (Suc n)
  obtain w rng1 where w: "rng_pick rng (vocabulary th) = Some (w, rng1)" "w \<in> set (vocabulary th)"
    using rng_pick_member [OF th(2,3)] by blast
  show ?case
  proof (cases "good_distractor u th min_lines head correct opts w")
    case True
    have "options_ok (key u) (option_fits u th head correct) correct (opts @ [(w, False)])"
    proof (rule options_ok_add [OF Suc.prems])
      show "option_fits u th head correct w"
        using th(1) w(2) True co_occurs_line [OF th(1)]
        by (auto simp: option_fits_def good_distractor_def thesaurus_ok_def vocabulary_ok_def list_all_iff)
    qed (use True in \<open>simp add: good_distractor_def\<close>)
    from Suc.IH [OF this, of rng1] Suc.prems w(1) True show ?thesis by simp
  next
    case False
    from Suc.IH [OF Suc.prems, of rng1] Suc.prems w(1) False show ?thesis by simp
  qed
qed simp

lemma own_line: "e \<in> set (entries th) \<Longrightarrow> w \<in> set (related e) \<Longrightarrow> shares_line u th (headword e) w"
  by (auto simp: shares_line_def list_ex_iff mentions_def)

lemma plain_word_nonempty: "is_plain_word u w \<Longrightarrow> trim_text w \<noteq> []"
  by (auto simp: is_plain_word_def Let_def split: if_splits)

lemma wk_built_valid:
  assumes th: "thesaurus_ok u th" and e: "e \<in> set (entries th)" "is_plain_word u (headword e)"
    and w: "w \<in> set (related e)" "accepted_pair u th accept (headword e) w"
    and opts: "options_ok (key u) (option_fits u th (headword e) w) w opts" "length opts = 4"
    and k: "correct_position opts = Some k"
    and i: "wk_headword i = headword e" "trim_text (wk_prompt i) \<noteq> []" "wk_options i = map fst opts"
      "wk_correct_index i = k" "wk_rationales i = rationales (wk_rationale (headword e)) opts"
  shows "wk_good u th accept i"
proof -
  obtain j where j: "correct_position opts = Some j" "j < length opts" "map fst opts ! j = w"
    "fst ` set (rationales (wk_rationale (headword e)) opts) = {l. l < length opts \<and> l \<noteq> j}"
    using options_ok_position [OF opts(1)] by blast
  have why: "trim_text (wk_rationale (headword e) t) \<noteq> []" for t
    by (simp add: wk_rationale_def plain_start_trim)
  have plain: "distinct (map (key u) (map fst opts))" "\<forall>t \<in> set (map fst opts). option_fits u th (headword e) w t"
    using options_ok_plain [OF opts(1)] by blast+
  have one: "shares_line u th (headword e) (map fst opts ! l) \<longleftrightarrow> l = k" if l: "l < length (map fst opts)" for l
  proof (cases "l = k")
    case True
    with own_line [OF e(1) w(1)] j(1,3) k show ?thesis by simp
  next
    case False
    have "map (key u) (map fst opts) ! l \<noteq> map (key u) (map fst opts) ! k"
      using False l j(1,2) k nth_eq_iff_index_eq [OF plain(1), of l k] by simp
    then have "map fst opts ! l \<noteq> w" using l j(1,2,3) k by auto
    moreover have "option_fits u th (headword e) w (map fst opts ! l)" using plain(2) l nth_mem by blast
    ultimately show ?thesis using False by (simp add: option_fits_def)
  qed
  have "wk_valid u i th"
    unfolding wk_valid_def i
  proof (intro conjI)
    show "\<exists>x \<in> set (entries th). key u (headword x) = key u (headword e)" using e(1) by blast
    show "\<forall>l < length (map fst opts). shares_line u th (headword e) (map fst opts ! l) \<longleftrightarrow> l = k" using one by blast
    show "\<forall>opt \<in> set (map fst opts). trim_text opt \<noteq> []" using plain(2) by (simp add: option_fits_def)
    show "fst ` set (rationales (wk_rationale (headword e)) opts) = {l. l < length (map fst opts) \<and> l \<noteq> k}"
      using j k by simp
  qed (use opts(2) j k i(2) why plain(1) plain_word_nonempty [OF e(2)] in \<open>auto simp: rationales_iff\<close>)
  with wk_verify_valid [OF th, of i] w(2) j k i opts(2) show ?thesis by (auto simp: wk_good_def)
qed

lemma wk_build_one_result:
  assumes "thesaurus_sound u th"
  shows "\<exists>built rng' acc'. build_one u th seed min_lines accept rng acc = Some (built, rng', acc') \<and>
    (\<forall>item. built = Some item \<longrightarrow> wk_good u th accept item)"
proof -
  let ?n = "length (entries th)"
  have th: "thesaurus_ok u th" "0 < ?n" "?n \<le> 2 ^ 32" "length (vocabulary th) < 2 ^ 64"
    using assms by (auto simp: thesaurus_sound_def)
  then obtain v rng1 where v: "rng_range rng 0 (int ?n - 1) = Some (v, rng1)" "0 \<le> v" "v \<le> int ?n - 1"
    using rng_range_bounds [of 0 "int ?n - 1" rng] by force
  define e where "e = entries th ! nat v"
  have "nat v < ?n" using v th(2) by linarith
  then have e: "e \<in> set (entries th)" "index_vec (entries th) (nat v) = Some e" by (simp_all add: e_def index_vec_def)
  then have few: "length (related e) < 2 ^ 64" using assms by (auto simp: thesaurus_sound_def list_all_iff)
  obtain found acc1 where found: "synonyms u th (headword e) accept (related e) acc = Some (found, acc1)"
    "length found \<le> length (related e)" "set found \<subseteq> {w \<in> set (related e). accepted_pair u th accept (headword e) w}"
    using synonyms_returns [OF th(1), of "headword e" accept "related e" acc] by (elim exE conjE)
  show ?thesis
  proof (cases "is_plain_word u (headword e) \<and> found \<noteq> []")
    case False
    then show ?thesis by (auto simp: build_one_def v(1) e(2) found(1))
  next
    case True
    obtain w rng2 where w: "rng_pick rng1 found = Some (w, rng2)" "w \<in> set found"
      using rng_pick_member [of found rng1] True found(2) few by auto
    with found(3) have w': "w \<in> set (related e)" "accepted_pair u th accept (headword e) w" by auto
    have vocab: "vocabulary th \<noteq> []" using th(1) e(1) True by (auto simp: thesaurus_ok_def vocabulary_ok_def)
    have "option_fits u th (headword e) w w"
      using w'(2) plain_word_nonempty by (auto simp: option_fits_def accepted_pair_def)
    then have "options_ok (key u) (option_fits u th (headword e) w) w [(w, True)]" by (rule options_ok_start)
    from probe_ok [OF th(1) vocab th(4) this, of min_lines 400 rng2] obtain opts rng3 where
      opts: "probe u th min_lines (headword e) w 400 rng2 [(w, True)] = Some (opts, rng3)"
        "options_ok (key u) (option_fits u th (headword e) w) w opts" by blast
    obtain opts' rng4 where shuffled: "rng_shuffle rng3 opts = (opts', rng4)" by fastforce
    show ?thesis
    proof (cases "key u w = key u (headword e) \<or> length opts \<noteq> 4")
      case False': True
      then show ?thesis using True by (auto simp: build_one_def v(1) e(2) found(1) w(1) opts(1))
    next
      case built: False
      have ok: "options_ok (key u) (option_fits u th (headword e) w) w opts'" "length opts' = 4"
        using options_ok_shuffle [of opts "key u" "option_fits u th (headword e) w" w rng3] opts(2)
          length_rng_shuffle [of opts rng3] built by (simp_all add: shuffled)
      obtain k where k: "correct_position opts' = Some k" using options_ok_position [OF ok(1)] by blast
      show ?thesis
        using True built unfolding build_one_def
        by (simp add: v(1) e(2) found(1) w(1) opts(1) shuffled k)
          (rule wk_built_valid [OF th(1) e(1) _ w' ok k], simp_all add: plain_start_trim)
    qed
  qed
qed

interpretation wk: item_builder "thesaurus_sound u th" "build_one u th seed min_lines accept" "wk_good u th accept"
proof
  assume th: "thesaurus_sound u th"
  show "build_one u th seed min_lines accept rng acc \<noteq> None" for rng acc
    using wk_build_one_result [OF th, of seed min_lines accept rng acc] by auto
  show "wk_good u th accept item" if "build_one u th seed min_lines accept rng acc = Some (Some item, rng', acc')"
    for rng acc item rng' acc'
    using wk_build_one_result [OF th, of seed min_lines accept rng acc] that by auto
qed

lemma mentions_set: "mentions u e k \<longleftrightarrow> k \<in> key u ` set (headword e # related e)"
  unfolding mentions_def image_iff by blast

section \<open>Properties\<close>

text \<open>The sizes of a parsed source that fit the machine.\<close>

definition fits :: "thesaurus \<Rightarrow> bool" where
  "fits th \<longleftrightarrow> length (entries th) \<le> 2 ^ 32 \<and> length (vocabulary th) < 2 ^ 64 \<and>
     list_all (\<lambda>e. length (related e) < 2 ^ 64) (entries th)"

text \<open>
  C7. Building Word Knowledge items from a parsed thesaurus never panics (the empty range, the
  empty vocabulary and the missing correct option cannot happen); every item is accepted by the
  independent verifier, has four options, and its correct one is a plain word listed mutually with
  the headword and accepted by the caller; no two items share a content hash.
\<close>

theorem thesaurus_items_verify:
  assumes "fits (parse_moby u t)"
  shows "\<exists>items acc'. build_items_configured u sha (parse_moby u t) wanted seed min_lines accept acc = Some (items, acc') \<and>
    (\<forall>i \<in> set items. verify u i (parse_moby u t) = Some (Ok ()) \<and> length (wk_options i) = 4 \<and>
      is_plain_word u (wk_options i ! wk_correct_index i) \<and>
      is_mutual u (parse_moby u t) (wk_headword i) (wk_options i ! wk_correct_index i) = Some True \<and>
      (\<exists>acc. fst (accept (wk_headword i) (wk_options i ! wk_correct_index i) acc))) \<and>
    distinct (map (wk_hash u sha) items) \<and> length items \<le> wanted"
proof (cases "entries (parse_moby u t) = []")
  case True
  then show ?thesis by (simp add: build_items_configured_def)
next
  case False
  then have "thesaurus_sound u (parse_moby u t)"
    using assms parse_moby_ok by (simp add: thesaurus_sound_def fits_def)
  from wk.build_good [OF this, of seed min_lines accept "wk_hash u sha" wanted "attempts_for 8 wanted" seed acc] False
  show ?thesis unfolding build_items_configured_def wk_good_def accepted_pair_def list_all_iff by auto
qed

text \<open>
  Against a parsed source the verifier returns, and accepts exactly the items with one right
  answer: the marked option and no other appears with the headword on some line of the source.
\<close>

theorem thesaurus_verify_iff:
  assumes "length (entries (parse_moby u t)) \<le> 2 ^ 32"
  shows "\<exists>r. verify u i (parse_moby u t) = Some r \<and> (r = Ok () \<longleftrightarrow> wk_valid u i (parse_moby u t))"
  by (rule wk_verify_valid [OF parse_moby_ok [OF assms]])

text \<open>
  The linear merge of the posting lists of a parsed source decides whether some line of the
  source contains both words.
\<close>

theorem co_occurs_iff_shared_line:
  assumes "length (entries (parse_moby u t)) \<le> 2 ^ 32"
  shows "co_occurs u (parse_moby u t) a b \<longleftrightarrow>
    (\<exists>e \<in> set (entries (parse_moby u t)). key u a \<in> key u ` set (headword e # related e) \<and>
      key u b \<in> key u ` set (headword e # related e))"
  unfolding co_occurs_line [OF parse_moby_ok [OF assms]] shares_line_def list_ex_iff mentions_set by (rule refl)

section \<open>A small source\<close>

definition sample_moby :: string where
  "sample_moby = ''calm,cool,still'' @ [CHR 0x0A] @ ''hot,warm'' @ [CHR 0x0A] @ ''cold'' @ [CHR 0x0A]"

lemma wk_sample_entries: "map (\<lambda>e. headword e # related e) (entries (parse_moby ascii_unicode sample_moby)) =
    [[''calm'', ''cool'', ''still''], [''hot'', ''warm'']]"
  by code_simp

lemma sample_vocabulary: "length (vocabulary (parse_moby ascii_unicode sample_moby)) = 5"
  by code_simp

lemma sample_length: "length (entries (parse_moby ascii_unicode sample_moby)) = 2"
  using arg_cong [OF wk_sample_entries, of length] by simp

lemma sample_fits: "fits (parse_moby ascii_unicode sample_moby)"
proof -
  have "list_all (\<lambda>ws. length ws < 2 ^ 64) (map (\<lambda>e. headword e # related e) (entries (parse_moby ascii_unicode sample_moby)))"
    unfolding wk_sample_entries by simp
  then show ?thesis by (auto simp: fits_def sample_length sample_vocabulary list_all_iff)
qed

lemma thesaurus_items_verify_witness:
  "\<exists>items acc'. build_items_configured ascii_unicode id (parse_moby ascii_unicode sample_moby) 3 7 1
      (\<lambda>h w n. (n < 9, n + 2)) (0::nat) = Some (items, acc') \<and> length items \<le> 3"
  using thesaurus_items_verify [OF sample_fits, of id 3 7 1 "\<lambda>h w n. (n < 9, n + 2)" "0::nat"] by blast

lemma thesaurus_verify_iff_witness:
  "\<exists>r. verify ascii_unicode \<lparr>wk_objective_id = [], wk_headword = ''calm'', wk_prompt = ''p'', wk_options = [], wk_correct_index = 0,
      wk_rationales = [], wk_supporting_line = [], wk_related_count = 2, wk_seed = 7\<rparr> (parse_moby ascii_unicode sample_moby) = Some r \<and> r \<noteq> Ok ()"
  using thesaurus_verify_iff [of ascii_unicode sample_moby "\<lparr>wk_objective_id = [], wk_headword = ''calm'', wk_prompt = ''p'', wk_options = [],
      wk_correct_index = 0, wk_rationales = [], wk_supporting_line = [], wk_related_count = 2, wk_seed = 7\<rparr>"]
  by (auto simp: sample_length wk_valid_def)

lemma co_occurs_iff_shared_line_witness:
  "co_occurs ascii_unicode (parse_moby ascii_unicode sample_moby) ''still'' ''calm''"
  unfolding co_occurs_iff_shared_line [of ascii_unicode sample_moby "''still''" "''calm''", unfolded sample_length, simplified]
  using arg_cong [OF wk_sample_entries, of hd] arg_cong [OF wk_sample_entries, of length]
  by (cases "entries (parse_moby ascii_unicode sample_moby)") auto

end
