(* ===== verification/Sentences.thy ===== *)
theory Sentences
  imports Text_Tools
begin

text \<open>
  Sentences of a paragraph and the body of a Project Gutenberg text: \<open>sentence_spans\<close>,
  \<open>split_sentences\<close> and \<open>body\<close> of \<open>crates/vector-questions/src/passages.rs\<close>. Spans are over the
  characters of the paragraph. Slices out of range are panics, \<^const>\<open>None\<close> here; the lemmas
  show that cutting sentences has none, and when cutting the body has one.
\<close>

definition vec_slice :: "'a list \<Rightarrow> nat \<Rightarrow> nat \<Rightarrow> 'a list option" where
  "vec_slice xs lo to = (if lo \<le> to \<and> to \<le> length xs then Some (take (to - lo) (drop lo xs)) else None)"

lemma vec_slice_Some: "lo \<le> to \<Longrightarrow> to \<le> length xs \<Longrightarrow> vec_slice xs lo to = Some (take (to - lo) (drop lo xs))"
  by (simp add: vec_slice_def)

section \<open>Sentence spans\<close>

definition ABBREVIATIONS :: "string list" where
  "ABBREVIATIONS = [''mr'', ''mrs'', ''ms'', ''dr'', ''prof'', ''st'', ''no'', ''vol'', ''fig'', ''cf'', ''e.g'', ''i.e'']"

definition CLOSING_MARKS :: "string list" where
  "CLOSING_MARKS = [[CHR 0x22], [CHR 0xE2, CHR 0x80, CHR 0x9D], [CHR 0xE2, CHR 0x80, CHR 0x99], [CHR 0x27],
     '')'', '']'', [CHR 0xC2, CHR 0xBB]]"

definition terminator :: "string \<Rightarrow> bool" where
  "terminator = one_of ''.!?''"

text \<open>The word before a full stop at \<open>index\<close>.\<close>

definition word_before :: "unicode \<Rightarrow> string list \<Rightarrow> nat \<Rightarrow> string" where
  "word_before u cs index =
     (let token = concat (rev (takeWhile (\<lambda>c. alphanumeric u c \<or> c = ''.'') (rev (take index cs))));
          stem = trim_end_matches (\<lambda>c. c = ''.'') token
      in to_lower u (last (split_text (\<lambda>c. \<not> ascii_alphanumeric c) stem)))"

text \<open>Where a sentence ending at \<open>index\<close> ends, if the character there does end one.\<close>

definition sentence_end :: "unicode \<Rightarrow> string list \<Rightarrow> nat \<Rightarrow> string \<Rightarrow> nat option" where
  "sentence_end u cs index c =
     (if \<not> terminator c then None
      else let after = Suc index + length (takeWhile (\<lambda>c. c \<in> set CLOSING_MARKS) (drop (Suc index) cs)) in
        if after < length cs \<and> \<not> white (cs ! after) then None
        else let following = (case List.find (\<lambda>c. \<not> white c) (drop after cs) of Some c \<Rightarrow> c | None \<Rightarrow> '' '') in
          if c = ''.'' \<and> (\<not> ascii_uppercase following \<or> word_before u cs index \<in> set ABBREVIATIONS \<or>
               length (chars (word_before u cs index)) = 1)
          then None else Some after)"

text \<open>The loop: the start of the current sentence and the spans so far.\<close>

fun spans_loop :: "unicode \<Rightarrow> string list \<Rightarrow> nat \<Rightarrow> string list \<Rightarrow> nat \<Rightarrow> (nat \<times> nat) list \<Rightarrow> (nat \<times> (nat \<times> nat) list) option" where
  "spans_loop u cs index [] lo spans = Some (lo, spans)"
| "spans_loop u cs index (c # rest) lo spans =
     (case sentence_end u cs index c of
        None \<Rightarrow> spans_loop u cs (Suc index) rest lo spans
      | Some after \<Rightarrow> do {
          part \<leftarrow> vec_slice cs lo after;
          spans_loop u cs (Suc index) rest after
            (if list_ex (\<lambda>c. \<not> white c) part then spans @ [(lo, after)] else spans)
        })"

definition trim_span :: "string list \<Rightarrow> nat \<times> nat \<Rightarrow> (nat \<times> nat) option" where
  "trim_span cs = (\<lambda>(lo, to).
     let lo = lo + length (takeWhile white (take (to - lo) (drop lo cs)));
         to = to - length (takeWhile white (rev (take (to - lo) (drop lo cs))))
     in if to > lo then Some (lo, to) else None)"

definition sentence_spans :: "unicode \<Rightarrow> string \<Rightarrow> (nat \<times> nat) list option" where
  "sentence_spans u paragraph = do {
     let cs = chars paragraph;
     (lo, spans) \<leftarrow> spans_loop u cs 0 cs 0 [];
     part \<leftarrow> vec_slice cs lo (length cs);
     let spans = (if list_ex (\<lambda>c. \<not> white c) part then spans @ [(lo, length cs)] else spans);
     Some (List.map_filter (trim_span cs) spans)
   }"

fun cut_spans :: "string list \<Rightarrow> (nat \<times> nat) list \<Rightarrow> string list option" where
  "cut_spans cs [] = Some []"
| "cut_spans cs ((lo, to) # spans) = do {
     part \<leftarrow> vec_slice cs lo to;
     rest \<leftarrow> cut_spans cs spans;
     Some (concat part # rest)
   }"

definition split_sentences :: "unicode \<Rightarrow> string \<Rightarrow> string list option" where
  "split_sentences u paragraph = do {
     spans \<leftarrow> sentence_spans u paragraph;
     cut_spans (chars paragraph) spans
   }"

section \<open>The body of a text\<close>

text \<open>
  What is between two markers, from the line after the first: the slice panics when that line
  starts after the second.
\<close>

definition cut_body :: "nat option \<Rightarrow> nat option \<Rightarrow> string \<Rightarrow> string option" where
  "cut_body start_at end_at t =
     (case (start_at, end_at) of
        (Some s, Some e) \<Rightarrow>
          if e > s then
            let newline = (case find_sub (drop s t) [CHR 0x0A] of Some k \<Rightarrow> s + k + 1 | None \<Rightarrow> s)
            in vec_slice t newline e
          else Some t
      | _ \<Rightarrow> Some t)"

fun or_else :: "'a option \<Rightarrow> 'a option \<Rightarrow> 'a option" where
  "or_else (Some x) _ = Some x"
| "or_else None y = y"

definition start_marker :: "string \<Rightarrow> nat option" where
  "start_marker t = or_else (find_sub t ''*** START OF THE PROJECT GUTENBERG'') (find_sub t ''*** START OF THIS PROJECT GUTENBERG'')"

definition end_marker :: "string \<Rightarrow> nat option" where
  "end_marker t = or_else (rfind_sub t ''*** END OF THE PROJECT GUTENBERG'') (rfind_sub t ''*** END OF THIS PROJECT GUTENBERG'')"

definition body :: "string \<Rightarrow> string option" where
  "body t = cut_body (start_marker t) (end_marker t) t"

section \<open>The spans are sound\<close>

text \<open>Spans in order, disjoint and within a text of \<open>n\<close> characters.\<close>

definition ordered_spans :: "nat \<Rightarrow> (nat \<times> nat) list \<Rightarrow> bool" where
  "ordered_spans n spans \<longleftrightarrow> sorted_wrt (\<lambda>a b. snd a \<le> fst b) spans \<and> list_all (\<lambda>(a, b). a < b \<and> b \<le> n) spans"

lemma ordered_spans_snoc:
  "ordered_spans n (spans @ [(a, b)]) \<longleftrightarrow> ordered_spans n spans \<and> a < b \<and> b \<le> n \<and> (\<forall>s \<in> set spans. snd s \<le> a)"
  by (auto simp: ordered_spans_def sorted_wrt_append)

lemma closing_not_terminator: "c \<in> set CLOSING_MARKS \<Longrightarrow> \<not> terminator c"
  by (auto simp: CLOSING_MARKS_def terminator_def one_of_def)

lemma sentence_end_Some:
  assumes "sentence_end u cs index c = Some after" "index < length cs"
  shows "terminator c" "index < after" "after \<le> length cs" "\<And>j. index < j \<Longrightarrow> j < after \<Longrightarrow> \<not> terminator (cs ! j)"
proof -
  let ?run = "takeWhile (\<lambda>c. c \<in> set CLOSING_MARKS) (drop (Suc index) cs)"
  show "terminator c" and "index < after"
    using assms by (auto simp: sentence_end_def Let_def split: if_splits)
  have after: "after = Suc index + length ?run"
    using assms by (auto simp: sentence_end_def Let_def split: if_splits)
  have "length ?run \<le> length (drop (Suc index) cs)" by (rule length_takeWhile_le)
  then show "after \<le> length cs" unfolding after using assms(2) by simp
  show "\<not> terminator (cs ! j)" if "index < j" "j < after" for j
  proof -
    define k where "k = j - Suc index"
    have k: "k < length ?run" "j = Suc index + k" using that after by (auto simp: k_def)
    then have "?run ! k \<in> set CLOSING_MARKS" using set_takeWhileD nth_mem by fast
    moreover have "?run ! k = cs ! j"
      using k assms(2) takeWhile_nth [of k "\<lambda>c. c \<in> set CLOSING_MARKS" "drop (Suc index) cs"] by simp
    ultimately show ?thesis using closing_not_terminator by simp
  qed
qed

definition loop_ok :: "string list \<Rightarrow> nat \<Rightarrow> nat \<Rightarrow> (nat \<times> nat) list \<Rightarrow> bool" where
  "loop_ok cs index lo spans \<longleftrightarrow> lo \<le> length cs \<and> ordered_spans (length cs) spans \<and> (\<forall>s \<in> set spans. snd s \<le> lo) \<and>
     (\<forall>j. index \<le> j \<and> j < lo \<longrightarrow> \<not> terminator (cs ! j))"

lemma spans_loop_ok:
  "loop_ok cs index lo spans \<Longrightarrow> rest = drop index cs \<Longrightarrow> index \<le> length cs \<Longrightarrow>
    \<exists>lo' spans'. spans_loop u cs index rest lo spans = Some (lo', spans') \<and> loop_ok cs (length cs) lo' spans'"
proof (induction rest arbitrary: index lo spans)
  case Nil
  then have "index = length cs" by simp
  with Nil show ?case by simp
next
  case (Cons c rest)
  then have at: "index < length cs" "cs ! index = c" "rest = drop (Suc index) cs"
    by (cases "index < length cs"; simp add: Cons_nth_drop_Suc [symmetric])+
  show ?case
  proof (cases "sentence_end u cs index c")
    case None
    have "loop_ok cs (Suc index) lo spans" using Cons.prems(1) by (auto simp: loop_ok_def)
    from Cons.IH [OF this at(3)] at(1) None show ?thesis by simp
  next
    case (Some after)
    note e = sentence_end_Some [OF Some at(1)]
    have le: "lo \<le> index"
      using Cons.prems(1) e(1) at(2) unfolding loop_ok_def by (metis le_refl not_le)
    have "loop_ok cs (Suc index) after (if p then spans @ [(lo, after)] else spans)" for p
      using Cons.prems(1) le e(2-4) by (auto simp: loop_ok_def ordered_spans_snoc)
    from Cons.IH [OF this at(3)] at(1) le e(2,3) Some show ?thesis
      by (simp add: vec_slice_def)
  qed
qed

lemma trim_span_Some:
  assumes "trim_span cs (a, b) = Some (a', b')" "a < b" "b \<le> length cs"
  shows "a \<le> a' \<and> a' < b' \<and> b' \<le> b \<and> \<not> white (cs ! a') \<and> \<not> white (cs ! (b' - 1))"
proof -
  let ?x = "take (b - a) (drop a cs)"
  let ?y = "take (b - a') (drop a' cs)"
  have a': "a' = a + length (takeWhile white ?x)" and b': "b' = b - length (takeWhile white (rev ?y))" and "a' < b'"
    using assms(1) by (auto simp: trim_span_def Let_def split: if_splits)
  have "b' \<le> b" using b' by (metis diff_le_self)
  then have lens: "length ?x = b - a" "length ?y = b - a'" "a' < b" using assms(2,3) \<open>a' < b'\<close> by simp_all
  have xy: "a \<le> a'" "a' - a = length (takeWhile white ?x)" "b - b' = length (takeWhile white (rev ?y))"
    using a' b' \<open>a' < b'\<close> by linarith+
  have x: "a' - a < length ?x" using lens xy(1) by arith
  with nth_length_takeWhile [of white ?x] have "\<not> white (?x ! (a' - a))" unfolding xy(2) by simp
  then have first: "\<not> white (cs ! a')" using x xy(1) lens assms(3) by simp
  have y: "b - b' < length (rev ?y)" using \<open>a' < b'\<close> \<open>b' \<le> b\<close> lens(2) by simp
  with nth_length_takeWhile [of white "rev ?y"] have "\<not> white (rev ?y ! (b - b'))" unfolding xy(3) by simp
  moreover have "rev ?y ! (b - b') = cs ! (b' - 1)"
    using \<open>a' < b'\<close> \<open>b' \<le> b\<close> lens assms(2,3) y by (simp add: rev_nth)
  ultimately show ?thesis using xy(1) \<open>b' \<le> b\<close> \<open>a' < b'\<close> first by simp
qed

lemma trim_spans_ordered:
  assumes "ordered_spans (length cs) spans"
  shows "ordered_spans (length cs) (List.map_filter (trim_span cs) spans)"
  using assms
proof (induction spans)
  case (Cons s spans)
  obtain a b where s: "s = (a, b)" by (cases s)
  have inner: "x \<in> set (List.map_filter (trim_span cs) spans) \<Longrightarrow> b \<le> fst x" for x
  proof -
    assume "x \<in> set (List.map_filter (trim_span cs) spans)"
    then obtain s' where "s' \<in> set spans" "trim_span cs s' = Some x" by (auto simp: map_filter_def)
    moreover obtain c d c' d' where "s' = (c, d)" "x = (c', d')" by (cases s', cases x)
    moreover from calculation have "b \<le> c" "c < d" "d \<le> length cs"
      using Cons.prems s by (auto simp: ordered_spans_def list_all_iff)
    ultimately show ?thesis using trim_span_Some [of cs c d c' d'] by simp
  qed
  have IH: "ordered_spans (length cs) (List.map_filter (trim_span cs) spans)"
    using Cons by (auto simp: ordered_spans_def)
  show ?case
  proof (cases "trim_span cs s")
    case None
    with IH show ?thesis by (simp add: map_filter_simps)
  next
    case (Some x)
    obtain a' b' where x: "x = (a', b')" by (cases x)
    have "a' < b'" "b' \<le> b" "b \<le> length cs"
      using Some x s Cons.prems trim_span_Some [of cs a b a' b'] by (auto simp: ordered_spans_def)
    with IH inner Some x show ?thesis by (force simp: map_filter_simps ordered_spans_def)
  qed
qed (simp add: map_filter_simps ordered_spans_def)

lemma sentence_spans_sound:
  "\<exists>spans. sentence_spans u p = Some spans \<and> ordered_spans (length (chars p)) spans \<and>
    (\<forall>(a, b) \<in> set spans. \<not> white (chars p ! a) \<and> \<not> white (chars p ! (b - 1)))"
proof -
  let ?cs = "chars p"
  have "loop_ok ?cs 0 0 []" by (simp add: loop_ok_def ordered_spans_def)
  from spans_loop_ok [OF this, of ?cs u] obtain lo spans where
    l: "spans_loop u ?cs 0 ?cs 0 [] = Some (lo, spans)" "loop_ok ?cs (length ?cs) lo spans" by auto
  define spans' where "spans' = (if list_ex (\<lambda>c. \<not> white c) (drop lo ?cs) then spans @ [(lo, length ?cs)] else spans)"
  have s: "sentence_spans u p = Some (List.map_filter (trim_span ?cs) spans')"
    using l(2) by (simp add: sentence_spans_def l(1) vec_slice_def loop_ok_def spans'_def Let_def)
  have "lo < length ?cs" if "list_ex (\<lambda>c. \<not> white c) (drop lo ?cs)"
    using that by (cases "lo < length ?cs") auto
  then have ok: "ordered_spans (length ?cs) spans'"
    using l(2) by (auto simp: loop_ok_def spans'_def ordered_spans_snoc)
  have "\<not> white (?cs ! a) \<and> \<not> white (?cs ! (b - 1))" if "(a, b) \<in> set (List.map_filter (trim_span ?cs) spans')" for a b
  proof -
    from that obtain c d where "(c, d) \<in> set spans'" "trim_span ?cs (c, d) = Some (a, b)" by (auto simp: map_filter_def)
    with ok trim_span_Some [of ?cs c d a b] show ?thesis by (auto simp: ordered_spans_def list_all_iff)
  qed
  with s trim_spans_ordered [OF ok] show ?thesis by auto
qed

lemma cut_spans_ordered:
  "ordered_spans (length cs) spans \<Longrightarrow> cut_spans cs spans = Some (map (\<lambda>(a, b). concat (take (b - a) (drop a cs))) spans)"
  by (induction cs spans rule: cut_spans.induct) (auto simp: ordered_spans_def vec_slice_def)

lemma slice_infix: "concat cs = concat (take a cs) @ concat (take (b - a) (drop a cs)) @ concat (drop (b - a) (drop a cs))"
  by (metis append_take_drop_id concat_append)

lemma split_sentences_infix:
  "\<exists>ss. split_sentences u p = Some ss \<and> (\<forall>s \<in> set ss. s \<noteq> [] \<and> (\<exists>before after. p = before @ s @ after))"
proof -
  obtain spans where spans: "sentence_spans u p = Some spans" "ordered_spans (length (chars p)) spans"
    using sentence_spans_sound by blast
  have "concat (take (b - a) (drop a (chars p))) \<noteq> [] \<and>
      (\<exists>before after. p = before @ concat (take (b - a) (drop a (chars p))) @ after)" if "(a, b) \<in> set spans" for a b
  proof
    have ab: "a < b" "b \<le> length (chars p)" using spans(2) that by (auto simp: ordered_spans_def list_all_iff)
    then have "chars p ! a \<in> set (take (b - a) (drop a (chars p)))" by (auto simp: in_set_conv_nth intro: exI [of _ 0])
    then show "concat (take (b - a) (drop a (chars p))) \<noteq> []"
      using chars_nonempty [of "chars p ! a" p] ab by auto
    show "\<exists>before after. p = before @ concat (take (b - a) (drop a (chars p))) @ after"
      using slice_infix [of "chars p" a b] by (metis concat_chars)
  qed
  then show ?thesis using spans cut_spans_ordered [OF spans(2)] by (fastforce simp: split_sentences_def simp del: concat_eq_Nil_conv)
qed

section \<open>When cutting the body panics\<close>

lemma rfind_sub_Some: "rfind_sub s p = Some i \<Longrightarrow> i + length p \<le> length s"
proof (induction s p arbitrary: i rule: rfind_sub.induct)
  case (2 c s p)
  show ?case
  proof (cases "rfind_sub s p")
    case None
    with 2(2) starts_with_length [of "c # s" p] show ?thesis by (simp split: if_splits)
  next
    case (Some k)
    with 2(2) 2(1) [OF Some] show ?thesis by simp
  qed
qed (auto split: if_splits)

lemma end_marker_le: "end_marker t = Some e \<Longrightarrow> e \<le> length t"
  by (auto simp: end_marker_def dest: rfind_sub_Some dest!: sym [of "Some e"] elim!: or_else.elims)

lemma body_None_iff:
  "body t = None \<longleftrightarrow> (\<exists>s e k. start_marker t = Some s \<and> end_marker t = Some e \<and> s < e \<and>
    find_sub (drop s t) [CHR 0x0A] = Some k \<and> e \<le> s + k)"
  using end_marker_le [of t] by (auto simp: body_def cut_body_def vec_slice_def Let_def split: option.split)

section \<open>Properties\<close>

text \<open>
  The sentence spans of any paragraph are found without a panic; they are in order, disjoint,
  non-empty and inside the paragraph, and neither their first nor their last character is white
  space.
\<close>

theorem sentence_spans_ordered:
  "\<exists>spans. sentence_spans u p = Some spans \<and> sorted_wrt (\<lambda>a b. snd a \<le> fst b) spans \<and>
    list_all (\<lambda>(a, b). a < b \<and> b \<le> length (chars p) \<and> \<not> white (chars p ! a) \<and> \<not> white (chars p ! (b - 1))) spans"
  using sentence_spans_sound [of u p] by (auto simp: ordered_spans_def list_all_iff)

text \<open>
  Cutting the body of a text panics exactly when the line of the start marker is not over
  before the end marker: both markers on one line that a line feed ends.
\<close>

theorem body_panics_iff:
  "body t = None \<longleftrightarrow> (\<exists>s e k. start_marker t = Some s \<and> end_marker t = Some e \<and> s < e \<and>
    find_sub (drop s t) [CHR 0x0A] = Some k \<and> e \<le> s + k)"
  by (rule body_None_iff)

lemma body_panics_sample:
  "body (''*** START OF THE PROJECT GUTENBERG*** END OF THE PROJECT GUTENBERG'' @ [CHR 0x0A]) = None"
  by code_simp

end
