(* ===== verification/Passages.thy ===== *)
theory Passages
  imports Sentences Item_Builder
begin

text \<open>
  Paragraph Comprehension items, \<open>crates/vector-questions/src/passages.rs\<close>: the parse of a text
  into paragraphs and proper nouns, the builder that cuts a passage out of a paragraph and
  alters one detail of a sentence, and the independent verification. The \<open>{:?}\<close> form of a
  string is the parameter \<open>dbg\<close>; the difficulty 0.4 is left out. Arithmetic on \<open>i64\<close> that
  overflows is a panic.
\<close>

section \<open>Texts\<close>

record source_text =
  text_label :: string
  paragraphs :: "string list"
  proper_nouns :: "string list"

definition MIN_PASSAGE_WORDS :: nat where "MIN_PASSAGE_WORDS = 40"
definition MAX_PASSAGE_WORDS :: nat where "MAX_PASSAGE_WORDS = 220"
definition MIN_CLAUSE_WORDS :: nat where "MIN_CLAUSE_WORDS = 5"
definition MAX_CLAUSE_WORDS :: nat where "MAX_CLAUSE_WORDS = 26"

definition passage_band :: "nat \<Rightarrow> bool" where
  "passage_band n \<longleftrightarrow> MIN_PASSAGE_WORDS \<le> n \<and> n \<le> MAX_PASSAGE_WORDS"

definition clause_band :: "nat \<Rightarrow> bool" where
  "clause_band n \<longleftrightarrow> MIN_CLAUSE_WORDS \<le> n \<and> n \<le> MAX_CLAUSE_WORDS"

definition is_usable_passage :: "unicode \<Rightarrow> string \<Rightarrow> bool" where
  "is_usable_passage u p \<longleftrightarrow> passage_band (word_count p) \<and> \<not> contains (to_lower u p) ''gutenberg''"

definition words_of :: "unicode \<Rightarrow> string \<Rightarrow> string list" where
  "words_of u t = map (to_lower u) (filter (\<lambda>w. w \<noteq> []) (split_text (\<lambda>c. \<not> alphanumeric u c) t))"

text \<open>\<open>str::matches(p).count()\<close> for a non-empty pattern.\<close>

function count_matches :: "string \<Rightarrow> string \<Rightarrow> nat" where
  "count_matches s p =
     (case find_sub s p of None \<Rightarrow> 0
      | Some i \<Rightarrow> if p = [] then 0 else Suc (count_matches (drop (i + length p) s) p))"
  by pat_completeness auto
termination
  by (relation "measure (length \<circ> fst)") (auto dest!: find_sub_Some simp: neq_Nil_conv)

declare count_matches.simps [simp del]

text \<open>The loop over the lines of the body: the paragraphs so far and the current one.\<close>

fun paragraph_loop :: "string list \<Rightarrow> string list \<Rightarrow> string \<Rightarrow> string list" where
  "paragraph_loop [] ps current = (if trim_text current \<noteq> [] then ps @ [collapse current] else ps)"
| "paragraph_loop (line # ls) ps current =
     (let trimmed = trim_text line in
      if trimmed = [] then
        (if trim_text current \<noteq> [] then paragraph_loop ls (ps @ [collapse current]) [] else paragraph_loop ls ps current)
      else paragraph_loop ls ps ((if current \<noteq> [] then current @ '' '' else current) @ trimmed))"

definition is_prose_paragraph :: "string \<Rightarrow> bool" where
  "is_prose_paragraph p \<longleftrightarrow> word_count p \<ge> 12 \<and> \<not> starts_with p ''['' \<and> \<not> starts_with p ''CHAPTER'' \<and>
     \<not> starts_with p ''Chapter'' \<and> length (filter ascii_digit (chars p)) * 4 < length (chars p) \<and>
     count_matches p ''(illus'' < 3"

definition clean_noun :: "string \<Rightarrow> string" where
  "clean_noun w = trim_matches (\<lambda>c. \<not> ascii_alphabetic c) w"

definition capitalised :: "unicode \<Rightarrow> string \<Rightarrow> bool" where
  "capitalised u w \<longleftrightarrow> (case chars w of [] \<Rightarrow> False | c # _ \<Rightarrow> uppercase u c)"

definition collect_noun :: "unicode \<Rightarrow> string \<Rightarrow> string list \<Rightarrow> string list" where
  "collect_noun u w nouns =
     (let cleaned = clean_noun w in
      if length cleaned < 3 \<or> \<not> capitalised u cleaned then nouns
      else if cleaned \<notin> set nouns then nouns @ [cleaned] else nouns)"

fun collect_nouns :: "unicode \<Rightarrow> string list \<Rightarrow> string list \<Rightarrow> string list option" where
  "collect_nouns u [] nouns = Some nouns"
| "collect_nouns u (p # ps) nouns = do {
     sentences \<leftarrow> split_sentences u p;
     collect_nouns u ps (fold (\<lambda>s. fold (collect_noun u) (split_whitespace s)) sentences nouns)
   }"

definition parse_gutenberg :: "unicode \<Rightarrow> string \<Rightarrow> string \<Rightarrow> source_text option" where
  "parse_gutenberg u t label = do {
     b \<leftarrow> body t;
     let ps = filter is_prose_paragraph (paragraph_loop (text_lines b) [] []);
     nouns \<leftarrow> collect_nouns u ps [];
     Some \<lparr>text_label = label, paragraphs = ps, proper_nouns = nouns\<rparr>
   }"

fun title_in :: "string list \<Rightarrow> string option" where
  "title_in [] = None"
| "title_in (line # ls) =
     (let trimmed = trim_text line;
          field = (case strip_prefix trimmed ''Title:'' of None \<Rightarrow> [] | Some rest \<Rightarrow> trim_text rest)
      in if field \<noteq> [] then Some field
         else case find_sub trimmed ''The Project Gutenberg eBook of '' of
             None \<Rightarrow> title_in ls
           | Some index \<Rightarrow>
               (let rest = trim_text (drop (index + length ''The Project Gutenberg eBook of '') trimmed)
                in if rest \<noteq> [] then Some rest else title_in ls))"

definition gutenberg_title :: "string \<Rightarrow> string option" where
  "gutenberg_title t =
     title_in (text_lines (case find_sub t ''*** START OF THE PROJECT GUTENBERG'' of
       Some marker \<Rightarrow> take marker t | None \<Rightarrow> t))"

definition contains_passage :: "unicode \<Rightarrow> source_text \<Rightarrow> string \<Rightarrow> bool" where
  "contains_passage u src p \<longleftrightarrow>
     fold_text u p \<noteq> [] \<and> list_ex (\<lambda>q. contains (fold_text u q) (fold_text u p)) (paragraphs src)"

section \<open>Items\<close>

record pc_item =
  pc_objective_id :: string
  pc_passage :: string
  pc_prompt :: string
  pc_options :: "string list"
  pc_correct_index :: nat
  pc_rationales :: "(nat \<times> string) list"
  pc_supporting_clause :: string
  pc_source_label :: string
  pc_seed :: "64 word"

definition pc_canonical :: "unicode \<Rightarrow> pc_item \<Rightarrow> string" where
  "pc_canonical u i = ''PC'' @ [CHR 0x01] @ fold_text u (pc_passage i) @ [CHR 0x01] @ fold_text u (pc_supporting_clause i)"

definition pc_hash :: "unicode \<Rightarrow> (string \<Rightarrow> string) \<Rightarrow> pc_item \<Rightarrow> string" where
  "pc_hash u sha i = as_str (hash_of_text sha (pc_canonical u i))"

definition pc_explanation :: "pc_item \<Rightarrow> string" where
  "pc_explanation i = ''The passage states: '' @ [CHR 0x22] @ pc_supporting_clause i @ [CHR 0x22] @ '' ('' @ pc_source_label i @ '')''"

datatype pc_failure =
    CorrectOptionNotInPassage string
  | DistractorAlsoInPassage string
  | DistractorTokenPresent string string
  | TooFewOptions nat
  | CorrectIndexOutOfRange nat nat
  | DuplicateOption string
  | RationaleCoverage "nat list" "nat list"
  | Blank string
  | PassageLength nat
  | ClauseLength string nat

section \<open>The detail that is altered\<close>

datatype element = Number string | Name string

definition digits_of :: "string \<Rightarrow> string" where
  "digits_of w = concat (filter ascii_digit (chars w))"

definition APPARATUS_BEFORE_NUMBER :: "string list" where
  "APPARATUS_BEFORE_NUMBER = [''fig'', ''fig.'', ''(fig'', ''(fig.'', ''no'', ''no.'', ''vol'', ''vol.'']"

definition starts_with_letter :: "string \<Rightarrow> bool" where
  "starts_with_letter w \<longleftrightarrow> (case chars w of [] \<Rightarrow> False | c # _ \<Rightarrow> ascii_alphabetic c)"

fun find_number :: "unicode \<Rightarrow> nat \<Rightarrow> string \<Rightarrow> string list \<Rightarrow> (nat \<times> element) option" where
  "find_number u i before [] = None"
| "find_number u i before (w # ws) =
     (if length (digits_of w) < 2 then find_number u (Suc i) (to_lower u w) ws
      else if before \<in> set APPARATUS_BEFORE_NUMBER then find_number u (Suc i) (to_lower u w) ws
      else if starts_with_letter w then find_number u (Suc i) (to_lower u w) ws
      else Some (i, Number (digits_of w)))"

fun find_name :: "unicode \<Rightarrow> nat \<Rightarrow> string list \<Rightarrow> (nat \<times> element) option" where
  "find_name u i [] = None"
| "find_name u i (w # ws) =
     (let cleaned = clean_noun w in
      if i \<noteq> 0 \<and> length cleaned \<ge> 3 \<and> capitalised u cleaned \<and> \<not> list_all ascii_uppercase (chars cleaned)
      then Some (i, Name cleaned)
      else find_name u (Suc i) ws)"

definition find_element :: "unicode \<Rightarrow> string list \<Rightarrow> (nat \<times> element) option" where
  "find_element u ws = or_else (find_number u 0 [] ws) (find_name u 0 ws)"

definition boundary_mark :: "string \<Rightarrow> bool" where
  "boundary_mark c \<longleftrightarrow> one_of '',;: -'' c \<or> c = [CHR 0xE2, CHR 0x80, CHR 0x94] \<or> c = [CHR 0xE2, CHR 0x80, CHR 0x93]"

definition render_clause :: "string list \<Rightarrow> string" where
  "render_clause ws = trim_text (trim_matches boundary_mark (join '' '' ws))"

definition token_difference :: "unicode \<Rightarrow> string \<Rightarrow> string \<Rightarrow> (string \<times> string) option" where
  "token_difference u distractor correct =
     (let original = split_whitespace correct; altered = split_whitespace distractor;
          bare = trim_matches (\<lambda>c. \<not> alphanumeric u c)
      in if length original \<noteq> length altered then None
         else map_option (\<lambda>(a, b). (bare a, bare b)) (List.find (\<lambda>(a, b). bare a \<noteq> bare b) (zip original altered)))"

definition passage_has_number :: "string \<Rightarrow> string \<Rightarrow> bool" where
  "passage_has_number p ds \<longleftrightarrow> ds \<in> set (split_text (\<lambda>c. \<not> ascii_digit c) p)"

definition render_with :: "string list \<Rightarrow> nat \<Rightarrow> string \<Rightarrow> string \<Rightarrow> string" where
  "render_with clause k original replacement =
     render_clause (if k < length clause then clause[k := str_replace original replacement (clause ! k)] else clause)"

text \<open>\<open>parse::<i64>\<close> of a run of at least two digits, and the additions and subtractions of the array.\<close>

definition parse_i64_digits :: "string \<Rightarrow> int option" where
  "parse_i64_digits ds = (if int (digits_val ds) \<le> 2 ^ 63 - 1 then Some (int (digits_val ds)) else None)"

definition checked_i64 :: "int \<Rightarrow> int option" where
  "checked_i64 v = (if - (2 ^ 63) \<le> v \<and> v \<le> 2 ^ 63 - 1 then Some v else None)"

definition saturate_i64 :: "int \<Rightarrow> int" where
  "saturate_i64 v = max (- (2 ^ 63)) (min v (2 ^ 63 - 1))"

definition near_numbers :: "int \<Rightarrow> int list option" where
  "near_numbers v = do {
     a \<leftarrow> checked_i64 (v + 1);
     b \<leftarrow> checked_i64 (v + 2);
     c \<leftarrow> checked_i64 (v + 7);
     d \<leftarrow> checked_i64 (v + 11);
     Some [a, b, c, d, saturate_i64 (v - 1), saturate_i64 (v - 2)]
   }"

fun number_variants :: "string list \<Rightarrow> nat \<Rightarrow> string \<Rightarrow> string \<Rightarrow> int \<Rightarrow> int list \<Rightarrow> string list \<Rightarrow> string list" where
  "number_variants clause k original p v [] out = out"
| "number_variants clause k original p v (n # ns) out =
     (if n \<le> 0 \<or> n = v then number_variants clause k original p v ns out
      else if passage_has_number p (show_int n) then number_variants clause k original p v ns out
      else (let variant = render_with clause k original (show_int n);
                out = (if variant \<noteq> render_clause clause \<and> variant \<notin> set out then out @ [variant] else out)
            in if 6 \<le> length out then out else number_variants clause k original p v ns out))"

fun name_variants :: "unicode \<Rightarrow> string list \<Rightarrow> nat \<Rightarrow> string \<Rightarrow> string \<Rightarrow> string list \<Rightarrow> nat \<Rightarrow> rng \<Rightarrow> (string list \<times> rng) option" where
  "name_variants u clause k original p nouns 0 rng = Some ([], rng)"
| "name_variants u clause k original p nouns (Suc tries) rng = do {
     (candidate, rng) \<leftarrow> rng_pick rng nouns;
     if eq_ignore_case candidate original \<or> contains (to_lower u p) (to_lower u candidate)
     then name_variants u clause k original p nouns tries rng
     else let variant = render_with clause k original candidate
          in Some (if variant \<noteq> render_clause clause then [variant] else [], rng)
   }"

definition clause_variants :: "unicode \<Rightarrow> string list \<Rightarrow> nat \<Rightarrow> element \<Rightarrow> string \<Rightarrow> string list \<Rightarrow> rng \<Rightarrow> (string list \<times> rng) option" where
  "clause_variants u clause k el p nouns rng =
     (case el of
        Number ds \<Rightarrow>
          (case parse_i64_digits ds of
             None \<Rightarrow> Some ([], rng)
           | Some v \<Rightarrow> do {
               ns \<leftarrow> near_numbers v;
               Some (number_variants clause k ds p v ns [], rng)
             })
      | Name name \<Rightarrow> name_variants u clause k name p nouns 12 rng)"

section \<open>Building\<close>

type_synonym 'a veto = "string \<Rightarrow> 'a \<Rightarrow> bool \<times> 'a"

definition rationale_for :: "unicode \<Rightarrow> (string \<Rightarrow> string) \<Rightarrow> string \<Rightarrow> string \<Rightarrow> string" where
  "rationale_for u dbg correct opt =
     (let (stated, altered) = (case token_difference u opt correct of None \<Rightarrow> ([], []) | Some d \<Rightarrow> d)
      in ''The passage states '' @ dbg stated @ '' here; it does not state '' @ dbg altered @ ''.'')"

text \<open>The part of \<open>build_one\<close> from the chosen sentence on.\<close>

definition build_from :: "unicode \<Rightarrow> (string \<Rightarrow> string) \<Rightarrow> source_text \<Rightarrow> 64 word \<Rightarrow> string \<Rightarrow> string \<Rightarrow> rng \<Rightarrow> (pc_item option \<times> rng) option" where
  "build_from u dbg src seed p supporting rng =
     (let clause = split_whitespace supporting in
      case find_element u clause of
        None \<Rightarrow> Some (None, rng)
      | Some (k, el) \<Rightarrow>
          (let correct = render_clause clause in
           if word_count correct < MIN_CLAUSE_WORDS then Some (None, rng)
           else do {
             (variants, rng) \<leftarrow> clause_variants u clause k el p (proper_nouns src) rng;
             if length variants < 3 then Some (None, rng)
             else let (opts, rng) = rng_shuffle rng ((correct, True) # map (\<lambda>v. (v, False)) (take 3 variants)) in do {
               index \<leftarrow> correct_position opts;
               Some (Some \<lparr>pc_objective_id = ''OBJ-PC-DETAIL-01'', pc_passage = p,
                 pc_prompt = ''According to the passage, which of the following is stated?'',
                 pc_options = map fst opts, pc_correct_index = index,
                 pc_rationales = rationales (rationale_for u dbg correct) opts,
                 pc_supporting_clause = correct, pc_source_label = text_label src, pc_seed = seed\<rparr>, rng)
             }
           }))"

text \<open>
  The part that cuts two or three sentences out of the paragraph: the passage, a slice of its
  characters, and the sentences in it. \<^const>\<open>None\<close> inside when there are fewer than two.
\<close>

definition draw_passage :: "unicode \<Rightarrow> string \<Rightarrow> rng \<Rightarrow> ((string \<times> string list) option \<times> rng) option" where
  "draw_passage u paragraph rng = do {
     spans \<leftarrow> sentence_spans u paragraph;
     sentences \<leftarrow> cut_spans (chars paragraph) spans;
     if length sentences < 2 then Some (None, rng)
     else do {
       (n, rng) \<leftarrow> rng_range rng 2 3;
       let number = min (nat n) (length sentences);
       (s, rng) \<leftarrow> rng_range rng 0 (int (length sentences - number));
       first \<leftarrow> index_vec spans (nat s);
       final \<leftarrow> index_vec spans (nat s + number - 1);
       part \<leftarrow> vec_slice (chars paragraph) (fst first) (snd final);
       chosen \<leftarrow> vec_slice sentences (nat s) (nat s + number);
       Some (Some (concat part, chosen), rng)
     }
   }"

definition build_one :: "unicode \<Rightarrow> (string \<Rightarrow> string) \<Rightarrow> source_text \<Rightarrow> 64 word \<Rightarrow> 'a veto \<Rightarrow> rng \<Rightarrow> 'a \<Rightarrow> (pc_item option \<times> rng \<times> 'a) option" where
  "build_one u dbg src seed accept rng acc = do {
     (v, rng) \<leftarrow> rng_range rng 0 (int (length (paragraphs src)) - 1);
     case index_vec (paragraphs src) (nat v) of
       None \<Rightarrow> Some (None, rng, acc)
     | Some paragraph \<Rightarrow> do {
         (drawn, rng) \<leftarrow> draw_passage u paragraph rng;
         case drawn of
           None \<Rightarrow> Some (None, rng, acc)
         | Some (p, chosen) \<Rightarrow>
             if \<not> passage_band (word_count p) then Some (None, rng, acc)
             else (case accept p acc of
               (False, acc) \<Rightarrow> Some (None, rng, acc)
             | (True, acc) \<Rightarrow>
                 (let (candidates, rng) = rng_shuffle rng (filter (\<lambda>x. clause_band (word_count x)) chosen) in
                  case candidates of
                    [] \<Rightarrow> Some (None, rng, acc)
                  | supporting # _ \<Rightarrow> do {
                      (built, rng) \<leftarrow> build_from u dbg src seed p supporting rng;
                      Some (built, rng, acc)
                    }))
       }
   }"

definition build_items :: "unicode \<Rightarrow> (string \<Rightarrow> string) \<Rightarrow> (string \<Rightarrow> string) \<Rightarrow> source_text \<Rightarrow> nat \<Rightarrow> 64 word \<Rightarrow> 'a veto \<Rightarrow> 'a \<Rightarrow>
    (pc_item list \<times> 'a) option" where
  "build_items u dbg sha src wanted seed accept acc =
     (if paragraphs src = [] then Some ([], acc)
      else build_loop (build_one u dbg src seed accept) (pc_hash u sha) wanted (attempts_for 12 wanted) seed acc {} [])"

section \<open>Verification\<close>

definition token_stated :: "unicode \<Rightarrow> pc_item \<Rightarrow> string \<Rightarrow> (string \<times> string) option" where
  "token_stated u i opt =
     (case token_difference u opt (pc_supporting_clause i) of
        None \<Rightarrow> None
      | Some (stated, altered) \<Rightarrow>
          if to_lower u altered \<noteq> [] \<and> to_lower u altered \<in> set (words_of u (pc_passage i)) then Some (stated, altered) else None)"

fun verify_options :: "unicode \<Rightarrow> pc_item \<Rightarrow> nat \<Rightarrow> string list \<Rightarrow> string list \<Rightarrow> (unit, pc_failure) result" where
  "verify_options u i n earlier [] = Ok ()"
| "verify_options u i n earlier (opt # opts) =
     (if trim_text opt = [] then Err (Blank (''option '' @ show_nat n))
      else if list_ex (\<lambda>e. fold_text u e = fold_text u opt) earlier then Err (DuplicateOption opt)
      else if \<not> clause_band (word_count opt) then Err (ClauseLength opt (word_count opt))
      else if n = pc_correct_index i then verify_options u i (Suc n) (earlier @ [opt]) opts
      else if contains (fold_text u (pc_passage i)) (fold_text u opt) then Err (DistractorAlsoInPassage opt)
      else case token_stated u i opt of
          Some (stated, altered) \<Rightarrow>
            Err (DistractorTokenPresent opt (altered @ '' (the passage states '' @ stated @ '')''))
        | None \<Rightarrow> verify_options u i (Suc n) (earlier @ [opt]) opts)"

fun verify_rationales :: "(nat \<times> string) list \<Rightarrow> (unit, pc_failure) result" where
  "verify_rationales [] = Ok ()"
| "verify_rationales ((n, t) # rs) =
     (if trim_text t = [] then Err (Blank (''rationale for option '' @ show_nat n)) else verify_rationales rs)"

definition verify :: "unicode \<Rightarrow> pc_item \<Rightarrow> (unit, pc_failure) result" where
  "verify u i =
     (if trim_text (pc_passage i) = [] then Err (Blank ''passage'')
      else if trim_text (pc_prompt i) = [] then Err (Blank ''prompt'')
      else if trim_text (pc_supporting_clause i) = [] then Err (Blank ''supporting clause'')
      else if \<not> passage_band (word_count (pc_passage i)) then Err (PassageLength (word_count (pc_passage i)))
      else if length (pc_options i) < 2 then Err (TooFewOptions (length (pc_options i)))
      else if length (pc_options i) \<le> pc_correct_index i
      then Err (CorrectIndexOutOfRange (pc_correct_index i) (length (pc_options i)))
      else if \<not> contains (fold_text u (pc_passage i)) (fold_text u (pc_options i ! pc_correct_index i))
      then Err (CorrectOptionNotInPassage (pc_options i ! pc_correct_index i))
      else if fold_text u (pc_options i ! pc_correct_index i) \<noteq> fold_text u (pc_supporting_clause i)
      then Err (CorrectOptionNotInPassage (pc_supporting_clause i))
      else try_bind (verify_options u i 0 [] (pc_options i)) (\<lambda>_.
        let (missing, extra) = coverage_gaps (length (pc_options i)) (pc_correct_index i) (pc_rationales i) in
        if missing \<noteq> [] \<or> extra \<noteq> [] then Err (RationaleCoverage missing extra)
        else verify_rationales (pc_rationales i)))"

section \<open>What an accepted item is\<close>

definition pc_valid :: "unicode \<Rightarrow> pc_item \<Rightarrow> bool" where
  "pc_valid u i \<longleftrightarrow>
     trim_text (pc_passage i) \<noteq> [] \<and> trim_text (pc_prompt i) \<noteq> [] \<and> trim_text (pc_supporting_clause i) \<noteq> [] \<and>
     passage_band (word_count (pc_passage i)) \<and> 2 \<le> length (pc_options i) \<and> pc_correct_index i < length (pc_options i) \<and>
     fold_text u (pc_options i ! pc_correct_index i) = fold_text u (pc_supporting_clause i) \<and>
     (\<forall>k < length (pc_options i). contains (fold_text u (pc_passage i)) (fold_text u (pc_options i ! k)) \<longleftrightarrow> k = pc_correct_index i) \<and>
     (\<forall>k < length (pc_options i). k \<noteq> pc_correct_index i \<longrightarrow> token_stated u i (pc_options i ! k) = None) \<and>
     (\<forall>opt \<in> set (pc_options i). trim_text opt \<noteq> [] \<and> clause_band (word_count opt)) \<and>
     distinct (map (fold_text u) (pc_options i)) \<and>
     fst ` set (pc_rationales i) = {k. k < length (pc_options i) \<and> k \<noteq> pc_correct_index i} \<and>
     (\<forall>(k, why) \<in> set (pc_rationales i). trim_text why \<noteq> [])"

definition distractor_ok :: "unicode \<Rightarrow> pc_item \<Rightarrow> string \<Rightarrow> bool" where
  "distractor_ok u i opt \<longleftrightarrow> \<not> contains (fold_text u (pc_passage i)) (fold_text u opt) \<and> token_stated u i opt = None"

lemma pc_verify_options_iff:
  "distinct (map (fold_text u) earlier) \<Longrightarrow> verify_options u i n earlier opts = Ok () \<longleftrightarrow>
    (\<forall>opt \<in> set opts. trim_text opt \<noteq> [] \<and> clause_band (word_count opt)) \<and> distinct (map (fold_text u) (earlier @ opts)) \<and>
    (\<forall>k < length opts. n + k \<noteq> pc_correct_index i \<longrightarrow> distractor_ok u i (opts ! k))"
proof (induction u i n earlier opts rule: verify_options.induct)
  case (2 u i n earlier opt opts)
  have shift: "(\<forall>k < length (opt # opts). n + k \<noteq> pc_correct_index i \<longrightarrow> distractor_ok u i ((opt # opts) ! k)) \<longleftrightarrow>
      (n \<noteq> pc_correct_index i \<longrightarrow> distractor_ok u i opt) \<and>
      (\<forall>k < length opts. Suc n + k \<noteq> pc_correct_index i \<longrightarrow> distractor_ok u i (opts ! k))"
    by (auto simp: less_Suc_eq_0_disj all_conj_distrib)
  show ?case unfolding shift using 2 by (auto simp: repeats_iff distractor_ok_def split: option.split)
qed simp

lemma pc_verify_rationales_iff: "verify_rationales rs = Ok () \<longleftrightarrow> (\<forall>(k, why) \<in> set rs. trim_text why \<noteq> [])"
  by (induction rs rule: verify_rationales.induct) auto

lemma pc_verify_valid: "verify u i = Ok () \<longleftrightarrow> pc_valid u i"
proof -
  obtain missing extra where gaps:
    "coverage_gaps (length (pc_options i)) (pc_correct_index i) (pc_rationales i) = (missing, extra)" by fastforce
  with coverage_gaps_iff [of "length (pc_options i)" "pc_correct_index i" "pc_rationales i"]
  have cov: "missing = [] \<and> extra = [] \<longleftrightarrow>
      fst ` set (pc_rationales i) = {k. k < length (pc_options i) \<and> k \<noteq> pc_correct_index i}" by simp
  have one: "(\<forall>k < length (pc_options i). contains h (fold_text u (pc_options i ! k)) \<longleftrightarrow> k = pc_correct_index i) \<longleftrightarrow>
      contains h (fold_text u (pc_options i ! pc_correct_index i)) \<and>
      (\<forall>k < length (pc_options i). k \<noteq> pc_correct_index i \<longrightarrow> \<not> contains h (fold_text u (pc_options i ! k)))"
    if "pc_correct_index i < length (pc_options i)" for h using that by blast
  have each: "(\<forall>k < length (pc_options i). 0 + k \<noteq> pc_correct_index i \<longrightarrow> distractor_ok u i (pc_options i ! k)) \<longleftrightarrow>
      (\<forall>k < length (pc_options i). k \<noteq> pc_correct_index i \<longrightarrow> \<not> contains (fold_text u (pc_passage i)) (fold_text u (pc_options i ! k))) \<and>
      (\<forall>k < length (pc_options i). k \<noteq> pc_correct_index i \<longrightarrow> token_stated u i (pc_options i ! k) = None)"
    by (auto simp: distractor_ok_def)
  have opts: "verify_options u i 0 [] (pc_options i) = Ok () \<longleftrightarrow>
      (\<forall>opt \<in> set (pc_options i). trim_text opt \<noteq> [] \<and> clause_band (word_count opt)) \<and> distinct (map (fold_text u) (pc_options i)) \<and>
      (\<forall>k < length (pc_options i). k \<noteq> pc_correct_index i \<longrightarrow> \<not> contains (fold_text u (pc_passage i)) (fold_text u (pc_options i ! k))) \<and>
      (\<forall>k < length (pc_options i). k \<noteq> pc_correct_index i \<longrightarrow> token_stated u i (pc_options i ! k) = None)"
    using pc_verify_options_iff [of u "[]" i 0 "pc_options i"] unfolding each by simp
  show ?thesis
    unfolding verify_def pc_valid_def gaps cov [symmetric]
    by (cases "pc_correct_index i < length (pc_options i)")
      (simp_all add: opts one pc_verify_rationales_iff not_less not_le try_bind_Ok_iff, blast?)
qed

section \<open>What the parse leaves\<close>

definition is_noun :: "unicode \<Rightarrow> string \<Rightarrow> bool" where
  "is_noun u w \<longleftrightarrow> 3 \<le> length (clean_noun w) \<and> capitalised u (clean_noun w)"

text \<open>Every capitalised word of every sentence of every paragraph is a proper noun of the text.\<close>

definition nouns_of :: "unicode \<Rightarrow> string \<Rightarrow> string set" where
  "nouns_of u p = {clean_noun w | ss s w. split_sentences u p = Some ss \<and> s \<in> set ss \<and> w \<in> set (split_whitespace s) \<and> is_noun u w}"

definition text_ok :: "unicode \<Rightarrow> source_text \<Rightarrow> bool" where
  "text_ok u src \<longleftrightarrow> (\<forall>p \<in> set (paragraphs src). nouns_of u p \<subseteq> set (proper_nouns src))"

lemma set_collect_noun: "set (collect_noun u w nouns) = set nouns \<union> (if is_noun u w then {clean_noun w} else {})"
  by (auto simp: collect_noun_def is_noun_def Let_def not_less)

lemma set_collect_words:
  "set (fold (collect_noun u) ws nouns) = set nouns \<union> clean_noun ` {w \<in> set ws. is_noun u w}"
  by (induction ws arbitrary: nouns) (auto simp: set_collect_noun)

lemma set_collect_sentences:
  "set (fold (\<lambda>s. fold (collect_noun u) (split_whitespace s)) ss nouns) =
    set nouns \<union> (\<Union>s \<in> set ss. clean_noun ` {w \<in> set (split_whitespace s). is_noun u w})"
  by (induction ss arbitrary: nouns) (auto simp: set_collect_words)

lemma nouns_of_sentences:
  "split_sentences u p = Some ss \<Longrightarrow> nouns_of u p = (\<Union>s \<in> set ss. clean_noun ` {w \<in> set (split_whitespace s). is_noun u w})"
  by (auto simp: nouns_of_def)

lemma collect_nouns_ok:
  "\<exists>nouns'. collect_nouns u ps nouns = Some nouns' \<and> set nouns' = set nouns \<union> (\<Union>p \<in> set ps. nouns_of u p)"
proof (induction ps arbitrary: nouns)
  case (Cons p ps)
  obtain ss where ss: "split_sentences u p = Some ss" using split_sentences_infix by blast
  let ?nouns = "fold (\<lambda>s. fold (collect_noun u) (split_whitespace s)) ss nouns"
  from Cons.IH [of ?nouns] show ?case
    by (auto simp: ss set_collect_sentences nouns_of_sentences [OF ss])
qed simp

lemma parse_gutenberg_ok:
  "(parse_gutenberg u t label = None \<longleftrightarrow> body t = None) \<and>
   (\<forall>src. parse_gutenberg u t label = Some src \<longrightarrow> text_ok u src \<and> list_all is_prose_paragraph (paragraphs src))"
proof (cases "body t")
  case (Some b)
  let ?ps = "filter is_prose_paragraph (paragraph_loop (text_lines b) [] [])"
  from collect_nouns_ok [of u ?ps "[]"] obtain nouns where
    nouns: "collect_nouns u ?ps [] = Some nouns" "set nouns = (\<Union>p \<in> set ?ps. nouns_of u p)" by auto
  then have "text_ok u \<lparr>text_label = label, paragraphs = ?ps, proper_nouns = nouns\<rparr>" unfolding text_ok_def by simp blast
  with nouns(1) Some show ?thesis by (simp add: parse_gutenberg_def list_all_iff Let_def)
qed (simp add: parse_gutenberg_def)

section \<open>Variants\<close>

lemma digits_val_less: "\<forall>c \<in> set ds. is_digit c \<Longrightarrow> digits_val ds < 10 ^ length ds"
proof (induction ds rule: rev_induct)
  case (snoc c ds)
  then have "digit_val c < 10" by (auto simp: digit_val_def is_digit_def)
  with snoc show ?case by (auto simp: digits_val_snoc)
qed (simp add: digits_val_def)

lemma digits_of_digits: "c \<in> set (digits_of w) \<Longrightarrow> is_digit c"
  by (auto simp: digits_of_def ascii_digit_def elim!: ascii_classE)

text \<open>A sentence whose numbers have at most eighteen digits.\<close>

definition small_numbers :: "string \<Rightarrow> bool" where
  "small_numbers s \<longleftrightarrow> list_all (\<lambda>w. length (digits_of w) \<le> 18) (split_whitespace s)"

lemma near_numbers_small: "0 \<le> v \<Longrightarrow> v < 10 ^ 18 \<Longrightarrow> near_numbers v \<noteq> None"
  by (simp add: near_numbers_def checked_i64_def)

definition altered_from :: "string list \<Rightarrow> string \<Rightarrow> string \<Rightarrow> bool" where
  "altered_from clause p t \<longleftrightarrow> (\<exists>k ds n. k < length clause \<and> t = render_with clause k ds (show_int n) \<and>
     ds = digits_of (clause ! k) \<and> \<not> passage_has_number p (show_int n))"

lemma number_variants_ok:
  assumes "k < length clause" "ds = digits_of (clause ! k)"
  shows "distinct out \<Longrightarrow> \<forall>t \<in> set out. t \<noteq> render_clause clause \<and> altered_from clause p t \<Longrightarrow>
    distinct (number_variants clause k ds p v ns out) \<and>
    (\<forall>t \<in> set (number_variants clause k ds p v ns out). t \<noteq> render_clause clause \<and> altered_from clause p t)"
proof (induction ns arbitrary: out)
  case (Cons n ns)
  show ?case
  proof (cases "n \<le> 0 \<or> n = v \<or> passage_has_number p (show_int n)")
    case True
    with Cons.IH [OF Cons.prems] show ?thesis by auto
  next
    case False
    let ?variant = "render_with clause k ds (show_int n)"
    define out' where "out' = (if ?variant \<noteq> render_clause clause \<and> ?variant \<notin> set out then out @ [?variant] else out)"
    have "altered_from clause p ?variant" using assms False unfolding altered_from_def by blast
    then have out': "distinct out'" "\<forall>t \<in> set out'. t \<noteq> render_clause clause \<and> altered_from clause p t"
      using Cons.prems by (auto simp: out'_def)
    have "number_variants clause k ds p v (n # ns) out = (if 6 \<le> length out' then out' else number_variants clause k ds p v ns out')"
      unfolding number_variants.simps Let_def out'_def [symmetric] using False by (simp only: if_False de_Morgan_disj simp_thms)
    moreover have "\<And>b x y Q. Q x \<Longrightarrow> Q y \<Longrightarrow> Q (if b then x else y :: string list)" by simp
    ultimately show ?thesis using out' Cons.IH [OF out'] by (metis (no_types, lifting))
  qed
qed simp

lemma find_number_Some:
  "find_number u i before ws = Some (j, el) \<Longrightarrow> i \<le> j \<and> j - i < length ws \<and> el = Number (digits_of (ws ! (j - i)))"
proof (induction u i before ws rule: find_number.induct)
  case (2 u i before w ws)
  show ?case
  proof (cases "length (digits_of w) < 2 \<or> before \<in> set APPARATUS_BEFORE_NUMBER \<or> starts_with_letter w")
    case True
    with 2 have "Suc i \<le> j \<and> j - Suc i < length ws \<and> el = Number (digits_of (ws ! (j - Suc i)))"
      by (auto split: if_splits)
    moreover from this have "j - i = Suc (j - Suc i)" by arith
    ultimately show ?thesis by simp
  next
    case False
    with 2(4) show ?thesis by simp
  qed
qed simp

lemma find_name_Some: "find_name u i ws = Some (j, el) \<Longrightarrow> \<exists>w \<in> set ws. el = Name (clean_noun w) \<and> is_noun u w"
  by (induction u i ws rule: find_name.induct) (auto simp: Let_def is_noun_def split: if_splits)

lemma find_element_cases:
  assumes "find_element u ws = Some (k, el)"
  obtains "k < length ws" "el = Number (digits_of (ws ! k))" | w where "w \<in> set ws" "el = Name (clean_noun w)" "is_noun u w"
proof (cases "find_number u 0 [] ws")
  case None
  with assms have "find_name u 0 ws = Some (k, el)" by (simp add: find_element_def)
  from find_name_Some [OF this] that(2) show thesis by blast
next
  case (Some x)
  with assms have "find_number u 0 [] ws = Some (k, el)" by (simp add: find_element_def)
  from find_number_Some [OF this] that(1) show thesis by simp
qed

lemma name_variants_one:
  assumes "nouns \<noteq> []" "length nouns < 2 ^ 64"
  shows "\<exists>vs rng'. name_variants u clause k original p nouns tries rng = Some (vs, rng') \<and> length vs \<le> 1"
proof (induction tries arbitrary: rng)
  case (Suc tries)
  obtain w rng1 where w: "rng_pick rng nouns = Some (w, rng1)" using rng_pick_member [OF assms] by blast
  show ?case
  proof (cases "eq_ignore_case w original \<or> contains (to_lower u p) (to_lower u w)")
    case True
    with Suc.IH [of rng1] w show ?thesis by simp
  next
    case False
    then show ?thesis by (simp add: w Let_def)
  qed
qed simp

section \<open>What the builder returns\<close>

definition variant_ok :: "string list \<Rightarrow> string \<Rightarrow> string \<Rightarrow> bool" where
  "variant_ok clause p t \<longleftrightarrow> t = render_clause clause \<or> altered_from clause p t"

definition built_from :: "string list \<Rightarrow> string \<Rightarrow> pc_item \<Rightarrow> bool" where
  "built_from clause p i \<longleftrightarrow> pc_passage i = p \<and> length (pc_options i) = 4 \<and> distinct (pc_options i) \<and> pc_correct_index i < 4 \<and>
     pc_supporting_clause i = render_clause clause \<and> pc_options i ! pc_correct_index i = render_clause clause \<and>
     (\<forall>t \<in> set (pc_options i). t \<noteq> render_clause clause \<longrightarrow> altered_from clause p t)"

lemma options_start_ok:
  assumes "distinct vs" "\<forall>t \<in> set vs. t \<noteq> correct \<and> ok t" "ok correct"
  shows "options_ok id ok correct ((correct, True) # map (\<lambda>v. (v, False)) vs)"
proof -
  have "filter snd (map (\<lambda>v. (v, False)) vs) = []" by (simp add: filter_empty_conv)
  with assms show ?thesis by (auto simp: options_ok_def one_marked_def comp_def)
qed

lemma clause_variants_ok:
  assumes el: "find_element u clause = Some (k, el)" and small: "list_all (\<lambda>w. length (digits_of w) \<le> 18) clause"
    and nouns: "clean_noun ` {w \<in> set clause. is_noun u w} \<subseteq> set nouns" "length nouns < 2 ^ 64"
  shows "\<exists>vs rng'. clause_variants u clause k el p nouns rng = Some (vs, rng') \<and>
    (3 \<le> length vs \<longrightarrow> distinct vs \<and> (\<forall>t \<in> set vs. t \<noteq> render_clause clause \<and> altered_from clause p t))"
  using el
proof (cases rule: find_element_cases)
  case 1
  let ?ds = "digits_of (clause ! k)"
  have "int (digits_val ?ds) < 10 ^ 18"
  proof -
    have "digits_val ?ds < 10 ^ length ?ds" using digits_val_less digits_of_digits by blast
    also have "\<dots> \<le> 10 ^ 18" using small 1(1) by (intro power_increasing) (auto simp: list_all_length)
    finally have "digits_val ?ds < 10 ^ 18" .
    then show ?thesis by (metis of_nat_less_iff of_nat_numeral of_nat_power)
  qed
  then obtain ns where "parse_i64_digits ?ds = Some (int (digits_val ?ds))" "near_numbers (int (digits_val ?ds)) = Some ns"
    using near_numbers_small [of "int (digits_val ?ds)"] by (auto simp: parse_i64_digits_def)
  with 1 number_variants_ok [OF 1(1) refl, of "[]" p] show ?thesis by (simp add: clause_variants_def)
next
  case (2 w)
  then have "nouns \<noteq> []" using nouns(1) by auto
  from name_variants_one [OF this nouns(2), of u clause k "clean_noun w" p 12 rng] 2 show ?thesis
    by (auto simp: clause_variants_def)
qed

lemma build_from_result:
  assumes small: "small_numbers s" and nouns: "clean_noun ` {w \<in> set (split_whitespace s). is_noun u w} \<subseteq> set (proper_nouns src)"
    "length (proper_nouns src) < 2 ^ 64"
  shows "\<exists>built rng'. build_from u dbg src seed p s rng = Some (built, rng') \<and>
    (\<forall>item. built = Some item \<longrightarrow> built_from (split_whitespace s) p item)"
proof (cases "find_element u (split_whitespace s)")
  case None
  then show ?thesis by (simp add: build_from_def)
next
  case (Some el)
  let ?clause = "split_whitespace s"
  let ?correct = "render_clause ?clause"
  obtain k e where el: "find_element u ?clause = Some (k, e)" using Some by (cases el) auto
  obtain vs rng1 where vs: "clause_variants u ?clause k e p (proper_nouns src) rng = Some (vs, rng1)"
    "3 \<le> length vs \<longrightarrow> distinct vs \<and> (\<forall>t \<in> set vs. t \<noteq> ?correct \<and> altered_from ?clause p t)"
    using clause_variants_ok [OF el _ nouns] small unfolding small_numbers_def by blast
  show ?thesis
  proof (cases "word_count ?correct < MIN_CLAUSE_WORDS \<or> length vs < 3")
    case True
    then show ?thesis by (auto simp: build_from_def el vs(1) Let_def)
  next
    case False
    let ?opts = "(?correct, True) # map (\<lambda>v. (v, False)) (take 3 vs)"
    obtain opts rng2 where shuffled: "rng_shuffle rng1 ?opts = (opts, rng2)" by fastforce
    have start: "options_ok id (variant_ok ?clause p) ?correct ?opts"
      using vs(2) False by (intro options_start_ok) (auto simp: variant_ok_def distinct_take dest!: in_set_takeD)
    have four: "length ?opts = 4" using False by simp
    then have ok: "options_ok id (variant_ok ?clause p) ?correct opts" and len: "length opts = 4"
      using start options_ok_shuffle [of ?opts id "variant_ok ?clause p" ?correct rng1] length_rng_shuffle [of ?opts rng1]
      by (simp_all add: shuffled)
    obtain j where j: "correct_position opts = Some j" "j < length opts" "map fst opts ! j = ?correct"
      using options_ok_position [OF ok] by blast
    have "distinct (map fst opts)" "\<forall>t \<in> set (map fst opts). variant_ok ?clause p t"
      using options_ok_plain [OF ok] by simp_all
    then have props: "distinct (map fst opts)" "\<forall>t \<in> set (map fst opts). t \<noteq> ?correct \<longrightarrow> altered_from ?clause p t"
      by (auto simp: variant_ok_def)
    show ?thesis
      using False unfolding build_from_def built_from_def
      by (simp add: el vs(1) Let_def shuffled j(1)) (use props j len in simp)
  qed
qed

lemma ordered_nth:
  assumes "ordered_spans n spans" "i \<le> j" "j < length spans"
  shows "fst (spans ! i) \<le> fst (spans ! j) \<and> snd (spans ! i) \<le> snd (spans ! j) \<and> snd (spans ! j) \<le> n \<and> fst (spans ! j) < snd (spans ! j)"
proof -
  have each: "fst (spans ! l) < snd (spans ! l) \<and> snd (spans ! l) \<le> n" if "l < length spans" for l
    using assms(1) that by (cases "spans ! l") (auto simp: ordered_spans_def list_all_length)
  have "i < j \<Longrightarrow> snd (spans ! i) \<le> fst (spans ! j)"
    using assms by (auto simp: ordered_spans_def sorted_wrt_iff_nth_less)
  with each [of i] each [of j] assms(2,3) show ?thesis by (cases "i = j") auto
qed

lemma nested_slice:
  assumes "lo \<le> a" "a \<le> b" "b \<le> hi"
  shows "\<exists>before after. concat (take (hi - lo) (drop lo cs)) = before @ concat (take (b - a) (drop a cs)) @ after"
proof -
  let ?cs = "take (hi - lo) (drop lo cs)"
  have "take ((b - lo) - (a - lo)) (drop (a - lo) ?cs) = take (b - a) (drop a cs)"
    using assms by (simp add: drop_take min_def)
  with slice_infix [of ?cs "a - lo" "b - lo"] show ?thesis by metis
qed

text \<open>A passage and its sentences, cut out of a paragraph.\<close>

definition cut_from :: "unicode \<Rightarrow> string \<Rightarrow> string \<Rightarrow> string list \<Rightarrow> bool" where
  "cut_from u q p chosen \<longleftrightarrow> (\<exists>before after. q = before @ p @ after) \<and> length chosen \<le> 3 \<and>
     (\<forall>x \<in> set chosen. (\<exists>before after. p = before @ x @ after) \<and> (\<exists>ss. split_sentences u q = Some ss \<and> x \<in> set ss))"

lemma cut_from_spans:
  assumes spans: "sentence_spans u q = Some spans" "ordered_spans (length (chars q)) spans"
    and s: "0 < m" "m \<le> 3" "s + m \<le> length spans"
    and lo: "lo = fst (spans ! s)" and hi: "hi = snd (spans ! (s + m - 1))"
  shows "lo \<le> hi \<and> hi \<le> length (chars q) \<and> cut_from u q (concat (take (hi - lo) (drop lo (chars q))))
    (take m (drop s (map (\<lambda>(a, b). concat (take (b - a) (drop a (chars q)))) spans)))"
proof -
  let ?ss = "map (\<lambda>(a, b). concat (take (b - a) (drop a (chars q)))) spans"
  have ss: "split_sentences u q = Some ?ss"
    using cut_spans_ordered [OF spans(2)] spans(1) by (simp add: split_sentences_def)
  have last_in: "s + m - 1 < length spans" "s \<le> s + m - 1" using s by simp_all
  have "lo \<le> hi" "hi \<le> length (chars q)"
    using ordered_nth [OF spans(2) last_in(2,1)] lo hi by auto
  moreover have "(\<exists>before after. concat (take (hi - lo) (drop lo (chars q))) = before @ x @ after) \<and> x \<in> set ?ss"
    if x: "x \<in> set (take m (drop s ?ss))" for x
  proof
    from x obtain k where k: "k < m" "x = ?ss ! (s + k)" using s by (auto simp: in_set_conv_nth)
    have i: "s + k < length spans" "s \<le> s + k" "s + k \<le> s + m - 1" using k(1) s(3) by simp_all
    with k show "x \<in> set ?ss" by simp
    let ?a = "fst (spans ! (s + k))" and ?b = "snd (spans ! (s + k))"
    have "x = concat (take (?b - ?a) (drop ?a (chars q)))" using k(2) i(1) by (simp add: case_prod_unfold)
    moreover have "lo \<le> ?a" "?a \<le> ?b" "?b \<le> hi"
      using ordered_nth [OF spans(2) i(2,1)] ordered_nth [OF spans(2) i(3) last_in(1)] by (auto simp: lo hi)
    ultimately show "\<exists>before after. concat (take (hi - lo) (drop lo (chars q))) = before @ x @ after"
      using nested_slice by simp
  qed
  moreover have "\<exists>before after. q = before @ concat (take (hi - lo) (drop lo (chars q))) @ after"
    using slice_infix [of "chars q" lo hi] by (metis concat_chars)
  ultimately show ?thesis using ss s(2) unfolding cut_from_def by auto
qed

lemma draw_passage_result:
  assumes "\<And>ss. split_sentences u q = Some ss \<Longrightarrow> length ss < 2 ^ 63"
  shows "\<exists>drawn rng'. draw_passage u q rng = Some (drawn, rng') \<and>
    (\<forall>p chosen. drawn = Some (p, chosen) \<longrightarrow> cut_from u q p chosen)"
proof -
  obtain spans where spans: "sentence_spans u q = Some spans" "ordered_spans (length (chars q)) spans"
    using sentence_spans_sound by blast
  note cut = cut_spans_ordered [OF spans(2)]
  let ?n = "length spans"
  have few: "?n < 2 ^ 63" using assms cut spans(1) by (auto simp: split_sentences_def)
  show ?thesis
  proof (cases "?n < 2")
    case True
    then show ?thesis by (simp add: draw_passage_def spans(1) cut)
  next
    case False
    obtain n rng2 where n: "rng_range rng 2 3 = Some (n, rng2)" "2 \<le> n" "n \<le> 3"
      using rng_range_bounds [of 2 3 rng] by force
    define m where "m = min (nat n) ?n"
    have m: "0 < m" "m \<le> 3" "m \<le> ?n" using n False by (auto simp: m_def)
    obtain w rng3 where w: "rng_range rng2 0 (int (?n - m)) = Some (w, rng3)" "0 \<le> w" "w \<le> int (?n - m)"
      using rng_range_bounds [of 0 "int (?n - m)" rng2] few by force
    have s: "nat w + m \<le> ?n" using w(2,3) m(3) by simp
    note got = cut_from_spans [OF spans m(1,2) s refl refl]
    have picks: "index_vec spans (nat w) = Some (spans ! nat w)" "index_vec spans (nat w + m - 1) = Some (spans ! (nat w + m - 1))"
      using s m(1) by (simp_all add: index_vec_def)
    show ?thesis
      unfolding draw_passage_def
      using False got s
      by (simp add: spans(1) cut n(1) m_def [symmetric] w(1) [unfolded of_nat_diff [OF m(3)]] of_nat_diff [OF m(3)] picks [unfolded One_nat_def] vec_slice_def)
  qed
qed

definition text_sound :: "unicode \<Rightarrow> source_text \<Rightarrow> bool" where
  "text_sound u src \<longleftrightarrow> text_ok u src \<and> paragraphs src \<noteq> [] \<and> length (paragraphs src) < 2 ^ 63 \<and>
     length (proper_nouns src) < 2 ^ 64 \<and>
     (\<forall>q \<in> set (paragraphs src). \<forall>ss. split_sentences u q = Some ss \<longrightarrow> length ss < 2 ^ 63 \<and> list_all small_numbers ss)"

definition pc_good :: "source_text \<Rightarrow> 'a veto \<Rightarrow> pc_item \<Rightarrow> bool" where
  "pc_good src accept i \<longleftrightarrow>
     (\<exists>q \<in> set (paragraphs src). \<exists>before after. q = before @ pc_passage i @ after) \<and>
     passage_band (word_count (pc_passage i)) \<and> (\<exists>acc. fst (accept (pc_passage i) acc)) \<and>
     (\<exists>s before after. pc_passage i = before @ s @ after \<and> clause_band (word_count s) \<and> built_from (split_whitespace s) (pc_passage i) i)"

lemma shuffled_candidate:
  assumes "rng_shuffle rng (filter ok chosen) = (x # xs, rng')" "length chosen \<le> 3"
  shows "x \<in> set chosen \<and> ok x"
proof -
  have "length (filter ok chosen) < 2 ^ 64" by (rule le_less_trans [OF length_filter_le]) (use assms(2) in simp)
  from set_rng_shuffle [OF this, of rng] assms(1) show ?thesis by auto
qed

lemma pc_build_one_result:
  assumes "text_sound u src"
  shows "\<exists>built rng' acc'. build_one u dbg src seed accept rng acc = Some (built, rng', acc') \<and>
    (\<forall>item. built = Some item \<longrightarrow> pc_good src accept item)"
proof -
  let ?n = "length (paragraphs src)"
  have src: "text_ok u src" "0 < ?n" "?n < 2 ^ 63" "length (proper_nouns src) < 2 ^ 64"
    using assms by (auto simp: text_sound_def)
  then obtain v rng1 where v: "rng_range rng 0 (int ?n - 1) = Some (v, rng1)" "0 \<le> v" "v \<le> int ?n - 1"
    using rng_range_bounds [of 0 "int ?n - 1" rng] by force
  define q where "q = paragraphs src ! nat v"
  have "nat v < ?n" using v src(2) by linarith
  then have q: "q \<in> set (paragraphs src)" "index_vec (paragraphs src) (nat v) = Some q"
    by (simp_all add: q_def index_vec_def)
  obtain drawn rng2 where drawn: "draw_passage u q rng1 = Some (drawn, rng2)"
    "\<forall>p chosen. drawn = Some (p, chosen) \<longrightarrow> cut_from u q p chosen"
    using draw_passage_result [of u q rng1] assms q(1) unfolding text_sound_def by blast
  note start = build_one_def v(1) q(2) drawn(1)
  show ?thesis
  proof (cases drawn)
    case None
    then show ?thesis by (simp add: start)
  next
    case (Some pc)
    obtain p chosen where pc: "pc = (p, chosen)" by (cases pc)
    have cut: "cut_from u q p chosen" using drawn(2) Some pc by simp
    obtain yes acc1 where yes: "accept p acc = (yes, acc1)" by fastforce
    obtain cands rng3 where cands: "rng_shuffle rng2 (filter (\<lambda>x. clause_band (word_count x)) chosen) = (cands, rng3)" by fastforce
    show ?thesis
    proof (cases "passage_band (word_count p) \<and> yes \<and> cands \<noteq> []")
      case False
      then show ?thesis by (cases yes) (auto simp: start Some pc yes cands Let_def)
    next
      case True
      then obtain x xs where x: "cands = x # xs" by (cases cands) auto
      have in_chosen: "x \<in> set chosen" "clause_band (word_count x)"
        using shuffled_candidate [OF cands [unfolded x]] cut by (auto simp: cut_from_def)
      then obtain ss where ss: "split_sentences u q = Some ss" "x \<in> set ss" using cut by (auto simp: cut_from_def)
      have "small_numbers x" "clean_noun ` {w \<in> set (split_whitespace x). is_noun u w} \<subseteq> set (proper_nouns src)"
        using assms src(1) q(1) ss nouns_of_sentences [OF ss(1)] by (auto simp: text_sound_def list_all_iff text_ok_def)
      from build_from_result [OF this src(4), of dbg seed p rng3] obtain built rng4 where
        built: "build_from u dbg src seed p x rng3 = Some (built, rng4)"
          "\<forall>item. built = Some item \<longrightarrow> built_from (split_whitespace x) p item" by blast
      have "\<exists>acc. fst (accept p acc)" using yes True by (metis fst_conv)
      then have "built = Some item \<Longrightarrow> pc_good src accept item" for item
        using built(2) True q(1) in_chosen cut unfolding pc_good_def built_from_def cut_from_def by blast
      then show ?thesis using True by (simp add: start Some pc yes cands x built(1) Let_def)
    qed
  qed
qed

interpretation pc: item_builder "text_sound u src" "build_one u dbg src seed accept" "pc_good src accept"
proof
  assume src: "text_sound u src"
  show "build_one u dbg src seed accept rng acc \<noteq> None" for rng acc
    using pc_build_one_result [OF src, of dbg seed accept rng acc] by auto
  show "pc_good src accept item" if "build_one u dbg src seed accept rng acc = Some (Some item, rng', acc')"
    for rng acc item rng' acc'
    using pc_build_one_result [OF src, of dbg seed accept rng acc] that by auto
qed

section \<open>Properties\<close>

text \<open>The sizes that fit the machine, and numbers of at most eighteen digits.\<close>

definition fits :: "unicode \<Rightarrow> source_text \<Rightarrow> bool" where
  "fits u src \<longleftrightarrow> length (paragraphs src) < 2 ^ 63 \<and> length (proper_nouns src) < 2 ^ 64 \<and>
     list_all (\<lambda>q. case split_sentences u q of None \<Rightarrow> True | Some ss \<Rightarrow> length ss < 2 ^ 63 \<and> list_all small_numbers ss) (paragraphs src)"


text \<open>
  The verifier accepts exactly the items with one stated option: of the options, only the
  marked one occurs in the passage, no other differs from the supporting clause by a word the
  passage also has, and passage and options keep their word bands.
\<close>

theorem passage_verify_iff: "verify u i = Ok () \<longleftrightarrow> pc_valid u i"
  by (rule pc_verify_valid)

text \<open>
  A sentence whose only alterable detail is a name never gives an item: at most one variant is
  rendered where three are needed.
\<close>

theorem names_never_build:
  assumes "find_element u (split_whitespace s) = Some (k, Name n)" "proper_nouns src \<noteq> []" "length (proper_nouns src) < 2 ^ 64"
  shows "\<exists>rng'. build_from u dbg src seed p s rng = Some (None, rng')"
proof -
  obtain vs rng1 where "clause_variants u (split_whitespace s) k (Name n) p (proper_nouns src) rng = Some (vs, rng1)" "length vs \<le> 1"
    using name_variants_one [OF assms(2,3), of u "split_whitespace s" k n p 12 rng] by (auto simp: clause_variants_def)
  then show ?thesis by (simp add: build_from_def assms(1) Let_def)
qed

lemma names_never_build_witness:
  "\<exists>rng'. build_from ascii_unicode id \<lparr>text_label = [], paragraphs = [], proper_nouns = [''Paris'', ''Rome'']\<rparr> 7
    ''He went to Rome.'' ''He went to Rome.'' 7 = Some (None, rng')"
proof -
  have "find_element ascii_unicode (split_whitespace ''He went to Rome.'') = Some (3, Name ''Rome'')" by code_simp
  from names_never_build [OF this, of "\<lparr>text_label = [], paragraphs = [], proper_nouns = [''Paris'', ''Rome'']\<rparr>"]
  show ?thesis by simp
qed

text \<open>
  Altering a quantity of nineteen digits within eleven of the largest \<open>i64\<close> overflows.
\<close>

theorem large_numbers_overflow:
  assumes "2 ^ 63 - 11 \<le> int (digits_val ds)" "int (digits_val ds) < 2 ^ 63"
  shows "clause_variants u clause k (Number ds) p nouns rng = None"
  using assms by (auto simp: clause_variants_def parse_i64_digits_def near_numbers_def checked_i64_def)

lemma large_numbers_overflow_witness:
  "clause_variants ascii_unicode [''9223372036854775807''] 0 (Number ''9223372036854775807'') [] [] 7 = None"
  by (rule large_numbers_overflow) (simp_all add: digits_val_def digit_val_def byte_def)

section \<open>A small text\<close>

definition sample_text :: string where
  "sample_text = ''It has 20 parts and they are all the same. We use it.'' @ [CHR 0x0A]"

lemma pc_sample_parse: "map_option paragraphs (parse_gutenberg ascii_unicode sample_text ''S'') =
    Some [''It has 20 parts and they are all the same. We use it.'']"
  by code_simp

lemma sample_nouns: "map_option (length \<circ> proper_nouns) (parse_gutenberg ascii_unicode sample_text ''S'') = Some 0"
  by code_simp

lemma sample_sentences: "split_sentences ascii_unicode ''It has 20 parts and they are all the same. We use it.'' =
    Some [''It has 20 parts and they are all the same.'', ''We use it.'']"
  by code_simp

lemma sample_small: "list_all small_numbers [''It has 20 parts and they are all the same.'', ''We use it.'']"
  by code_simp


end
