(* ===== verification/Facts.thy ===== *)
theory Facts
  imports Sentences Item_Builder
begin

text \<open>
  General Science items from question-and-answer texts, \<open>crates/vector-questions/src/facts.rs\<close>:
  the parse, the builder, whose distractors are answers to other questions of the same text, and
  the independent verification. The difficulty 0.2 is left out.
\<close>

section \<open>The source\<close>

record faq_entry =
  question :: string
  answer :: string
  full_answer :: string

record faq =
  faq_label :: string
  entries :: "faq_entry list"

definition OPENERS :: "string list" where
  "OPENERS = [''why'', ''what'', ''how'', ''when'', ''where'', ''which'', ''who'', ''does'']"

definition first_word :: "string \<Rightarrow> string" where
  "first_word s = (case split_whitespace s of [] \<Rightarrow> [] | w # _ \<Rightarrow> w)"

definition is_question :: "unicode \<Rightarrow> string \<Rightarrow> bool" where
  "is_question u line =
     (let trimmed = trim_text line in
      if \<not> ends_with trimmed ''?'' \<or> length (chars trimmed) < 12 then False
      else to_lower u (trim_matches (\<lambda>c. \<not> alphabetic u c) (first_word trimmed)) \<in> set OPENERS)"

definition looks_like_prose :: "unicode \<Rightarrow> string \<Rightarrow> bool" where
  "looks_like_prose u a =
     (if list_ex (one_of ''~=_|*[]'') (chars a) then False
      else let letters = filter (alphabetic u) (chars a) in
        if letters = [] then False
        else if length (filter (uppercase u) letters) * 2 > length letters then False
        else 5 \<le> word_count a)"

definition faq_body :: "string \<Rightarrow> string option" where
  "faq_body t = cut_body (find_sub t ''*** START OF THE PROJECT GUTENBERG'') (rfind_sub t ''*** END OF THE PROJECT GUTENBERG'') t"

definition flush :: "unicode \<Rightarrow> string option \<Rightarrow> string \<Rightarrow> faq_entry list \<Rightarrow> faq_entry list option" where
  "flush u asked said out =
     (case asked of
        None \<Rightarrow> Some out
      | Some q \<Rightarrow> do {
          sentences \<leftarrow> split_sentences u said;
          Some (case sentences of
            [] \<Rightarrow> out
          | first # _ \<Rightarrow>
              (let cleaned = collapse first in
               if looks_like_prose u cleaned
               then out @ [\<lparr>question = q, answer = cleaned, full_answer = collapse said\<rparr>] else out))
        })"

text \<open>The loop over the lines: the open question, its answer so far, and the entries.\<close>

fun faq_loop :: "unicode \<Rightarrow> string list \<Rightarrow> string option \<Rightarrow> string \<Rightarrow> faq_entry list \<Rightarrow> faq_entry list option" where
  "faq_loop u [] asked said out = flush u asked said out"
| "faq_loop u (line # ls) asked said out =
     (let trimmed = trim_text line in
      if is_question u trimmed then do {
        out \<leftarrow> flush u asked said out;
        faq_loop u ls (Some (collapse trimmed)) [] out
      }
      else if asked \<noteq> None \<and> trimmed \<noteq> []
      then faq_loop u ls asked ((if said \<noteq> [] then said @ '' '' else said) @ trimmed) out
      else faq_loop u ls asked said out)"

fun retain_new :: "('a \<Rightarrow> string) \<Rightarrow> string set \<Rightarrow> 'a list \<Rightarrow> 'a list" where
  "retain_new f seen [] = []"
| "retain_new f seen (x # xs) = (if f x \<notin> seen then x # retain_new f (insert (f x) seen) xs else retain_new f seen xs)"

definition parse_faq :: "unicode \<Rightarrow> string \<Rightarrow> string \<Rightarrow> faq option" where
  "parse_faq u t label = do {
     b \<leftarrow> faq_body t;
     es \<leftarrow> faq_loop u (text_lines b) None [] [];
     Some \<lparr>faq_label = label, entries = retain_new (\<lambda>e. fold_text u (question e)) {} es\<rparr>
   }"

definition says :: "unicode \<Rightarrow> faq \<Rightarrow> string \<Rightarrow> string \<Rightarrow> bool" where
  "says u f q a \<longleftrightarrow> list_ex (\<lambda>e. fold_text u (question e) = fold_text u q \<and> fold_text u (answer e) = fold_text u a) (entries f)"

definition question_for :: "unicode \<Rightarrow> faq \<Rightarrow> string \<Rightarrow> faq_entry option" where
  "question_for u f a = List.find (\<lambda>e. fold_text u (answer e) = fold_text u a) (entries f)"

section \<open>Items\<close>

record fact_item =
  fact_subtest :: string
  fact_objective_id :: string
  fact_prompt :: string
  fact_options :: "string list"
  fact_correct_index :: nat
  fact_rationales :: "(nat \<times> string) list"
  fact_supporting_answer :: string
  fact_source_label :: string
  fact_seed :: "64 word"

definition fact_canonical :: "unicode \<Rightarrow> fact_item \<Rightarrow> string" where
  "fact_canonical u i = fact_subtest i @ [CHR 0x01] @ fold_text u (fact_prompt i) @ [CHR 0x01] @ fold_text u (fact_supporting_answer i)"

definition fact_hash :: "unicode \<Rightarrow> (string \<Rightarrow> string) \<Rightarrow> fact_item \<Rightarrow> string" where
  "fact_hash u sha i = as_str (hash_of_text sha (fact_canonical u i))"

definition fact_explanation :: "fact_item \<Rightarrow> string" where
  "fact_explanation i = fact_source_label i @ '' answers this: '' @ [CHR 0x22] @ fact_supporting_answer i @ [CHR 0x22]"

datatype fact_failure =
    Blank string
  | AnswerNotFromSource string
  | DistractorNotFromSource string
  | TooFewOptions nat
  | OptionLength string nat
  | CorrectIndexOutOfRange nat nat
  | DuplicateOption string
  | MissingRationale nat
  | NotAQuestion string

section \<open>Building\<close>

text \<open>Options with their rationales: the correct one has none.\<close>

fun gather :: "unicode \<Rightarrow> string \<Rightarrow> faq_entry list \<Rightarrow> (string \<times> string option) list \<Rightarrow> (string \<times> string option) list" where
  "gather u label [] opts = opts"
| "gather u label (e # es) opts =
     (if length opts = 4 then opts
      else if list_ex (\<lambda>(existing, _). fold_text u existing = fold_text u (answer e)) opts then gather u label es opts
      else gather u label es (opts @ [(answer e, Some (''This answers a different question in '' @ label @ '': '' @
        [CHR 0x22] @ question e @ [CHR 0x22] @ ''.''))]))"

type_synonym 'a veto = "fact_item \<Rightarrow> 'a \<Rightarrow> bool \<times> 'a"

definition usable :: "nat \<Rightarrow> nat \<Rightarrow> faq \<Rightarrow> faq_entry list" where
  "usable min_words max_words f =
     filter (\<lambda>e. min_words \<le> word_count (answer e) \<and> word_count (answer e) \<le> max_words) (entries f)"

definition make_item :: "faq \<Rightarrow> string \<Rightarrow> 64 word \<Rightarrow> faq_entry \<Rightarrow> (string \<times> string option) list \<Rightarrow> nat \<Rightarrow> fact_item" where
  "make_item f subtest seed correct opts k =
     \<lparr>fact_subtest = subtest, fact_objective_id = ''OBJ-'' @ subtest @ ''-EXPLAIN-01'',
      fact_prompt = question correct, fact_options = map fst opts, fact_correct_index = k,
      fact_rationales = why_map 0 opts [], fact_supporting_answer = answer correct,
      fact_source_label = faq_label f, fact_seed = seed\<rparr>"

definition build_one :: "unicode \<Rightarrow> faq \<Rightarrow> string \<Rightarrow> 64 word \<Rightarrow> nat \<Rightarrow> nat \<Rightarrow> 'a veto \<Rightarrow> rng \<Rightarrow> 'a \<Rightarrow> (fact_item option \<times> rng \<times> 'a) option" where
  "build_one u f subtest seed min_words max_words accept rng acc = do {
     let us = usable min_words max_words f;
     (v, rng) \<leftarrow> rng_range rng 0 (int (length us) - 1);
     correct \<leftarrow> index_vec us (nat v);
     let (candidates, rng) = rng_shuffle rng (filter (\<lambda>e. fold_text u (question e) \<noteq> fold_text u (question correct)) us);
     let opts = gather u (faq_label f) candidates [(answer correct, None)];
     if length opts \<noteq> 4 then Some (None, rng, acc)
     else let (opts, rng) = rng_shuffle rng opts in do {
       k \<leftarrow> find_index (\<lambda>(_, why). why = None) opts;
       let item = make_item f subtest seed correct opts k;
       let (yes, acc) = accept item acc;
       Some (if yes then Some item else None, rng, acc)
     }
   }"

definition build_items :: "unicode \<Rightarrow> (string \<Rightarrow> string) \<Rightarrow> faq \<Rightarrow> string \<Rightarrow> nat \<Rightarrow> 64 word \<Rightarrow> nat \<Rightarrow> nat \<Rightarrow> 'a veto \<Rightarrow> 'a \<Rightarrow>
    (fact_item list \<times> 'a) option" where
  "build_items u sha f subtest wanted seed min_words max_words accept acc =
     (if length (usable min_words max_words f) < 4 then Some ([], acc)
      else build_loop (build_one u f subtest seed min_words max_words accept) (fact_hash u sha) wanted (attempts_for 12 wanted) seed acc {} [])"

section \<open>Verification\<close>

fun verify_options :: "unicode \<Rightarrow> faq \<Rightarrow> fact_item \<Rightarrow> nat \<Rightarrow> string list \<Rightarrow> string list \<Rightarrow> (unit, fact_failure) result" where
  "verify_options u f i n earlier [] = Ok ()"
| "verify_options u f i n earlier (opt # opts) =
     (if trim_text opt = [] then Err (Blank ''option'')
      else if list_ex (\<lambda>e. fold_text u e = fold_text u opt) earlier then Err (DuplicateOption opt)
      else if n = fact_correct_index i then verify_options u f i (Suc n) (earlier @ [opt]) opts
      else case question_for u f opt of
          None \<Rightarrow> Err (DistractorNotFromSource opt)
        | Some e \<Rightarrow>
            if fold_text u (question e) = fold_text u (fact_prompt i) then Err (DistractorNotFromSource opt)
            else if map_of (fact_rationales i) n = None then Err (MissingRationale n)
            else verify_options u f i (Suc n) (earlier @ [opt]) opts)"

definition verify :: "unicode \<Rightarrow> fact_item \<Rightarrow> faq \<Rightarrow> (unit, fact_failure) result" where
  "verify u i f =
     (if trim_text (fact_prompt i) = [] then Err (Blank ''prompt'')
      else if \<not> is_question u (fact_prompt i) then Err (NotAQuestion (fact_prompt i))
      else if trim_text (fact_supporting_answer i) = [] then Err (Blank ''supporting answer'')
      else if length (fact_options i) < 2 then Err (TooFewOptions (length (fact_options i)))
      else if length (fact_options i) \<le> fact_correct_index i
      then Err (CorrectIndexOutOfRange (fact_correct_index i) (length (fact_options i)))
      else if fold_text u (fact_options i ! fact_correct_index i) \<noteq> fold_text u (fact_supporting_answer i)
      then Err (AnswerNotFromSource (fact_options i ! fact_correct_index i))
      else if \<not> says u f (fact_prompt i) (fact_options i ! fact_correct_index i)
      then Err (AnswerNotFromSource (fact_options i ! fact_correct_index i))
      else verify_options u f i 0 [] (fact_options i))"

section \<open>What the parse leaves\<close>

definition entry_ok :: "faq_entry \<Rightarrow> bool" where
  "entry_ok e \<longleftrightarrow> trim_text (question e) \<noteq> [] \<and> trim_text (answer e) \<noteq> []"

definition faq_ok :: "unicode \<Rightarrow> faq \<Rightarrow> bool" where
  "faq_ok u f \<longleftrightarrow> list_all entry_ok (entries f) \<and> distinct (map (\<lambda>e. fold_text u (question e)) (entries f))"

lemma question_trim: "is_question u s \<Longrightarrow> trim_text s \<noteq> []"
  by (auto simp: is_question_def Let_def ends_with_def split: if_splits)

lemma prose_trim: "looks_like_prose u a \<Longrightarrow> trim_text a \<noteq> []"
  by (rule word_count_trim) (auto simp: looks_like_prose_def Let_def split: if_splits)

lemma fact_flush_ok:
  assumes "list_all entry_ok out" "\<And>q. asked = Some q \<Longrightarrow> trim_text q \<noteq> []"
  shows "\<exists>out'. flush u asked said out = Some out' \<and> list_all entry_ok out'"
proof (cases asked)
  case (Some q)
  obtain ss where "split_sentences u said = Some ss" using split_sentences_infix by blast
  with assms Some show ?thesis by (auto simp: flush_def Let_def entry_ok_def prose_trim split: list.split)
qed (use assms in \<open>simp add: flush_def\<close>)

lemma faq_loop_ok:
  "list_all entry_ok out \<Longrightarrow> (\<forall>q. asked = Some q \<longrightarrow> trim_text q \<noteq> []) \<Longrightarrow>
    \<exists>es. faq_loop u ls asked said out = Some es \<and> list_all entry_ok es"
proof (induction ls arbitrary: asked said out)
  case Nil
  with fact_flush_ok [of out asked u said] show ?case by simp
next
  case (Cons line ls)
  let ?t = "trim_text line"
  show ?case
  proof (cases "is_question u ?t")
    case True
    obtain out' where out': "flush u asked said out = Some out'" "list_all entry_ok out'"
      using fact_flush_ok [of out asked u said] Cons.prems by blast
    have "trim_text (collapse ?t) \<noteq> []"
      using question_trim [OF True] collapse_trim trim_text_Nil_iff by blast
    with Cons.IH [OF out'(2), of "Some (collapse ?t)" "[]"] out'(1) True show ?thesis by simp
  next
    case False
    with Cons.IH [OF Cons.prems] show ?thesis by (simp add: Let_def)
  qed
qed

lemma set_retain_new: "set (retain_new f seen xs) \<subseteq> set xs"
  by (induction f seen xs rule: retain_new.induct) auto

lemma distinct_retain_new: "distinct (map f (retain_new f seen xs)) \<and> f ` set (retain_new f seen xs) \<inter> seen = {}"
  by (induction f seen xs rule: retain_new.induct) auto

lemma parse_faq_ok:
  "(parse_faq u t label = None \<longleftrightarrow> faq_body t = None) \<and> (\<forall>f. parse_faq u t label = Some f \<longrightarrow> faq_ok u f)"
proof (cases "faq_body t")
  case (Some b)
  obtain es where es: "faq_loop u (text_lines b) None [] [] = Some es" "list_all entry_ok es"
    using faq_loop_ok [of "[]" None u "text_lines b" "[]"] by auto
  let ?f = "\<lambda>e. fold_text u (question e)"
  have "faq_ok u \<lparr>faq_label = label, entries = retain_new ?f {} es\<rparr>"
    using es(2) set_retain_new [of ?f "{}" es] distinct_retain_new [of ?f "{}" es] by (auto simp: faq_ok_def list_all_iff)
  with Some es(1) show ?thesis by (simp add: parse_faq_def)
qed (simp add: parse_faq_def)

section \<open>What an accepted item is\<close>

definition fact_valid :: "unicode \<Rightarrow> fact_item \<Rightarrow> faq \<Rightarrow> bool" where
  "fact_valid u i f \<longleftrightarrow>
     is_question u (fact_prompt i) \<and> trim_text (fact_supporting_answer i) \<noteq> [] \<and>
     2 \<le> length (fact_options i) \<and> fact_correct_index i < length (fact_options i) \<and>
     fold_text u (fact_options i ! fact_correct_index i) = fold_text u (fact_supporting_answer i) \<and>
     says u f (fact_prompt i) (fact_options i ! fact_correct_index i) \<and>
     (\<forall>opt \<in> set (fact_options i). trim_text opt \<noteq> []) \<and> distinct (map (fold_text u) (fact_options i)) \<and>
     (\<forall>k < length (fact_options i). k \<noteq> fact_correct_index i \<longrightarrow> k \<in> fst ` set (fact_rationales i) \<and>
       (\<exists>e. question_for u f (fact_options i ! k) = Some e \<and> fold_text u (question e) \<noteq> fold_text u (fact_prompt i)))"

definition distractor_ok :: "unicode \<Rightarrow> faq \<Rightarrow> fact_item \<Rightarrow> nat \<Rightarrow> string \<Rightarrow> bool" where
  "distractor_ok u f i k opt \<longleftrightarrow> k \<in> fst ` set (fact_rationales i) \<and>
     (\<exists>e. question_for u f opt = Some e \<and> fold_text u (question e) \<noteq> fold_text u (fact_prompt i))"

lemma fact_verify_options_iff:
  "distinct (map (fold_text u) earlier) \<Longrightarrow> verify_options u f i n earlier opts = Ok () \<longleftrightarrow>
    (\<forall>opt \<in> set opts. trim_text opt \<noteq> []) \<and> distinct (map (fold_text u) (earlier @ opts)) \<and>
    (\<forall>k < length opts. n + k \<noteq> fact_correct_index i \<longrightarrow> distractor_ok u f i (n + k) (opts ! k))"
proof (induction u f i n earlier opts rule: verify_options.induct)
  case (2 u f i n earlier opt opts)
  have shift: "(\<forall>k < length (opt # opts). n + k \<noteq> fact_correct_index i \<longrightarrow> distractor_ok u f i (n + k) ((opt # opts) ! k)) \<longleftrightarrow>
      (n \<noteq> fact_correct_index i \<longrightarrow> distractor_ok u f i n opt) \<and>
      (\<forall>k < length opts. Suc n + k \<noteq> fact_correct_index i \<longrightarrow> distractor_ok u f i (Suc n + k) (opts ! k))"
    by (auto simp: less_Suc_eq_0_disj all_conj_distrib)
  have keys: "map_of (fact_rationales i) n = None \<longleftrightarrow> n \<notin> fst ` set (fact_rationales i)" by (rule map_of_eq_None_iff)
  show ?case unfolding shift using 2
    by (auto simp: repeats_iff distractor_ok_def keys simp del: not_None_eq split: option.splits)
qed simp

lemma fact_verify_valid: "verify u i f = Ok () \<longleftrightarrow> fact_valid u i f"
  unfolding verify_def fact_valid_def
  using fact_verify_options_iff [of u "[]" f i 0 "fact_options i"] question_trim [of u "fact_prompt i"]
  by (auto simp: distractor_ok_def not_less not_le)

section \<open>What the builder returns\<close>

text \<open>An option that answers another question of the text.\<close>

definition fits_question :: "unicode \<Rightarrow> faq \<Rightarrow> faq_entry \<Rightarrow> string \<Rightarrow> bool" where
  "fits_question u f c t \<longleftrightarrow> trim_text t \<noteq> [] \<and>
     (\<exists>e \<in> set (entries f). answer e = t \<and> (e = c \<or> fold_text u (question e) \<noteq> fold_text u (question c)))"

lemma gather_ok:
  "options_ok (fold_text u) (fits_question u f c) (answer c) (marks opts) \<Longrightarrow>
    \<forall>e \<in> set es. e \<in> set (entries f) \<and> entry_ok e \<and> fold_text u (question e) \<noteq> fold_text u (question c) \<Longrightarrow> length opts \<le> 4 \<Longrightarrow>
    options_ok (fold_text u) (fits_question u f c) (answer c) (marks (gather u label es opts)) \<and> length (gather u label es opts) \<le> 4"
proof (induction u label es opts rule: gather.induct)
  case (2 u label e es opts)
  let ?why = "''This answers a different question in '' @ label @ '': '' @ [CHR 0x22] @ question e @ [CHR 0x22] @ ''.''"
  show ?case
  proof (cases "length opts = 4 \<or> list_ex (\<lambda>(existing, _). fold_text u existing = fold_text u (answer e)) opts")
    case True
    with 2 show ?thesis by auto
  next
    case False
    have "\<not> list_ex (\<lambda>(existing, _). fold_text u existing = fold_text u (answer e)) (marks opts)"
      using False by (auto simp: marks_def list_ex_iff)
    moreover have "fits_question u f c (answer e)" using 2(4) by (auto simp: fits_question_def entry_ok_def)
    ultimately have "options_ok (fold_text u) (fits_question u f c) (answer c) (marks opts @ [(answer e, False)])"
      using options_ok_add [OF 2(3)] by blast
    then have "options_ok (fold_text u) (fits_question u f c) (answer c) (marks (opts @ [(answer e, Some ?why)]))"
      by (simp add: marks_def)
    with 2(2) False 2(4,5) show ?thesis by simp
  qed
qed simp

lemma only_question:
  assumes f: "faq_ok u f" and c: "c \<in> set (entries f)" and e: "e \<in> set (entries f)" "fold_text u (question e) = fold_text u (question c)"
  shows "e = c"
  using assms by (auto simp: faq_ok_def distinct_map dest: inj_onD)

lemma answer_elsewhere:
  assumes f: "faq_ok u f" and c: "c \<in> set (entries f)" and t: "fits_question u f c t" "fold_text u t \<noteq> fold_text u (answer c)"
  shows "\<exists>e. question_for u f t = Some e \<and> fold_text u (question e) \<noteq> fold_text u (question c)"
proof -
  from t obtain d where "d \<in> set (entries f)" "answer d = t" by (auto simp: fits_question_def)
  then obtain e where e: "question_for u f t = Some e"
    using find_None_set [of "\<lambda>e. fold_text u (answer e) = fold_text u t" "entries f"] by (cases "question_for u f t") (auto simp: question_for_def)
  then have "e \<in> set (entries f)" "fold_text u (answer e) = fold_text u t"
    using find_Some_set unfolding question_for_def by fast+
  then have "fold_text u (question e) \<noteq> fold_text u (question c)"
    using only_question [OF f c] t(2) by metis
  with e show ?thesis by blast
qed

definition fact_good :: "unicode \<Rightarrow> faq \<Rightarrow> 'a veto \<Rightarrow> fact_item \<Rightarrow> bool" where
  "fact_good u f accept i \<longleftrightarrow> (is_question u (fact_prompt i) \<longrightarrow> verify u i f = Ok ()) \<and> length (fact_options i) = 4 \<and> fact_correct_index i < 4 \<and>
     (\<exists>e \<in> set (entries f). fact_prompt i = question e \<and> fact_supporting_answer i = answer e) \<and> (\<exists>acc. fst (accept i acc))"

lemma fact_built_valid:
  assumes f: "faq_ok u f" and c: "c \<in> set (entries f)"
    and opts: "options_ok (fold_text u) (fits_question u f c) (answer c) (marks opts)" "length opts = 4"
    and i: "fact_prompt i = question c" "fact_options i = map fst opts" "find_index (\<lambda>(_, why). why = None) opts = Some k"
      "fact_correct_index i = k" "fact_rationales i = why_map 0 opts []" "fact_supporting_answer i = answer c"
    and q: "is_question u (question c)"
  shows "verify u i f = Ok ()"
proof -
  obtain j where j: "correct_position (marks opts) = Some j" "j < length opts" "map fst opts ! j = answer c"
    "fst ` set (rationales id (marks opts)) = {l. l < length opts \<and> l \<noteq> j}"
    using options_ok_position [OF opts(1), of id] by auto
  have jk: "j = k" using j(1) i(3) by (simp add: correct_marks)
  have plain: "distinct (map (fold_text u) (map fst opts))" "\<forall>t \<in> set (map fst opts). fits_question u f c t"
    using options_ok_plain [OF opts(1)] by simp_all
  have keys: "fst ` set (why_map 0 opts []) = {l. l < length opts \<and> l \<noteq> k}"
    using why_map_keys [of opts] j(4) rationales_keys [of id "marks opts"] jk by simp
  have other: "\<exists>e. question_for u f (map fst opts ! l) = Some e \<and> fold_text u (question e) \<noteq> fold_text u (question c)"
    if l: "l < length opts" "l \<noteq> k" for l
  proof (rule answer_elsewhere [OF f c])
    show "fits_question u f c (map fst opts ! l)" using plain(2) l(1) by auto
    show "fold_text u (map fst opts ! l) \<noteq> fold_text u (answer c)"
      using nth_eq_iff_index_eq [OF plain(1), of l k] l j(2,3) jk by auto
  qed
  have "entry_ok c" using f c by (auto simp: faq_ok_def list_all_iff)
  moreover have "says u f (question c) (answer c)" using c by (auto simp: says_def list_ex_iff)
  moreover have "\<forall>t \<in> set (map fst opts). trim_text t \<noteq> []" using plain(2) by (simp add: fits_question_def)
  ultimately have "fact_valid u i f"
    unfolding fact_valid_def i(1,2,4,5,6) keys using q opts(2) j(2,3) jk plain(1) other by (auto simp: entry_ok_def)
  then show ?thesis by (simp add: fact_verify_valid)
qed

definition faq_sound :: "unicode \<Rightarrow> nat \<Rightarrow> nat \<Rightarrow> faq \<Rightarrow> bool" where
  "faq_sound u min_words max_words f \<longleftrightarrow> faq_ok u f \<and> usable min_words max_words f \<noteq> [] \<and> length (entries f) < 2 ^ 63"

lemma fact_build_one_result:
  assumes "faq_sound u min_words max_words f"
  shows "\<exists>built rng' acc'. build_one u f subtest seed min_words max_words accept rng acc = Some (built, rng', acc') \<and>
    (\<forall>item. built = Some item \<longrightarrow> fact_good u f accept item)"
proof -
  let ?us = "usable min_words max_words f"
  let ?n = "length ?us"
  have us: "set ?us \<subseteq> set (entries f)" "?n \<le> length (entries f)" by (auto simp: usable_def)
  have f: "faq_ok u f" "0 < ?n" "?n < 2 ^ 63" using assms us(2) by (auto simp: faq_sound_def)
  then obtain v rng1 where v: "rng_range rng 0 (int ?n - 1) = Some (v, rng1)" "0 \<le> v" "v \<le> int ?n - 1"
    using rng_range_bounds [of 0 "int ?n - 1" rng] by force
  define c where "c = ?us ! nat v"
  have "nat v < ?n" using v f(2) by linarith
  then have c: "c \<in> set (entries f)" "index_vec ?us (nat v) = Some c"
    using us(1) nth_mem by (auto simp: c_def index_vec_def)
  let ?others = "filter (\<lambda>e. fold_text u (question e) \<noteq> fold_text u (question c)) ?us"
  obtain cands rng2 where cands: "rng_shuffle rng1 ?others = (cands, rng2)" by fastforce
  have "length ?others < 2 ^ 64" by (rule le_less_trans [OF length_filter_le]) (use f(3) in simp)
  from set_rng_shuffle [OF this, of rng1] have cands_ok:
    "\<forall>e \<in> set cands. e \<in> set (entries f) \<and> entry_ok e \<and> fold_text u (question e) \<noteq> fold_text u (question c)"
    using f(1) us(1) by (auto simp: cands faq_ok_def list_all_iff)
  let ?opts = "gather u (faq_label f) cands [(answer c, None)]"
  have "entry_ok c" using f(1) c(1) by (auto simp: faq_ok_def list_all_iff)
  then have "fits_question u f c (answer c)" using c(1) by (auto simp: fits_question_def entry_ok_def)
  then have "options_ok (fold_text u) (fits_question u f c) (answer c) (marks [(answer c, None)])"
    unfolding marks_def by (simp add: options_ok_start)
  from gather_ok [OF this cands_ok, of "faq_label f"] have
    gathered: "options_ok (fold_text u) (fits_question u f c) (answer c) (marks ?opts)" by simp
  note start = build_one_def v(1) c(2) cands Let_def
  show ?thesis
  proof (cases "length ?opts = 4")
    case False
    then show ?thesis by (simp add: start)
  next
    case True
    obtain opts rng3 where shuffled: "rng_shuffle rng2 ?opts = (opts, rng3)" by fastforce
    have opts: "options_ok (fold_text u) (fits_question u f c) (answer c) (marks opts)" "length opts = 4"
      using gathered marks_shuffle [of ?opts "fold_text u" "fits_question u f c" "answer c" rng2] length_rng_shuffle [of ?opts rng2] True by (simp_all add: shuffled)
    obtain k where k: "find_index (\<lambda>(_, why). why = None) opts = Some k"
      using options_ok_position [OF opts(1)] by (metis correct_marks)
    define item where "item = make_item f subtest seed c opts k"
    obtain yes acc' where yes: "accept item acc = (yes, acc')" by fastforce
    have "is_question u (question c) \<Longrightarrow> verify u item f = Ok ()"
      by (rule fact_built_valid [OF f(1) c(1) opts]) (simp_all add: item_def make_item_def k)
    then have good: "yes \<Longrightarrow> fact_good u f accept item"
      using c(1) opts(2) yes find_index_Some [OF k] unfolding fact_good_def by (auto simp: item_def make_item_def intro: exI [of _ acc])
    show ?thesis using True good by (simp add: start shuffled k item_def [symmetric] yes)
  qed
qed

interpretation fact: item_builder "faq_sound u min_words max_words f" "build_one u f subtest seed min_words max_words accept" "fact_good u f accept"
proof
  assume f: "faq_sound u min_words max_words f"
  show "build_one u f subtest seed min_words max_words accept rng acc \<noteq> None" for rng acc
    using fact_build_one_result [OF f, of subtest seed accept rng acc] by auto
  show "fact_good u f accept item"
    if "build_one u f subtest seed min_words max_words accept rng acc = Some (Some item, rng', acc')" for rng acc item rng' acc'
    using fact_build_one_result [OF f, of subtest seed accept rng acc] that by auto
qed

section \<open>Properties\<close>


text \<open>
  The verifier accepts exactly the items whose prompt is a question the text answers with the
  marked option and whose other options answer, in the same text, other questions.
\<close>

theorem fact_verify_iff: "verify u i f = Ok () \<longleftrightarrow> fact_valid u i f"
  by (rule fact_verify_valid)

section \<open>A small text\<close>

text \<open>
  Two lines that both are questions; the second is one no longer once its white space is
  collapsed, so an item with it as prompt is refused.
\<close>

definition sample_faq :: string where
  "sample_faq = ''Why do we count?'' @ [CHR 0x0A] @ ''We have ten fingers to count on.'' @ [CHR 0x0A] @
     ''What     is?'' @ [CHR 0x0A] @ ''All that we see is here.'' @ [CHR 0x0A]"

lemma fact_sample_parse: "map_option (\<lambda>f. map (\<lambda>e. (question e, answer e)) (entries f)) (parse_faq ascii_unicode sample_faq ''S'') =
    Some [(''Why do we count?'', ''We have ten fingers to count on.''), (''What is?'', ''All that we see is here.'')]"
  by code_simp

lemma collapsed_question_refused: "is_question ascii_unicode ''What     is?'' \<and> \<not> is_question ascii_unicode ''What is?''"
  by code_simp


end
