(* ===== verification/Dictionary.thy ===== *)
theory Dictionary
  imports Text_Tools
begin

text \<open>
  The dictionary of \<open>crates/vector-questions/src/dictionary.rs\<close>: the parse of Webster's text into
  headwords and entries, the test whether two words are linked by a definition, and the test
  whether a token is a scan misreading. A \<open>HashMap\<close> is a map; what iterates one in its
  arbitrary order (\<open>definition_vocabulary\<close>) is left out.
\<close>

type_synonym dictionary = "string \<rightharpoonup> string"

section \<open>The parse\<close>

definition looks_like_headword :: "string \<Rightarrow> bool" where
  "looks_like_headword line \<longleftrightarrow>
     (case chars line of
        [] \<Rightarrow> False
      | c # _ \<Rightarrow> \<not> one_of ('' '' @ [CHR 0x09]) c \<and> \<not> starts_with line ''Defn:'' \<and> \<not> ascii_digit c \<and> ascii_alphabetic c)"

definition leading_word :: "unicode \<Rightarrow> string \<Rightarrow> string option" where
  "leading_word u line =
     (let w = concat (takeWhile ascii_alphabetic (chars line)) in
      if length w < 2 then None else Some (to_lower u w))"

definition def_words :: "unicode \<Rightarrow> string \<Rightarrow> string list" where
  "def_words u t = map (to_lower u) (filter (\<lambda>w. 2 \<le> length w) (split_text (\<lambda>c. \<not> ascii_alphabetic c) t))"

definition or_insert :: "'k \<Rightarrow> 'v \<Rightarrow> ('k \<rightharpoonup> 'v) \<Rightarrow> ('k \<rightharpoonup> 'v)" where
  "or_insert k v m = (if m k = None then m(k \<mapsto> v) else m)"

record webster =
  started :: bool
  open_entry :: "(string \<times> string) option"
  previous_blank :: bool
  found :: dictionary

definition close_entry :: "(string \<times> string) option \<Rightarrow> dictionary \<Rightarrow> dictionary" where
  "close_entry e d = (case e of None \<Rightarrow> d | Some (head, entry) \<Rightarrow> or_insert head entry d)"

definition is_start :: "string \<Rightarrow> bool" where
  "is_start line \<longleftrightarrow> contains line ''START OF'' \<and> contains line ''PROJECT GUTENBERG''"

definition is_end :: "string \<Rightarrow> bool" where
  "is_end line \<longleftrightarrow> contains line ''END OF'' \<and> contains line ''PROJECT GUTENBERG''"

definition read_line :: "unicode \<Rightarrow> string \<Rightarrow> webster \<Rightarrow> webster" where
  "read_line u line s =
     (let candidate = (if looks_like_headword line then leading_word u line else None);
          continuing = (case (open_entry s, candidate) of (Some (head, _), Some w) \<Rightarrow> head = w | _ \<Rightarrow> False);
          starts_new = (candidate \<noteq> None \<and> (open_entry s = None \<or> previous_blank s \<and> \<not> continuing));
          s = (if starts_new then s\<lparr>found := close_entry (open_entry s) (found s), open_entry := map_option (\<lambda>w. (w, [])) candidate\<rparr> else s)
      in s\<lparr>open_entry := map_option (\<lambda>(head, entry). (head, entry @ line @ '' '')) (open_entry s),
           previous_blank := trim_text line = []\<rparr>)"

fun read_lines :: "unicode \<Rightarrow> string list \<Rightarrow> webster \<Rightarrow> webster" where
  "read_lines u [] s = s"
| "read_lines u (raw # raws) s =
     (let line = trim_end_matches (one_of [CHR 0x0D, CHR 0x0A]) raw in
      if \<not> started s then read_lines u raws (if is_start line then s\<lparr>started := True\<rparr> else s)
      else if is_end line then s
      else read_lines u raws (read_line u line s))"

definition webster_start :: webster where
  "webster_start = \<lparr>started = False, open_entry = None, previous_blank = True, found = Map.empty\<rparr>"

definition parse_webster :: "unicode \<Rightarrow> string \<Rightarrow> dictionary" where
  "parse_webster u t =
     (let s = read_lines u (text_lines t) webster_start in close_entry (open_entry s) (found s))"

section \<open>Lookups\<close>

definition define_word :: "unicode \<Rightarrow> dictionary \<Rightarrow> string \<Rightarrow> string option" where
  "define_word u d w = d (to_lower u (trim_text w))"

definition mentions :: "unicode \<Rightarrow> dictionary \<Rightarrow> string \<Rightarrow> string \<Rightarrow> bool" where
  "mentions u d w other =
     (case define_word u d w of
        None \<Rightarrow> False
      | Some t \<Rightarrow> list_ex (\<lambda>token. token = to_lower u (trim_text other)) (def_words u t))"

definition are_linked :: "unicode \<Rightarrow> dictionary \<Rightarrow> string \<Rightarrow> string \<Rightarrow> bool" where
  "are_linked u d a b \<longleftrightarrow> mentions u d a b \<or> mentions u d b a"

definition covers :: "unicode \<Rightarrow> dictionary \<Rightarrow> string \<Rightarrow> bool" where
  "covers u d w \<longleftrightarrow> define_word u d w \<noteq> None"

definition definitions_for :: "unicode \<Rightarrow> dictionary \<Rightarrow> string list \<Rightarrow> dictionary" where
  "definitions_for u d ws = map_of (rev (List.map_filter (\<lambda>w. map_option (\<lambda>t. (w, t)) (define_word u d w)) ws))"

section \<open>Misreadings\<close>

definition SUFFIXES :: "string list" where
  "SUFFIXES = [''s'', ''es'', ''ed'', ''ing'', ''ly'']"

definition covers_including_inflections :: "unicode \<Rightarrow> dictionary \<Rightarrow> string \<Rightarrow> bool" where
  "covers_including_inflections u d w \<longleftrightarrow> covers u d w \<or>
     list_ex (\<lambda>s. case strip_suffix w s of None \<Rightarrow> False | Some stem \<Rightarrow> 3 \<le> length stem \<and> covers u d stem) SUFFIXES"

definition letters :: string where
  "letters = ''abcdefghijklmnopqrstuvwxyz''"

text \<open>The two loops over the positions: the characters before the position, and from it on.\<close>

fun try_substitutions :: "unicode \<Rightarrow> dictionary \<Rightarrow> string list \<Rightarrow> string list \<Rightarrow> bool" where
  "try_substitutions u d before [] = False"
| "try_substitutions u d before (c # after) =
     (if list_ex (\<lambda>l. [l] \<noteq> c \<and> covers_including_inflections u d (concat before @ [l] @ concat after)) letters then True
      else try_substitutions u d (before @ [c]) after)"

fun try_deletions :: "unicode \<Rightarrow> dictionary \<Rightarrow> string list \<Rightarrow> string list \<Rightarrow> bool" where
  "try_deletions u d before [] = False"
| "try_deletions u d before (c # after) =
     (let candidate = concat before @ concat after in
      if 4 \<le> length candidate \<and> covers_including_inflections u d candidate then True
      else try_deletions u d (before @ [c]) after)"

definition looks_like_misreading :: "unicode \<Rightarrow> dictionary \<Rightarrow> string \<Rightarrow> bool" where
  "looks_like_misreading u d token =
     (let lower = to_lower u token; cs = chars lower in
      if length cs < 5 \<or> covers_including_inflections u d lower then False
      else if try_substitutions u d [] cs then True
      else try_deletions u d [] cs)"

section \<open>What the parse keeps\<close>

text \<open>A headword is the lower-case form of a run of at least two ASCII letters.\<close>

definition is_headword :: "unicode \<Rightarrow> string \<Rightarrow> bool" where
  "is_headword u w \<longleftrightarrow> (\<exists>line. leading_word u line = Some w)"

definition webster_ok :: "unicode \<Rightarrow> webster \<Rightarrow> bool" where
  "webster_ok u s \<longleftrightarrow> (\<forall>w \<in> dom (found s). is_headword u w) \<and> (\<forall>w t. open_entry s = Some (w, t) \<longrightarrow> is_headword u w)"

lemma close_entry_ok:
  "(\<forall>w \<in> dom d. is_headword u w) \<Longrightarrow> (\<forall>w t. e = Some (w, t) \<longrightarrow> is_headword u w) \<Longrightarrow> (\<forall>w \<in> dom (close_entry e d). is_headword u w)"
  by (auto simp: close_entry_def or_insert_def split: option.splits if_splits)

lemma read_line_ok: "webster_ok u s \<Longrightarrow> webster_ok u (read_line u line s)"
proof -
  assume s: "webster_ok u s"
  then have "\<forall>w \<in> dom (close_entry (open_entry s) (found s)). is_headword u w"
    by (intro close_entry_ok) (auto simp: webster_ok_def)
  moreover have "leading_word u line = Some w \<Longrightarrow> is_headword u w" for w by (auto simp: is_headword_def)
  ultimately show ?thesis
    using s unfolding read_line_def webster_ok_def Let_def by (auto split: if_splits)
qed

lemma read_lines_ok: "webster_ok u s \<Longrightarrow> webster_ok u (read_lines u raws s)"
proof (induction u raws s rule: read_lines.induct)
  case (2 u raw raws s)
  then have "webster_ok u (if is_start l then s\<lparr>started := True\<rparr> else s)" for l by (simp add: webster_ok_def)
  with 2 show ?case by (auto simp: Let_def read_line_ok)
qed simp

lemma parse_webster_ok: "w \<in> dom (parse_webster u t) \<Longrightarrow> is_headword u w"
proof -
  assume w: "w \<in> dom (parse_webster u t)"
  have "webster_ok u (read_lines u (text_lines t) webster_start)"
    by (rule read_lines_ok) (simp add: webster_ok_def webster_start_def)
  then have "\<forall>w \<in> dom (parse_webster u t). is_headword u w"
    unfolding parse_webster_def Let_def by (intro close_entry_ok) (auto simp: webster_ok_def)
  with w show ?thesis by blast
qed

text \<open>Nothing after the end marker is read, and nothing before the start marker.\<close>

definition clean :: "string \<Rightarrow> string" where
  "clean raw = trim_end_matches (one_of [CHR 0x0D, CHR 0x0A]) raw"

lemma read_lines_before:
  "\<not> started s \<Longrightarrow> \<forall>l \<in> set front. \<not> is_start (clean l) \<Longrightarrow> is_start (clean m) \<Longrightarrow>
    read_lines u (front @ m # rest) s = read_lines u rest (s\<lparr>started := True\<rparr>)"
  by (induction front arbitrary: s) (auto simp: clean_def Let_def)

lemma read_line_started: "started (read_line u line s) = started s"
  by (simp add: read_line_def Let_def)

lemma read_lines_after:
  "started s \<Longrightarrow> is_end (clean m) \<Longrightarrow> read_lines u (ls @ m # rest) s = read_lines u (ls @ [m]) s"
  by (induction ls arbitrary: s) (auto simp: clean_def Let_def read_line_started)

section \<open>Misreadings are one edit away\<close>

lemma split_Cons:
  "(\<exists>front d tail. c # after = front @ d # tail \<and> P front d tail) \<longleftrightarrow>
    P [] c after \<or> (\<exists>front d tail. after = front @ d # tail \<and> P (c # front) d tail)"
  by (auto simp: Cons_eq_append_conv)

lemma try_substitutions_iff:
  "try_substitutions u d before cs \<longleftrightarrow> (\<exists>front c after. cs = front @ c # after \<and>
    (\<exists>l \<in> set letters. [l] \<noteq> c \<and> covers_including_inflections u d (concat before @ concat front @ [l] @ concat after)))"
proof (induction u d before cs rule: try_substitutions.induct)
  case (2 u d before c after)
  then show ?case unfolding split_Cons by (auto simp: list_ex_iff)
qed simp

lemma try_deletions_iff:
  "try_deletions u d before cs \<longleftrightarrow> (\<exists>front c after. cs = front @ c # after \<and>
    4 \<le> length (concat before @ concat front @ concat after) \<and>
    covers_including_inflections u d (concat before @ concat front @ concat after))"
proof (induction u d before cs rule: try_deletions.induct)
  case (2 u d before c after)
  then show ?case unfolding split_Cons by (auto simp: Let_def add_ac)
qed simp

section \<open>Properties\<close>

text \<open>
  A token is a misreading exactly when it has five characters or more, is not in the
  dictionary even as an inflection, and one substitution of a character by another lower-case
  letter, or one deletion that leaves four bytes, gives a word that is.
\<close>

theorem misreading_iff_one_edit:
  "looks_like_misreading u d token \<longleftrightarrow>
    5 \<le> length (chars (to_lower u token)) \<and> \<not> covers_including_inflections u d (to_lower u token) \<and>
    (\<exists>front c after. chars (to_lower u token) = front @ c # after \<and>
      ((\<exists>l \<in> set letters. [l] \<noteq> c \<and> covers_including_inflections u d (concat front @ [l] @ concat after)) \<or>
       4 \<le> length (concat front @ concat after) \<and> covers_including_inflections u d (concat front @ concat after)))"
proof -
  have "looks_like_misreading u d token \<longleftrightarrow> 5 \<le> length (chars (to_lower u token)) \<and>
      \<not> covers_including_inflections u d (to_lower u token) \<and>
      (try_substitutions u d [] (chars (to_lower u token)) \<or> try_deletions u d [] (chars (to_lower u token)))"
    by (auto simp: looks_like_misreading_def Let_def)
  then show ?thesis
    unfolding try_substitutions_iff try_deletions_iff concat.simps append_Nil by blast
qed

text \<open>
  Only the lines between the markers are read: for a text whose first start marker is on line
  \<open>m\<close> and that has an end marker on line \<open>e\<close> after it, the dictionary does not depend on the lines
  before \<open>m\<close> or after \<open>e\<close>.
\<close>

theorem only_the_body_is_read:
  assumes "text_lines t = front @ m # ls @ e # rest" "\<forall>l \<in> set front. \<not> is_start (clean l)" "is_start (clean m)" "is_end (clean e)"
    and "text_lines t' = front' @ m # ls @ e # rest'" "\<forall>l \<in> set front'. \<not> is_start (clean l)"
  shows "parse_webster u t = parse_webster u t'"
proof -
  let ?s = "webster_start\<lparr>started := True\<rparr>"
  have new: "\<not> started webster_start" "started ?s" by (simp_all add: webster_start_def)
  have "read_lines u (front @ m # ls @ e # rest) webster_start = read_lines u (ls @ [e]) ?s"
    unfolding read_lines_before [OF new(1) assms(2,3)] by (rule read_lines_after [OF new(2) assms(4)])
  moreover have "read_lines u (front' @ m # ls @ e # rest') webster_start = read_lines u (ls @ [e]) ?s"
    unfolding read_lines_before [OF new(1) assms(6,3)] by (rule read_lines_after [OF new(2) assms(4)])
  ultimately show ?thesis unfolding parse_webster_def assms(1,5) by simp
qed

lemma only_the_body_is_read_witness:
  "parse_webster ascii_unicode (''x'' @ [CHR 0x0A] @ ''START OF PROJECT GUTENBERG'' @ [CHR 0x0A] @ ''Ab'' @ [CHR 0x0A] @ ''END OF PROJECT GUTENBERG'' @ [CHR 0x0A] @ ''Cd'') =
   parse_webster ascii_unicode (''START OF PROJECT GUTENBERG'' @ [CHR 0x0A] @ ''Ab'' @ [CHR 0x0A] @ ''END OF PROJECT GUTENBERG'')"
proof (rule only_the_body_is_read [where front = "[''x'']" and front' = "[]" and m = "''START OF PROJECT GUTENBERG''"
      and ls = "[''Ab'']" and e = "''END OF PROJECT GUTENBERG''" and rest = "[''Cd'']" and rest' = "[]"])
  show "is_start (clean ''START OF PROJECT GUTENBERG'')" "is_end (clean ''END OF PROJECT GUTENBERG'')"
    "\<forall>l \<in> set [''x'']. \<not> is_start (clean l)" by code_simp+
  show "text_lines (''x'' @ [CHR 0x0A] @ ''START OF PROJECT GUTENBERG'' @ [CHR 0x0A] @ ''Ab'' @ [CHR 0x0A] @ ''END OF PROJECT GUTENBERG'' @ [CHR 0x0A] @ ''Cd'') =
    [''x''] @ ''START OF PROJECT GUTENBERG'' # [''Ab''] @ ''END OF PROJECT GUTENBERG'' # [''Cd'']" by code_simp
  show "text_lines (''START OF PROJECT GUTENBERG'' @ [CHR 0x0A] @ ''Ab'' @ [CHR 0x0A] @ ''END OF PROJECT GUTENBERG'') =
    [] @ ''START OF PROJECT GUTENBERG'' # [''Ab''] @ ''END OF PROJECT GUTENBERG'' # []" by code_simp
qed simp

end
