(* ===== verification/Launch_Health.thy ===== *)
theory Launch_Health
  imports Prelude "HOL-Library.Word"
begin

text \<open>
  Safe mode and crash-loop recovery, \<open>crates/vector-application/src/safe_mode.rs\<close>: the run modes,
  the launch-health record with its operations, and the recovery ladder. Counters are \<open>u32\<close>;
  an overflowing increment is a panic, \<^const>\<open>None\<close>.
\<close>

section \<open>Modes and features\<close>

datatype run_mode = Normal | Restricted | Safe | Recovery

datatype feature = BackgroundWorkers | LocalModel | Mcp | ContentUpdates | CrashUpload | StudyInterface

text \<open>The derived order of the modes.\<close>

fun severity :: "run_mode \<Rightarrow> nat" where
  "severity Normal = 0"
| "severity Restricted = 1"
| "severity Safe = 2"
| "severity Recovery = 3"

instantiation run_mode :: linorder
begin

definition less_eq_run_mode :: "run_mode \<Rightarrow> run_mode \<Rightarrow> bool" where
  "less_eq_run_mode m n \<longleftrightarrow> severity m \<le> severity n"

definition less_run_mode :: "run_mode \<Rightarrow> run_mode \<Rightarrow> bool" where
  "less_run_mode m n \<longleftrightarrow> severity m < severity n"

lemma severity_inj: "severity m = severity n \<longleftrightarrow> m = n"
  by (cases m; cases n) simp_all

instance
  by standard (auto simp: less_eq_run_mode_def less_run_mode_def severity_inj)

end

fun feature_enabled :: "run_mode \<Rightarrow> feature \<Rightarrow> bool" where
  "feature_enabled Normal f = True"
| "feature_enabled Restricted f = (f \<notin> {BackgroundWorkers, ContentUpdates, CrashUpload})"
| "feature_enabled Safe f = (f = StudyInterface)"
| "feature_enabled Recovery f = False"

definition RESTRICTED_THRESHOLD :: "32 word" where "RESTRICTED_THRESHOLD = 2"
definition SAFE_THRESHOLD :: "32 word" where "SAFE_THRESHOLD = 4"
definition RECOVERY_THRESHOLD :: "32 word" where "RECOVERY_THRESHOLD = 6"
definition SUCCESSES_TO_RECOVER :: "32 word" where "SUCCESSES_TO_RECOVER = 2"

definition mode_for_failures :: "32 word \<Rightarrow> run_mode" where
  "mode_for_failures n =
     (if n \<ge> RECOVERY_THRESHOLD then Recovery
      else if n \<ge> SAFE_THRESHOLD then Safe
      else if n \<ge> RESTRICTED_THRESHOLD then Restricted
      else Normal)"

section \<open>Launch health\<close>

record launch_health =
  failures :: "32 word"
  successes :: "32 word"
  mode :: run_mode
  informed :: bool

definition new_health :: launch_health where
  "new_health = \<lparr>failures = 0, successes = 0, mode = Normal, informed = False\<rparr>"

definition add_one :: "32 word \<Rightarrow> 32 word option" where
  "add_one n = (if n = - 1 then None else Some (n + 1))"

definition record_failure :: "launch_health \<Rightarrow> launch_health option" where
  "record_failure h = do {
     n \<leftarrow> add_one (failures h);
     let h = h\<lparr>failures := n, successes := 0, mode := mode_for_failures n\<rparr>;
     Some (if mode h \<noteq> Normal then h\<lparr>informed := False\<rparr> else h)
   }"

fun step_down :: "run_mode \<Rightarrow> run_mode" where
  "step_down Recovery = Safe"
| "step_down Safe = Restricted"
| "step_down Restricted = Normal"
| "step_down Normal = Normal"

definition record_success :: "launch_health \<Rightarrow> launch_health option" where
  "record_success h = do {
     n \<leftarrow> add_one (successes h);
     let h = h\<lparr>successes := n, failures := 0\<rparr>;
     Some (if mode h \<noteq> Normal \<and> n \<ge> SUCCESSES_TO_RECOVER then h\<lparr>mode := step_down (mode h), successes := 0\<rparr> else h)
   }"

definition needs_learner_notice :: "launch_health \<Rightarrow> bool" where
  "needs_learner_notice h \<longleftrightarrow> mode h \<noteq> Normal \<and> \<not> informed h"

definition mark_informed :: "launch_health \<Rightarrow> launch_health" where
  "mark_informed h = h\<lparr>informed := True\<rparr>"

section \<open>The recovery ladder\<close>

datatype recovery_action =
    DisableFeature feature
  | ReduceDiagnostics
  | QuarantineDatabase
  | EraseLearnerData
  | ReinstallApplication

definition destroys_learner_data :: "recovery_action \<Rightarrow> bool" where
  "destroys_learner_data a \<longleftrightarrow> a = EraseLearnerData"

definition recovery_ladder :: "32 word \<Rightarrow> recovery_action list" where
  "recovery_ladder n =
     (if n \<ge> RESTRICTED_THRESHOLD then [DisableFeature BackgroundWorkers, DisableFeature ContentUpdates] else []) @
     (if n \<ge> SAFE_THRESHOLD then [DisableFeature LocalModel, DisableFeature Mcp] else []) @
     (if n \<ge> RECOVERY_THRESHOLD then [DisableFeature StudyInterface, ReduceDiagnostics, QuarantineDatabase] else [])"

definition ladder_is_non_destructive :: "recovery_action list \<Rightarrow> (unit, recovery_action list) result" where
  "ladder_is_non_destructive ladder =
     (let destructive = filter destroys_learner_data ladder in
      if destructive = [] then Ok () else Err destructive)"

section \<open>Launches\<close>

text \<open>A launch that fails or succeeds, or the learner being told.\<close>

inductive launch_step :: "launch_health \<Rightarrow> launch_health \<Rightarrow> bool" where
  failed: "record_failure h = Some h' \<Longrightarrow> launch_step h h'"
| started: "record_success h = Some h' \<Longrightarrow> launch_step h h'"
| told: "launch_step h (mark_informed h)"

inductive_simps launch_step_iff: "launch_step h h'"

inductive reachable :: "launch_health \<Rightarrow> bool" where
  start: "reachable new_health"
| step: "reachable h \<Longrightarrow> launch_step h h' \<Longrightarrow> reachable h'"

code_pred launch_step .

lemma add_one_Some: "add_one n = Some m \<longleftrightarrow> m = n + 1 \<and> n \<noteq> - 1"
  by (auto simp: add_one_def)

text \<open>One counter is always zero, and the mode is at least what the failures ask for.\<close>

definition health_ok :: "launch_health \<Rightarrow> bool" where
  "health_ok h \<longleftrightarrow> (failures h = 0 \<or> successes h = 0) \<and> mode_for_failures (failures h) \<le> mode h \<and>
     (mode h \<noteq> Normal \<longrightarrow> successes h < SUCCESSES_TO_RECOVER)"

lemma small_words: "\<not> (2 :: 32 word) \<le> 1" "\<not> (4 :: 32 word) \<le> 1" "\<not> (6 :: 32 word) \<le> 1" "(-1 :: 32 word) \<noteq> 0"
  by (simp_all add: word_le_nat_alt)

lemma mode_one: "mode_for_failures 1 = Normal"
  by (simp add: mode_for_failures_def RECOVERY_THRESHOLD_def SAFE_THRESHOLD_def RESTRICTED_THRESHOLD_def small_words)

lemma mode_zero: "mode_for_failures 0 = Normal"
  by (simp add: mode_for_failures_def RECOVERY_THRESHOLD_def SAFE_THRESHOLD_def RESTRICTED_THRESHOLD_def)

lemma Normal_least: "Normal \<le> m"
  by (simp add: less_eq_run_mode_def)

lemma record_failure_ok: "record_failure h = Some h' \<Longrightarrow> health_ok h'"
  by (auto simp: record_failure_def health_ok_def SUCCESSES_TO_RECOVER_def Let_def split: bind_splits if_splits)

lemma record_success_ok: "health_ok h \<Longrightarrow> record_success h = Some h' \<Longrightarrow> health_ok h'"
  by (auto simp: record_success_def health_ok_def mode_zero Normal_least SUCCESSES_TO_RECOVER_def Let_def not_le
      split: bind_splits if_splits)

lemma reachable_health_ok: "reachable h \<Longrightarrow> health_ok h"
proof (induction rule: reachable.induct)
  case start
  then show ?case by (simp add: new_health_def health_ok_def mode_zero)
next
  case (step h h')
  have "health_ok (mark_informed h)" using step(3) by (simp add: mark_informed_def health_ok_def)
  with step(2,3) show ?case unfolding launch_step_iff using record_failure_ok record_success_ok by blast
qed

section \<open>Properties\<close>

text \<open>
  C40. In every reachable state the mode is at least as severe as the current run of failed
  launches asks for, never are both counters positive, and a degraded mode is left after two
  successes in a row at the latest.
\<close>

theorem reachable_mode_covers_failures:
  assumes "reachable h"
  shows "mode_for_failures (failures h) \<le> mode h \<and> (failures h = 0 \<or> successes h = 0) \<and>
    (mode h \<noteq> Normal \<longrightarrow> successes h < SUCCESSES_TO_RECOVER)"
  using reachable_health_ok [OF assms] by (simp add: health_ok_def)

fun launches :: "nat \<Rightarrow> launch_health \<Rightarrow> launch_health option" where
  "launches 0 h = Some h"
| "launches (Suc n) h = record_success h \<bind> launches n"

lemma one_level:
  assumes "health_ok h" "mode h \<noteq> Normal"
  shows "\<exists>k \<le> 2. \<exists>h'. launches k h = Some h' \<and> health_ok h' \<and> mode h' = step_down (mode h)"
proof (cases "successes h = 0")
  case True
  define h1 where "h1 = h\<lparr>successes := 1, failures := 0\<rparr>"
  have s1: "record_success h = Some h1" using True by (simp add: record_success_def add_one_def h1_def SUCCESSES_TO_RECOVER_def small_words Let_def)
  define h2 where "h2 = h1\<lparr>successes := 0, mode := step_down (mode h)\<rparr>"
  have s2: "record_success h1 = Some h2"
    using assms(2) by (simp add: record_success_def add_one_def h1_def h2_def SUCCESSES_TO_RECOVER_def Let_def)
  have "launches 2 h = Some h2" using s1 s2 by (simp add: numeral_2_eq_2)
  moreover have "health_ok h2" "mode h2 = step_down (mode h)"
    using record_success_ok [OF record_success_ok [OF assms(1) s1] s2] by (simp_all add: h2_def)
  ultimately show ?thesis by blast
next
  case False
  have "successes h < 2" using assms by (simp add: health_ok_def SUCCESSES_TO_RECOVER_def)
  then have "unat (successes h) < 2" by (simp add: word_less_nat_alt)
  moreover have "unat (successes h) \<noteq> 0" using False by (simp add: unat_eq_0)
  ultimately have "unat (successes h) = 1" by simp
  then have one: "successes h = 1" by (simp add: word_unat_eq_iff)
  define h1 where "h1 = h\<lparr>successes := 0, failures := 0, mode := step_down (mode h)\<rparr>"
  have s1: "record_success h = Some h1"
    using one assms(2) by (simp add: record_success_def add_one_def h1_def SUCCESSES_TO_RECOVER_def small_words Let_def)
  have "launches 1 h = Some h1" using s1 by simp
  moreover have "health_ok h1" "mode h1 = step_down (mode h)"
    using record_success_ok [OF assms(1) s1] by (simp_all add: h1_def)
  ultimately show ?thesis by (metis one_le_numeral)
qed

lemma launches_add: "launches (m + n) h = launches m h \<bind> launches n"
  by (induction m arbitrary: h) (simp_all add: bind_assoc split: bind_split)

lemma recovers: "health_ok h \<Longrightarrow> \<exists>k \<le> 2 * severity (mode h). \<exists>h'. launches k h = Some h' \<and> mode h' = Normal"
proof (induction "severity (mode h)" arbitrary: h)
  case 0
  then have "mode h = Normal" by (cases "mode h") simp_all
  then show ?case by (intro exI [of _ 0]) simp
next
  case (Suc n)
  then have "mode h \<noteq> Normal" by (cases "mode h") simp_all
  from one_level [OF Suc.prems this] obtain k h1 where
    h1: "k \<le> 2" "launches k h = Some h1" "health_ok h1" "mode h1 = step_down (mode h)" by blast
  have "n = severity (mode h1)" using Suc.hyps(2) h1(4) by (cases "mode h") simp_all
  from Suc.hyps(1) [OF this h1(3)] obtain l h2 where
    h2: "l \<le> 2 * severity (mode h1)" "launches l h1 = Some h2" "mode h2 = Normal" by blast
  have "launches (k + l) h = Some h2" using h1(2) h2(2) by (simp add: launches_add)
  moreover have "k + l \<le> 2 * severity (mode h)"
    using h1(1) h2(1) \<open>n = severity (mode h1)\<close> Suc.hyps(2) by simp
  ultimately show ?case using h2(3) by blast
qed

text \<open>
  However the application got where it is, two successful launches per level are enough to
  be back in the normal mode, so at most six in a row.
\<close>

theorem successes_restore_normal:
  assumes "reachable h"
  shows "\<exists>k \<le> 2 * severity (mode h). \<exists>h'. launches k h = Some h' \<and> mode h' = Normal"
  by (rule recovers [OF reachable_health_ok [OF assms]])

text \<open>
  C0. Automatic recovery never destroys learner data: the ladder for any number of failures passes
  the check, and the check refuses exactly the ladders with a destructive step.
\<close>

theorem ladder_keeps_learner_data:
  "ladder_is_non_destructive (recovery_ladder n) = Ok () \<and>
   (ladder_is_non_destructive l = Ok () \<longleftrightarrow> EraseLearnerData \<notin> set l)"
  by (auto simp: ladder_is_non_destructive_def recovery_ladder_def destroys_learner_data_def Let_def filter_empty_conv)

text \<open>
  One successful launch followed by a failed one always gives the normal mode, from any mode,
  recovery included: the success clears the failures, and the failure recomputes the mode from one.
\<close>

theorem success_then_failure_is_normal:
  assumes "record_success h = Some h1" "record_failure h1 = Some h2"
  shows "mode h2 = Normal"
  using assms by (auto simp: record_success_def record_failure_def Let_def add_one_def mode_one split: bind_splits if_splits)

definition crashed :: launch_health where
  "crashed = \<lparr>failures = 6, successes = 0, mode = Recovery, informed = False\<rparr>"

lemma success_then_failure_is_normal_witness:
  "mode crashed = Recovery \<and> (\<exists>h1 h2. record_success crashed = Some h1 \<and> mode h1 = Recovery \<and> record_failure h1 = Some h2 \<and> mode h2 = Normal)"
proof -
  define h1 where "h1 = crashed\<lparr>successes := 1, failures := 0\<rparr>"
  have s: "record_success crashed = Some h1"
    by (simp add: h1_def crashed_def record_success_def add_one_def SUCCESSES_TO_RECOVER_def small_words Let_def)
  obtain h2 where f: "record_failure h1 = Some h2"
    by (simp add: h1_def crashed_def record_failure_def add_one_def Let_def)
  from success_then_failure_is_normal [OF s f] s f show ?thesis by (auto simp: h1_def crashed_def)
qed

definition six_failures :: "launch_health list" where
  "six_failures = map (\<lambda>n. \<lparr>failures = word_of_nat n, successes = 0, mode = mode_for_failures (word_of_nat n), informed = False\<rparr>) [0..<7]"

lemma reachable_six: "n \<le> 6 \<Longrightarrow> reachable (six_failures ! n)"
proof (induction n)
  case 0
  have "six_failures ! 0 = new_health" by (simp add: six_failures_def new_health_def mode_zero del: upt_Suc)
  then show ?case using start by simp
next
  case (Suc n)
  have "word_of_nat n \<noteq> (- 1 :: 32 word)"
  proof
    assume "word_of_nat n = (- 1 :: 32 word)"
    then have "word_of_nat (Suc n) = (0 :: 32 word)" by simp
    then have "unat (word_of_nat (Suc n) :: 32 word) = 0" by simp
    with Suc.prems show False by (subst (asm) unat_of_nat) (simp add: take_bit_nat_eq_self)
  qed
  then have "record_failure (six_failures ! n) = Some (six_failures ! Suc n)"
    using Suc.prems by (simp add: six_failures_def record_failure_def add_one_def Let_def add.commute del: upt_Suc)
  then show ?case using step [OF Suc.IH failed] Suc.prems by simp
qed

lemma reachable_crashed: "reachable crashed"
  using reachable_six [of 6] by (simp add: six_failures_def crashed_def mode_for_failures_def RECOVERY_THRESHOLD_def del: upt_Suc)

lemma successes_restore_normal_witness:
  "mode crashed = Recovery \<and> (\<exists>k \<le> 6. \<exists>h'. launches k crashed = Some h' \<and> mode h' = Normal)"
  using successes_restore_normal [OF reachable_crashed] by (simp add: crashed_def)

lemma reachable_mode_covers_failures_witness: "mode_for_failures 6 \<le> mode crashed"
  using reachable_mode_covers_failures [OF reachable_crashed] by (simp add: crashed_def)

end
