(* ===== verification/Privacy.thy ===== *)
theory Privacy
  imports Text_Tools
begin

text \<open>
  What may leave the machine and what may be collected: \<open>egress.rs\<close>, \<open>privacy.rs\<close> and
  \<open>offline.rs\<close> of \<open>crates/vector-application/src\<close>. The enumerations, the decisions in the order of
  the code's checks, and the built-in registries.
\<close>

section \<open>Egress\<close>

datatype egress_purpose = ModelQuery | PolicyRefresh | UpdateCheck | CrashReport | SourceFetch

definition may_carry_learner_data :: "egress_purpose \<Rightarrow> bool" where
  "may_carry_learner_data p \<longleftrightarrow> p = ModelQuery \<or> p = CrashReport"

datatype data_class = Anonymous | StudyData | PersonalData | Secret

record destination =
  dest_id :: string
  host :: string
  consented :: bool
  is_advertising :: bool

datatype egress_refusal =
    AdvertisingForbidden string
  | NoConsent string
  | SecretPayload
  | PurposeForbidsLearnerData egress_purpose

record egress_request =
  target :: destination
  purpose :: egress_purpose
  payload_class :: data_class
  is_local :: bool

definition authorize_egress :: "egress_request \<Rightarrow> (unit, egress_refusal) result" where
  "authorize_egress r =
     (if is_local r then (if payload_class r = Secret then Err SecretPayload else Ok ())
      else if is_advertising (target r) then Err (AdvertisingForbidden (dest_id (target r)))
      else if payload_class r = Secret then Err SecretPayload
      else if payload_class r \<in> {PersonalData, StudyData} \<and> \<not> may_carry_learner_data (purpose r)
      then Err (PurposeForbidsLearnerData (purpose r))
      else if payload_class r \<noteq> Anonymous \<and> \<not> consented (target r) then Err (NoConsent (dest_id (target r)))
      else Ok ())"

definition default_destinations :: "destination list" where
  "default_destinations =
     [\<lparr>dest_id = ''local_llama'', host = ''127.0.0.1'', consented = True, is_advertising = False\<rparr>,
      \<lparr>dest_id = ''update_channel'', host = ''updates.vector.invalid'', consented = False, is_advertising = False\<rparr>,
      \<lparr>dest_id = ''policy_registry'', host = ''policy.vector.invalid'', consented = False, is_advertising = False\<rparr>]"

definition behavioral_advertising_enabled :: bool where "behavioral_advertising_enabled = False"

definition data_brokerage_enabled :: bool where "data_brokerage_enabled = False"

section \<open>Telemetry\<close>

datatype telemetry_mode = Off | LocalOnly | RemoteOptIn

definition transmits_remotely :: "telemetry_mode \<Rightarrow> bool" where
  "transmits_remotely m \<longleftrightarrow> m = RemoteOptIn"

datatype data_category = CrashDiagnostics | UsageCounts | AnswerContent | ScreeningData | Secrets

datatype telemetry_refusal = RemoteDisabled | CategoryForbidden data_category

definition category_is_collectible :: "data_category \<Rightarrow> bool" where
  "category_is_collectible c \<longleftrightarrow> c = CrashDiagnostics \<or> c = UsageCounts"

definition may_collect :: "telemetry_mode \<Rightarrow> data_category \<Rightarrow> (unit, telemetry_refusal) result" where
  "may_collect m c =
     (if \<not> category_is_collectible c then Err (CategoryForbidden c)
      else if transmits_remotely m then Ok ()
      else if m = LocalOnly then Ok ()
      else Err RemoteDisabled)"

section \<open>Screening data\<close>

definition PROHIBITED_SCREENING_FIELDS :: "string list" where
  "PROHIBITED_SCREENING_FIELDS =
     [''medical_history'', ''mental_health'', ''prescription'', ''disability'', ''criminal_record'', ''arrest'',
      ''drug_use'', ''alcohol_use'', ''financial_debt'', ''credit_score'', ''bankruptcy'', ''dependency_status'',
      ''citizenship_status'', ''immigration_status'', ''sexual_orientation'', ''religion'', ''race_ethnicity'', ''polygraph'']"

definition is_prohibited_field :: "unicode \<Rightarrow> string \<Rightarrow> bool" where
  "is_prohibited_field u f =
     (let lower = map (\<lambda>c. if c = CHR ''-'' \<or> c = CHR '' '' then CHR ''_'' else c) (to_lower u f)
      in list_ex (\<lambda>p. contains lower p \<or> contains p lower) PROHIBITED_SCREENING_FIELDS)"

definition screen_profile_field :: "unicode \<Rightarrow> string \<Rightarrow> (unit, telemetry_refusal) result" where
  "screen_profile_field u f = (if is_prohibited_field u f then Err (CategoryForbidden ScreeningData) else Ok ())"

section \<open>External scores\<close>

datatype score_origin = VectorEstimate | UserEnteredOfficial | ImportedOfficial

definition is_external :: "score_origin \<Rightarrow> bool" where
  "is_external s \<longleftrightarrow> s \<noteq> VectorEstimate"

definition dash :: string where "dash = [CHR 0xE2, CHR 0x80, CHR 0x94]"

fun required_label :: "score_origin \<Rightarrow> string" where
  "required_label VectorEstimate = ''VECTOR practice estimate '' @ dash @ '' not an official score''"
| "required_label UserEnteredOfficial = ''Official score entered by you '' @ dash @ '' from an external test administration''"
| "required_label ImportedOfficial = ''Official score imported from an external report''"

record score_record =
  score_origin :: score_origin
  score_value :: nat
  recorded_on :: string
  score_note :: string

definition validate_score :: "score_record \<Rightarrow> (unit, string) result" where
  "validate_score r =
     (if score_value r = 0 \<or> score_value r > 99
      then Err (''score '' @ show_nat (score_value r) @ '' is outside the 1..99 reporting scale'')
      else if trim_text (recorded_on r) = [] then Err ''a score record must record when it was entered''
      else if is_external (score_origin r) \<and> trim_text (score_note r) = []
      then Err ''an external score requires provenance describing where it came from''
      else Ok ())"

definition display_label :: "score_record \<Rightarrow> string" where
  "display_label r = required_label (score_origin r)"

definition may_blend_into_readiness :: "score_origin \<Rightarrow> bool" where
  "may_blend_into_readiness s \<longleftrightarrow> \<not> is_external s"

section \<open>Offline support\<close>

datatype offline_support = Available | Degraded string | Unavailable

record app_capability =
  cap_id :: string
  cap_label :: string
  offline :: offline_support
  core :: bool

datatype network_state = Online | Offline

datatype offline_error = CoreUnavailableOffline string | RequiresNetwork string

definition cap :: "string \<Rightarrow> string \<Rightarrow> offline_support \<Rightarrow> bool \<Rightarrow> app_capability" where
  "cap i l s c = \<lparr>cap_id = i, cap_label = l, offline = s, core = c\<rparr>"

definition builtin_capabilities :: "app_capability list" where
  "builtin_capabilities =
     [cap ''diagnostic'' ''Diagnostic assessment'' Available True,
      cap ''practice'' ''Practice questions'' Available True,
      cap ''review_schedule'' ''Spaced-repetition review'' Available True,
      cap ''study_plan'' ''Adaptive study plan'' Available True,
      cap ''exam_simulation'' ''CAT/paper exam simulation'' Available True,
      cap ''mastery_tracking'' ''Mastery and progress tracking'' Available True,
      cap ''readiness_band'' ''Readiness estimate'' Available True,
      cap ''evidence_lookup'' ''Evidence vault lookup'' Available True,
      cap ''notebook_export'' ''Notebook export (manual)'' Available True,
      cap ''local_ai'' ''Local model tutor'' Available True,
      cap ''native_ai'' ''Native provider lanes'' Unavailable False,
      cap ''source_refresh'' ''Source freshness refresh''
        (Degraded ''serves cached sources; freshness dates may be stale'') False,
      cap ''update_check'' ''Application update check'' Unavailable False]"

definition classify_offline :: "string \<Rightarrow> offline_support \<Rightarrow> bool \<Rightarrow> network_state \<Rightarrow> (offline_support, offline_error) result" where
  "classify_offline i s c n =
     (case (n, s) of
        (Online, s) \<Rightarrow> Ok s
      | (Offline, Available) \<Rightarrow> Ok Available
      | (Offline, Degraded note) \<Rightarrow> Ok (Degraded note)
      | (Offline, Unavailable) \<Rightarrow> if c then Err (CoreUnavailableOffline i) else Err (RequiresNetwork i))"

definition require_capability :: "string \<Rightarrow> network_state \<Rightarrow> (offline_support, offline_error) result" where
  "require_capability i n =
     try_bind (ok_or (List.find (\<lambda>c. cap_id c = i) builtin_capabilities) (RequiresNetwork i))
       (\<lambda>c. classify_offline i (offline c) (core c) n)"

definition core_functions_all_offline :: "app_capability list \<Rightarrow> (unit, string list) result" where
  "core_functions_all_offline cs =
     (let failing = map cap_id (filter (\<lambda>c. offline c \<noteq> Available) (filter core cs)) in
      if failing = [] then Ok () else Err failing)"

section \<open>Properties\<close>

text \<open>
  A request is authorised exactly when no secret is sent and, unless the destination is on the
  machine, it is not an advertiser and learner data goes out only for a purpose that may carry it
  and with the learner's consent to that destination.
\<close>

theorem egress_authorized_iff:
  "authorize_egress r = Ok () \<longleftrightarrow> payload_class r \<noteq> Secret \<and>
    (is_local r \<or> \<not> is_advertising (target r) \<and>
      (payload_class r = Anonymous \<or> may_carry_learner_data (purpose r) \<and> consented (target r)))"
  by (cases "payload_class r") (auto simp: authorize_egress_def)

lemma advertising_never:
  "\<not> is_local r \<Longrightarrow> is_advertising (target r) \<Longrightarrow> authorize_egress r = Err (AdvertisingForbidden (dest_id (target r)))"
  by (simp add: authorize_egress_def)

text \<open>
  C0. Telemetry is collected exactly for crash diagnostics and usage counts and only in a mode the
  learner turned on; what is never collectible is refused as such in every mode.
\<close>

theorem telemetry_collected_iff:
  "(may_collect m c = Ok () \<longleftrightarrow> c \<in> {CrashDiagnostics, UsageCounts} \<and> m \<noteq> Off) \<and>
   (may_collect m c = Err (CategoryForbidden c) \<longleftrightarrow> c \<in> {AnswerContent, ScreeningData, Secrets})"
  by (cases m; cases c) (simp_all add: may_collect_def category_is_collectible_def transmits_remotely_def)

text \<open>
  Every prohibited screening attribute is refused however it is spelled with hyphens or spaces
  and embedded in a longer name, and so is every fragment of one, the empty name included.
\<close>

theorem screening_names_refused:
  assumes "p \<in> set PROHIBITED_SCREENING_FIELDS"
    and "map (\<lambda>c. if c = CHR ''-'' \<or> c = CHR '' '' then CHR ''_'' else c) (to_lower u f) = before @ w @ after"
    and "w = p \<or> before = [] \<and> after = [] \<and> contains p w"
  shows "screen_profile_field u f = Err (CategoryForbidden ScreeningData)"
proof -
  have "contains (before @ w @ after) p \<or> contains p (before @ w @ after)"
    using assms(3)
  proof
    assume "w = p"
    then show ?thesis unfolding contains_iff by blast
  qed simp
  with assms(1) have "is_prohibited_field u f"
    unfolding is_prohibited_field_def assms(2) Let_def list_ex_iff by blast
  then show ?thesis by (simp add: screen_profile_field_def)
qed

lemma screening_names_refused_witness:
  "screen_profile_field ascii_unicode ''Drug-Use notes'' = Err (CategoryForbidden ScreeningData) \<and>
   screen_profile_field ascii_unicode [] = Err (CategoryForbidden ScreeningData)"
proof
  show "screen_profile_field ascii_unicode ''Drug-Use notes'' = Err (CategoryForbidden ScreeningData)"
    by (rule screening_names_refused [where p = "''drug_use''" and before = "[]" and w = "''drug_use''" and after = "''_notes''"])
      (simp add: PROHIBITED_SCREENING_FIELDS_def, code_simp, simp)
  show "screen_profile_field ascii_unicode [] = Err (CategoryForbidden ScreeningData)"
    by (rule screening_names_refused [where p = "''arrest''" and before = "[]" and w = "[]" and after = "[]"])
      (simp add: PROHIBITED_SCREENING_FIELDS_def, code_simp, code_simp)
qed

text \<open>
  C0. Every core study function of the registry is available with no network, and a capability is
  refused offline exactly when it is not in the registry or needs the network, never as a core one.
\<close>

theorem core_works_offline:
  "core_functions_all_offline builtin_capabilities = Ok () \<and>
   (c \<in> set builtin_capabilities \<and> core c \<longrightarrow> require_capability (cap_id c) Offline = Ok Available) \<and>
   require_capability i Offline \<noteq> Err (CoreUnavailableOffline i)"
proof (intro conjI)
  have distinct: "distinct (map cap_id builtin_capabilities)" by code_simp
  have core_ok: "\<forall>c \<in> set builtin_capabilities. core c \<longrightarrow> offline c = Available"
    by (simp add: builtin_capabilities_def cap_def)
  show "core_functions_all_offline builtin_capabilities = Ok ()"
    using core_ok by (auto simp: core_functions_all_offline_def Let_def filter_empty_conv)
  show "c \<in> set builtin_capabilities \<and> core c \<longrightarrow> require_capability (cap_id c) Offline = Ok Available"
  proof
    assume c: "c \<in> set builtin_capabilities \<and> core c"
    obtain d where d: "List.find (\<lambda>d. cap_id d = cap_id c) builtin_capabilities = Some d"
      using c find_None_set [of "\<lambda>d. cap_id d = cap_id c" builtin_capabilities] by (cases "List.find (\<lambda>d. cap_id d = cap_id c) builtin_capabilities") auto
    then have "d = c" using find_Some_set [OF d] c distinct by (auto simp: distinct_map dest: inj_onD)
    with d c core_ok show "require_capability (cap_id c) Offline = Ok Available"
      by (simp add: require_capability_def classify_offline_def)
  qed
  show "require_capability i Offline \<noteq> Err (CoreUnavailableOffline i)"
  proof (cases "List.find (\<lambda>d. cap_id d = i) builtin_capabilities")
    case None
    then show ?thesis by (simp add: require_capability_def)
  next
    case (Some d)
    with find_Some_set [OF Some] core_ok show ?thesis
      by (auto simp: require_capability_def classify_offline_def split: offline_support.splits)
  qed
qed

definition practice :: app_capability where
  "practice = cap ''practice'' ''Practice questions'' Available True"

lemma core_works_offline_witness: "require_capability ''practice'' Offline = Ok Available"
proof -
  have "practice \<in> set builtin_capabilities \<and> core practice" by (simp add: practice_def builtin_capabilities_def cap_def)
  then show ?thesis using core_works_offline [of practice] by (simp add: practice_def cap_def)
qed

text \<open>
  C0. A valid score record is on the 1 to 99 scale, dated, and, when it comes from outside, carries
  its provenance; only the application's own estimates may be blended into readiness.
\<close>

theorem valid_score_iff:
  "validate_score r = Ok () \<longleftrightarrow> 1 \<le> score_value r \<and> score_value r \<le> 99 \<and> trim_text (recorded_on r) \<noteq> [] \<and>
    (may_blend_into_readiness (score_origin r) \<or> trim_text (score_note r) \<noteq> [])"
  by (auto simp: validate_score_def may_blend_into_readiness_def)

end
