(* ===== verification/Encoding.thy ===== *)
theory Encoding
  imports Prelude
begin

text \<open>
  What the signed formats share (\<open>update.rs\<close> of \<open>crates/vector-platform\<close>, \<open>content.rs\<close> of
  \<open>crates/vector-domain\<close>, \<open>packs.rs\<close> of \<open>crates/vector-application\<close>): little-endian integers,
  length-prefixed fields, hexadecimal text, and the operations of Ed25519 as a record of
  functions with the behaviour its documentation promises.
\<close>

section \<open>Integers and fields as bytes\<close>

text \<open>\<open>to_le_bytes\<close> of a \<open>u32\<close> and a \<open>u64\<close>, and fields each behind its length.\<close>

definition le_bytes :: "nat \<Rightarrow> nat \<Rightarrow> string" where
  "le_bytes k n = map (\<lambda>i. char_of (n div 256 ^ i mod 256)) [0..<k]"

definition le64 :: "nat \<Rightarrow> string" where
  "le64 n = le_bytes 8 n"

fun length_prefixed :: "string list \<Rightarrow> string" where
  "length_prefixed [] = []"
| "length_prefixed (f # fs) = le64 (length f) @ f @ length_prefixed fs"

section \<open>Hexadecimal\<close>

definition hex_digit :: "nat \<Rightarrow> char" where
  "hex_digit d = (if d < 10 then char_of (48 + d) else char_of (87 + d))"

definition to_hex :: "string \<Rightarrow> string" where
  "to_hex bs = concat (map (\<lambda>b. [hex_digit (byte b div 16), hex_digit (byte b mod 16)]) bs)"

definition hex_val :: "char \<Rightarrow> nat option" where
  "hex_val c =
     (if is_digit c then Some (byte c - 48)
      else if 97 \<le> byte c \<and> byte c \<le> 102 then Some (byte c - 87)
      else if 65 \<le> byte c \<and> byte c \<le> 70 then Some (byte c - 55)
      else None)"

text \<open>A byte inside a character.\<close>

definition continuation :: "char \<Rightarrow> bool" where
  "continuation c \<longleftrightarrow> 128 \<le> byte c \<and> byte c < 192"

text \<open>A position is a character boundary when the byte there does not continue a character.\<close>

definition boundary :: "string \<Rightarrow> nat \<Rightarrow> bool" where
  "boundary s i \<longleftrightarrow> i = length s \<or> i < length s \<and> \<not> continuation (s ! i)"

text \<open>A slice of a string by byte offsets panics unless both lie in it and between characters.\<close>

definition str_slice :: "string \<Rightarrow> nat \<Rightarrow> nat \<Rightarrow> string option" where
  "str_slice s lo hi = (if lo \<le> hi \<and> boundary s lo \<and> boundary s hi then Some (take (hi - lo) (drop lo s)) else None)"

section \<open>Ed25519\<close>

text \<open>
  The Ed25519 operations: a signature from a slice, a key from 32 bytes, strict and
  plain verification, and, for a signing key, the signature of a payload and the public key.
\<close>

record 'k ed25519 =
  signature_of :: "string \<Rightarrow> string option"
  key_of :: "string \<Rightarrow> string option"
  verify_strict :: "string \<Rightarrow> string \<Rightarrow> string \<Rightarrow> (unit, string) result"
  verify_plain :: "string \<Rightarrow> string \<Rightarrow> string \<Rightarrow> bool"
  sign_with :: "'k \<Rightarrow> string \<Rightarrow> string"
  public :: "'k \<Rightarrow> string"

text \<open>The documented behaviour of the signature scheme that verification relies on.\<close>

definition signature_scheme :: "'k ed25519 \<Rightarrow> bool" where
  "signature_scheme ed \<longleftrightarrow>
     (\<forall>k p. length (public ed k) = 32 \<and> key_of ed (public ed k) \<noteq> None \<and>
        length (sign_with ed k p) = 64 \<and> signature_of ed (sign_with ed k p) = Some (sign_with ed k p) \<and>
        (\<forall>key. key_of ed (public ed k) = Some key \<longrightarrow>
           verify_strict ed key p (sign_with ed k p) = Ok () \<and> verify_plain ed key p (sign_with ed k p)))"

section \<open>The signed payload determines the signed fields\<close>

lemma length_le_bytes [simp]: "length (le_bytes k n) = k" "length (le64 n) = 8"
  by (simp_all add: le_bytes_def le64_def)

fun of_le :: "string \<Rightarrow> nat" where
  "of_le [] = 0"
| "of_le (c # s) = byte c + 256 * of_le s"

lemma of_le_digits: "of_le (map (\<lambda>i. char_of (n div 256 ^ i mod 256)) [k..<k + m]) = n div 256 ^ k mod 256 ^ m"
proof (induction m arbitrary: k)
  case (Suc m)
  have "[k..<k + Suc m] = k # [Suc k..<Suc k + m]" by (simp add: upt_conv_Cons del: upt_Suc)
  then have "of_le (map (\<lambda>i. char_of (n div 256 ^ i mod 256)) [k..<k + Suc m]) =
      n div 256 ^ k mod 256 + 256 * (n div 256 ^ Suc k mod 256 ^ m)"
    using Suc.IH [of "Suc k"] by (simp add: byte_def del: upt_Suc)
  also have "n div 256 ^ Suc k = n div 256 ^ k div 256" by (metis div_mult2_eq power_Suc2)
  also have "n div 256 ^ k mod 256 + 256 * (n div 256 ^ k div 256 mod 256 ^ m) = n div 256 ^ k mod (256 * 256 ^ m)"
    by (simp add: mod_mult2_eq)
  finally show ?case by simp
qed simp

lemma le_bytes_inj: "m < 256 ^ k \<Longrightarrow> n < 256 ^ k \<Longrightarrow> le_bytes k m = le_bytes k n \<Longrightarrow> m = n"
proof -
  assume b: "m < 256 ^ k" "n < 256 ^ k" "le_bytes k m = le_bytes k n"
  have "of_le (le_bytes k i) = i mod 256 ^ k" for i using of_le_digits [of i 0 k] by (simp add: le_bytes_def)
  with b show ?thesis by (metis mod_less)
qed

lemma le64_inj: "m < 2 ^ 64 \<Longrightarrow> n < 2 ^ 64 \<Longrightarrow> le64 m = le64 n \<Longrightarrow> m = n"
  using le_bytes_inj [of m 8 n] by (simp add: le64_def)

lemma length_prefixed_inj:
  "length fs = length gs \<Longrightarrow> \<forall>f \<in> set fs. length f < 2 ^ 64 \<Longrightarrow> \<forall>g \<in> set gs. length g < 2 ^ 64 \<Longrightarrow>
    length_prefixed fs = length_prefixed gs \<Longrightarrow> fs = gs"
proof (induction fs gs rule: list_induct2)
  case (Cons f fs g gs)
  then have "le64 (length f) = le64 (length g)" and rest: "f @ length_prefixed fs = g @ length_prefixed gs" by auto
  then have "length f = length g" using le64_inj Cons.prems by simp
  with rest Cons show ?case by simp
qed simp

section \<open>Hexadecimal round trip\<close>

lemma byte_hex_digit: "d < 16 \<Longrightarrow> byte (hex_digit d) = (if d < 10 then 48 + d else 87 + d)"
  by (simp add: hex_digit_def byte_def)

lemma hex_val_digit: "d < 16 \<Longrightarrow> hex_val (hex_digit d) = Some d"
  by (simp add: hex_val_def is_digit_def byte_hex_digit)

lemma hex_digit_plain: "d < 16 \<Longrightarrow> plain (hex_digit d) \<and> \<not> continuation (hex_digit d) \<and> hex_digit d \<noteq> CHR ''+''"
proof -
  assume d: "d < 16"
  have "byte (CHR ''+'') = 43" by (simp add: byte_def)
  then have "hex_digit d \<noteq> CHR ''+''" using byte_hex_digit [OF d] by (auto split: if_splits)
  with d show ?thesis by (simp add: plain_def continuation_def byte_hex_digit)
qed

lemma nibbles: "byte b div 16 < 16" "byte b mod 16 < 16" "char_of (16 * (byte b div 16) + byte b mod 16) = b"
  using less_mult_imp_div_less [of "byte b" 16 16] byte_less [of b] by (simp, simp) (simp add: byte_def)

lemma to_hex_Nil_iff [simp]: "to_hex bs = [] \<longleftrightarrow> bs = []"
  by (cases bs) (simp_all add: to_hex_def)

lemma to_hex_plain: "c \<in> set (to_hex bs) \<Longrightarrow> plain c \<and> \<not> continuation c"
  using hex_digit_plain nibbles by (auto simp: to_hex_def)

lemma to_hex_Cons: "to_hex (b # bs) = hex_digit (byte b div 16) # hex_digit (byte b mod 16) # to_hex bs"
  by (simp add: to_hex_def)

section \<open>A scheme for concrete inputs\<close>

text \<open>A scheme whose signature repeats the key's byte: enough to reach every branch of verification.\<close>

definition sample_scheme :: "char ed25519" where
  "sample_scheme = \<lparr>signature_of = (\<lambda>s. if length s = 64 then Some s else None),
     key_of = (\<lambda>s. if length s = 32 then Some s else None),
     verify_strict = (\<lambda>key p s. if take 1 key = take 1 s then Ok () else Err ''signature error''),
     verify_plain = (\<lambda>key p s. take 1 key = take 1 s),
     sign_with = (\<lambda>k p. replicate 64 k), public = (\<lambda>k. replicate 32 k)\<rparr>"

lemma sample_scheme_ok: "signature_scheme sample_scheme"
  by (auto simp: signature_scheme_def sample_scheme_def)

end
