(* ===== verification/Update.thy ===== *)
theory Update
  imports Encoding "HOL-Library.Product_Lexorder"
begin

text \<open>
  Application updates, \<open>crates/vector-platform/src/update.rs\<close>: the signed manifest and its
  verification, the artifact check, staging, applying and rolling back over an explicit disk.
  Ed25519 is the record \<open>ed25519\<close> of functions, SHA-256 the parameter \<open>sha\<close> (bytes to hex). The
  disk is a map from paths to bytes and says which operations the operating system refuses.
  Slicing a string inside a character is a panic, \<^const>\<open>None\<close>.
\<close>

section \<open>The manifest\<close>

definition UPDATE_FORMAT :: string where "UPDATE_FORMAT = ''vector-update-1''"

record update_artifact =
  file_name :: string
  sha256 :: string
  bytes :: nat

record update_manifest =
  format :: string
  app :: string
  version :: string
  min_running_version :: string
  published_at :: string
  artifact :: update_artifact
  notes_url :: "string option"

record signed_update =
  manifest :: update_manifest
  signature :: string
  signer :: string

definition signed_fields :: "update_manifest \<Rightarrow> string list" where
  "signed_fields m = [format m, app m, version m, min_running_version m, published_at m,
     file_name (artifact m), sha256 (artifact m), show_nat (bytes (artifact m))]"

definition signing_payload :: "update_manifest \<Rightarrow> string" where
  "signing_payload m = length_prefixed (signed_fields m)"

definition digest :: "(string \<Rightarrow> string) \<Rightarrow> update_manifest \<Rightarrow> string" where
  "digest sha m = ''sha256:'' @ sha (signing_payload m)"

datatype update_refusal =
    Unreadable string
  | UnsupportedFormat string
  | WrongApplication string string
  | Unsigned
  | MalformedSignature
  | MalformedKey
  | UntrustedSigner string string
  | InvalidSignature string
  | UnparsableVersion string
  | NotNewer string string
  | RequiresNewerBase string string
  | MissingArtifact string
  | ArtifactDigestMismatch string string
  | ArtifactSizeMismatch nat nat
  | StagedAlreadyPresent string
  | Staging string

section \<open>Hexadecimal and versions\<close>

text \<open>\<open>u8::from_str_radix(s, 16)\<close> on two bytes, which accepts a leading plus sign.\<close>

definition hex_pair :: "char \<Rightarrow> char \<Rightarrow> char option" where
  "hex_pair a b =
     (if a = CHR ''+'' then map_option char_of (hex_val b)
      else do { x \<leftarrow> hex_val a; y \<leftarrow> hex_val b; Some (char_of (16 * x + y)) })"

text \<open>The slices of two bytes, first to last, up to the first that is no byte: \<^const>\<open>None\<close> inside.\<close>

fun hex_pairs :: "string \<Rightarrow> string option option" where
  "hex_pairs [] = Some (Some [])"
| "hex_pairs [a] = Some None"
| "hex_pairs (a # b # s) =
     (if continuation a \<or> s \<noteq> [] \<and> continuation (hd s) then None
      else case hex_pair a b of
          None \<Rightarrow> Some None
        | Some v \<Rightarrow> map_option (map_option (Cons v)) (hex_pairs s))"

definition from_hex :: "string \<Rightarrow> string option option" where
  "from_hex v =
     (let trimmed = trim v in
      if \<not> even (length trimmed) \<or> trimmed = [] then Some None else hex_pairs trimmed)"

definition version_part :: "string \<Rightarrow> nat option" where
  "version_part p =
     (if p = [] \<or> \<not> list_all is_digit p then None
      else if digits_val p < 2 ^ 64 then Some (digits_val p) else None)"

fun version_parts :: "string list \<Rightarrow> nat list option" where
  "version_parts [] = Some []"
| "version_parts (p # ps) = do { n \<leftarrow> version_part p; ns \<leftarrow> version_parts ps; Some (n # ns) }"

definition version_key :: "string \<Rightarrow> (nat \<times> nat \<times> nat) option" where
  "version_key v =
     (let parts = split_on (CHR ''.'') (trim v) in do {
        ns \<leftarrow> version_parts (take 3 parts);
        if 3 < length parts then None
        else let ns = ns @ replicate (3 - length ns) 0 in Some (ns ! 0, ns ! 1, ns ! 2)
      })"

section \<open>Signing and verification\<close>

definition sign :: "'k ed25519 \<Rightarrow> update_manifest \<Rightarrow> 'k \<Rightarrow> signed_update" where
  "sign ed m k = \<lparr>manifest = m, signature = to_hex (sign_with ed k (signing_payload m)), signer = to_hex (public ed k)\<rparr>"

definition check_versions :: "string \<Rightarrow> update_manifest \<Rightarrow> (unit, update_refusal) result" where
  "check_versions running m =
     try_bind (ok_or (version_key running) (UnparsableVersion running)) (\<lambda>run.
     try_bind (ok_or (version_key (version m)) (UnparsableVersion (version m))) (\<lambda>offered.
     try_bind (ok_or (version_key (min_running_version m)) (UnparsableVersion (min_running_version m))) (\<lambda>floor.
       if offered \<le> run then Err (NotNewer running (version m))
       else if run < floor then Err (RequiresNewerBase running (min_running_version m))
       else Ok ())))"

definition verify :: "'k ed25519 \<Rightarrow> signed_update \<Rightarrow> string \<Rightarrow> string \<Rightarrow> string \<Rightarrow> (unit, update_refusal) result option" where
  "verify ed s trusted_hex application running =
     (let m = manifest s in
      if format m \<noteq> UPDATE_FORMAT then Some (Err (UnsupportedFormat (format m)))
      else if app m \<noteq> application then Some (Err (WrongApplication (app m) application))
      else if signature s = [] \<or> signer s = [] then Some (Err Unsigned)
      else do {
        sig_bytes \<leftarrow> from_hex (signature s);
        case sig_bytes \<bind> signature_of ed of
          None \<Rightarrow> Some (Err MalformedSignature)
        | Some sg \<Rightarrow> do {
            key_bytes \<leftarrow> from_hex (signer s);
            case key_bytes of
              None \<Rightarrow> Some (Err MalformedKey)
            | Some kb \<Rightarrow>
                if length kb \<noteq> 32 then Some (Err MalformedKey)
                else do {
                  trusted \<leftarrow> from_hex trusted_hex;
                  Some (case trusted of
                      None \<Rightarrow> Err MalformedKey
                    | Some tb \<Rightarrow>
                        if kb \<noteq> tb then Err (UntrustedSigner (signer s) trusted_hex)
                        else case key_of ed kb of
                            None \<Rightarrow> Err MalformedKey
                          | Some key \<Rightarrow>
                              (case verify_strict ed key (signing_payload m) sg of
                                 Err e \<Rightarrow> Err (InvalidSignature e)
                               | Ok _ \<Rightarrow> check_versions running m))
                }
          }
      })"

section \<open>The disk\<close>

datatype fs_op = Read string | MakeDir string | Copy string string | Rename string string | Remove string

record disk =
  files :: "string \<rightharpoonup> string"
  refuses :: "fs_op \<Rightarrow> string option"

definition verify_artifact :: "(string \<Rightarrow> string) \<Rightarrow> disk \<Rightarrow> update_manifest \<Rightarrow> string \<Rightarrow> (unit, update_refusal) result" where
  "verify_artifact sha d m p =
     (case files d p of
        None \<Rightarrow> Err (MissingArtifact p)
      | Some bs \<Rightarrow>
          (case refuses d (Read p) of
             Some e \<Rightarrow> Err (Unreadable e)
           | None \<Rightarrow>
               (let computed = ''sha256:'' @ sha bs in
                if computed \<noteq> sha256 (artifact m) then Err (ArtifactDigestMismatch (sha256 (artifact m)) computed)
                else if length bs \<noteq> bytes (artifact m) then Err (ArtifactSizeMismatch (bytes (artifact m)) (length bs))
                else Ok ())))"

definition staged_path :: "string \<Rightarrow> update_manifest \<Rightarrow> string" where
  "staged_path dir m = dir @ ''/.update-staged-'' @ version m"

definition copy_file :: "disk \<Rightarrow> string \<Rightarrow> string \<Rightarrow> (disk, string) result" where
  "copy_file d a b =
     (case refuses d (Copy a b) of Some e \<Rightarrow> Err e | None \<Rightarrow> Ok (d\<lparr>files := (files d)(b := files d a)\<rparr>))"

definition rename_file :: "disk \<Rightarrow> string \<Rightarrow> string \<Rightarrow> (disk, string) result" where
  "rename_file d a b =
     (case refuses d (Rename a b) of Some e \<Rightarrow> Err e | None \<Rightarrow> Ok (d\<lparr>files := (files d)(a := None, b := files d a)\<rparr>))"

definition remove_file :: "disk \<Rightarrow> string \<Rightarrow> (disk, string) result" where
  "remove_file d a =
     (case refuses d (Remove a) of Some e \<Rightarrow> Err e | None \<Rightarrow> Ok (d\<lparr>files := (files d)(a := None)\<rparr>))"

definition stage :: "(string \<Rightarrow> string) \<Rightarrow> disk \<Rightarrow> update_manifest \<Rightarrow> string \<Rightarrow> string \<Rightarrow> (string, update_refusal) result \<times> disk" where
  "stage sha d m p dir =
     (case verify_artifact sha d m p of
        Err e \<Rightarrow> (Err e, d)
      | Ok _ \<Rightarrow>
          (case refuses d (MakeDir dir) of
             Some e \<Rightarrow> (Err (Staging e), d)
           | None \<Rightarrow>
               (let staged = staged_path dir m in
                if files d staged \<noteq> None then (Err (StagedAlreadyPresent staged), d)
                else case copy_file d p staged of
                    Err e \<Rightarrow> (Err (Staging e), d)
                  | Ok d' \<Rightarrow>
                      (case verify_artifact sha d' m staged of
                         Err e \<Rightarrow> (Err e, d')
                       | Ok _ \<Rightarrow> (Ok staged, d')))))"

text \<open>
  \<open>Path::with_extension\<close> for a path whose last component is a file name: from its last dot on,
  unless that dot is its first character, the name is replaced.
\<close>

definition file_stem :: "string \<Rightarrow> string" where
  "file_stem name =
     (let parts = split_on (CHR ''.'') name; front = join ''.'' (butlast parts)
      in if length parts = 1 \<or> front = [] then name else front)"

definition displaced_path :: "string \<Rightarrow> string" where
  "displaced_path target =
     (let parts = split_on (CHR ''/'') target
      in join ''/'' (butlast parts @ [file_stem (last parts) @ ''.pre-update'']))"

definition apply_staged :: "disk \<Rightarrow> string \<Rightarrow> string \<Rightarrow> (string option, update_refusal) result \<times> disk" where
  "apply_staged d staged target =
     (if files d staged = None then (Err (MissingArtifact staged), d)
      else let displaced = displaced_path target in
        case (if files d displaced \<noteq> None then remove_file d displaced else Ok d) of
          Err e \<Rightarrow> (Err (Staging e), d)
        | Ok d \<Rightarrow>
            (let had_previous = (files d target \<noteq> None) in
             case (if had_previous then rename_file d target displaced else Ok d) of
               Err e \<Rightarrow> (Err (Staging e), d)
             | Ok d \<Rightarrow>
                 (case rename_file d staged target of
                    Err e \<Rightarrow>
                      (Err (Staging e),
                       if had_previous then (case rename_file d displaced target of Err _ \<Rightarrow> d | Ok d \<Rightarrow> d) else d)
                  | Ok d \<Rightarrow> (Ok (if had_previous then Some displaced else None), d))))"

definition rollback :: "disk \<Rightarrow> string \<Rightarrow> (string, update_refusal) result \<times> disk" where
  "rollback d target =
     (let displaced = displaced_path target in
      if files d displaced = None
      then (Err (MissingArtifact (displaced @ '' (there is no previous artifact to restore)'')), d)
      else case rename_file d displaced target of
          Err e \<Rightarrow> (Err (Staging e), d)
        | Ok d \<Rightarrow> (Ok displaced, d))"

section \<open>Hexadecimal round trip\<close>

lemma hex_pairs_to_hex: "hex_pairs (to_hex bs) = Some (Some bs)"
proof (induction bs)
  case Nil
  then show ?case by (simp add: to_hex_def)
next
  case (Cons b bs)
  have "\<not> (to_hex bs \<noteq> [] \<and> continuation (hd (to_hex bs)))" using to_hex_plain [OF hd_in_set] by blast
  moreover have "hex_pair (hex_digit (byte b div 16)) (hex_digit (byte b mod 16)) = Some b"
    using hex_digit_plain nibbles [of b] by (simp add: hex_pair_def hex_val_digit)
  ultimately show ?case using Cons hex_digit_plain nibbles(1) [of b] by (simp add: to_hex_Cons)
qed

lemma from_hex_to_hex: "bs \<noteq> [] \<Longrightarrow> from_hex (to_hex bs) = Some (Some bs)"
proof -
  assume bs: "bs \<noteq> []"
  have "even (length (to_hex bs))" by (induction bs) (simp_all add: to_hex_def)
  moreover have "trim (to_hex bs) = to_hex bs"
    using to_hex_plain [OF hd_in_set] to_hex_plain [OF last_in_set] bs by (intro trim_plain) auto
  ultimately show ?thesis using bs by (simp add: from_hex_def hex_pairs_to_hex)
qed

section \<open>Properties\<close>

text \<open>
  C38. A manifest signed by the trusted key verifies exactly when it is of this format and for this
  application, all three versions parse, it is newer than the running version, and the running
  version is at least the floor it names.
\<close>

theorem signed_update_verifies:
  assumes "signature_scheme ed"
  shows "verify ed (sign ed m k) (to_hex (public ed k)) application running = Some (Ok ()) \<longleftrightarrow>
    format m = UPDATE_FORMAT \<and> app m = application \<and>
    (\<exists>run offered floor. version_key running = Some run \<and> version_key (version m) = Some offered \<and>
      version_key (min_running_version m) = Some floor \<and> run < offered \<and> floor \<le> run)"
proof -
  let ?sg = "sign_with ed k (signing_payload m)"
  have lens: "length (public ed k) = 32" "length ?sg = 64"
    and sg: "signature_of ed ?sg = Some ?sg" using assms by (auto simp: signature_scheme_def)
  then have some: "public ed k \<noteq> []" "?sg \<noteq> []" by auto
  note hex = from_hex_to_hex [OF some(1)] from_hex_to_hex [OF some(2)]
  obtain key where key: "key_of ed (public ed k) = Some key"
    using assms unfolding signature_scheme_def by (metis not_None_eq)
  then have ok: "verify_strict ed key (signing_payload m) ?sg = Ok ()" using assms by (auto simp: signature_scheme_def)
  have "verify ed (sign ed m k) (to_hex (public ed k)) application running =
      (if format m \<noteq> UPDATE_FORMAT then Some (Err (UnsupportedFormat (format m)))
       else if app m \<noteq> application then Some (Err (WrongApplication (app m) application))
       else Some (check_versions running m))"
    using some by (simp add: verify_def sign_def hex lens sg key ok Let_def)
  moreover have "check_versions running m = Ok () \<longleftrightarrow> (\<exists>run offered floor. version_key running = Some run \<and>
      version_key (version m) = Some offered \<and> version_key (min_running_version m) = Some floor \<and> run < offered \<and> floor \<le> run)"
    by (cases "version_key running"; cases "version_key (version m)"; cases "version_key (min_running_version m)";
        simp add: check_versions_def not_le not_less)
  ultimately show ?thesis by auto
qed

text \<open>
  Two manifests with the same signed payload agree in every signed field: moving a byte across
  a field boundary changes the payload.
\<close>

theorem payload_determines_fields:
  assumes "\<forall>f \<in> set (signed_fields m) \<union> set (signed_fields m'). length f < 2 ^ 64"
  shows "signing_payload m = signing_payload m' \<longleftrightarrow> signed_fields m = signed_fields m'"
proof
  assume "signing_payload m = signing_payload m'"
  then show "signed_fields m = signed_fields m'"
    using assms unfolding signing_payload_def by (intro length_prefixed_inj) (auto simp: signed_fields_def)
qed (simp add: signing_payload_def)

section \<open>Staging, applying and rolling back\<close>

lemma stage_Ok:
  assumes "stage sha d m p dir = (Ok q, d')"
  shows "q = staged_path dir m \<and> files d q = None \<and> d' = d\<lparr>files := (files d)(q := files d p)\<rparr> \<and>
    (\<exists>bs. files d p = Some bs \<and> ''sha256:'' @ sha bs = sha256 (artifact m) \<and> length bs = bytes (artifact m))"
  using assms by (auto simp: stage_def verify_artifact_def copy_file_def Let_def split: option.splits result.splits if_splits)

text \<open>
  A successful staging wrote one new file, the staged path, whose bytes have the published
  digest and length, and touched nothing else.
\<close>

theorem staged_is_published:
  assumes "stage sha d m p dir = (Ok q, d')"
  shows "files d q = None \<and> (\<forall>r. r \<noteq> q \<longrightarrow> files d' r = files d r) \<and>
    (\<exists>bs. files d' q = Some bs \<and> ''sha256:'' @ sha bs = sha256 (artifact m) \<and> length bs = bytes (artifact m))"
  using stage_Ok [OF assms] by auto

lemma apply_previous:
  assumes "files d staged \<noteq> None" "files d target \<noteq> None"
    and "staged \<noteq> target" "staged \<noteq> displaced_path target" "displaced_path target \<noteq> target"
    and "\<And>op. refuses d op = None"
  shows "apply_staged d staged target =
    (Ok (Some (displaced_path target)),
     d\<lparr>files := (files d)(staged := None, target := files d staged, displaced_path target := files d target)\<rparr>)"
proof -
  let ?b = "displaced_path target"
  have "(files d)(?b := files d target, target := None, staged := None, target := files d staged) =
      (files d)(staged := None, target := files d staged, ?b := files d target)"
    using assms by (auto simp: fun_eq_iff)
  moreover have "(files d)(target := None, ?b := files d target, staged := None, target := files d staged) =
      (files d)(staged := None, target := files d staged, ?b := files d target)"
    using assms by (auto simp: fun_eq_iff)
  ultimately show ?thesis
    using assms by (auto simp: apply_staged_def remove_file_def rename_file_def Let_def fun_upd_twist intro!: ext)
qed

text \<open>
  C39. Applying an update over an installed one and rolling back leaves the previous artifact in
  place; the staged file and the displaced copy are gone, and no other file changed.
\<close>

theorem apply_then_rollback:
  assumes "files d staged \<noteq> None" "files d target = Some previous"
    and "staged \<noteq> target" "staged \<noteq> displaced_path target" "displaced_path target \<noteq> target"
    and "\<forall>op. refuses d op = None"
  shows "(case apply_staged d staged target of (r, d1) \<Rightarrow>
      r = Ok (Some (displaced_path target)) \<and> files d1 target = files d staged \<and>
      (case rollback d1 target of (r2, d2) \<Rightarrow>
        r2 = Ok (displaced_path target) \<and>
        files d2 = (files d)(staged := None, displaced_path target := None)))"
  using assms apply_previous [of d staged target]
  by (auto simp: rollback_def rename_file_def Let_def fun_eq_iff)

text \<open>
  When the staged file cannot be moved into place, the previous artifact is put back: the
  installed path still runs what it ran.
\<close>

theorem failed_apply_restores:
  assumes "files d target = Some previous" "displaced_path target \<noteq> target"
    and "apply_staged d staged target = (Err e, d')"
    and "refuses d (Rename (displaced_path target) target) = None"
  shows "files d' target = Some previous"
  using assms by (auto simp: apply_staged_def remove_file_def rename_file_def Let_def
      split: option.splits result.splits if_splits)

section \<open>Inputs that reach each property\<close>

definition sample_manifest :: update_manifest where
  "sample_manifest = \<lparr>format = UPDATE_FORMAT, app = ''desktop'', version = ''0.2.0'', min_running_version = ''0.1.0'',
     published_at = ''now'', artifact = \<lparr>file_name = ''d.exe'', sha256 = ''sha256:ab'', bytes = 2\<rparr>, notes_url = None\<rparr>"

lemma sample_versions:
  "version_key ''0.1.0'' = Some (0, 1, 0)" "version_key ''0.2.0'' = Some (0, 2, 0)"
proof -
  have split: "split_on (CHR ''.'') (trim ''0.1.0'') = [''0'', ''1'', ''0'']"
      "split_on (CHR ''.'') (trim ''0.2.0'') = [''0'', ''2'', ''0'']"
    by code_simp+
  have digit: "is_digit CHR ''0''" "is_digit CHR ''1''" "is_digit CHR ''2''"
      "digits_val ''0'' = 0" "digits_val ''1'' = 1" "digits_val ''2'' = 2"
    by code_simp+
  show "version_key ''0.1.0'' = Some (0, 1, 0)" "version_key ''0.2.0'' = Some (0, 2, 0)"
    by (simp_all add: version_key_def split version_part_def digit)
qed

theorem signed_update_verifies_witness:
  "verify sample_scheme (sign sample_scheme sample_manifest CHR ''k'') (to_hex (public sample_scheme CHR ''k''))
     ''desktop'' ''0.1.0'' = Some (Ok ())"
  by (rule signed_update_verifies [THEN iffD2, OF sample_scheme_ok])
    (simp add: sample_manifest_def UPDATE_FORMAT_def sample_versions)

theorem payload_determines_fields_witness:
  "signing_payload sample_manifest \<noteq> signing_payload (sample_manifest\<lparr>version := ''0.2.00''\<rparr>)"
  using payload_determines_fields [of sample_manifest "sample_manifest\<lparr>version := ''0.2.00''\<rparr>"]
  by (simp add: sample_manifest_def signed_fields_def UPDATE_FORMAT_def show_nat.simps)

definition sample_disk :: disk where
  "sample_disk = \<lparr>files = [''in/d'' \<mapsto> ''bb'', ''app/v.exe'' \<mapsto> ''old'', ''s'' \<mapsto> ''bb''], refuses = (\<lambda>_. None)\<rparr>"

lemma sample_displaced: "displaced_path ''app/v.exe'' = ''app/v.pre-update''"
  by code_simp

theorem staged_is_published_witness:
  "files (snd (stage (\<lambda>_. ''ab'') sample_disk sample_manifest ''in/d'' ''app'')) ''app/.update-staged-0.2.0'' = Some ''bb''"
proof -
  have "stage (\<lambda>_. ''ab'') sample_disk sample_manifest ''in/d'' ''app'' =
      (Ok ''app/.update-staged-0.2.0'',
       sample_disk\<lparr>files := (files sample_disk)(''app/.update-staged-0.2.0'' \<mapsto> ''bb'')\<rparr>)"
    by (simp add: stage_def verify_artifact_def copy_file_def staged_path_def sample_disk_def sample_manifest_def Let_def)
  from staged_is_published [OF this] this show ?thesis by auto
qed

theorem apply_then_rollback_witness:
  "files (snd (rollback (snd (apply_staged sample_disk ''s'' ''app/v.exe'')) ''app/v.exe'')) ''app/v.exe'' = Some ''old''"
proof -
  have "files sample_disk ''s'' \<noteq> None" "files sample_disk ''app/v.exe'' = Some ''old''" "\<forall>op. refuses sample_disk op = None"
    by (simp_all add: sample_disk_def)
  from apply_then_rollback [OF this(1,2) _ _ _ this(3)]
  have "files (snd (rollback (snd (apply_staged sample_disk ''s'' ''app/v.exe'')) ''app/v.exe'')) =
      (files sample_disk)(''s'' := None, ''app/v.pre-update'' := None)"
    by (auto simp: sample_displaced split: prod.splits)
  then show ?thesis by (simp add: sample_disk_def)
qed

text \<open>The disk refuses to move the staged file.\<close>

theorem failed_apply_restores_witness:
  "files (snd (apply_staged (sample_disk\<lparr>refuses := (\<lambda>op. if op = Rename ''s'' ''app/v.exe'' then Some ''busy'' else None)\<rparr>)
     ''s'' ''app/v.exe'')) ''app/v.exe'' = Some ''old''"
proof -
  let ?d = "sample_disk\<lparr>refuses := (\<lambda>op. if op = Rename ''s'' ''app/v.exe'' then Some ''busy'' else None)\<rparr>"
  have "fst (apply_staged ?d ''s'' ''app/v.exe'') = Err (Staging ''busy'')"
    by (simp add: apply_staged_def sample_displaced rename_file_def sample_disk_def Let_def)
  then obtain d' where d: "apply_staged ?d ''s'' ''app/v.exe'' = (Err (Staging ''busy''), d')" by (metis prod.collapse)
  show ?thesis
    using failed_apply_restores [OF _ _ d, of "''old''"] d by (simp add: sample_displaced) (simp add: sample_disk_def)
qed

text \<open>
  Text outside ASCII whose bytes do not fall in pairs is sliced inside a character, a panic; and a
  pair may be a plus sign and one digit.
\<close>

lemma from_hex_panics: "from_hex [CHR ''a'', char_of (195 :: nat), char_of (169 :: nat), CHR ''b''] = None"
  by code_simp

lemma from_hex_plus: "from_hex ''+f'' = Some (Some [char_of (15 :: nat)])"
  by code_simp

end
