(* ===== verification/Signed_Pack.thy ===== *)
theory Signed_Pack
  imports Encoding "HOL-Library.Word"
begin

text \<open>
  The signed identity of a content pack, \<open>crates/vector-domain/src/content.rs\<close>: construction,
  life cycle, signing and verification. The clock is the argument \<open>now\<close> (a number of seconds);
  Ed25519 is the record \<^typ>\<open>'k ed25519\<close>.
\<close>

datatype content_status = Quarantined | Active | Archived

datatype signature_error =
    NotSigned
  | NoSigner
  | EmptyContentHash
  | MalformedSignature
  | MalformedKey
  | VerificationFailed

definition SIGNING_DOMAIN :: string where "SIGNING_DOMAIN = ''VECTOR-CONTENT-PACK-v1''"

record content_pack =
  pack_name :: string
  pack_version :: "32 word"
  pack_hash :: string
  status :: content_status
  freshness_timestamp :: int
  pack_signature :: "string option"
  pack_signer :: "string option"

definition new_pack :: "int \<Rightarrow> string \<Rightarrow> string \<Rightarrow> (content_pack, signature_error) result" where
  "new_pack now name hash =
     (if trim hash = [] then Err EmptyContentHash
      else Ok \<lparr>pack_name = name, pack_version = 1, pack_hash = hash, status = Quarantined,
        freshness_timestamp = now, pack_signature = None, pack_signer = None\<rparr>)"

definition from_signed :: "int \<Rightarrow> string \<Rightarrow> 32 word \<Rightarrow> string \<Rightarrow> string \<Rightarrow> string \<Rightarrow> (content_pack, signature_error) result" where
  "from_signed now name v hash sg key =
     (if trim hash = [] then Err EmptyContentHash
      else if length sg \<noteq> 64 then Err MalformedSignature
      else if length key \<noteq> 32 then Err MalformedKey
      else Ok \<lparr>pack_name = name, pack_version = v, pack_hash = hash, status = Quarantined,
        freshness_timestamp = now, pack_signature = Some sg, pack_signer = Some key\<rparr>)"

definition stage_update :: "int \<Rightarrow> content_pack \<Rightarrow> content_pack" where
  "stage_update now p = p\<lparr>status := Quarantined, freshness_timestamp := now\<rparr>"

definition rollback :: "content_pack \<Rightarrow> content_pack" where
  "rollback p = p\<lparr>status := Active\<rparr>"

definition activate :: "content_pack \<Rightarrow> content_pack" where
  "activate p = p\<lparr>status := Active\<rparr>"

definition freshness :: "int \<Rightarrow> content_pack \<Rightarrow> int" where
  "freshness now p = now - freshness_timestamp p"

definition is_signed :: "content_pack \<Rightarrow> bool" where
  "is_signed p \<longleftrightarrow> pack_signature p \<noteq> None \<and> pack_signer p \<noteq> None"

definition set_version :: "32 word \<Rightarrow> content_pack \<Rightarrow> content_pack" where
  "set_version v p = p\<lparr>pack_version := v, pack_signature := None, pack_signer := None\<rparr>"

definition identity_fields :: "content_pack \<Rightarrow> string list" where
  "identity_fields p = [SIGNING_DOMAIN, pack_name p, le_bytes 4 (unat (pack_version p)), pack_hash p]"

definition signing_payload :: "content_pack \<Rightarrow> string" where
  "signing_payload p = length_prefixed (identity_fields p)"

definition sign :: "'k ed25519 \<Rightarrow> 'k \<Rightarrow> content_pack \<Rightarrow> (content_pack, signature_error) result" where
  "sign ed k p =
     (if trim (pack_hash p) = [] then Err EmptyContentHash
      else Ok (p\<lparr>pack_signature := Some (sign_with ed k (signing_payload p)), pack_signer := Some (public ed k)\<rparr>))"

definition verify :: "'k ed25519 \<Rightarrow> content_pack \<Rightarrow> (unit, signature_error) result" where
  "verify ed p =
     try_bind (ok_or (pack_signature p) NotSigned) (\<lambda>signature_bytes.
     try_bind (ok_or (pack_signer p) NoSigner) (\<lambda>signer_bytes.
     try_bind (ok_or (signature_of ed signature_bytes) MalformedSignature) (\<lambda>sg.
       if length signer_bytes \<noteq> 32 then Err MalformedKey
       else try_bind (ok_or (key_of ed signer_bytes) MalformedKey) (\<lambda>key.
         if verify_plain ed key (signing_payload p) sg then Ok () else Err VerificationFailed))))"

section \<open>What a signature attests\<close>

lemma signing_payload_eq_iff:
  assumes "\<forall>q \<in> {p, p'}. length (pack_name q) < 2 ^ 64 \<and> length (pack_hash q) < 2 ^ 64"
  shows "signing_payload p = signing_payload p' \<longleftrightarrow>
    pack_name p = pack_name p' \<and> pack_version p = pack_version p' \<and> pack_hash p = pack_hash p'"
proof
  assume eq: "signing_payload p = signing_payload p'"
  have "identity_fields p = identity_fields p'"
    using assms eq unfolding signing_payload_def
    by (intro length_prefixed_inj) (auto simp: identity_fields_def SIGNING_DOMAIN_def)
  moreover have "unat v < 256 ^ 4" for v :: "32 word" using unsigned_less [of v] by simp
  ultimately show "pack_name p = pack_name p' \<and> pack_version p = pack_version p' \<and> pack_hash p = pack_hash p'"
    using le_bytes_inj [of "unat (pack_version p)" 4 "unat (pack_version p')"]
    by (simp add: identity_fields_def word_unat_eq_iff)
qed (simp add: signing_payload_def identity_fields_def)

text \<open>The life-cycle operations, which leave the identity and its attestation alone.\<close>

inductive lifecycle_step :: "content_pack \<Rightarrow> content_pack \<Rightarrow> bool" where
  "lifecycle_step p (stage_update now p)"
| "lifecycle_step p (rollback p)"
| "lifecycle_step p (activate p)"

lemma lifecycle_keeps_identity:
  "lifecycle_step\<^sup>*\<^sup>* p q \<Longrightarrow> signing_payload q = signing_payload p \<and> pack_signature q = pack_signature p \<and> pack_signer q = pack_signer p"
proof (induction rule: rtranclp_induct)
  case (step q r)
  have "signing_payload r = signing_payload q \<and> pack_signature r = pack_signature q \<and> pack_signer r = pack_signer q"
    using step.hyps(2)
    by cases (simp_all add: stage_update_def rollback_def activate_def signing_payload_def identity_fields_def)
  with step.IH show ?case by simp
qed simp

lemma verify_cong:
  "signing_payload q = signing_payload p \<Longrightarrow> pack_signature q = pack_signature p \<Longrightarrow> pack_signer q = pack_signer p \<Longrightarrow>
    verify ed q = verify ed p"
  by (simp only: verify_def)

lemma sign_verifies:
  assumes "signature_scheme ed" "sign ed k p = Ok q"
  shows "verify ed q = Ok ()"
proof -
  have q: "q = p\<lparr>pack_signature := Some (sign_with ed k (signing_payload p)), pack_signer := Some (public ed k)\<rparr>"
    using assms(2) by (simp add: sign_def split: if_splits)
  then have pay: "signing_payload q = signing_payload p" by (simp add: signing_payload_def identity_fields_def)
  obtain key where key: "key_of ed (public ed k) = Some key"
    using assms(1) unfolding signature_scheme_def by (metis not_None_eq)
  then have "verify_plain ed key (signing_payload p) (sign_with ed k (signing_payload p))"
    and "length (public ed k) = 32" and "signature_of ed (sign_with ed k (signing_payload p)) = Some (sign_with ed k (signing_payload p))"
    using assms(1) unfolding signature_scheme_def by auto
  then show ?thesis using key pay by (simp add: verify_def q)
qed

text \<open>
  A signed pack verifies, and keeps verifying through every staging, rollback and activation;
  a new version carries no signature at all.
\<close>

theorem signature_survives_lifecycle:
  assumes "signature_scheme ed" "sign ed k p = Ok q" "lifecycle_step\<^sup>*\<^sup>* q r"
  shows "verify ed r = Ok () \<and> is_signed r \<and> verify ed (set_version v r) = Err NotSigned"
proof -
  have "verify ed r = verify ed q" "is_signed r = is_signed q"
    using lifecycle_keeps_identity [OF assms(3)] verify_cong [of r q ed] by (simp_all add: is_signed_def)
  moreover have "is_signed q" using assms(2) by (auto simp: sign_def is_signed_def split: if_splits)
  moreover have "verify ed (set_version v r) = Err NotSigned" by (simp add: verify_def set_version_def)
  ultimately show ?thesis using sign_verifies [OF assms(1,2)] by simp
qed

theorem signature_survives_lifecycle_witness:
  "\<exists>p q. new_pack 0 ''core'' ''sha256:ab'' = Ok p \<and> sign sample_scheme CHR ''k'' p = Ok q \<and>
     verify sample_scheme (activate (stage_update 5 q)) = Ok ()"
proof -
  have trim: "trim ''sha256:ab'' = ''sha256:ab''" by (rule trim_plain) simp_all
  obtain p where p: "new_pack 0 ''core'' ''sha256:ab'' = Ok p" by (simp add: new_pack_def trim)
  then have "pack_hash p = ''sha256:ab''" by (simp add: new_pack_def trim) (metis content_pack.select_convs(3))
  then obtain q where q: "sign sample_scheme CHR ''k'' p = Ok q" by (simp add: sign_def trim)
  have "lifecycle_step\<^sup>*\<^sup>* q (activate (stage_update 5 q))"
    by (rule rtranclp.rtrancl_into_rtrancl [OF r_into_rtranclp]) (rule lifecycle_step.intros)+
  from signature_survives_lifecycle [OF sample_scheme_ok q this]
  have "verify sample_scheme (activate (stage_update 5 q)) = Ok ()" by (rule conjunct1)
  with p q show ?thesis by (intro exI conjI)
qed

text \<open>
  The payload that is signed determines name, version and content hash: no byte can move from one
  field to another, so a signature cannot be carried over to a different pack.
\<close>

theorem signed_identity_is_unambiguous:
  assumes "length (pack_name p) < 2 ^ 64" "length (pack_hash p) < 2 ^ 64"
    and "length (pack_name p') < 2 ^ 64" "length (pack_hash p') < 2 ^ 64"
    and "signing_payload p = signing_payload p'"
  shows "pack_name p = pack_name p' \<and> pack_version p = pack_version p' \<and> pack_hash p = pack_hash p'"
  using assms signing_payload_eq_iff [of p p'] by simp

theorem signed_identity_is_unambiguous_witness:
  "signing_payload \<lparr>pack_name = ''ab'', pack_version = 1, pack_hash = ''h'', status = Active, freshness_timestamp = 0, pack_signature = None, pack_signer = None\<rparr> \<noteq>
   signing_payload \<lparr>pack_name = ''a'', pack_version = 98, pack_hash = ''h'', status = Active, freshness_timestamp = 0, pack_signature = None, pack_signer = None\<rparr>"
  (is "signing_payload ?p \<noteq> signing_payload ?q")
  using signed_identity_is_unambiguous [of ?p ?q] by auto

end
