(* ===== verification/Curriculum.thy ===== *)
theory Curriculum
  imports Prelude
begin

text \<open>
  The curriculum graph of a content pack (\<open>verify_curriculum\<close> of
  \<open>crates/vector-application/src/packs.rs\<close>): its nodes, the map by objective, and the depth-first
  search for a prerequisite cycle with its explicit stack. The search is proved to answer exactly
  whether an order exists in which every objective follows its prerequisites.
\<close>

section \<open>The graph\<close>

record curriculum_node =
  node_objective :: string
  node_subtest :: string
  node_title :: string
  prerequisites :: "string list"

text \<open>A \<open>BTreeMap\<close> collected from the nodes keeps the last node of an objective.\<close>

definition find_node :: "curriculum_node list \<Rightarrow> string \<Rightarrow> curriculum_node option" where
  "find_node ns i = find (\<lambda>n. node_objective n = i) (rev ns)"

definition prereqs :: "curriculum_node list \<Rightarrow> string \<Rightarrow> string list" where
  "prereqs ns i = (case find_node ns i of None \<Rightarrow> [] | Some n \<Rightarrow> prerequisites n)"

definition objectives :: "curriculum_node list \<Rightarrow> string list" where
  "objectives ns = sort (remdups (map node_objective ns))"

section \<open>The search\<close>

text \<open>
  The stack holds an objective with the index of the next prerequisite to follow. An error names the
  objective a cycle closed on. (The code also keeps a \<open>path\<close> that it never reads.)
\<close>

definition weight :: "curriculum_node list \<Rightarrow> string \<times> nat \<Rightarrow> nat" where
  "weight ns = (\<lambda>(n, i). if i = 0 then 1 else 2 * (length (prereqs ns n) - i) + 1)"

lemma prereqs_objective: "prereqs ns n \<noteq> [] \<Longrightarrow> n \<in> node_objective ` set ns"
  by (auto simp: prereqs_def find_node_def find_Some_iff in_set_conv_nth split: option.splits)
    (metis image_eqI in_set_conv_nth length_rev set_rev)

lemma weight_pos: "0 < weight ns f"
  by (cases f) (simp add: weight_def)

definition unseen :: "curriculum_node list \<Rightarrow> string set \<Rightarrow> nat" where
  "unseen ns seen = card (node_objective ` set ns - seen)"

lemma unseen_fresh: "prereqs ns n \<noteq> [] \<Longrightarrow> n \<notin> seen \<Longrightarrow> unseen ns (insert n seen) < unseen ns seen"
  unfolding unseen_def using prereqs_objective [of ns n] by (intro psubset_card_mono) auto

lemma unseen_mono: "seen \<subseteq> seen' \<Longrightarrow> unseen ns seen' \<le> unseen ns seen"
  unfolding unseen_def by (intro card_mono) auto

function visit_loop :: "curriculum_node list \<Rightarrow> (string \<times> nat) list \<Rightarrow> string set \<Rightarrow> string set \<Rightarrow> (string set, string) result" where
  "visit_loop ns [] visiting settled = Ok settled"
| "visit_loop ns ((n, i) # stack) visiting settled =
     (if i = 0 \<and> n \<in> settled then visit_loop ns stack visiting settled
      else if i = 0 \<and> n \<in> visiting then Err n
      else
        let visiting' = (if i = 0 then insert n visiting else visiting) in
        if i < length (prereqs ns n) then
          (if prereqs ns n ! i \<in> visiting' then Err (prereqs ns n ! i)
           else visit_loop ns ((prereqs ns n ! i, 0) # (n, Suc i) # stack) visiting' settled)
        else visit_loop ns stack (visiting' - {n}) (insert n settled))"
  by pat_completeness auto

termination
proof (relation "inv_image (less_than <*lex*> less_than)
    (\<lambda>(ns, stack, visiting, settled). (unseen ns (visiting \<union> settled), sum_list (map (weight ns) stack)))",
    goal_cases)
  case (3 ns n i stack visiting settled v)
  then have "prereqs ns n \<noteq> []" by auto
  with 3 show ?case using unseen_fresh [of ns n "visiting \<union> settled"] by (auto simp: weight_def)
next
  case (4 ns n i stack visiting settled v)
  have "unseen ns (v - {n} \<union> insert n settled) \<le> unseen ns (visiting \<union> settled)"
    using 4 by (intro unseen_mono) (auto split: if_splits)
  then show ?case using weight_pos [of ns "(n, i)"] by auto
qed (use weight_pos in auto)

declare visit_loop.simps(2) [simp del]

fun visit_all :: "curriculum_node list \<Rightarrow> string list \<Rightarrow> string set \<Rightarrow> (string set, string) result" where
  "visit_all ns [] settled = Ok settled"
| "visit_all ns (start # starts) settled =
     try_bind (visit_loop ns [(start, 0)] {} settled) (visit_all ns starts)"

section \<open>A learning order\<close>

text \<open>An objective can be taught once all its prerequisites have been.\<close>

fun teachable :: "curriculum_node list \<Rightarrow> string set \<Rightarrow> string list \<Rightarrow> bool" where
  "teachable ns taught [] = True"
| "teachable ns taught (x # xs) = (set (prereqs ns x) \<subseteq> taught \<and> teachable ns (insert x taught) xs)"

definition learning_order :: "curriculum_node list \<Rightarrow> string list \<Rightarrow> bool" where
  "learning_order ns xs \<longleftrightarrow> distinct xs \<and> teachable ns {} xs"

definition requires :: "curriculum_node list \<Rightarrow> (string \<times> string) set" where
  "requires ns = {(n, p). p \<in> set (prereqs ns n)}"

lemma teachable_snoc: "teachable ns S (xs @ [x]) \<longleftrightarrow> teachable ns S xs \<and> set (prereqs ns x) \<subseteq> S \<union> set xs"
  by (induction xs arbitrary: S) auto

lemma learning_order_snoc:
  "learning_order ns xs \<Longrightarrow> x \<notin> set xs \<Longrightarrow> set (prereqs ns x) \<subseteq> set xs \<Longrightarrow> learning_order ns (xs @ [x])"
  by (simp add: learning_order_def teachable_snoc)

lemma learning_order_closed:
  "learning_order ns xs \<Longrightarrow> x \<in> set xs \<Longrightarrow> (x, y) \<in> (requires ns)\<^sup>+ \<Longrightarrow> y \<in> set xs \<and> y \<noteq> x"
proof (induction xs arbitrary: x y rule: rev_induct)
  case (snoc z xs)
  then have order: "learning_order ns xs" and z: "z \<notin> set xs" "set (prereqs ns z) \<subseteq> set xs"
    by (auto simp: learning_order_def teachable_snoc)
  show ?case
  proof (cases "x \<in> set xs")
    case True
    with snoc.IH [OF order True snoc.prems(3)] show ?thesis by simp
  next
    case False
    with snoc.prems(2) have x: "x = z" by simp
    obtain p where p: "(x, p) \<in> requires ns" "(p, y) \<in> (requires ns)\<^sup>*"
      using snoc.prems(3) by (meson tranclD)
    then have "p \<in> set xs" using z(2) x by (auto simp: requires_def)
    then have "y \<in> set xs" using p(2) snoc.IH [OF order, of p y] by (auto dest: rtranclD)
    with x z(1) show ?thesis by auto
  qed
qed simp

section \<open>The stack of the search\<close>

text \<open>
  Every open frame stands on the prerequisite the frame below is following; the prerequisites it
  has gone through are settled. \<open>child\<close> is the objective above, if one is being visited.
\<close>

fun open_frames :: "curriculum_node list \<Rightarrow> string set \<Rightarrow> string option \<Rightarrow> (string \<times> nat) list \<Rightarrow> bool" where
  "open_frames ns settled child [] = True"
| "open_frames ns settled child ((n, i) # fs) =
     (0 < i \<and> i \<le> length (prereqs ns n) \<and> n \<notin> settled \<and> n \<notin> fst ` set fs \<and>
      (\<forall>j < i - 1. prereqs ns n ! j \<in> settled) \<and>
      (case child of Some q \<Rightarrow> q = prereqs ns n ! (i - 1) | None \<Rightarrow> prereqs ns n ! (i - 1) \<in> settled) \<and>
      open_frames ns settled (Some n) fs)"

lemma open_frames_insert: "open_frames ns settled child fs \<Longrightarrow> x \<notin> fst ` set fs \<Longrightarrow> open_frames ns (insert x settled) child fs"
  by (induction ns settled child fs rule: open_frames.induct) (auto split: option.splits)

lemma open_frames_settle: "open_frames ns settled (Some x) fs \<Longrightarrow> x \<in> settled \<Longrightarrow> open_frames ns settled None fs"
  by (cases "(ns, settled, Some x, fs)" rule: open_frames.cases) auto

lemma open_frames_reach: "open_frames ns settled (Some x) fs \<Longrightarrow> q \<in> fst ` set fs \<Longrightarrow> (q, x) \<in> (requires ns)\<^sup>+"
proof (induction fs arbitrary: x)
  case (Cons f fs)
  obtain n i where f: "f = (n, i)" by (cases f)
  then have "(n, x) \<in> requires ns" using Cons.prems(1) by (auto simp: requires_def)
  moreover have "q = n \<or> (q, n) \<in> (requires ns)\<^sup>+" using Cons f by auto
  ultimately show ?case by (auto intro: trancl_into_trancl)
qed simp

definition search_ok :: "curriculum_node list \<Rightarrow> (string \<times> nat) list \<Rightarrow> string set \<Rightarrow> string set \<Rightarrow> bool" where
  "search_ok ns stack visiting settled \<longleftrightarrow>
     (\<exists>xs. learning_order ns xs \<and> set xs = settled) \<and>
     (\<exists>fs. visiting = fst ` set fs \<and>
        (stack = fs \<and> open_frames ns settled None fs \<or>
         (\<exists>p. stack = (p, 0) # fs \<and> p \<notin> visiting \<and> open_frames ns settled (Some p) fs)))"

lemma settle_order:
  assumes "\<exists>xs. learning_order ns xs \<and> set xs = settled" "set (prereqs ns n) \<subseteq> settled"
  shows "\<exists>xs. learning_order ns xs \<and> set xs = insert n settled"
proof (cases "n \<in> settled")
  case True
  with assms(1) show ?thesis by (simp add: insert_absorb)
next
  case False
  obtain xs where xs: "learning_order ns xs" "set xs = settled" using assms(1) by blast
  with False assms(2) have "learning_order ns (xs @ [n]) \<and> set (xs @ [n]) = insert n settled"
    by (auto intro: learning_order_snoc)
  then show ?thesis by blast
qed

text \<open>The four steps of the loop: a settled top, a frame pushed, a frame closed, a cycle found.\<close>

lemma search_skip: "search_ok ns ((n, 0) # stack) visiting settled \<Longrightarrow> n \<in> settled \<Longrightarrow> search_ok ns stack visiting settled"
  by (auto simp: search_ok_def intro: open_frames_settle)

lemma search_top:
  assumes "search_ok ns ((n, i) # stack) visiting settled" "\<not> (i = 0 \<and> n \<in> settled)"
  shows "\<not> (i = 0 \<and> n \<in> visiting)"
    and "n \<notin> settled" "(if i = 0 then insert n visiting else visiting) = insert n (fst ` set stack)" "n \<notin> fst ` set stack"
    and "\<forall>j < i. prereqs ns n ! j \<in> settled" "i \<le> length (prereqs ns n)" "open_frames ns settled (Some n) stack"
    and "\<exists>xs. learning_order ns xs \<and> set xs = settled"
proof -
  obtain fs where fs: "visiting = fst ` set fs"
    and st: "(n, i) # stack = fs \<and> open_frames ns settled None fs \<or>
      (\<exists>p. (n, i) # stack = (p, 0) # fs \<and> p \<notin> visiting \<and> open_frames ns settled (Some p) fs)"
    using assms(1) unfolding search_ok_def by blast
  have all: "(i = 0 \<longrightarrow> n \<notin> visiting) \<and> n \<notin> settled \<and>
      (if i = 0 then insert n visiting else visiting) = insert n (fst ` set stack) \<and> n \<notin> fst ` set stack \<and>
      (\<forall>j < i. prereqs ns n ! j \<in> settled) \<and> i \<le> length (prereqs ns n) \<and> open_frames ns settled (Some n) stack"
    using st
  proof
    assume "(n, i) # stack = fs \<and> open_frames ns settled None fs"
    then have o: "open_frames ns settled None ((n, i) # stack)" and fs': "fs = (n, i) # stack" by auto
    then have "\<forall>j < i. prereqs ns n ! j \<in> settled" by (auto simp: less_Suc_eq dest!: gr0_implies_Suc)
    with o fs fs' show ?thesis by auto
  next
    assume "\<exists>p. (n, i) # stack = (p, 0) # fs \<and> p \<notin> visiting \<and> open_frames ns settled (Some p) fs"
    with fs assms(2) show ?thesis by auto
  qed
  then show "\<not> (i = 0 \<and> n \<in> visiting)" "n \<notin> settled"
    "(if i = 0 then insert n visiting else visiting) = insert n (fst ` set stack)" "n \<notin> fst ` set stack"
    "\<forall>j < i. prereqs ns n ! j \<in> settled" "i \<le> length (prereqs ns n)" "open_frames ns settled (Some n) stack"
    by blast+
  show "\<exists>xs. learning_order ns xs \<and> set xs = settled" using assms(1) by (simp add: search_ok_def)
qed

lemma search_push:
  assumes "search_ok ns ((n, i) # stack) visiting settled" "\<not> (i = 0 \<and> n \<in> settled)" "i < length (prereqs ns n)"
    and "prereqs ns n ! i \<notin> insert n (fst ` set stack)"
  shows "search_ok ns ((prereqs ns n ! i, 0) # (n, Suc i) # stack) (insert n (fst ` set stack)) settled"
proof -
  have "open_frames ns settled (Some (prereqs ns n ! i)) ((n, Suc i) # stack)"
    using search_top [OF assms(1,2)] assms(3) by simp
  with search_top(8) [OF assms(1,2)] assms(4) show ?thesis
    unfolding search_ok_def by (intro conjI exI [of _ "(n, Suc i) # stack"] disjI2 exI [of _ "prereqs ns n ! i"]) auto
qed

lemma search_close:
  assumes "search_ok ns ((n, i) # stack) visiting settled" "\<not> (i = 0 \<and> n \<in> settled)" "\<not> i < length (prereqs ns n)"
  shows "search_ok ns stack (insert n (fst ` set stack) - {n}) (insert n settled)"
proof -
  note top = search_top [OF assms(1,2)]
  have "set (prereqs ns n) \<subseteq> settled" using top(5,6) assms(3) by (auto simp: in_set_conv_nth)
  then have "\<exists>xs. learning_order ns xs \<and> set xs = insert n settled" by (rule settle_order [OF top(8)])
  moreover have "open_frames ns (insert n settled) None stack"
    using open_frames_insert [OF top(7,4)] by (rule open_frames_settle) simp
  ultimately show ?thesis using top(4) unfolding search_ok_def by auto
qed

lemma search_cycle:
  assumes "search_ok ns ((n, i) # stack) visiting settled" "\<not> (i = 0 \<and> n \<in> settled)" "i < length (prereqs ns n)"
    and "q = prereqs ns n ! i" "q \<in> insert n (fst ` set stack)"
  shows "(q, q) \<in> (requires ns)\<^sup>+"
proof -
  have edge: "(n, q) \<in> requires ns" using assms(3,4) by (auto simp: requires_def)
  moreover have "q = n \<or> (q, n) \<in> (requires ns)\<^sup>+"
    using assms(5) open_frames_reach [OF search_top(7) [OF assms(1,2)]] by auto
  ultimately show ?thesis by (auto intro: trancl_into_trancl)
qed

lemma visit_loop_correct:
  "search_ok ns stack visiting settled \<Longrightarrow>
    (case visit_loop ns stack visiting settled of
       Ok s \<Rightarrow> (\<exists>xs. learning_order ns xs \<and> set xs = s) \<and> settled \<subseteq> s \<and> fst ` set stack \<subseteq> s
     | Err q \<Rightarrow> (q, q) \<in> (requires ns)\<^sup>+)"
proof (induction ns stack visiting settled rule: visit_loop.induct)
  case (1 ns visiting settled)
  then show ?case by (simp add: search_ok_def)
next
  case (2 ns n i stack visiting settled)
  show ?case
  proof (cases "i = 0 \<and> n \<in> settled")
    case True
    with "2.prems" have "search_ok ns stack visiting settled" by (auto dest: search_skip)
    with "2.IH"(1) [OF True] True show ?thesis
      by (cases "visit_loop ns stack visiting settled") (simp_all add: visit_loop.simps(2), blast)
  next
    case False
    note top = search_top [OF "2.prems" False]
    show ?thesis
    proof (cases "i < length (prereqs ns n)")
      case push: True
      show ?thesis
      proof (cases "prereqs ns n ! i \<in> insert n (fst ` set stack)")
        case True
        then show ?thesis using search_cycle [OF "2.prems" False push refl True] False push top
          by (simp add: visit_loop.simps(2) Let_def del: insert_iff) auto
      next
        case no: False
        have step: "visit_loop ns ((n, i) # stack) visiting settled =
            visit_loop ns ((prereqs ns n ! i, 0) # (n, Suc i) # stack) (insert n (fst ` set stack)) settled"
          by (subst visit_loop.simps(2)) (simp only: Let_def top(3) if_not_P [OF False] if_not_P [OF top(1)] if_not_P [OF no] if_P [OF push])
        show ?thesis
          using "2.IH"(2) [OF False top(1) refl push, unfolded top(3), OF no search_push [OF "2.prems" False push no]]
          unfolding step by (simp split: result.splits)
      qed
    next
      case close: False
      have step: "visit_loop ns ((n, i) # stack) visiting settled =
          visit_loop ns stack (insert n (fst ` set stack) - {n}) (insert n settled)"
        by (subst visit_loop.simps(2)) (simp only: Let_def top(3) if_not_P [OF False] if_not_P [OF top(1)] if_not_P [OF close])
      show ?thesis
        using "2.IH"(3) [OF False top(1) refl close, unfolded top(3), OF search_close [OF "2.prems" False close]]
        unfolding step by (simp split: result.splits)
    qed
  qed
qed

lemma visit_all_correct:
  "\<exists>xs. learning_order ns xs \<and> set xs = settled \<Longrightarrow>
    (case visit_all ns starts settled of
       Ok s \<Rightarrow> (\<exists>xs. learning_order ns xs \<and> set xs = s) \<and> settled \<subseteq> s \<and> set starts \<subseteq> s
     | Err q \<Rightarrow> (q, q) \<in> (requires ns)\<^sup>+)"
proof (induction starts arbitrary: settled)
  case (Cons start starts)
  have "\<exists>fs. {} = fst ` set fs \<and> ([(start, 0)] = fs \<and> open_frames ns settled None fs \<or>
      (\<exists>p. [(start, 0)] = (p, 0) # fs \<and> p \<notin> {} \<and> open_frames ns settled (Some p) fs))"
    by (rule exI [of _ "[]"]) simp
  with Cons.prems have "search_ok ns [(start, 0)] {} settled" unfolding search_ok_def by simp
  note first = visit_loop_correct [OF this]
  show ?case
  proof (cases "visit_loop ns [(start, 0)] {} settled")
    case (Ok s)
    with first have "\<exists>xs. learning_order ns xs \<and> set xs = s" "settled \<subseteq> s" "start \<in> s" by auto
    with Cons.IH [OF this(1)] Ok show ?thesis by (auto split: result.splits)
  qed (use first in auto)
qed simp

text \<open>
  The search over all objectives finds no cycle exactly when the requirement relation is acyclic,
  exactly when the objectives can be taught in some order.
\<close>

lemma objectives_iff: "x \<in> set (objectives ns) \<longleftrightarrow> x \<in> node_objective ` set ns"
  by (simp add: objectives_def)

definition curriculum_order :: "curriculum_node list \<Rightarrow> string list \<Rightarrow> bool" where
  "curriculum_order ns xs \<longleftrightarrow> learning_order ns xs \<and> set (objectives ns) \<subseteq> set xs"

lemma curriculum_order_acyclic: "curriculum_order ns xs \<Longrightarrow> (q, q) \<notin> (requires ns)\<^sup>+"
proof
  assume o: "curriculum_order ns xs" and "(q, q) \<in> (requires ns)\<^sup>+"
  moreover then obtain p where "(q, p) \<in> requires ns" by (meson tranclD)
  then have "prereqs ns q \<noteq> []" by (auto simp: requires_def)
  then have "q \<in> set (objectives ns)" by (simp add: prereqs_objective objectives_iff)
  ultimately show False using learning_order_closed [of ns xs q q] by (auto simp: curriculum_order_def)
qed

lemma visit_all_Ok_iff: "(\<exists>s. visit_all ns (objectives ns) {} = Ok s) \<longleftrightarrow> (\<exists>xs. curriculum_order ns xs)"
proof
  have start: "\<exists>xs. learning_order ns xs \<and> set xs = {}" by (simp add: learning_order_def)
  note found = visit_all_correct [OF start, of "objectives ns"]
  show "\<exists>xs. curriculum_order ns xs" if "\<exists>s. visit_all ns (objectives ns) {} = Ok s"
    using that found by (auto simp: curriculum_order_def)
  assume "\<exists>xs. curriculum_order ns xs"
  with found curriculum_order_acyclic show "\<exists>s. visit_all ns (objectives ns) {} = Ok s"
    by (cases "visit_all ns (objectives ns) {}") auto
qed

lemma visit_all_Err: "visit_all ns (objectives ns) {} = Err q \<Longrightarrow> (q, q) \<in> (requires ns)\<^sup>+"
  using visit_all_correct [of ns "{}" "objectives ns"] by (simp add: learning_order_def)

text \<open>
  C15. The depth-first search is exact: it ends without an error exactly when the objectives can be taught in
  some order, and an error names an objective that requires itself.
\<close>

theorem cycle_search_exact:
  "((\<exists>s. visit_all ns (objectives ns) {} = Ok s) \<longleftrightarrow> (\<exists>xs. curriculum_order ns xs)) \<and>
   (case visit_all ns (objectives ns) {} of Ok s \<Rightarrow> True | Err q \<Rightarrow> (q, q) \<in> (requires ns)\<^sup>+)"
  using visit_all_Ok_iff [of ns] by (auto dest: visit_all_Err split: result.split)

end
