(* ===== verification/Packs.thy ===== *)
theory Packs
  imports Signed_Pack Curriculum
begin

text \<open>
  Content packs, \<open>crates/vector-application/src/packs.rs\<close>: the document, everything verification
  requires of it, and how one is built from the active items of the store. Parameters: \<open>sha\<close>
  (SHA-256 in hexadecimal), \<open>encode\<close> (serde_json on the payload), \<open>dbg\<close> (the debug form of a
  string), and the floating-point type \<^typ>\<open>'f\<close> with the test whether a share lies in 0 to 1.
\<close>

section \<open>The document\<close>

definition PACK_FORMAT :: string where "PACK_FORMAT = ''vector-content-pack''"
definition PACK_SCHEMA_VERSION :: int where "PACK_SCHEMA_VERSION = 1"

definition PERMITTED_LICENCES :: "string list" where
  "PERMITTED_LICENCES =
     [''Public domain in the USA'', ''Public domain (US government work)'', ''Public domain'',
      ''US-Government-Work'', ''Facts-only; item text is original work'']"

definition COMPUTABLE_SUBTESTS :: "string list" where
  "COMPUTABLE_SUBTESTS = [''AR'', ''MK'', ''MC'']"

record 'f calibration_entry =
  cal_objective :: string
  expected_correct :: 'f
  responses :: nat
  basis :: string

record 'f pack_source =
  source_id :: string
  url :: string
  source_title :: string
  source_hash :: string
  licence :: string
  effective_date :: string
  trust :: 'f
  retrieval_status :: string

text \<open>The rationales are a \<open>BTreeMap\<close>: pairs in the order of their distinct keys.\<close>

record 'f pack_item =
  item_id :: string
  item_subtest :: string
  item_objective :: string
  stem :: string
  passage :: "string option"
  options :: "string list"
  correct_index :: nat
  explanation :: string
  distractor_rationales :: "(string \<times> string) list"
  difficulty :: 'f
  proof_kind :: string
  proof_json :: string
  item_hash :: string
  generator_hash :: "string option"
  verifier_hash :: "string option"
  reviewer :: string
  cited :: "string list"

record 'f pack_payload =
  format :: string
  schema_version :: int
  name :: string
  version :: int
  created_at :: string
  app_min :: string
  app_max :: "string option"
  sources :: "'f pack_source list"
  items :: "'f pack_item list"
  licences :: "string list"
  curriculum :: "curriculum_node list"
  calibration :: "'f calibration_entry list"

record 'f pack_document =
  payload :: "'f pack_payload"
  document_hash :: string
  signature :: string
  signer :: string

datatype 'f pack_refusal =
    Malformed string
  | UnsupportedFormat string
  | UnsupportedSchema int int
  | IncompatibleApp string string
  | ContentHashMismatch string string
  | NotASignedPack
  | UntrustedSigner string
  | InvalidSignature signature_error
  | NoItems
  | MissingProvenance string string
  | SourceNotPermitted string string
  | AnswerInconsistent string string
  | UnreviewedItem string
  | DuplicateContent string
  | WrongProofKind string string
  | ObjectiveNotInCurriculum string string
  | ObjectiveSubtestMismatch string string string
  | UnknownPrerequisite string string
  | CurriculumCycle string
  | CalibrationMissing string
  | CalibrationUnknownObjective string
  | CalibrationOutOfRange string 'f

text \<open>\<open>from_hex\<close> of this file reads bytes, pair by pair.\<close>

fun from_hex :: "string \<Rightarrow> string option" where
  "from_hex [] = Some []"
| "from_hex [a] = None"
| "from_hex (a # b # s) = do { x \<leftarrow> hex_val a; y \<leftarrow> hex_val b; r \<leftarrow> from_hex s; Some (char_of (16 * x + y) # r) }"

definition computed_content_hash :: "(string \<Rightarrow> string) \<Rightarrow> ('f pack_payload \<Rightarrow> string) \<Rightarrow> 'f pack_document \<Rightarrow> string" where
  "computed_content_hash sha encode d = ''sha256:'' @ sha (encode (payload d))"

section \<open>Verification\<close>

text \<open>A loop that returns the first refusal.\<close>

fun each :: "('a \<Rightarrow> (unit, 'e) result) \<Rightarrow> 'a list \<Rightarrow> (unit, 'e) result" where
  "each f [] = Ok ()"
| "each f (x # xs) = try_bind (f x) (\<lambda>_. each f xs)"

definition refuse_if :: "bool \<Rightarrow> 'e \<Rightarrow> (unit, 'e) result" where
  "refuse_if b e = (if b then Err e else Ok ())"

text \<open>\<open>str::parse::<usize>\<close>.\<close>

definition parse_usize :: "string \<Rightarrow> nat option" where
  "parse_usize s =
     (let ds = (case s of c # t \<Rightarrow> if c = CHR ''+'' then t else s | [] \<Rightarrow> [])
      in if ds \<noteq> [] \<and> list_all is_digit ds \<and> int (digits_val ds) < 2 ^ 64 then Some (digits_val ds) else None)"

definition check_source :: "'f pack_source \<Rightarrow> (unit, 'f pack_refusal) result" where
  "check_source s =
     (if licence s \<notin> set PERMITTED_LICENCES then Err (SourceNotPermitted (source_id s) (licence s))
      else if trim (source_hash s) = [] \<or> trim (url s) = []
      then Err (MissingProvenance (source_id s) ''the source records no URL or content hash'')
      else Ok ())"

definition check_citation :: "string set \<Rightarrow> string \<Rightarrow> string \<Rightarrow> (unit, 'f pack_refusal) result" where
  "check_citation ledger item c =
     refuse_if (c \<notin> ledger) (MissingProvenance item (''it cites '' @ c @ '', which the ledger does not carry''))"

definition names_wrong_option :: "'f pack_item \<Rightarrow> string \<Rightarrow> bool" where
  "names_wrong_option i key =
     (case parse_usize key of None \<Rightarrow> False | Some n \<Rightarrow> n < length (options i) \<and> n \<noteq> correct_index i)"

definition check_rationale_key :: "(string \<Rightarrow> string) \<Rightarrow> 'f pack_item \<Rightarrow> string \<Rightarrow> (unit, 'f pack_refusal) result" where
  "check_rationale_key dbg i key =
     refuse_if (\<not> names_wrong_option i key)
       (AnswerInconsistent (item_id i)
          (''a distractor rationale is keyed by '' @ dbg key @ '', which is not a wrong option's index''))"

definition check_hashes :: "'f pack_item \<Rightarrow> (unit, 'f pack_refusal) result" where
  "check_hashes i =
     (case (generator_hash i, verifier_hash i) of
        (Some g, Some v) \<Rightarrow>
          refuse_if (g = v) (AnswerInconsistent (item_id i) ''the generator and verifier recorded the same hash'')
      | _ \<Rightarrow> Err (AnswerInconsistent (item_id i) ''the item records no generator and verifier hashes''))"

definition check_item :: "(string \<Rightarrow> string) \<Rightarrow> string set \<Rightarrow> 'f pack_item \<Rightarrow> (unit, 'f pack_refusal) result" where
  "check_item dbg ledger i =
     try_bind (refuse_if (cited i = []) (MissingProvenance (item_id i) ''the item cites no source'')) (\<lambda>_.
     try_bind (each (check_citation ledger (item_id i)) (cited i)) (\<lambda>_.
     try_bind (refuse_if (trim (reviewer i) = []) (UnreviewedItem (item_id i))) (\<lambda>_.
     try_bind (refuse_if (length (options i) < 2) (AnswerInconsistent (item_id i) (show_nat (length (options i)) @ '' option(s)''))) (\<lambda>_.
     try_bind (refuse_if (length (options i) \<le> correct_index i)
       (AnswerInconsistent (item_id i)
          (''correct_index '' @ show_nat (correct_index i) @ '' is outside '' @ show_nat (length (options i)) @ '' options''))) (\<lambda>_.
     try_bind (refuse_if (trim (stem i) = []) (AnswerInconsistent (item_id i) ''the stem is blank'')) (\<lambda>_.
     try_bind (each (check_rationale_key dbg i) (map fst (distractor_rationales i))) (\<lambda>_.
     try_bind (refuse_if (item_subtest i = ''PC'' \<and> trim (case passage i of None \<Rightarrow> [] | Some p \<Rightarrow> p) = [])
       (AnswerInconsistent (item_id i) ''a comprehension item carries no passage'')) (\<lambda>_.
     try_bind (refuse_if (item_subtest i \<in> set COMPUTABLE_SUBTESTS \<and> proof_kind i \<noteq> ''executable'')
       (WrongProofKind (item_id i) (item_subtest i))) (\<lambda>_.
     check_hashes i)))))))))"

fun check_items :: "(string \<Rightarrow> string) \<Rightarrow> string set \<Rightarrow> string set \<Rightarrow> 'f pack_item list \<Rightarrow> (unit, 'f pack_refusal) result" where
  "check_items dbg ledger seen [] = Ok ()"
| "check_items dbg ledger seen (i # rest) =
     try_bind (check_item dbg ledger i) (\<lambda>_.
       if item_hash i \<in> seen then Err (DuplicateContent (item_hash i))
       else check_items dbg ledger (insert (item_hash i) seen) rest)"

section \<open>The curriculum and its calibration\<close>

definition check_objective :: "curriculum_node list \<Rightarrow> 'f pack_item \<Rightarrow> (unit, 'f pack_refusal) result" where
  "check_objective ns i =
     (case find_node ns (item_objective i) of
        None \<Rightarrow> Err (ObjectiveNotInCurriculum (item_id i) (item_objective i))
      | Some n \<Rightarrow>
          refuse_if (node_subtest n \<noteq> item_subtest i)
            (ObjectiveSubtestMismatch (item_objective i) (node_subtest n) (item_subtest i)))"

definition check_prerequisites :: "curriculum_node list \<Rightarrow> curriculum_node \<Rightarrow> (unit, 'f pack_refusal) result" where
  "check_prerequisites ns n =
     each (\<lambda>p. refuse_if (find_node ns p = None) (UnknownPrerequisite (node_objective n) p)) (prerequisites n)"

fun check_calibration :: "('f \<Rightarrow> bool) \<Rightarrow> curriculum_node list \<Rightarrow> string set \<Rightarrow> 'f calibration_entry list \<Rightarrow> (string set, 'f pack_refusal) result" where
  "check_calibration in_unit ns calibrated [] = Ok calibrated"
| "check_calibration in_unit ns calibrated (e # es) =
     (if find_node ns (cal_objective e) = None then Err (CalibrationUnknownObjective (cal_objective e))
      else if \<not> in_unit (expected_correct e) then Err (CalibrationOutOfRange (cal_objective e) (expected_correct e))
      else if cal_objective e \<in> calibrated then Err (CalibrationUnknownObjective (cal_objective e))
      else check_calibration in_unit ns (insert (cal_objective e) calibrated) es)"

definition verify_curriculum :: "('f \<Rightarrow> bool) \<Rightarrow> 'f pack_payload \<Rightarrow> (unit, 'f pack_refusal) result" where
  "verify_curriculum in_unit p =
     (let ns = curriculum p; taught = sort (remdups (map item_objective (items p))) in
      try_bind (each (check_objective ns) (items p)) (\<lambda>_.
      try_bind (each (check_prerequisites ns) ns) (\<lambda>_.
      case visit_all ns (objectives ns) {} of
        Err q \<Rightarrow> Err (CurriculumCycle q)
      | Ok _ \<Rightarrow>
          try_bind (check_calibration in_unit ns {} (calibration p)) (\<lambda>calibrated.
          each (\<lambda>i. refuse_if (i \<notin> calibrated) (CalibrationMissing i)) taught))))"

section \<open>The whole verification\<close>

text \<open>\<open>u32::try_from(version).unwrap_or(1)\<close>, and the greatest character as an upper bound.\<close>

definition pack_version_of :: "int \<Rightarrow> 32 word" where
  "pack_version_of v = (if 0 \<le> v \<and> v < 2 ^ 32 then word_of_int v else 1)"

definition MAX_CHAR :: string where
  "MAX_CHAR = [CHR 0xF4, CHR 0x8F, CHR 0xBF, CHR 0xBF]"

definition pack_requires :: "'f pack_payload \<Rightarrow> string" where
  "pack_requires p =
     (case app_max p of Some m \<Rightarrow> app_min p @ '' to '' @ m | None \<Rightarrow> app_min p @ '' or newer'')"

definition runs_on :: "'f pack_payload \<Rightarrow> string \<Rightarrow> bool" where
  "runs_on p running \<longleftrightarrow> app_min p \<le> running \<and> running \<le> (case app_max p of None \<Rightarrow> MAX_CHAR | Some m \<Rightarrow> m)"

definition check_signature :: "'k ed25519 \<Rightarrow> int \<Rightarrow> 'f pack_document \<Rightarrow> string \<Rightarrow> (unit, 'f pack_refusal) result" where
  "check_signature ed now d trusted =
     try_bind (refuse_if (signature d = [] \<or> signer d = []) NotASignedPack) (\<lambda>_.
     try_bind (ok_or (from_hex (signature d)) NotASignedPack) (\<lambda>sg.
     try_bind (ok_or (from_hex (signer d)) NotASignedPack) (\<lambda>key.
     if key \<noteq> trusted then Err (UntrustedSigner (signer d))
     else case from_signed now (name (payload d)) (pack_version_of (version (payload d))) (document_hash d) sg key of
         Err e \<Rightarrow> Err (InvalidSignature e)
       | Ok identity \<Rightarrow>
           (case verify ed identity of Err e \<Rightarrow> Err (InvalidSignature e) | Ok _ \<Rightarrow> Ok ()))))"

definition verify_pack :: "('f pack_payload \<Rightarrow> string) \<Rightarrow> (string \<Rightarrow> string) \<Rightarrow> (string \<Rightarrow> string) \<Rightarrow> ('f \<Rightarrow> bool) \<Rightarrow> 'k ed25519 \<Rightarrow> int \<Rightarrow>
    'f pack_document \<Rightarrow> string \<Rightarrow> string \<Rightarrow> (unit, 'f pack_refusal) result" where
  "verify_pack encode sha dbg in_unit ed now d trusted running =
     (let p = payload d; computed = computed_content_hash sha encode d in
      if format p \<noteq> PACK_FORMAT then Err (UnsupportedFormat (format p))
      else if schema_version p \<noteq> PACK_SCHEMA_VERSION then Err (UnsupportedSchema (schema_version p) PACK_SCHEMA_VERSION)
      else if \<not> runs_on p running then Err (IncompatibleApp (pack_requires p) running)
      else if computed \<noteq> document_hash d then Err (ContentHashMismatch (document_hash d) computed)
      else
        try_bind (check_signature ed now d trusted) (\<lambda>_.
        if items p = [] then Err NoItems
        else
          try_bind (each check_source (sources p)) (\<lambda>_.
          try_bind (check_items dbg (source_id ` set (sources p)) {} (items p)) (\<lambda>_.
          verify_curriculum in_unit p))))"

section \<open>What an accepted pack is\<close>

lemma refuse_if_Ok [simp]: "refuse_if b e = Ok () \<longleftrightarrow> \<not> b"
  by (simp add: refuse_if_def)

lemma then_Ok_iff: "try_bind (r :: (unit, 'e) result) (\<lambda>_. k) = Ok w \<longleftrightarrow> r = Ok () \<and> k = Ok w"
  by (cases r) auto

lemma each_Ok [simp]: "each f xs = Ok () \<longleftrightarrow> (\<forall>x \<in> set xs. f x = Ok ())"
  by (induction xs) (auto simp: then_Ok_iff)

lemma find_node_None: "find_node ns i = None \<longleftrightarrow> i \<notin> node_objective ` set ns"
  by (auto simp: find_node_def find_None_iff)

definition item_ok :: "'f pack_payload \<Rightarrow> 'f pack_item \<Rightarrow> bool" where
  "item_ok p i \<longleftrightarrow>
     cited i \<noteq> [] \<and> set (cited i) \<subseteq> source_id ` set (sources p) \<and> trim (reviewer i) \<noteq> [] \<and>
     2 \<le> length (options i) \<and> correct_index i < length (options i) \<and> trim (stem i) \<noteq> [] \<and>
     (\<forall>(key, why) \<in> set (distractor_rationales i). names_wrong_option i key) \<and>
     (item_subtest i = ''PC'' \<longrightarrow> (\<exists>t. passage i = Some t \<and> trim t \<noteq> [])) \<and>
     (item_subtest i \<in> set COMPUTABLE_SUBTESTS \<longrightarrow> proof_kind i = ''executable'') \<and>
     (\<exists>g v. generator_hash i = Some g \<and> verifier_hash i = Some v \<and> g \<noteq> v)"

lemma check_item_iff: "check_item dbg (source_id ` set (sources p)) i = Ok () \<longleftrightarrow> item_ok p i"
proof -
  have hashes: "check_hashes i = Ok () \<longleftrightarrow> (\<exists>g v. generator_hash i = Some g \<and> verifier_hash i = Some v \<and> g \<noteq> v)"
    by (auto simp: check_hashes_def split: option.splits)
  have cites: "each (check_citation (source_id ` set (sources p)) (item_id i)) (cited i) = Ok () \<longleftrightarrow>
      set (cited i) \<subseteq> source_id ` set (sources p)"
    by (auto simp: check_citation_def)
  have keys: "each (check_rationale_key dbg i) (map fst (distractor_rationales i)) = Ok () \<longleftrightarrow>
      (\<forall>(key, why) \<in> set (distractor_rationales i). names_wrong_option i key)"
    by (auto simp: check_rationale_key_def)
  have blank: "trim (case passage i of None \<Rightarrow> [] | Some p \<Rightarrow> p) = [] \<longleftrightarrow> \<not> (\<exists>t. passage i = Some t \<and> trim t \<noteq> [])"
    by (cases "passage i") auto
  show ?thesis
    unfolding check_item_def item_ok_def
    by (simp only: then_Ok_iff refuse_if_Ok hashes cites keys blank not_le not_less de_Morgan_conj not_not) blast
qed

lemma check_items_iff:
  "check_items dbg (source_id ` set (sources p)) seen js = Ok () \<longleftrightarrow>
    (\<forall>i \<in> set js. item_ok p i) \<and> distinct (map item_hash js) \<and> item_hash ` set js \<inter> seen = {}"
  by (induction js arbitrary: seen) (auto simp: then_Ok_iff check_item_iff)

definition curriculum_ok :: "('f \<Rightarrow> bool) \<Rightarrow> 'f pack_payload \<Rightarrow> bool" where
  "curriculum_ok in_unit p \<longleftrightarrow>
     (let known = node_objective ` set (curriculum p); calibrated = cal_objective ` set (calibration p) in
      (\<forall>i \<in> set (items p). \<exists>n. find_node (curriculum p) (item_objective i) = Some n \<and> node_subtest n = item_subtest i) \<and>
      (\<forall>n \<in> set (curriculum p). set (prerequisites n) \<subseteq> known) \<and>
      (\<exists>order. curriculum_order (curriculum p) order) \<and>
      distinct (map cal_objective (calibration p)) \<and> calibrated \<subseteq> known \<and>
      (\<forall>e \<in> set (calibration p). in_unit (expected_correct e)) \<and>
      item_objective ` set (items p) \<subseteq> calibrated)"

lemma check_calibration_Ok:
  "check_calibration in_unit ns calibrated es = Ok out \<longleftrightarrow>
    out = calibrated \<union> cal_objective ` set es \<and> distinct (map cal_objective es) \<and>
    cal_objective ` set es \<inter> calibrated = {} \<and> cal_objective ` set es \<subseteq> node_objective ` set ns \<and>
    (\<forall>e \<in> set es. in_unit (expected_correct e))"
  by (induction es arbitrary: calibrated) (auto simp: find_node_None)

lemma verify_curriculum_iff: "verify_curriculum in_unit p = Ok () \<longleftrightarrow> curriculum_ok in_unit p"
proof -
  have objective: "check_objective (curriculum p) i = Ok () \<longleftrightarrow>
      (\<exists>n. find_node (curriculum p) (item_objective i) = Some n \<and> node_subtest n = item_subtest i)" for i :: "'f pack_item"
    by (simp add: check_objective_def split: option.splits)
  have prereq: "(check_prerequisites (curriculum p) n :: (unit, 'f pack_refusal) result) = Ok () \<longleftrightarrow>
      set (prerequisites n) \<subseteq> node_objective ` set (curriculum p)" for n
    by (auto simp: check_prerequisites_def find_node_None)
  have search: "(case visit_all (curriculum p) (objectives (curriculum p)) {} of Err q \<Rightarrow> Err (CurriculumCycle q) | Ok _ \<Rightarrow> k) = Ok () \<longleftrightarrow>
      (\<exists>order. curriculum_order (curriculum p) order) \<and> k = Ok ()" for k :: "(unit, 'f pack_refusal) result"
    unfolding visit_all_Ok_iff [symmetric] by (auto split: result.splits)
  have taught: "set (sort (remdups (map item_objective (items p)))) = item_objective ` set (items p)" by simp
  show ?thesis
    unfolding verify_curriculum_def curriculum_ok_def Let_def
    by (simp only: then_Ok_iff each_Ok objective prereq search try_bind_Ok_iff check_calibration_Ok taught refuse_if_Ok) auto
qed

text \<open>The signature: by the trusted key, over the identity of this document.\<close>

definition signed_by :: "'k ed25519 \<Rightarrow> 'f pack_document \<Rightarrow> string \<Rightarrow> bool" where
  "signed_by ed d trusted \<longleftrightarrow>
     signature d \<noteq> [] \<and> signer d \<noteq> [] \<and> from_hex (signer d) = Some trusted \<and> trim (document_hash d) \<noteq> [] \<and> length trusted = 32 \<and>
     (\<exists>bytes sg key. from_hex (signature d) = Some bytes \<and> length bytes = 64 \<and> signature_of ed bytes = Some sg \<and>
        key_of ed trusted = Some key \<and>
        verify_plain ed key
          (length_prefixed [SIGNING_DOMAIN, name (payload d), le_bytes 4 (unat (pack_version_of (version (payload d)))), document_hash d]) sg)"

lemma check_signature_iff: "check_signature ed now d trusted = Ok () \<longleftrightarrow> signed_by ed d trusted"
proof -
  have "(case from_signed now (name (payload d)) v (document_hash d) sg key of
        Err e \<Rightarrow> Err (InvalidSignature e)
      | Ok identity \<Rightarrow> (case verify ed identity of Err e \<Rightarrow> Err (InvalidSignature e) | Ok _ \<Rightarrow> Ok ())) = Ok () \<longleftrightarrow>
      trim (document_hash d) \<noteq> [] \<and> length sg = 64 \<and> length key = 32 \<and>
      (\<exists>s k. signature_of ed sg = Some s \<and> key_of ed key = Some k \<and>
        verify_plain ed k (length_prefixed [SIGNING_DOMAIN, name (payload d), le_bytes 4 (unat v), document_hash d]) s)" for v sg key
    by (cases "signature_of ed sg"; cases "key_of ed key")
      (simp_all add: from_signed_def verify_def signing_payload_def identity_fields_def split: result.splits if_splits)
  then show ?thesis
    unfolding check_signature_def signed_by_def
    by (cases "from_hex (signature d)"; cases "from_hex (signer d)") (auto simp: then_Ok_iff)
qed

lemma from_hex_of_to_hex: "from_hex (to_hex bs) = Some bs"
proof (induction bs)
  case Nil
  then show ?case by (simp add: to_hex_def)
next
  case (Cons b bs)
  with nibbles [of b] show ?case by (simp add: to_hex_Cons hex_val_digit)
qed

lemma verify_pack_accepts:
  "verify_pack encode sha dbg in_unit ed now d trusted running = Ok () \<longleftrightarrow>
    (let p = payload d in
     format p = PACK_FORMAT \<and> schema_version p = PACK_SCHEMA_VERSION \<and> runs_on p running \<and>
     document_hash d = ''sha256:'' @ sha (encode p) \<and> signed_by ed d trusted \<and> items p \<noteq> [] \<and>
     (\<forall>s \<in> set (sources p). licence s \<in> set PERMITTED_LICENCES \<and> trim (source_hash s) \<noteq> [] \<and> trim (url s) \<noteq> []) \<and>
     (\<forall>i \<in> set (items p). item_ok p i) \<and> distinct (map item_hash (items p)) \<and> curriculum_ok in_unit p)"
proof -
  have source: "check_source s = Ok () \<longleftrightarrow> licence s \<in> set PERMITTED_LICENCES \<and> trim (source_hash s) \<noteq> [] \<and> trim (url s) \<noteq> []"
    for s :: "'f pack_source"
    by (simp add: check_source_def)
  show ?thesis
    unfolding verify_pack_def Let_def computed_content_hash_def
    by (auto simp: then_Ok_iff source check_items_iff verify_curriculum_iff check_signature_iff)
qed

text \<open>
  C12. A pack is accepted exactly when its format, schema and application range fit, its recorded
  hash is the hash of its contents, the trusted key signed this name, version and hash, every
  source has a permitted licence, a URL and a hash, every item is answerable, reviewed, verified
  and cites the ledger, no two items share a hash, and its curriculum can be taught in some order
  and is calibrated.
\<close>

theorem verify_pack_iff:
  "verify_pack encode sha dbg in_unit ed now d trusted running = Ok () \<longleftrightarrow>
    (let p = payload d in
     format p = PACK_FORMAT \<and> schema_version p = PACK_SCHEMA_VERSION \<and> runs_on p running \<and>
     document_hash d = ''sha256:'' @ sha (encode p) \<and> signed_by ed d trusted \<and> items p \<noteq> [] \<and>
     (\<forall>s \<in> set (sources p). licence s \<in> set PERMITTED_LICENCES \<and> trim (source_hash s) \<noteq> [] \<and> trim (url s) \<noteq> []) \<and>
     (\<forall>i \<in> set (items p). item_ok p i) \<and> distinct (map item_hash (items p)) \<and> curriculum_ok in_unit p)"
  by (rule verify_pack_accepts)

text \<open>A pack of one item, for concrete inputs.\<close>

definition tiny_item :: "nat pack_item" where
  "tiny_item = \<lparr>item_id = ''i'', item_subtest = ''AR'', item_objective = ''o'', stem = ''q'', passage = None, options = [''1'', ''2''],
     correct_index = 0, explanation = [], distractor_rationales = [], difficulty = 0, proof_kind = ''executable'', proof_json = ''{}'',
     item_hash = ''c'', generator_hash = Some ''g'', verifier_hash = Some ''v'', reviewer = ''ann'', cited = [''e'']\<rparr>"

definition tiny_payload :: "nat pack_payload" where
  "tiny_payload = \<lparr>format = PACK_FORMAT, schema_version = PACK_SCHEMA_VERSION, name = ''core'', version = 1, created_at = [],
     app_min = ''0.1'', app_max = None,
     sources = [\<lparr>source_id = ''e'', url = ''u'', source_title = [], source_hash = ''h'', licence = ''Public domain'', effective_date = [],
       trust = 1, retrieval_status = []\<rparr>],
     items = [tiny_item], licences = [''Public domain''],
     curriculum = [\<lparr>node_objective = ''o'', node_subtest = ''AR'', node_title = ''o'', prerequisites = []\<rparr>],
     calibration = [\<lparr>cal_objective = ''o'', expected_correct = 1, responses = 0, basis = []\<rparr>]\<rparr>"

definition tiny_pack :: "nat pack_document" where
  "tiny_pack = \<lparr>payload = tiny_payload, document_hash = ''sha256:ab'',
     signature = to_hex (replicate 64 (CHR ''k'')), signer = to_hex (replicate 32 (CHR ''k''))\<rparr>"

lemma tiny_pack_facts:
  "let p = payload tiny_pack in
     format p = PACK_FORMAT \<and> schema_version p = PACK_SCHEMA_VERSION \<and> runs_on p ''0.2'' \<and>
     document_hash tiny_pack = ''sha256:'' @ ''ab'' \<and> signed_by sample_scheme tiny_pack (replicate 32 (CHR ''k'')) \<and> items p \<noteq> [] \<and>
     (\<forall>s \<in> set (sources p). licence s \<in> set PERMITTED_LICENCES \<and> trim (source_hash s) \<noteq> [] \<and> trim (url s) \<noteq> []) \<and>
     (\<forall>i \<in> set (items p). item_ok p i) \<and> distinct (map item_hash (items p)) \<and> curriculum_ok (\<lambda>_. True) p"
proof -
  have trims: "trim ''sha256:ab'' = ''sha256:ab''" "trim ''u'' = ''u''" "trim ''h'' = ''h''" "trim ''ann'' = ''ann''" "trim ''q'' = ''q''"
    by (rule trim_plain; simp)+
  have order: "curriculum_order (curriculum tiny_payload) [''o'']"
    by (simp add: curriculum_order_def learning_order_def prereqs_def find_node_def objectives_def tiny_payload_def)
  have "signed_by sample_scheme tiny_pack (replicate 32 (CHR ''k''))"
    by (simp add: signed_by_def tiny_pack_def from_hex_of_to_hex sample_scheme_def trims)
  moreover have "item_ok tiny_payload tiny_item"
    by (simp add: item_ok_def tiny_item_def tiny_payload_def trims)
  moreover have "curriculum_ok (\<lambda>_. True) tiny_payload"
    unfolding curriculum_ok_def Let_def using order
    by (simp add: tiny_payload_def tiny_item_def find_node_def) blast
  moreover have "runs_on tiny_payload ''0.2''" by (simp add: runs_on_def tiny_payload_def MAX_CHAR_def)
  ultimately show ?thesis
    by (simp add: tiny_pack_def Let_def) (simp add: tiny_payload_def trims PERMITTED_LICENCES_def)
qed

lemma tiny_pack_accepted:
  "verify_pack (\<lambda>_. []) (\<lambda>_. ''ab'') id (\<lambda>_. True) sample_scheme 0 tiny_pack (replicate 32 (CHR ''k'')) ''0.2'' = Ok ()"
  unfolding verify_pack_accepts by (rule tiny_pack_facts)

theorem verify_pack_iff_witness:
  "verify_pack (\<lambda>_. []) (\<lambda>_. ''ab'') id (\<lambda>_. True) sample_scheme 0 tiny_pack (replicate 32 (CHR ''k'')) ''0.2'' = Ok ()"
  unfolding verify_pack_iff by (rule tiny_pack_facts)

end
