(* ===== verification/Sql_Store.thy ===== *)
theory Sql_Store
  imports Text_Tools
begin

text \<open>
  The tables behind \<open>crates/vector-persistence/src/content.rs\<close> and \<open>repo.rs\<close>, with the constraints and
  triggers of \<open>migrations/\<close>, and the SQL statements the repositories run. A statement that a
  constraint refuses is an error and changes nothing; a program runs statements in order and stops
  at the first error; a transaction restores the tables on an error. SQLite's own \<open>trim\<close> removes
  spaces only. Identifiers come from the supply \<open>uuid\<close>, time from the argument \<open>now\<close> of each
  operation; JSON columns hold the value they encode.
\<close>

section \<open>Tables\<close>

record 'f item_row =
  row_id :: string
  row_pack :: "string option"
  row_subtest :: string
  row_objective :: string
  row_state :: string
  row_stem :: string
  row_passage :: "string option"
  row_options :: "string list"
  row_correct :: nat
  row_explanation :: string
  row_rationales :: "(nat \<times> string) list"
  row_difficulty :: 'f
  row_proof_kind :: string
  row_proof_json :: string
  row_reviewer :: string
  row_hash :: string
  row_generator :: "string option"
  row_verifier :: "string option"
  row_created :: string
  row_updated :: string

record review_row =
  review_id :: string
  review_item :: string
  review_from :: string
  review_to :: string
  review_actor :: string
  review_rationale :: string
  review_at :: string

record 'f evidence_row =
  ev_id :: string
  ev_hash :: string
  ev_url :: string
  ev_title :: string
  ev_license :: string
  ev_date :: string
  ev_trust :: 'f
  ev_status :: string
  ev_created :: string

record pack_row =
  reg_id :: string
  reg_name :: string
  reg_version :: int
  reg_signature :: string
  reg_signer :: string
  reg_hash :: string
  reg_schema :: int
  reg_manifest :: string
  reg_items :: int
  reg_status :: string
  reg_created :: string

record 'f store =
  item_rows :: "'f item_row list"
  citations :: "(string \<times> string) list"
  reviews :: "review_row list"
  evidence :: "'f evidence_row list"
  packs :: "pack_row list"
  members :: "(string \<times> string) list"
  drawn :: nat

text \<open>What the database computes on floating-point numbers and JSON text, and the identifiers it is given.\<close>

record 'f sql =
  in_scale :: "'f \<Rightarrow> bool"
  in_unit :: "'f \<Rightarrow> bool"
  json_valid :: "string \<Rightarrow> bool"
  uuid :: "nat \<Rightarrow> string"

definition empty_store :: "'f store" where
  "empty_store = \<lparr>item_rows = [], citations = [], reviews = [], evidence = [], packs = [], members = [], drawn = 0\<rparr>"

section \<open>Programs of statements\<close>

datatype store_error = Refused string | Constraint string

type_synonym ('s, 'a) prog = "'s \<Rightarrow> ('a, store_error) result \<times> 's"

definition return :: "'a \<Rightarrow> ('s, 'a) prog" where
  "return v s = (Ok v, s)"

definition fail :: "store_error \<Rightarrow> ('s, 'a) prog" where
  "fail e s = (Err e, s)"

definition seq :: "('s, 'a) prog \<Rightarrow> ('a \<Rightarrow> ('s, 'b) prog) \<Rightarrow> ('s, 'b) prog" where
  "seq m f s = (case m s of (Ok v, s') \<Rightarrow> f v s' | (Err e, s') \<Rightarrow> (Err e, s'))"

definition query :: "('s \<Rightarrow> ('s, 'a) prog) \<Rightarrow> ('s, 'a) prog" where
  "query f s = f s s"

fun each_do :: "('a \<Rightarrow> ('s, unit) prog) \<Rightarrow> 'a list \<Rightarrow> ('s, unit) prog" where
  "each_do f [] = return ()"
| "each_do f (x # xs) = seq (f x) (\<lambda>_. each_do f xs)"

text \<open>A statement: refused by a constraint, or it changes the tables.\<close>

definition statement :: "('s \<Rightarrow> bool) \<Rightarrow> string \<Rightarrow> ('s \<Rightarrow> 's) \<Rightarrow> ('s, unit) prog" where
  "statement allowed why change s = (if allowed s then (Ok (), change s) else (Err (Constraint why), s))"

text \<open>\<open>BEGIN\<close>, then \<open>COMMIT\<close> or \<open>ROLLBACK\<close>. Identifiers that were drawn stay drawn.\<close>

definition transaction :: "('f store, 'a) prog \<Rightarrow> ('f store, 'a) prog" where
  "transaction body s = (case body s of (Ok v, s') \<Rightarrow> (Ok v, s') | (Err e, s') \<Rightarrow> (Err e, s\<lparr>drawn := drawn s'\<rparr>))"

definition draw_id :: "'f sql \<Rightarrow> string \<Rightarrow> ('f store, string) prog" where
  "draw_id q prefix s = (Ok (prefix @ ''-'' @ uuid q (drawn s)), s\<lparr>drawn := drawn s + 1\<rparr>)"

section \<open>Constraints\<close>

definition sql_trim :: "string \<Rightarrow> string" where
  "sql_trim s = rev (dropWhile (\<lambda>c. c = CHR '' '') (rev (dropWhile (\<lambda>c. c = CHR '' '') s)))"

definition blank :: "string \<Rightarrow> bool" where
  "blank s \<longleftrightarrow> sql_trim s = []"

definition STATES :: "string list" where
  "STATES = [''draft'', ''machine_validated'', ''independent_verified'', ''content_reviewed'', ''active'', ''quarantined'']"

definition PIPELINE :: "string list" where
  "PIPELINE = [''draft'', ''machine_validated'', ''independent_verified'', ''content_reviewed'']"

definition passage_ok :: "'f item_row \<Rightarrow> bool" where
  "passage_ok r \<longleftrightarrow>
     row_subtest r \<noteq> ''PC'' \<or> (case row_passage r of None \<Rightarrow> False | Some p \<Rightarrow> 100 \<le> length (chars (sql_trim p)))"

definition active_ok :: "'f item_row \<Rightarrow> bool" where
  "active_ok r \<longleftrightarrow>
     \<not> blank (row_objective r) \<and> \<not> blank (row_reviewer r) \<and>
     (row_generator r = None \<or> row_verifier r = None \<or> row_generator r \<noteq> row_verifier r) \<and>
     (row_subtest r \<notin> {''AR'', ''MK''} \<or> row_proof_kind r = ''executable'')"

definition row_ok :: "'f sql \<Rightarrow> 'f item_row \<Rightarrow> bool" where
  "row_ok q r \<longleftrightarrow>
     \<not> blank (row_subtest r) \<and> row_state r \<in> set STATES \<and> \<not> blank (row_stem r) \<and> in_scale q (row_difficulty r) \<and>
     row_proof_kind r \<in> {''executable'', ''source_backed''} \<and> json_valid q (row_proof_json r) \<and> \<not> blank (row_hash r) \<and>
     row_correct r < length (row_options r) \<and> 2 \<le> length (row_options r) \<and>
     (row_state r = ''active'' \<longrightarrow> active_ok r)"

definition may_move :: "string \<Rightarrow> string \<Rightarrow> bool" where
  "may_move old new \<longleftrightarrow> new = old \<or>
     (old, new) \<in> {(''draft'', ''machine_validated''), (''machine_validated'', ''independent_verified''),
       (''independent_verified'', ''content_reviewed''), (''content_reviewed'', ''active''), (''quarantined'', ''draft'')} \<or>
     new = ''quarantined''"

definition item_ids :: "'f store \<Rightarrow> string set" where
  "item_ids s = row_id ` set (item_rows s)"

definition find_row :: "'f store \<Rightarrow> string \<Rightarrow> 'f item_row option" where
  "find_row s i = find (\<lambda>r. row_id r = i) (item_rows s)"

definition change_row :: "string \<Rightarrow> ('f item_row \<Rightarrow> 'f item_row) \<Rightarrow> 'f store \<Rightarrow> 'f store" where
  "change_row i f s = s\<lparr>item_rows := map (\<lambda>r. if row_id r = i then f r else r) (item_rows s)\<rparr>"

section \<open>Statements\<close>

definition insert_item :: "'f sql \<Rightarrow> 'f item_row \<Rightarrow> ('f store, unit) prog" where
  "insert_item q r = statement
     (\<lambda>s. row_state r = ''draft'' \<and> passage_ok r \<and> row_ok q r \<and> row_id r \<notin> item_ids s \<and>
        row_hash r \<notin> row_hash ` set (item_rows s) \<and> (case row_pack r of None \<Rightarrow> True | Some p \<Rightarrow> p \<in> reg_id ` set (packs s)))
     ''content_items'' (\<lambda>s. s\<lparr>item_rows := item_rows s @ [r]\<rparr>)"

text \<open>
  An update of one row. The constraints hold of the new row; an update that names the state is also
  guarded by the transition triggers.
\<close>

definition update_row :: "'f sql \<Rightarrow> string \<Rightarrow> ('f item_row \<Rightarrow> 'f item_row) \<Rightarrow> ('f store, unit) prog" where
  "update_row q i f = statement
     (\<lambda>s. \<forall>r \<in> set (item_rows s). row_id r = i \<longrightarrow> passage_ok (f r) \<and> row_ok q (f r))
     ''content_items'' (change_row i f)"

definition set_state :: "'f sql \<Rightarrow> string \<Rightarrow> string \<Rightarrow> string \<Rightarrow> ('f store, unit) prog" where
  "set_state q now i to = statement
     (\<lambda>s. \<forall>r \<in> set (item_rows s). row_id r = i \<longrightarrow>
        passage_ok r \<and> row_ok q (r\<lparr>row_state := to, row_updated := now\<rparr>) \<and> may_move (row_state r) to \<and>
        (to = ''active'' \<longrightarrow> i \<in> fst ` set (citations s)))
     ''content_items'' (change_row i (\<lambda>r. r\<lparr>row_state := to, row_updated := now\<rparr>))"

definition insert_citation :: "string \<Rightarrow> string \<Rightarrow> ('f store, unit) prog" where
  "insert_citation i src = statement
     (\<lambda>s. i \<in> item_ids s \<and> \<not> blank src \<and> (i, src) \<notin> set (citations s) \<and> src \<in> ev_id ` set (evidence s))
     ''content_item_sources'' (\<lambda>s. s\<lparr>citations := citations s @ [(i, src)]\<rparr>)"

definition insert_review :: "review_row \<Rightarrow> ('f store, unit) prog" where
  "insert_review v = statement
     (\<lambda>s. review_item v \<in> item_ids s \<and> \<not> blank (review_actor v) \<and> review_id v \<notin> review_id ` set (reviews s))
     ''content_item_reviews'' (\<lambda>s. s\<lparr>reviews := reviews s @ [v]\<rparr>)"

text \<open>Deleting a draft also deletes what refers to it.\<close>

definition delete_draft :: "string \<Rightarrow> ('f store, unit) prog" where
  "delete_draft i s =
     (if \<exists>r \<in> set (item_rows s). row_id r = i \<and> row_state r = ''draft''
      then (Ok (), s\<lparr>item_rows := filter (\<lambda>r. row_id r \<noteq> i) (item_rows s), citations := filter (\<lambda>c. fst c \<noteq> i) (citations s),
        reviews := filter (\<lambda>v. review_item v \<noteq> i) (reviews s), members := filter (\<lambda>m. snd m \<noteq> i) (members s)\<rparr>)
      else (Ok (), s))"

definition insert_evidence :: "'f sql \<Rightarrow> 'f evidence_row \<Rightarrow> ('f store, unit) prog" where
  "insert_evidence q e = statement
     (\<lambda>s. ev_id e \<notin> ev_id ` set (evidence s) \<and> ev_hash e \<notin> ev_hash ` set (evidence s) \<and> in_unit q (ev_trust e))
     ''evidence_records'' (\<lambda>s. s\<lparr>evidence := evidence s @ [e]\<rparr>)"

end
