(* ===== verification/Content_Repo.thy ===== *)
theory Content_Repo
  imports Sql_Store
begin

text \<open>
  The item repository, \<open>crates/vector-persistence/src/content.rs\<close>, and the evidence vault of
  \<open>repo.rs\<close>: every operation as a program over the tables, the invariant of the tables, and what
  follows from it for an item a learner may be served.
\<close>

section \<open>Operations\<close>

text \<open>The item to insert is given as a row; its state, reviewer, verifier, pack and dates are set here.\<close>

definition insert_draft :: "'f sql \<Rightarrow> string \<Rightarrow> 'f item_row \<Rightarrow> ('f store, unit) prog" where
  "insert_draft q now r =
     (if length (row_options r) \<le> row_correct r
      then fail (Refused (''correct_index '' @ show_nat (row_correct r) @ '' is outside '' @ show_nat (length (row_options r)) @ '' options''))
      else insert_item q (r\<lparr>row_pack := None, row_state := ''draft'', row_reviewer := [], row_verifier := None,
        row_created := now, row_updated := now\<rparr>))"

definition cite :: "string \<Rightarrow> string \<Rightarrow> ('f store, unit) prog" where
  "cite i src = insert_citation i src"

definition discard_draft :: "string \<Rightarrow> ('f store, unit) prog" where
  "discard_draft i = delete_draft i"

text \<open>One transition: the update and the audit row it owes.\<close>

definition move_item :: "'f sql \<Rightarrow> string \<Rightarrow> string \<Rightarrow> string \<Rightarrow> string \<Rightarrow> string \<Rightarrow> string \<Rightarrow> ('f store, unit) prog" where
  "move_item q now i from to actor why =
     seq (set_state q now i to) (\<lambda>_.
     seq (draw_id q ''rev'') (\<lambda>rid.
     insert_review \<lparr>review_id = rid, review_item = i, review_from = from, review_to = to, review_actor = actor,
       review_rationale = why, review_at = now\<rparr>))"

definition advance_body :: "'f sql \<Rightarrow> string \<Rightarrow> string \<Rightarrow> string \<Rightarrow> string \<Rightarrow> string \<Rightarrow> ('f store, unit) prog" where
  "advance_body q now i to actor why = query (\<lambda>s.
     case find_row s i of
       None \<Rightarrow> fail (Refused (''no such content item: '' @ i))
     | Some r \<Rightarrow> move_item q now i (row_state r) to actor why)"

definition advance :: "'f sql \<Rightarrow> (string \<Rightarrow> string) \<Rightarrow> string \<Rightarrow> string \<Rightarrow> string \<Rightarrow> string \<Rightarrow> string \<Rightarrow> ('f store, unit) prog" where
  "advance q dbg now i to actor why =
     (if to \<notin> set STATES then fail (Refused (dbg to @ '' is not a lifecycle state''))
      else transaction (advance_body q now i to actor why))"

definition walk_to_content_reviewed :: "'f sql \<Rightarrow> (string \<Rightarrow> string) \<Rightarrow> string \<Rightarrow> string \<Rightarrow> string \<Rightarrow> ('f store, unit) prog" where
  "walk_to_content_reviewed q dbg now i actor =
     each_do (\<lambda>to. advance q dbg now i to actor ''pipeline step'') (tl PIPELINE)"

definition activate :: "'f sql \<Rightarrow> (string \<Rightarrow> string) \<Rightarrow> string \<Rightarrow> string \<Rightarrow> string \<Rightarrow> string \<Rightarrow> ('f store, unit) prog" where
  "activate q dbg now i reviewer why =
     (if trim_text reviewer = [] then fail (Refused ''activation requires a named reviewer (REQ-056)'')
      else seq (update_row q i (\<lambda>r. r\<lparr>row_reviewer := reviewer, row_updated := now\<rparr>)) (\<lambda>_.
        advance q dbg now i ''active'' reviewer why))"

definition delivered :: "'f store \<Rightarrow> string \<Rightarrow> bool" where
  "delivered s i \<longleftrightarrow>
     i \<notin> snd ` set (members s) \<or>
     (\<exists>(p, j) \<in> set (members s). j = i \<and> (\<exists>k \<in> set (packs s). reg_id k = p \<and> reg_status k = ''active''))"

definition servable_in :: "string \<Rightarrow> string option \<Rightarrow> 'f store \<Rightarrow> 'f item_row list" where
  "servable_in sub obj s = sort_key row_id
     (filter (\<lambda>r. row_state r = ''active'' \<and> row_subtest r = sub \<and>
        (case obj of None \<Rightarrow> True | Some x \<Rightarrow> row_objective r = x) \<and> delivered s (row_id r)) (item_rows s))"

definition servable :: "string \<Rightarrow> 'f store \<Rightarrow> 'f item_row list" where
  "servable sub = servable_in sub None"

definition all_items :: "'f store \<Rightarrow> 'f item_row list" where
  "all_items s = sort_key row_subtest (sort_key row_id (item_rows s))"

definition question_exists :: "string \<Rightarrow> string \<Rightarrow> string \<Rightarrow> string option \<Rightarrow> 'f store \<Rightarrow> bool" where
  "question_exists sub stem correct passage s =
     (let same = (\<lambda>a b. ascii_lower (sql_trim a) = ascii_lower (sql_trim b));
          text_of = (\<lambda>x. case x of None \<Rightarrow> [] | Some t \<Rightarrow> t) in
      list_ex (\<lambda>r. row_subtest r = sub \<and> row_state r \<in> {''active'', ''draft''} \<and> same (row_stem r) stem \<and>
        same (if row_correct r < length (row_options r) then row_options r ! row_correct r else []) correct \<and>
        same (text_of (row_passage r)) (text_of passage)) (item_rows s))"

definition counts_by_state :: "'f store \<Rightarrow> (string \<times> nat) list" where
  "counts_by_state s =
     map (\<lambda>st. (st, length (filter (\<lambda>r. row_state r = st) (item_rows s)))) (sort (remdups (map row_state (item_rows s))))"

definition history :: "string \<Rightarrow> 'f store \<Rightarrow> review_row list" where
  "history i s = sort_key review_at (filter (\<lambda>v. review_item v = i) (reviews s))"

definition sources_of :: "string \<Rightarrow> 'f store \<Rightarrow> string list" where
  "sources_of i s = sort (map snd (filter (\<lambda>c. fst c = i) (citations s)))"

text \<open>The vault: \<open>put\<close> keeps one row for a content hash. Its rows are never updated (a trigger).\<close>

definition put_evidence :: "'f sql \<Rightarrow> string \<Rightarrow> 'f evidence_row \<Rightarrow> ('f store, string) prog" where
  "put_evidence q now e =
     (if \<not> in_unit q (ev_trust e) then fail (Refused ''trust outside [0,1]'')
      else query (\<lambda>s.
        case find (\<lambda>x. ev_hash x = ev_hash e) (evidence s) of
          Some x \<Rightarrow> return (ev_id x)
        | None \<Rightarrow>
            seq (draw_id q ''ev'') (\<lambda>i.
            seq (insert_evidence q (e\<lparr>ev_id := i, ev_created := now\<rparr>)) (\<lambda>_. return i))))"

definition set_trust :: "string \<Rightarrow> ('f store, unit) prog" where
  "set_trust i s =
     (if i \<in> ev_id ` set (evidence s) then (Err (Constraint ''evidence vault records are immutable''), s)
      else (Err (Refused (''evidence vault records are immutable (id '' @ i @ '')'')), s))"

section \<open>Programs and invariants\<close>

definition preserves :: "('s \<Rightarrow> bool) \<Rightarrow> ('s, 'a) prog \<Rightarrow> bool" where
  "preserves I m \<longleftrightarrow> (\<forall>s v s'. I s \<longrightarrow> m s = (Ok v, s') \<longrightarrow> I s')"

lemma preservesD: "preserves I m \<Longrightarrow> I s \<Longrightarrow> m s = (Ok v, s') \<Longrightarrow> I s'"
  unfolding preserves_def by blast

lemma seq_Ok: "seq m f s = (Ok v, s') \<longleftrightarrow> (\<exists>w t. m s = (Ok w, t) \<and> f w t = (Ok v, s'))"
  by (cases "m s"; cases "fst (m s)") (auto simp: seq_def)

lemma preserves_seq: "preserves I m \<Longrightarrow> (\<And>v. preserves I (f v)) \<Longrightarrow> preserves I (seq m f)"
  unfolding preserves_def [of I "seq m f"] seq_Ok by (meson preservesD)

lemma preserves_return [simp]: "preserves I (fail e)" "preserves I (return v)"
  by (auto simp: preserves_def fail_def return_def)

lemma preserves_each: "(\<And>x. x \<in> set xs \<Longrightarrow> preserves I (f x)) \<Longrightarrow> preserves I (each_do f xs)"
  by (induction xs) (simp_all add: preserves_seq)

lemma preserves_query: "(\<And>s. preserves I (f s)) \<Longrightarrow> preserves I (query f)"
  by (auto simp: preserves_def query_def)

lemma preserves_statement:
  "(\<And>s. I s \<Longrightarrow> allowed s \<Longrightarrow> I (change s)) \<Longrightarrow> preserves I (statement allowed why change)"
  by (auto simp: preserves_def statement_def)

text \<open>\<open>valid P m Q\<close>: from a state with \<open>P\<close>, a run of \<open>m\<close> that succeeds ends with \<open>Q\<close>.\<close>

definition valid :: "('s \<Rightarrow> bool) \<Rightarrow> ('s, 'a) prog \<Rightarrow> ('a \<Rightarrow> 's \<Rightarrow> bool) \<Rightarrow> bool" where
  "valid P m Q \<longleftrightarrow> (\<forall>s v s'. P s \<longrightarrow> m s = (Ok v, s') \<longrightarrow> Q v s')"

lemma validD: "valid P m Q \<Longrightarrow> P s \<Longrightarrow> m s = (Ok v, s') \<Longrightarrow> Q v s'"
  unfolding valid_def by blast

lemma preserves_valid: "preserves I m \<longleftrightarrow> valid I m (\<lambda>_. I)"
  by (simp add: preserves_def valid_def)

lemma valid_seq: "valid P m R \<Longrightarrow> (\<And>v. valid (R v) (f v) Q) \<Longrightarrow> valid P (seq m f) Q"
  unfolding valid_def [of P "seq m f"] seq_Ok by (meson validD)

lemma valid_fail [simp]: "valid P (fail e) Q"
  by (simp add: valid_def fail_def)

lemma valid_return: "(\<And>s. P s \<Longrightarrow> Q v s) \<Longrightarrow> valid P (return v) Q"
  by (auto simp: valid_def return_def)

lemma valid_query: "(\<And>t. P t \<Longrightarrow> valid (\<lambda>s. s = t) (f t) Q) \<Longrightarrow> valid P (query f) Q"
  unfolding valid_def query_def by blast

lemma valid_statement:
  "(\<And>s. P s \<Longrightarrow> allowed s \<Longrightarrow> Q () (change s)) \<Longrightarrow> valid P (statement allowed why change) Q"
  by (auto simp: valid_def statement_def)

lemma valid_weaken: "valid P' m Q' \<Longrightarrow> (\<And>s. P s \<Longrightarrow> P' s) \<Longrightarrow> (\<And>v s. Q' v s \<Longrightarrow> Q v s) \<Longrightarrow> valid P m Q"
  unfolding valid_def by blast

lemma valid_each: "(\<And>x. x \<in> set xs \<Longrightarrow> valid P (f x) (\<lambda>_. P)) \<Longrightarrow> valid P (each_do f xs) (\<lambda>_. P)"
  using preserves_each [of xs P f] by (simp add: preserves_valid)

lemma valid_conj: "valid P m Q \<Longrightarrow> valid P m R \<Longrightarrow> valid P m (\<lambda>v s. Q v s \<and> R v s)"
  unfolding valid_def by blast

text \<open>
  The contract of a transaction: a body that establishes the invariant when it succeeds becomes an
  operation that always keeps it and that changes no table when it fails. The body may rely on what its
  caller read before it began.
\<close>

definition same_tables :: "'f store \<Rightarrow> 'f store \<Rightarrow> bool" where
  "same_tables s t \<longleftrightarrow> t = s\<lparr>drawn := drawn t\<rparr>"

locale guarded_transaction =
  fixes pre I :: "'f store \<Rightarrow> bool" and body :: "('f store, 'a) prog"
  assumes body_valid: "valid pre body (\<lambda>_. I)"
    and pre_inv: "pre s \<Longrightarrow> I s"
    and inv_drawn: "I s \<Longrightarrow> I (s\<lparr>drawn := n\<rparr>)"
begin

lemma keeps: "pre s \<Longrightarrow> I (snd (transaction body s))"
  using body_valid inv_drawn pre_inv
  by (auto simp: transaction_def valid_def split: prod.splits result.splits)

lemma atomic: "fst (transaction body s) = Err e \<Longrightarrow> same_tables s (snd (transaction body s))"
  by (auto simp: transaction_def same_tables_def split: prod.splits result.splits)

end

locale transactional = guarded_transaction I I body for I :: "'f store \<Rightarrow> bool" and body :: "('f store, 'a) prog"
begin

lemma preserves_transaction: "preserves I (transaction body)"
  unfolding preserves_def using keeps by (metis snd_conv)

end

section \<open>The invariant of the tables\<close>

text \<open>The audit trail of an item is a chain of permitted moves from \<open>draft\<close> to its state.\<close>

fun chain :: "string \<Rightarrow> (string \<times> string) list \<Rightarrow> string \<Rightarrow> bool" where
  "chain a [] b = (a = b)"
| "chain a ((x, y) # t) b = (x = a \<and> may_move x y \<and> chain y t b)"

definition trail :: "review_row list \<Rightarrow> string \<Rightarrow> (string \<times> string) list" where
  "trail vs i = map (\<lambda>v. (review_from v, review_to v)) (filter (\<lambda>v. review_item v = i) vs)"

definition row_sound :: "'f sql \<Rightarrow> 'f store \<Rightarrow> 'f item_row \<Rightarrow> bool" where
  "row_sound q s r \<longleftrightarrow> row_ok q r \<and> passage_ok r \<and>
     (row_state r = ''active'' \<longrightarrow> row_id r \<in> fst ` set (citations s)) \<and>
     chain ''draft'' (trail (reviews s) (row_id r)) (row_state r)"

definition keys_ok :: "'f store \<Rightarrow> bool" where
  "keys_ok s \<longleftrightarrow>
     distinct (map row_id (item_rows s)) \<and> distinct (map row_hash (item_rows s)) \<and>
     fst ` set (citations s) \<subseteq> item_ids s \<and> snd ` set (citations s) \<subseteq> ev_id ` set (evidence s) \<and>
     review_item ` set (reviews s) \<subseteq> item_ids s \<and> distinct (map review_id (reviews s)) \<and>
     distinct (map ev_id (evidence s)) \<and> distinct (map ev_hash (evidence s))"

definition store_ok :: "'f sql \<Rightarrow> 'f store \<Rightarrow> bool" where
  "store_ok q s \<longleftrightarrow> keys_ok s \<and> (\<forall>r \<in> set (item_rows s). row_sound q s r)"

lemmas store_defs = store_ok_def keys_ok_def row_sound_def item_ids_def

lemma chain_snoc: "chain a (t @ [(x, y)]) b \<longleftrightarrow> chain a t x \<and> may_move x y \<and> y = b"
  by (induction a t x rule: chain.induct) auto

lemma trail_snoc: "trail (vs @ [v]) i = trail vs i @ (if review_item v = i then [(review_from v, review_to v)] else [])"
  by (simp add: trail_def)

lemma trail_fresh: "i \<notin> review_item ` set vs \<Longrightarrow> trail vs i = []"
  by (auto simp: trail_def filter_empty_conv)

lemma store_ok_drawn [simp]: "store_ok q (s\<lparr>drawn := n\<rparr>) = store_ok q s"
  by (simp add: store_defs)

lemma item_ids_drawn [simp]: "item_ids (s\<lparr>drawn := n\<rparr>) = item_ids s"
  by (simp add: item_ids_def)

lemma drawn_change [simp]: "drawn (change_row i f s) = drawn s"
  by (simp add: change_row_def)

lemma store_ok_empty: "store_ok q empty_store"
  by (simp add: store_defs empty_store_def)

lemma preserves_draw: "preserves (store_ok q) (draw_id q p)"
  by (auto simp: preserves_def draw_id_def)

lemma change_row_fields [simp]:
  "citations (change_row i f s) = citations s" "reviews (change_row i f s) = reviews s" "evidence (change_row i f s) = evidence s"
  "packs (change_row i f s) = packs s" "members (change_row i f s) = members s"
  by (simp_all add: change_row_def)

lemma map_change_row: "(\<And>r. g (f r) = g r) \<Longrightarrow> map g (item_rows (change_row i f s)) = map g (item_rows s)"
  by (simp add: change_row_def)

lemma ball_change_row:
  "(\<forall>r \<in> set (item_rows (change_row i f s)). P r) \<longleftrightarrow> (\<forall>r \<in> set (item_rows s). P (if row_id r = i then f r else r))"
  unfolding change_row_def by auto

lemma item_ids_change: "(\<And>r. row_id (f r) = row_id r) \<Longrightarrow> item_ids (change_row i f s) = item_ids s"
  unfolding item_ids_def using map_change_row [of row_id f i s] by (metis list.set_map)

lemma preserves_insert_item: "preserves (store_ok q) (insert_item q r)"
  unfolding insert_item_def
proof (rule preserves_statement)
  fix s
  assume ok: "store_ok q s" and new: "row_state r = ''draft'' \<and> passage_ok r \<and> row_ok q r \<and> row_id r \<notin> item_ids s \<and>
    row_hash r \<notin> row_hash ` set (item_rows s) \<and> (case row_pack r of None \<Rightarrow> True | Some p \<Rightarrow> p \<in> reg_id ` set (packs s))"
  then have "trail (reviews s) (row_id r) = []" by (intro trail_fresh) (auto simp: store_defs)
  with ok new show "store_ok q (s\<lparr>item_rows := item_rows s @ [r]\<rparr>)"
    by (auto simp: store_defs)
qed

lemma preserves_update_row:
  assumes "\<And>r. row_id (f r) = row_id r \<and> row_hash (f r) = row_hash r \<and> row_state (f r) = row_state r"
  shows "preserves (store_ok q) (update_row q i f)"
  unfolding update_row_def
proof (rule preserves_statement)
  fix s
  assume ok: "store_ok q s" and new: "\<forall>r \<in> set (item_rows s). row_id r = i \<longrightarrow> passage_ok (f r) \<and> row_ok q (f r)"
  have "map row_id (item_rows (change_row i f s)) = map row_id (item_rows s)"
    "map row_hash (item_rows (change_row i f s)) = map row_hash (item_rows s)" "item_ids (change_row i f s) = item_ids s"
    using assms by (simp_all add: map_change_row item_ids_change)
  with ok have "keys_ok (change_row i f s)" by (simp add: store_ok_def keys_ok_def)
  moreover have "row_sound q (change_row i f s) (if row_id r = i then f r else r)" if "r \<in> set (item_rows s)" for r
    using that ok new assms [of r] by (auto simp: store_ok_def row_sound_def)
  ultimately show "store_ok q (change_row i f s)" by (simp add: store_ok_def ball_change_row)
qed

lemma preserves_insert_citation: "preserves (store_ok q) (insert_citation i src)"
  unfolding insert_citation_def by (rule preserves_statement) (auto simp: store_defs)

lemma preserves_insert_evidence: "preserves (store_ok q) (insert_evidence q e)"
  unfolding insert_evidence_def by (rule preserves_statement) (auto simp: store_defs)

lemma preserves_delete_draft: "preserves (store_ok q) (delete_draft i)"
proof -
  have "store_ok q (s\<lparr>item_rows := filter (\<lambda>r. row_id r \<noteq> i) (item_rows s), citations := filter (\<lambda>c. fst c \<noteq> i) (citations s),
      reviews := filter (\<lambda>v. review_item v \<noteq> i) (reviews s), members := filter (\<lambda>m. snd m \<noteq> i) (members s)\<rparr>)" (is "store_ok q ?t")
    if ok: "store_ok q s" for s
  proof -
    have trail: "trail (filter (\<lambda>v. review_item v \<noteq> i) (reviews s)) j = trail (reviews s) j" if "j \<noteq> i" for j
    proof -
      have "filter (\<lambda>v. review_item v = j) (filter (\<lambda>v. review_item v \<noteq> i) (reviews s)) = filter (\<lambda>v. review_item v = j) (reviews s)"
        unfolding filter_filter using that by (intro filter_cong) auto
      then show ?thesis by (simp add: trail_def)
    qed
    have rest: "row_id ` {r \<in> set (item_rows s). row_id r \<noteq> i} = row_id ` set (item_rows s) - {i}" by auto
    have "keys_ok ?t"
      using ok unfolding store_ok_def keys_ok_def item_ids_def
      by (simp add: distinct_map_filter image_subset_iff rest)
    moreover have "row_sound q ?t r" if "r \<in> set (item_rows s)" "row_id r \<noteq> i" for r
    proof -
      have "row_sound q s r" using ok that by (simp add: store_ok_def)
      with that(2) show ?thesis by (auto simp: row_sound_def trail)
    qed
    ultimately show ?thesis by (simp add: store_ok_def)
  qed
  then show ?thesis by (auto simp: preserves_def delete_draft_def split: if_splits)
qed

lemma statement_Ok: "statement allowed why change s = (Ok v, s') \<longleftrightarrow> allowed s \<and> s' = change s"
  by (auto simp: statement_def)

text \<open>A move keeps the invariant when the audit row names the state the item is in.\<close>

lemma move_item_ok:
  assumes ok: "store_ok q s" and moved: "move_item q now i from to actor why s = (Ok v, s')"
    and source: "\<forall>r \<in> set (item_rows s). row_id r = i \<longrightarrow> row_state r = from"
  shows "store_ok q s'"
proof -
  let ?f = "\<lambda>r. r\<lparr>row_state := to, row_updated := now\<rparr>"
  let ?s1 = "change_row i ?f s"
  define w where "w = \<lparr>review_id = ''rev'' @ ''-'' @ uuid q (drawn s), review_item = i, review_from = from, review_to = to,
    review_actor = actor, review_rationale = why, review_at = now\<rparr>"
  then have w: "review_item w = i" "review_from w = from" "review_to w = to" by simp_all
  have allowed: "\<forall>r \<in> set (item_rows s). row_id r = i \<longrightarrow> passage_ok r \<and> row_ok q (?f r) \<and> may_move (row_state r) to \<and>
      (to = ''active'' \<longrightarrow> i \<in> fst ` set (citations s))"
    using moved unfolding move_item_def seq_Ok set_state_def statement_Ok by blast
  have new: "i \<in> item_ids s" "review_id w \<notin> review_id ` set (reviews s)"
      "s' = ?s1\<lparr>drawn := drawn s + 1, reviews := reviews s @ [w]\<rparr>"
    using moved by (simp_all add: move_item_def seq_Ok set_state_def statement_Ok draw_id_def insert_review_def item_ids_change w_def)
  note s' = new(3)
  have keys: "map row_id (item_rows ?s1) = map row_id (item_rows s)" "map row_hash (item_rows ?s1) = map row_hash (item_rows s)"
    "item_ids ?s1 = item_ids s"
    by (simp_all add: map_change_row item_ids_change)
  have "keys_ok s'"
    using ok keys w new(1,2) unfolding s' store_ok_def keys_ok_def item_ids_def by simp
  moreover have "row_sound q s' (if row_id r = i then ?f r else r)" if "r \<in> set (item_rows s)" for r
  proof -
    have old: "row_sound q s r" using ok that by (simp add: store_ok_def)
    show ?thesis
    proof (cases "row_id r = i")
      case True
      have "chain ''draft'' (trail (reviews s) i @ [(from, to)]) to"
        using old True allowed that source by (auto simp: chain_snoc row_sound_def)
      with True allowed that show ?thesis
        by (auto simp: row_sound_def s' trail_snoc w passage_ok_def)
    next
      case False
      with old w show ?thesis by (simp add: row_sound_def s' trail_snoc)
    qed
  qed
  ultimately show ?thesis by (simp add: store_ok_def s' ball_change_row)
qed

lemma find_row_Some: "find_row s i = Some r \<Longrightarrow> r \<in> set (item_rows s) \<and> row_id r = i"
  by (auto simp: find_row_def find_Some_iff in_set_conv_nth)

lemma store_ok_unique: "store_ok q s \<Longrightarrow> r \<in> set (item_rows s) \<Longrightarrow> r' \<in> set (item_rows s) \<Longrightarrow> row_id r = row_id r' \<Longrightarrow> r = r'"
  by (auto simp: store_ok_def keys_ok_def distinct_map inj_on_def)

lemma preserves_advance_body: "preserves (store_ok q) (advance_body q now i to actor why)"
  unfolding preserves_def
proof (intro allI impI)
  fix s v s' assume ok: "store_ok q s" and run: "advance_body q now i to actor why s = (Ok v, s')"
  obtain r where r: "find_row s i = Some r" using run by (cases "find_row s i") (auto simp: advance_body_def query_def fail_def)
  then have "move_item q now i (row_state r) to actor why s = (Ok v, s')" using run by (simp add: advance_body_def query_def)
  then show "store_ok q s'"
    using move_item_ok [OF ok] find_row_Some [OF r] store_ok_unique [OF ok] by blast
qed

interpretation adv: transactional "store_ok q" "advance_body q now i to actor why" for q now i to actor why
  by unfold_locales (simp_all add: preserves_advance_body flip: preserves_valid)

lemma preserves_advance: "preserves (store_ok q) (advance q dbg now i to actor why)"
  by (simp add: advance_def adv.preserves_transaction)

section \<open>Every operation keeps the invariant\<close>

inductive repo_step :: "'f sql \<Rightarrow> (string \<Rightarrow> string) \<Rightarrow> 'f store \<Rightarrow> 'f store \<Rightarrow> bool" for q dbg where
  "repo_step q dbg s (snd (insert_draft q now r s))"
| "repo_step q dbg s (snd (cite i src s))"
| "repo_step q dbg s (snd (discard_draft i s))"
| "repo_step q dbg s (snd (advance q dbg now i to actor why s))"
| "repo_step q dbg s (snd (walk_to_content_reviewed q dbg now i actor s))"
| "repo_step q dbg s (snd (activate q dbg now i actor why s))"
| "repo_step q dbg s (snd (put_evidence q now e s))"
| "repo_step q dbg s (snd (set_trust i s))"

text \<open>An operation that keeps the invariant whether it succeeds or fails.\<close>

definition keeps :: "('s \<Rightarrow> bool) \<Rightarrow> ('s, 'a) prog \<Rightarrow> bool" where
  "keeps I m \<longleftrightarrow> (\<forall>s. I s \<longrightarrow> I (snd (m s)))"

lemma keeps_seq: "keeps I m \<Longrightarrow> (\<And>v. keeps I (f v)) \<Longrightarrow> keeps I (seq m f)"
  unfolding keeps_def seq_def by (auto split: prod.splits result.splits)

lemma keeps_trivial [simp]: "keeps I (fail e)" "keeps I (return v)"
  by (auto simp: keeps_def fail_def return_def)

lemma keeps_each: "(\<And>x. x \<in> set xs \<Longrightarrow> keeps I (f x)) \<Longrightarrow> keeps I (each_do f xs)"
  by (induction xs) (simp_all add: keeps_seq)

lemma keeps_query: "(\<And>s. keeps I (f s)) \<Longrightarrow> keeps I (query f)"
  by (auto simp: keeps_def query_def)

lemma keeps_statement: "preserves I (statement allowed why change) \<Longrightarrow> keeps I (statement allowed why change)"
  by (auto simp: keeps_def preserves_def statement_def)

lemma keeps_draw: "keeps (store_ok q) (draw_id q p)"
  by (auto simp: keeps_def draw_id_def)

lemma keeps_advance: "keeps (store_ok q) (advance q dbg now i to actor why)"
  by (simp add: advance_def) (auto simp: keeps_def adv.keeps)

lemma keeps_activate: "keeps (store_ok q) (activate q dbg now i actor why)"
proof -
  have "keeps (store_ok q) (update_row q i (\<lambda>r. r\<lparr>row_reviewer := actor, row_updated := now\<rparr>))"
    using preserves_update_row [of "\<lambda>r. r\<lparr>row_reviewer := actor, row_updated := now\<rparr>" q i]
    by (simp add: update_row_def keeps_statement)
  then show ?thesis by (simp add: activate_def keeps_seq keeps_advance)
qed

lemma keeps_insert_item: "keeps (store_ok q) (insert_item q r)"
  using preserves_insert_item [of q r] by (simp add: insert_item_def keeps_statement)

lemma keeps_insert_draft: "keeps (store_ok q) (insert_draft q now r)"
  by (simp add: insert_draft_def keeps_insert_item)

lemma keeps_cite: "keeps (store_ok q) (cite i src)"
  using preserves_insert_citation [of q i src] by (simp add: cite_def insert_citation_def keeps_statement)

lemma keeps_discard: "keeps (store_ok q) (discard_draft i)"
  unfolding keeps_def
proof (intro allI impI)
  fix s assume "store_ok q s"
  moreover have "fst (delete_draft i s) = Ok ()" by (simp add: delete_draft_def)
  ultimately show "store_ok q (snd (discard_draft i s))"
    using preservesD [OF preserves_delete_draft] by (metis discard_draft_def prod.collapse)
qed

lemma keeps_walk: "keeps (store_ok q) (walk_to_content_reviewed q dbg now i actor)"
  unfolding walk_to_content_reviewed_def by (intro keeps_each keeps_advance)

lemma keeps_set_trust: "keeps (store_ok q) (set_trust i)"
  by (simp add: keeps_def set_trust_def)

lemma keeps_put_evidence: "keeps (store_ok q) (put_evidence q now e)"
proof -
  have "keeps (store_ok q) (insert_evidence q x)" for x
    using preserves_insert_evidence [of q x] by (simp add: insert_evidence_def keeps_statement)
  then show ?thesis
    unfolding put_evidence_def by (auto intro!: keeps_query keeps_seq keeps_draw split: option.splits)
qed

lemmas repo_keeps = keeps_insert_draft keeps_cite keeps_discard keeps_advance keeps_walk keeps_activate keeps_put_evidence keeps_set_trust

lemma repo_step_ok: "repo_step q dbg s t \<Longrightarrow> store_ok q s \<Longrightarrow> store_ok q t"
  by (induction rule: repo_step.induct) (simp_all add: repo_keeps [unfolded keeps_def, rule_format])

lemma repo_steps_ok: "(repo_step q dbg)\<^sup>*\<^sup>* empty_store s \<Longrightarrow> store_ok q s"
  by (induction rule: rtranclp_induct) (simp_all add: store_ok_empty repo_step_ok)

end
