(* ===== verification/Pack_Registry.thy ===== *)
theory Pack_Registry
  imports Content_Repo
begin

text \<open>
  The pack registry, \<open>ContentPackRepo\<close> of \<open>crates/vector-persistence/src/repo.rs\<close>: publication,
  installation, rollback and activation as transactions over the tables, the invariant of the
  whole database, and what a rollback does.
\<close>

section \<open>Statements on the registry\<close>

definition identified :: "pack_row \<Rightarrow> bool" where
  "identified p \<longleftrightarrow> \<not> blank (reg_signer p) \<and> \<not> blank (reg_hash p) \<and> 1 \<le> reg_schema p \<and> 1 \<le> reg_items p"

definition pack_row_ok :: "'f sql \<Rightarrow> pack_row \<Rightarrow> bool" where
  "pack_row_ok q p \<longleftrightarrow>
     1 \<le> reg_version p \<and> reg_status p \<in> {''active'', ''superseded'', ''quarantined''} \<and> json_valid q (reg_manifest p) \<and>
     0 \<le> reg_items p \<and> (reg_status p = ''active'' \<longrightarrow> identified p)"

definition insert_pack :: "'f sql \<Rightarrow> pack_row \<Rightarrow> ('f store, unit) prog" where
  "insert_pack q p = statement
     (\<lambda>s. pack_row_ok q p \<and> reg_id p \<notin> reg_id ` set (packs s) \<and>
        (reg_name p, reg_version p) \<notin> (\<lambda>k. (reg_name k, reg_version k)) ` set (packs s))
     ''content_packs'' (\<lambda>s. s\<lparr>packs := packs s @ [p]\<rparr>)"

definition set_status :: "(pack_row \<Rightarrow> bool) \<Rightarrow> string \<Rightarrow> ('f store, unit) prog" where
  "set_status which st = statement
     (\<lambda>s. \<forall>p \<in> set (packs s). which p \<longrightarrow> st = ''active'' \<longrightarrow> identified p)
     ''content_packs'' (\<lambda>s. s\<lparr>packs := map (\<lambda>p. if which p then p\<lparr>reg_status := st\<rparr> else p) (packs s)\<rparr>)"

text \<open>\<open>INSERT OR IGNORE\<close>: a member that is there is left alone; a dangling reference is still refused.\<close>

definition insert_member :: "string \<Rightarrow> string \<Rightarrow> ('f store, unit) prog" where
  "insert_member p i = statement
     (\<lambda>s. p \<in> reg_id ` set (packs s) \<and> i \<in> item_ids s)
     ''content_pack_items'' (\<lambda>s. if (p, i) \<in> set (members s) then s else s\<lparr>members := members s @ [(p, i)]\<rparr>)"

section \<open>Operations\<close>

text \<open>A pack to register is given as a row; its identifier, status and date are set here.\<close>

definition supersede :: "string \<Rightarrow> ('f store, unit) prog" where
  "supersede n = set_status (\<lambda>p. reg_name p = n \<and> reg_status p = ''active'') ''superseded''"

definition register :: "'f sql \<Rightarrow> string \<Rightarrow> pack_row \<Rightarrow> ('f store, string) prog" where
  "register q now p =
     seq (supersede (reg_name p)) (\<lambda>_.
     seq (draw_id q ''pack'') (\<lambda>i.
     seq (insert_pack q (p\<lparr>reg_id := i, reg_status := ''active'', reg_created := now\<rparr>)) (\<lambda>_. return i)))"

definition publish :: "'f sql \<Rightarrow> string \<Rightarrow> pack_row \<Rightarrow> ('f store, string) prog" where
  "publish q now p = transaction (register q now p)"

text \<open>An item to deliver: the row it becomes, with the sources it cites.\<close>

type_synonym 'f delivery = "'f item_row \<times> string list"

definition previous_state :: "string \<Rightarrow> string" where
  "previous_state st =
     (if st = ''machine_validated'' then ''draft''
      else if st = ''independent_verified'' then ''machine_validated''
      else if st = ''content_reviewed'' then ''independent_verified''
      else ''content_reviewed'')"

text \<open>
  Planning reads the tables only: content the store already holds keeps its local identifier, a taken
  identifier is a conflict, and the rest is to be installed.
\<close>

fun plan_items :: "'f store \<Rightarrow> 'f delivery list \<Rightarrow> 'f delivery list \<Rightarrow> (string \<rightharpoonup> string) \<Rightarrow> nat \<Rightarrow>
    ('f delivery list \<times> (string \<rightharpoonup> string) \<times> nat, store_error) result" where
  "plan_items s [] todo local present = Ok (todo, local, present)"
| "plan_items s ((r, srcs) # ds) todo local present =
     (case find (\<lambda>x. row_hash x = row_hash r) (item_rows s) of
        Some x \<Rightarrow> plan_items s ds todo (local(row_id r \<mapsto> row_id x)) (present + 1)
      | None \<Rightarrow>
          if row_id r \<in> item_ids s
          then Err (Refused (''item '' @ row_id r @ '' is already present with different content''))
          else plan_items s ds (todo @ [(r, srcs)]) (local(row_id r \<mapsto> row_id r)) present)"

fun record_sources :: "'f sql \<Rightarrow> string \<Rightarrow> 'f evidence_row list \<Rightarrow> (string \<rightharpoonup> string) \<Rightarrow> nat \<Rightarrow> nat \<Rightarrow>
    ('f store, (string \<rightharpoonup> string) \<times> nat \<times> nat) prog" where
  "record_sources q now [] known added reused = return (known, added, reused)"
| "record_sources q now (e # es) known added reused = query (\<lambda>s.
     case find (\<lambda>x. ev_hash x = ev_hash e) (evidence s) of
       Some x \<Rightarrow> record_sources q now es (known(ev_id e \<mapsto> ev_id x)) added (reused + 1)
     | None \<Rightarrow>
         seq (draw_id q ''ev'') (\<lambda>i.
         seq (insert_evidence q (e\<lparr>ev_id := i, ev_created := now\<rparr>)) (\<lambda>_.
         record_sources q now es (known(ev_id e \<mapsto> i)) (added + 1) reused)))"

definition cite_known :: "(string \<rightharpoonup> string) \<Rightarrow> string \<Rightarrow> string \<Rightarrow> ('f store, unit) prog" where
  "cite_known known i src =
     (case known src of
        None \<Rightarrow> fail (Refused (''item '' @ i @ '' cites source '' @ src @ '', which the pack's ledger does not carry''))
      | Some l \<Rightarrow> insert_citation i l)"

definition install_one :: "'f sql \<Rightarrow> string \<Rightarrow> string \<Rightarrow> (string \<rightharpoonup> string) \<Rightarrow> 'f delivery \<Rightarrow> ('f store, unit) prog" where
  "install_one q now pid known d =
     (case d of (r, srcs) \<Rightarrow>
        seq (insert_item q (r\<lparr>row_pack := Some pid, row_state := ''draft'', row_reviewer := [], row_created := now, row_updated := now\<rparr>)) (\<lambda>_.
        seq (each_do (cite_known known (row_id r)) srcs) (\<lambda>_.
        seq (update_row q (row_id r) (\<lambda>x. x\<lparr>row_reviewer := row_reviewer r\<rparr>)) (\<lambda>_.
        each_do (\<lambda>st. move_item q now (row_id r) (previous_state st) st ''pack-install'' ''delivered by a signed content pack'')
          [''machine_validated'', ''independent_verified'', ''content_reviewed'', ''active'']))))"

record install_outcome =
  out_pack :: string
  installed :: nat
  already_present :: nat
  reused_sources :: nat
  added_sources :: nat

definition join_members :: "string \<Rightarrow> (string \<rightharpoonup> string) \<Rightarrow> 'f delivery \<Rightarrow> ('f store, unit) prog" where
  "join_members pid local d =
     (case local (row_id (fst d)) of
        None \<Rightarrow> fail (Refused (''item '' @ row_id (fst d) @ '' has no local identity''))
      | Some l \<Rightarrow> insert_member pid l)"

definition registered_as :: "'f store \<Rightarrow> pack_row \<Rightarrow> pack_row option" where
  "registered_as s p = find (\<lambda>k. reg_name k = reg_name p \<and> reg_version k = reg_version p) (packs s)"

definition pack_identity :: "'f sql \<Rightarrow> string \<Rightarrow> pack_row \<Rightarrow> ('f store, string) prog" where
  "pack_identity q now p = query (\<lambda>s.
     case registered_as s p of
       Some k \<Rightarrow>
         if reg_hash k = reg_hash p then return (reg_id k)
         else fail (Refused (''pack '' @ reg_name p @ '' version '' @ show_int (reg_version p) @ '' is already registered with content hash '' @
           reg_hash k @ '', so installing '' @ reg_hash p @ '' under the same version would give two packs one identity''))
     | None \<Rightarrow> register q now p)"

definition install_body :: "'f sql \<Rightarrow> string \<Rightarrow> pack_row \<Rightarrow> 'f evidence_row list \<Rightarrow> 'f delivery list \<Rightarrow> ('f store, install_outcome) prog" where
  "install_body q now p es ds =
     seq (pack_identity q now p) (\<lambda>pid.
     query (\<lambda>s. case plan_items s ds [] Map.empty 0 of
         Err e \<Rightarrow> fail e
       | Ok (todo, local, present) \<Rightarrow>
           seq (record_sources q now es Map.empty 0 0) (\<lambda>(known, added, reused).
           seq (each_do (install_one q now pid known) todo) (\<lambda>_.
           seq (each_do (join_members pid local) ds) (\<lambda>_.
           return \<lparr>out_pack = pid, installed = length todo, already_present = present, reused_sources = reused, added_sources = added\<rparr>)))))"

definition install :: "'f sql \<Rightarrow> string \<Rightarrow> pack_row \<Rightarrow> 'f evidence_row list \<Rightarrow> 'f delivery list \<Rightarrow> ('f store, install_outcome) prog" where
  "install q now p es ds = transaction (install_body q now p es ds)"

definition active_pack :: "'f store \<Rightarrow> string \<Rightarrow> pack_row option" where
  "active_pack s n = find (\<lambda>p. reg_name p = n \<and> reg_status p = ''active'') (packs s)"

definition list_packs :: "'f store \<Rightarrow> pack_row list" where
  "list_packs s = sort_key reg_name (sort_key (\<lambda>p. - reg_version p) (packs s))"

text \<open>The greatest of the superseded versions below the active one.\<close>

definition previous_pack :: "'f store \<Rightarrow> string \<Rightarrow> int \<Rightarrow> pack_row option" where
  "previous_pack s n v =
     (case sort_key (\<lambda>p. - reg_version p) (filter (\<lambda>p. reg_name p = n \<and> reg_version p < v \<and> reg_status p = ''superseded'') (packs s)) of
        [] \<Rightarrow> None
      | p # _ \<Rightarrow> Some p)"

definition rollback_body :: "string \<Rightarrow> string \<Rightarrow> ('f store, unit) prog" where
  "rollback_body old new =
     seq (set_status (\<lambda>p. reg_id p = old) ''quarantined'') (\<lambda>_. set_status (\<lambda>p. reg_id p = new) ''active'')"

definition rollback :: "string \<Rightarrow> ('f store, pack_row) prog" where
  "rollback n = query (\<lambda>s.
     case active_pack s n of
       None \<Rightarrow> fail (Refused (''no active pack named '' @ n))
     | Some a \<Rightarrow>
         (case previous_pack s n (reg_version a) of
            None \<Rightarrow> fail (Refused (''no earlier pack to roll back to for '' @ n))
          | Some p \<Rightarrow> seq (transaction (rollback_body (reg_id a) (reg_id p))) (\<lambda>_. return (p\<lparr>reg_status := ''active''\<rparr>))))"

definition activate_body :: "string \<Rightarrow> string \<Rightarrow> ('f store, unit) prog" where
  "activate_body n i = seq (supersede n) (\<lambda>_. set_status (\<lambda>p. reg_id p = i) ''active'')"

definition activate_pack :: "string \<Rightarrow> int \<Rightarrow> ('f store, pack_row) prog" where
  "activate_pack n v = query (\<lambda>s.
     case find (\<lambda>p. reg_name p = n \<and> reg_version p = v) (packs s) of
       None \<Rightarrow> fail (Refused (''no pack named '' @ n @ '' is registered at version '' @ show_int v))
     | Some t \<Rightarrow>
         if reg_status t = ''active'' then return t
         else seq (transaction (activate_body n (reg_id t))) (\<lambda>_. return (t\<lparr>reg_status := ''active''\<rparr>)))"

section \<open>The invariant of the registry\<close>

definition is_active :: "pack_row \<Rightarrow> bool" where
  "is_active p \<longleftrightarrow> reg_status p = ''active''"

text \<open>One identity per version of a name, and one version of a name in service.\<close>

definition registry_ok :: "'f sql \<Rightarrow> pack_row list \<Rightarrow> bool" where
  "registry_ok q ps \<longleftrightarrow>
     distinct (map reg_id ps) \<and> distinct (map (\<lambda>p. (reg_name p, reg_version p)) ps) \<and>
     (\<forall>p \<in> set ps. pack_row_ok q p) \<and>
     (\<forall>p \<in> set ps. \<forall>p' \<in> set ps. is_active p \<and> is_active p' \<and> reg_name p = reg_name p' \<longrightarrow> reg_id p = reg_id p')"

text \<open>No reference dangles.\<close>

definition links_ok :: "'f store \<Rightarrow> bool" where
  "links_ok s \<longleftrightarrow>
     distinct (members s) \<and> fst ` set (members s) \<subseteq> reg_id ` set (packs s) \<and> snd ` set (members s) \<subseteq> item_ids s \<and>
     row_pack ` set (item_rows s) \<subseteq> insert None (Some ` reg_id ` set (packs s))"

definition db_ok :: "'f sql \<Rightarrow> 'f store \<Rightarrow> bool" where
  "db_ok q s \<longleftrightarrow> store_ok q s \<and> registry_ok q (packs s) \<and> links_ok s"

definition no_active :: "string \<Rightarrow> 'f store \<Rightarrow> bool" where
  "no_active n s \<longleftrightarrow> (\<forall>p \<in> set (packs s). reg_name p = n \<longrightarrow> \<not> is_active p)"

definition named :: "string \<Rightarrow> string \<Rightarrow> 'f store \<Rightarrow> bool" where
  "named i n s \<longleftrightarrow> (\<forall>p \<in> set (packs s). reg_id p = i \<longrightarrow> reg_name p = n)"

lemma links_ok_drawn [simp]: "links_ok (s\<lparr>drawn := n\<rparr>) = links_ok s"
  by (simp add: links_ok_def)

lemma db_ok_drawn [simp]: "db_ok q (s\<lparr>drawn := n\<rparr>) = db_ok q s"
  by (simp add: db_ok_def)

lemma db_ok_empty: "db_ok q empty_store"
  unfolding db_ok_def using store_ok_empty [of q] by (simp add: registry_ok_def links_ok_def empty_store_def)

lemma store_ok_packs [simp]:
  "store_ok q (s\<lparr>packs := ps\<rparr>) = store_ok q s" "store_ok q (s\<lparr>members := ms\<rparr>) = store_ok q s"
  by (simp_all add: store_defs)

lemma item_ids_packs [simp]: "item_ids (s\<lparr>packs := ps\<rparr>) = item_ids s" "item_ids (s\<lparr>members := ms\<rparr>) = item_ids s"
  by (simp_all add: item_ids_def)

subsection \<open>Status changes\<close>

definition restat :: "(pack_row \<Rightarrow> bool) \<Rightarrow> string \<Rightarrow> pack_row \<Rightarrow> pack_row" where
  "restat which st p = (if which p then p\<lparr>reg_status := st\<rparr> else p)"

definition restatus :: "(pack_row \<Rightarrow> bool) \<Rightarrow> string \<Rightarrow> pack_row list \<Rightarrow> pack_row list" where
  "restatus which st = map (restat which st)"

lemma restat_fields [simp]:
  "reg_id (restat which st p) = reg_id p" "reg_name (restat which st p) = reg_name p"
  "reg_version (restat which st p) = reg_version p" "identified (restat which st p) = identified p"
  "reg_status (restat which st p) = (if which p then st else reg_status p)"
  "is_active (restat which st p) = (if which p then st = ''active'' else is_active p)"
  by (simp_all add: restat_def identified_def is_active_def)

lemma pack_row_ok_restat:
  "pack_row_ok q (restat which st p) \<longleftrightarrow> (if which p then pack_row_ok q (p\<lparr>reg_status := st\<rparr>) else pack_row_ok q p)"
  by (simp add: restat_def)

lemma pack_row_ok_status:
  "pack_row_ok q p \<Longrightarrow> pack_row_ok q (p\<lparr>reg_status := st\<rparr>) \<longleftrightarrow>
     st \<in> {''active'', ''superseded'', ''quarantined''} \<and> (st = ''active'' \<longrightarrow> identified p)"
  by (simp add: pack_row_ok_def identified_def)

lemma restatus_keys [simp]:
  "map reg_id (restatus which st ps) = map reg_id ps"
  "map (\<lambda>p. (reg_name p, reg_version p)) (restatus which st ps) = map (\<lambda>p. (reg_name p, reg_version p)) ps"
  "length (restatus which st ps) = length ps"
  by (simp_all add: restatus_def)

lemma set_restatus: "set (restatus which st ps) = restat which st ` set ps"
  by (simp add: restatus_def)

lemma restatus_ids [simp]: "reg_id ` set (restatus which st ps) = reg_id ` set ps"
  by (simp add: set_restatus image_image)

lemma registry_ok_restatus:
  assumes ok: "registry_ok q ps" and st: "st \<in> {''active'', ''superseded'', ''quarantined''}"
    and identity: "\<And>p. p \<in> set ps \<Longrightarrow> which p \<Longrightarrow> st = ''active'' \<Longrightarrow> identified p"
    and single: "\<And>p p'. p \<in> set ps \<Longrightarrow> p' \<in> set ps \<Longrightarrow> st = ''active'' \<Longrightarrow> which p \<Longrightarrow>
      which p' \<or> is_active p' \<Longrightarrow> reg_name p = reg_name p' \<Longrightarrow> reg_id p = reg_id p'"
  shows "registry_ok q (restatus which st ps)"
proof -
  let ?f = "restat which st"
  have rows: "pack_row_ok q (?f p)" if "p \<in> set ps" for p
  proof -
    have "pack_row_ok q p" using ok that by (simp add: registry_ok_def)
    with st identity [OF that] show ?thesis by (simp add: pack_row_ok_restat pack_row_ok_status)
  qed
  have unique: "reg_id p = reg_id p'"
    if "p \<in> set ps" "p' \<in> set ps" "is_active (?f p)" "is_active (?f p')" "reg_name p = reg_name p'" for p p'
  proof -
    have "is_active p \<and> is_active p' \<longrightarrow> reg_id p = reg_id p'"
      using ok that(1,2,5) unfolding registry_ok_def by blast
    moreover have active: "which p \<and> st = ''active'' \<or> \<not> which p \<and> is_active p" "which p' \<and> st = ''active'' \<or> \<not> which p' \<and> is_active p'"
      using that(3,4) by (simp_all split: if_splits)
    moreover have "which p \<Longrightarrow> reg_id p = reg_id p'" using single [OF that(1,2)] active that(5) by blast
    moreover have "which p' \<Longrightarrow> reg_id p = reg_id p'" using single [OF that(2,1)] active that(5) [symmetric] by metis
    ultimately show ?thesis by blast
  qed
  show ?thesis
    using ok rows unique unfolding registry_ok_def restatus_keys set_restatus ball_simps(9) restat_fields(1,2) by blast
qed

lemma set_status_restatus: "set_status which st = statement (\<lambda>s. \<forall>p \<in> set (packs s). which p \<longrightarrow> st = ''active'' \<longrightarrow> identified p)
    ''content_packs'' (\<lambda>s. s\<lparr>packs := restatus which st (packs s)\<rparr>)"
  by (simp add: set_status_def restatus_def restat_def [abs_def])

lemma db_ok_restatus:
  "db_ok q s \<Longrightarrow> registry_ok q (restatus which st (packs s)) \<Longrightarrow> db_ok q (s\<lparr>packs := restatus which st (packs s)\<rparr>)"
  by (simp add: db_ok_def links_ok_def)

text \<open>Withdrawing keeps the invariant; putting one version in service keeps it when none of that name is.\<close>

lemma withdraw_ok:
  assumes "st = ''superseded'' \<or> st = ''quarantined''"
  shows "valid (db_ok q) (set_status which st) (\<lambda>_. db_ok q)"
  unfolding set_status_restatus
proof (rule valid_statement)
  fix s assume "db_ok q s"
  moreover from this assms have "registry_ok q (restatus which st (packs s))"
    by (intro registry_ok_restatus) (auto simp: db_ok_def)
  ultimately show "db_ok q (s\<lparr>packs := restatus which st (packs s)\<rparr>)" by (rule db_ok_restatus)
qed

lemma named_restatus [simp]: "named i n (s\<lparr>packs := restatus which st (packs s)\<rparr>) = named i n s"
  by (simp add: named_def set_restatus)

lemma supersede_ok:
  "valid (\<lambda>s. db_ok q s \<and> named i n s) (supersede n) (\<lambda>_ s. (db_ok q s \<and> no_active n s) \<and> named i n s)"
proof (intro valid_conj)
  show "valid (\<lambda>s. db_ok q s \<and> named i n s) (supersede n) (\<lambda>_. db_ok q)"
    unfolding supersede_def by (rule valid_weaken [OF withdraw_ok]) auto
  show "valid (\<lambda>s. db_ok q s \<and> named i n s) (supersede n) (\<lambda>_. no_active n)"
    unfolding supersede_def set_status_restatus
    by (rule valid_statement) (simp add: no_active_def set_restatus is_active_def)
  show "valid (\<lambda>s. db_ok q s \<and> named i n s) (supersede n) (\<lambda>_. named i n)"
    unfolding supersede_def set_status_restatus by (rule valid_statement) simp
qed

lemma serve_ok:
  "valid (\<lambda>s. (db_ok q s \<and> no_active n s) \<and> named i n s) (set_status (\<lambda>p. reg_id p = i) ''active'') (\<lambda>_. db_ok q)"
  unfolding set_status_restatus
proof (rule valid_statement)
  fix s
  assume pre: "(db_ok q s \<and> no_active n s) \<and> named i n s"
    and allowed: "\<forall>p \<in> set (packs s). reg_id p = i \<longrightarrow> ''active'' = ''active'' \<longrightarrow> identified p"
  have "registry_ok q (restatus (\<lambda>p. reg_id p = i) ''active'' (packs s))"
  proof (rule registry_ok_restatus)
    show "registry_ok q (packs s)" using pre by (simp add: db_ok_def)
    show "reg_id p = reg_id p'" if "p \<in> set (packs s)" "p' \<in> set (packs s)" "reg_id p = i"
      "reg_id p' = i \<or> is_active p'" "reg_name p = reg_name p'" for p p'
      using pre that unfolding no_active_def named_def by metis
  qed (use allowed in auto)
  with pre show "db_ok q (s\<lparr>packs := restatus (\<lambda>p. reg_id p = i) ''active'' (packs s)\<rparr>)" by (simp add: db_ok_restatus)
qed

subsection \<open>Statements on items\<close>

definition state_is :: "string \<Rightarrow> string \<Rightarrow> 'f store \<Rightarrow> bool" where
  "state_is i st s \<longleftrightarrow> (\<forall>r \<in> set (item_rows s). row_id r = i \<longrightarrow> row_state r = st)"

lemma links_ok_frame:
  assumes "links_ok s" "packs t = packs s" "members t = members s" "item_ids s \<subseteq> item_ids t"
    "row_pack ` set (item_rows t) \<subseteq> row_pack ` set (item_rows s)"
  shows "links_ok t"
  using assms unfolding links_ok_def by (metis subset_trans)

lemma db_ok_frame:
  assumes "db_ok q s" "store_ok q t" "packs t = packs s" "members t = members s" "item_ids s \<subseteq> item_ids t"
    "row_pack ` set (item_rows t) \<subseteq> row_pack ` set (item_rows s)"
  shows "db_ok q t"
  using assms links_ok_frame [of s t] by (simp add: db_ok_def)

lemma row_pack_change: "(\<And>r. row_pack (f r) = row_pack r) \<Longrightarrow> row_pack ` set (item_rows (change_row i f s)) = row_pack ` set (item_rows s)"
  using map_change_row [of row_pack f i s] by (metis list.set_map)

lemma valid_of_preserves:
  "preserves (store_ok q) m \<Longrightarrow> (\<And>s v t. db_ok q s \<Longrightarrow> P s \<Longrightarrow> m s = (Ok v, t) \<Longrightarrow> store_ok q t \<Longrightarrow> db_ok q t \<and> P' t) \<Longrightarrow>
    valid (\<lambda>s. db_ok q s \<and> P s) m (\<lambda>_ s. db_ok q s \<and> P' s)"
  unfolding valid_def preserves_def db_ok_def by blast

lemma db_insert_item:
  "valid (db_ok q) (insert_item q r) (\<lambda>_ s. db_ok q s \<and> state_is (row_id r) ''draft'' s)"
proof -
  have "valid (\<lambda>s. db_ok q s \<and> True) (insert_item q r) (\<lambda>_ s. db_ok q s \<and> state_is (row_id r) ''draft'' s)"
  proof (rule valid_of_preserves [OF preserves_insert_item])
    fix s v t
    assume ok: "db_ok q s" and run: "insert_item q r s = (Ok v, t)" and store: "store_ok q t"
    from run have t: "t = s\<lparr>item_rows := item_rows s @ [r]\<rparr>" and st: "row_state r = ''draft''" and new: "row_id r \<notin> item_ids s"
      and pack: "case row_pack r of None \<Rightarrow> True | Some p \<Rightarrow> p \<in> reg_id ` set (packs s)"
      by (simp_all add: insert_item_def statement_Ok)
    have "links_ok t" using ok pack unfolding t db_ok_def links_ok_def item_ids_def by (auto split: option.splits)
    moreover have "state_is (row_id r) ''draft'' t" using new st unfolding t state_is_def item_ids_def by (auto simp: image_iff)
    ultimately show "db_ok q t \<and> state_is (row_id r) ''draft'' t" using ok store by (simp add: db_ok_def t)
  qed
  then show ?thesis by simp
qed

lemma db_update_row:
  assumes f: "\<And>r. row_id (f r) = row_id r \<and> row_hash (f r) = row_hash r \<and> row_state (f r) = row_state r \<and> row_pack (f r) = row_pack r"
    and P: "\<And>s. P s \<Longrightarrow> P (change_row i f s)"
  shows "valid (\<lambda>s. db_ok q s \<and> P s) (update_row q i f) (\<lambda>_ s. db_ok q s \<and> P s)"
proof (rule valid_of_preserves)
  show "preserves (store_ok q) (update_row q i f)" using f by (intro preserves_update_row) simp
  fix s v t
  assume ok: "db_ok q s" and "P s" and run: "update_row q i f s = (Ok v, t)" and store: "store_ok q t"
  moreover from run have t: "t = change_row i f s" by (simp add: update_row_def statement_Ok)
  moreover have "db_ok q t" using f by (intro db_ok_frame [OF ok store]) (simp_all add: t item_ids_change row_pack_change)
  ultimately show "db_ok q t \<and> P t" using P by blast
qed

lemma state_is_change: "(\<And>r. row_id (f r) = row_id r \<and> row_state (f r) = row_state r) \<Longrightarrow> state_is j st s \<Longrightarrow> state_is j st (change_row i f s)"
  unfolding state_is_def ball_change_row by simp

lemma db_insert_citation:
  "(\<And>s c. P s \<Longrightarrow> P (s\<lparr>citations := c\<rparr>)) \<Longrightarrow> valid (\<lambda>s. db_ok q s \<and> P s) (insert_citation i src) (\<lambda>_ s. db_ok q s \<and> P s)"
  by (rule valid_of_preserves [OF preserves_insert_citation])
    (auto simp: insert_citation_def statement_Ok item_ids_def intro: db_ok_frame)

lemma state_is_citations: "state_is j st s \<Longrightarrow> state_is j st (s\<lparr>citations := c\<rparr>)"
  by (simp add: state_is_def)

lemma db_insert_evidence: "valid (db_ok q) (insert_evidence q e) (\<lambda>_. db_ok q)"
proof -
  have "valid (\<lambda>s. db_ok q s \<and> True) (insert_evidence q e) (\<lambda>_ s. db_ok q s \<and> True)"
    by (rule valid_of_preserves [OF preserves_insert_evidence])
      (auto simp: insert_evidence_def statement_Ok item_ids_def intro: db_ok_frame)
  then show ?thesis by simp
qed

lemma db_draw: "valid (db_ok q) (draw_id q p) (\<lambda>_. db_ok q)"
  by (auto simp: valid_def draw_id_def)

lemma move_item_Ok:
  assumes "move_item q now i from to actor why s = (Ok v, t)"
  obtains w where "t = (change_row i (\<lambda>r. r\<lparr>row_state := to, row_updated := now\<rparr>) s)\<lparr>drawn := drawn s + 1, reviews := reviews s @ [w]\<rparr>"
  using assms by (simp add: move_item_def seq_Ok set_state_def statement_Ok draw_id_def insert_review_def)

lemma db_move_item:
  "valid (\<lambda>s. db_ok q s \<and> state_is i from s) (move_item q now i from to actor why) (\<lambda>_ s. db_ok q s \<and> state_is i to s)"
  unfolding valid_def
proof (intro allI impI)
  fix s v t
  assume pre: "db_ok q s \<and> state_is i from s" and run: "move_item q now i from to actor why s = (Ok v, t)"
  obtain w where t: "t = (change_row i (\<lambda>r. r\<lparr>row_state := to, row_updated := now\<rparr>) s)\<lparr>drawn := drawn s + 1, reviews := reviews s @ [w]\<rparr>"
    using move_item_Ok [OF run] .
  let ?f = "\<lambda>r. r\<lparr>row_state := to, row_updated := now\<rparr>"
  have "store_ok q t" using move_item_ok [OF _ run] pre by (simp add: db_ok_def state_is_def)
  moreover have "item_ids t = item_ids s" using item_ids_change [of ?f i s] by (simp add: t item_ids_def)
  moreover have "row_pack ` set (item_rows t) = row_pack ` set (item_rows s)" by (simp add: t row_pack_change)
  ultimately have "db_ok q t" using pre by (intro db_ok_frame [of q s t]) (simp_all add: t)
  moreover have "state_is i to t" unfolding state_is_def t by (simp add: ball_change_row)
  ultimately show "db_ok q t \<and> state_is i to t" ..
qed

lemma db_delete_draft: "db_ok q s \<Longrightarrow> db_ok q (snd (delete_draft i s))"
proof -
  assume ok: "db_ok q s"
  have "fst (delete_draft i s) = Ok ()" by (simp add: delete_draft_def)
  then have "store_ok q (snd (delete_draft i s))"
    using preservesD [OF preserves_delete_draft] ok by (metis db_ok_def prod.collapse)
  moreover have "links_ok (snd (delete_draft i s))"
    using ok unfolding db_ok_def links_ok_def delete_draft_def item_ids_def by auto
  moreover have "packs (snd (delete_draft i s)) = packs s" by (simp add: delete_draft_def)
  ultimately show ?thesis using ok by (simp add: db_ok_def)
qed

section \<open>Every operation keeps the invariant\<close>

lemma valid_pre: "valid P' m Q \<Longrightarrow> (\<And>s. P s \<Longrightarrow> P' s) \<Longrightarrow> valid P m Q"
  by (rule valid_weaken)

lemma db_insert_pack: "valid (\<lambda>s. db_ok q s \<and> no_active (reg_name p) s) (insert_pack q p) (\<lambda>_. db_ok q)"
  unfolding insert_pack_def
proof (rule valid_statement)
  fix s
  assume pre: "db_ok q s \<and> no_active (reg_name p) s"
    and new: "pack_row_ok q p \<and> reg_id p \<notin> reg_id ` set (packs s) \<and>
      (reg_name p, reg_version p) \<notin> (\<lambda>k. (reg_name k, reg_version k)) ` set (packs s)"
  have "reg_id a = reg_id b"
    if "a \<in> set (packs s @ [p])" "b \<in> set (packs s @ [p])" "is_active a \<and> is_active b \<and> reg_name a = reg_name b" for a b
  proof -
    have "a = p \<or> a \<in> set (packs s)" "b = p \<or> b \<in> set (packs s)" using that(1,2) by auto
    with that(3) pre show ?thesis unfolding db_ok_def registry_ok_def no_active_def by metis
  qed
  moreover have "distinct (map reg_id (packs s @ [p]))" "distinct (map (\<lambda>p. (reg_name p, reg_version p)) (packs s @ [p]))"
    "\<forall>a \<in> set (packs s @ [p]). pack_row_ok q a"
    using pre new by (auto simp: db_ok_def registry_ok_def)
  ultimately have "registry_ok q (packs s @ [p])" unfolding registry_ok_def by blast
  moreover have "links_ok (s\<lparr>packs := packs s @ [p]\<rparr>)" using pre by (auto simp: db_ok_def links_ok_def)
  ultimately show "db_ok q (s\<lparr>packs := packs s @ [p]\<rparr>)" using pre by (simp add: db_ok_def)
qed

lemma db_insert_member: "valid (db_ok q) (insert_member p i) (\<lambda>_. db_ok q)"
  unfolding insert_member_def
  by (rule valid_statement) (auto simp: db_ok_def links_ok_def)

lemma db_register: "valid (db_ok q) (register q now p) (\<lambda>_. db_ok q)"
proof -
  let ?n = "reg_name p"
  have fresh: "valid (\<lambda>s. db_ok q s \<and> no_active ?n s) (draw_id q x) (\<lambda>_ s. db_ok q s \<and> no_active ?n s)" for x
    by (auto simp: valid_def draw_id_def no_active_def)
  have keep: "valid (db_ok q) (supersede ?n) (\<lambda>_ s. db_ok q s \<and> no_active ?n s)"
    using withdraw_ok [of "''superseded''" q] unfolding supersede_def
    by (intro valid_conj) (simp, auto simp: set_status_restatus valid_def statement_def no_active_def set_restatus is_active_def split: if_splits)
  show ?thesis
    unfolding register_def
    by (rule valid_seq [OF keep], rule valid_seq [OF fresh], rule valid_seq [OF valid_pre [OF db_insert_pack]])
      (auto intro: valid_return)
qed

lemma db_move_path:
  "valid (\<lambda>s. db_ok q s \<and> state_is i ''draft'' s)
     (each_do (\<lambda>st. move_item q now i (previous_state st) st actor why)
       [''machine_validated'', ''independent_verified'', ''content_reviewed'', ''active'']) (\<lambda>_. db_ok q)"
proof -
  have step: "valid (\<lambda>s. db_ok q s \<and> state_is i (previous_state st) s) (move_item q now i (previous_state st) st actor why)
      (\<lambda>_ s. db_ok q s \<and> state_is i st s)" for st by (rule db_move_item)
  have path: "previous_state ''machine_validated'' = ''draft''" "previous_state ''independent_verified'' = ''machine_validated''"
    "previous_state ''content_reviewed'' = ''independent_verified''" "previous_state ''active'' = ''content_reviewed''"
    by (simp_all add: previous_state_def)
  show ?thesis
    unfolding each_do.simps path
    by (rule valid_seq [OF step [of "''machine_validated''", unfolded path]], rule valid_seq [OF step [of "''independent_verified''", unfolded path]],
        rule valid_seq [OF step [of "''content_reviewed''", unfolded path]], rule valid_seq [OF step [of "''active''", unfolded path]])
      (rule valid_return, simp)
qed

lemma valid_query_inv: "(\<And>t. P t \<Longrightarrow> valid P (f t) Q) \<Longrightarrow> valid P (query f) Q"
  unfolding valid_def query_def by blast

lemma db_record_sources: "valid (db_ok q) (record_sources q now es known added reused) (\<lambda>_. db_ok q)"
proof (induction es arbitrary: known added reused)
  case Nil
  show ?case by (simp add: valid_return)
next
  case (Cons e es)
  have "valid (db_ok q) (seq (draw_id q ''ev'') (\<lambda>i. seq (insert_evidence q (e\<lparr>ev_id := i, ev_created := now\<rparr>)) (\<lambda>_.
      record_sources q now es (known(ev_id e \<mapsto> i)) (added + 1) reused))) (\<lambda>_. db_ok q)"
    by (rule valid_seq [OF db_draw], rule valid_seq [OF db_insert_evidence], rule Cons.IH)
  then show ?case
    unfolding record_sources.simps by (intro valid_query_inv) (simp add: Cons.IH split: option.split)
qed

lemma db_cite_known:
  "valid (\<lambda>s. db_ok q s \<and> state_is j st s) (cite_known known i src) (\<lambda>_ s. db_ok q s \<and> state_is j st s)"
  by (cases "known src") (simp_all add: cite_known_def db_insert_citation state_is_citations)

lemma db_install_one: "valid (db_ok q) (install_one q now pid known d) (\<lambda>_. db_ok q)"
proof -
  obtain r srcs where d: "d = (r, srcs)" by (cases d)
  let ?new = "r\<lparr>row_pack := Some pid, row_state := ''draft'', row_reviewer := [], row_created := now, row_updated := now\<rparr>"
  have start: "valid (db_ok q) (insert_item q ?new) (\<lambda>_ s. db_ok q s \<and> state_is (row_id r) ''draft'' s)"
    using db_insert_item [of q ?new] by simp
  show ?thesis
    unfolding install_one_def d prod.case
    by (rule valid_seq [OF start], rule valid_seq [OF valid_each], rule db_cite_known,
        rule valid_seq [OF db_update_row], simp, simp add: state_is_change, rule db_move_path)
qed

lemma db_join_members: "valid (db_ok q) (join_members pid local d) (\<lambda>_. db_ok q)"
  by (cases "local (row_id (fst d))") (simp_all add: join_members_def db_insert_member)

lemma db_pack_identity: "valid (db_ok q) (pack_identity q now p) (\<lambda>_. db_ok q)"
  unfolding pack_identity_def
  by (rule valid_query_inv) (simp add: db_register valid_return split: option.split)

lemma db_install_body: "valid (db_ok q) (install_body q now p es ds) (\<lambda>_. db_ok q)"
proof -
  have rest: "valid (db_ok q) (seq (record_sources q now es Map.empty 0 0) (\<lambda>(known, added, reused).
      seq (each_do (install_one q now pid known) todo) (\<lambda>_. seq (each_do (join_members pid local) ds) (\<lambda>_.
      return \<lparr>out_pack = pid, installed = length todo, already_present = present, reused_sources = reused, added_sources = added\<rparr>))))
      (\<lambda>_. db_ok q)" for pid todo local present
  proof (rule valid_seq [OF db_record_sources])
    fix v :: "(string \<rightharpoonup> string) \<times> nat \<times> nat"
    obtain known added reused where v: "v = (known, added, reused)" by (cases v)
    show "valid (db_ok q) (case v of (known, added, reused) \<Rightarrow>
        seq (each_do (install_one q now pid known) todo) (\<lambda>_. seq (each_do (join_members pid local) ds) (\<lambda>_.
        return \<lparr>out_pack = pid, installed = length todo, already_present = present, reused_sources = reused, added_sources = added\<rparr>)))
        (\<lambda>_. db_ok q)"
      unfolding v prod.case
      by (rule valid_seq [OF valid_each], rule db_install_one, rule valid_seq [OF valid_each], rule db_join_members, rule valid_return)
  qed
  show ?thesis
    unfolding install_body_def
    by (rule valid_seq [OF db_pack_identity], rule valid_query_inv)
      (use rest in \<open>simp split: result.split prod.split\<close>)
qed

text \<open>What a caller read before the transaction, as the guard of its body.\<close>

definition rollback_guard :: "'f sql \<Rightarrow> string \<Rightarrow> string \<Rightarrow> string \<Rightarrow> 'f store \<Rightarrow> bool" where
  "rollback_guard q n old new s \<longleftrightarrow>
     db_ok q s \<and> named new n s \<and> (\<exists>p \<in> set (packs s). reg_id p = old \<and> reg_name p = n \<and> is_active p)"

lemma rollback_body_ok: "valid (rollback_guard q n old new) (rollback_body old new) (\<lambda>_. db_ok q)"
  unfolding rollback_body_def
proof (rule valid_seq [OF _ serve_ok [of q n new]])
  let ?w = "\<lambda>p. reg_id p = old"
  show "valid (rollback_guard q n old new) (set_status ?w ''quarantined'') (\<lambda>_ s. (db_ok q s \<and> no_active n s) \<and> named new n s)"
  proof (intro valid_conj)
    show "valid (rollback_guard q n old new) (set_status ?w ''quarantined'') (\<lambda>_. db_ok q)"
      by (rule valid_pre [OF withdraw_ok]) (simp_all add: rollback_guard_def)
    show "valid (rollback_guard q n old new) (set_status ?w ''quarantined'') (\<lambda>_. named new n)"
      unfolding set_status_restatus by (rule valid_statement) (simp add: rollback_guard_def)
    show "valid (rollback_guard q n old new) (set_status ?w ''quarantined'') (\<lambda>_. no_active n)"
      unfolding set_status_restatus
    proof (rule valid_statement)
      fix s assume "rollback_guard q n old new s"
      then have "reg_id p = old" if "p \<in> set (packs s)" "reg_name p = n" "is_active p" for p
        using that unfolding rollback_guard_def db_ok_def registry_ok_def by metis
      then show "no_active n (s\<lparr>packs := restatus ?w ''quarantined'' (packs s)\<rparr>)"
        by (auto simp: no_active_def set_restatus)
    qed
  qed
qed

definition activate_guard :: "'f sql \<Rightarrow> string \<Rightarrow> string \<Rightarrow> 'f store \<Rightarrow> bool" where
  "activate_guard q n i s \<longleftrightarrow> db_ok q s \<and> named i n s"

lemma activate_body_ok: "valid (activate_guard q n i) (activate_body n i) (\<lambda>_. db_ok q)"
  unfolding activate_body_def activate_guard_def by (rule valid_seq [OF supersede_ok serve_ok])

interpretation pub: transactional "db_ok q" "register q now p" for q now p
  by unfold_locales (simp_all add: db_register)

interpretation ins: transactional "db_ok q" "install_body q now p es ds" for q now p es ds
  by unfold_locales (simp_all add: db_install_body)

interpretation rb: guarded_transaction "rollback_guard q n old new" "db_ok q" "rollback_body old new" for q n old new
  by unfold_locales (simp_all add: rollback_body_ok, simp add: rollback_guard_def)

interpretation act: guarded_transaction "activate_guard q n i" "db_ok q" "activate_body n i" for q n i
  by unfold_locales (simp_all add: activate_body_ok, simp add: activate_guard_def)

lemma db_advance_body: "valid (db_ok q) (advance_body q now i to actor why) (\<lambda>_. db_ok q)"
  unfolding advance_body_def
proof (rule valid_query)
  fix t assume ok: "db_ok q t"
  show "valid (\<lambda>s. s = t) (case find_row t i of None \<Rightarrow> fail (Refused (''no such content item: '' @ i))
      | Some r \<Rightarrow> move_item q now i (row_state r) to actor why) (\<lambda>_. db_ok q)"
  proof (cases "find_row t i")
    case (Some r)
    then have "state_is i (row_state r) t"
      using find_row_Some [OF Some] store_ok_unique [of q t] ok unfolding db_ok_def state_is_def by metis
    then show ?thesis using ok Some by (auto intro!: valid_weaken [OF db_move_item])
  qed simp
qed

interpretation adb: transactional "db_ok q" "advance_body q now i to actor why" for q now i to actor why
  by unfold_locales (simp_all add: db_advance_body)

lemma keeps_of_valid: "valid I (statement a w c) (\<lambda>_. I) \<Longrightarrow> keeps I (statement a w c)"
  by (simp add: keeps_statement preserves_valid)

lemma db_keeps_item: "keeps (db_ok q) (insert_item q r)"
  using valid_weaken [OF db_insert_item [of q r], where P = "db_ok q" and Q = "\<lambda>_. db_ok q"]
  by (simp add: insert_item_def keeps_of_valid)

lemma db_keeps_citation: "keeps (db_ok q) (insert_citation i src)"
  using db_insert_citation [of "\<lambda>_. True" q i src] by (simp add: insert_citation_def keeps_of_valid)

lemma db_keeps_evidence: "keeps (db_ok q) (insert_evidence q e)"
  using db_insert_evidence [of q e] by (simp add: insert_evidence_def keeps_of_valid)

lemma db_keeps_draw: "keeps (db_ok q) (draw_id q p)"
  by (auto simp: keeps_def draw_id_def)

lemma db_keeps_advance: "keeps (db_ok q) (advance q dbg now i to actor why)"
  by (simp add: advance_def) (auto simp: keeps_def adb.keeps)

lemma db_keeps_activate: "keeps (db_ok q) (activate q dbg now i actor why)"
proof -
  have "keeps (db_ok q) (update_row q i (\<lambda>r. r\<lparr>row_reviewer := actor, row_updated := now\<rparr>))"
    using db_update_row [of "\<lambda>r. r\<lparr>row_reviewer := actor, row_updated := now\<rparr>" "\<lambda>_. True" i q]
    by (simp add: update_row_def keeps_of_valid)
  then show ?thesis by (simp add: activate_def keeps_seq db_keeps_advance)
qed

lemma db_keeps_put_evidence: "keeps (db_ok q) (put_evidence q now e)"
  unfolding put_evidence_def
  by (auto intro!: keeps_query keeps_seq db_keeps_draw db_keeps_evidence split: option.splits)

lemma db_keeps_rest:
  "keeps (db_ok q) (insert_draft q now r)" "keeps (db_ok q) (cite i src)" "keeps (db_ok q) (discard_draft i)"
  "keeps (db_ok q) (walk_to_content_reviewed q dbg now i actor)" "keeps (db_ok q) (set_trust i)"
  unfolding insert_draft_def cite_def discard_draft_def walk_to_content_reviewed_def
  by (simp_all add: db_keeps_item db_keeps_citation db_keeps_advance keeps_each)
    (simp_all add: keeps_def set_trust_def db_delete_draft)

lemmas db_repo_keeps = db_keeps_rest db_keeps_advance db_keeps_activate db_keeps_put_evidence

lemma repo_step_db_ok: "repo_step q dbg s t \<Longrightarrow> db_ok q s \<Longrightarrow> db_ok q t"
  by (induction rule: repo_step.induct) (simp_all add: db_repo_keeps [unfolded keeps_def, rule_format])

lemma db_ok_pack_unique: "db_ok q s \<Longrightarrow> p \<in> set (packs s) \<Longrightarrow> p' \<in> set (packs s) \<Longrightarrow> reg_id p = reg_id p' \<Longrightarrow> p = p'"
  unfolding db_ok_def registry_ok_def distinct_map inj_on_def by blast

lemma db_ok_version_unique:
  "db_ok q s \<Longrightarrow> p \<in> set (packs s) \<Longrightarrow> p' \<in> set (packs s) \<Longrightarrow> reg_name p = reg_name p' \<Longrightarrow> reg_version p = reg_version p' \<Longrightarrow> p = p'"
  unfolding db_ok_def registry_ok_def distinct_map inj_on_def by blast

lemma db_ok_named: "db_ok q s \<Longrightarrow> p \<in> set (packs s) \<Longrightarrow> named (reg_id p) (reg_name p) s"
  unfolding named_def using db_ok_pack_unique by metis

lemma snd_seq_return: "snd (seq m (\<lambda>_. return v) s) = snd (m s)"
  by (auto simp: seq_def return_def split: prod.splits result.splits)

lemma fst_seq_return: "fst (seq m (\<lambda>_. return v) s) = Err e \<longleftrightarrow> fst (m s) = Err e"
  by (auto simp: seq_def return_def split: prod.splits result.splits)

lemma find_map_unique:
  assumes "a \<in> set xs" "P (f a)" "\<And>x. x \<in> set xs \<Longrightarrow> P (f x) \<Longrightarrow> x = a"
  shows "find P (map f xs) = Some (f a)"
  using assms
proof (induction xs)
  case (Cons x xs)
  show ?case
  proof (cases "P (f x)")
    case True
    with Cons.prems(3) [of x] have "x = a" by simp
    with True show ?thesis by simp
  next
    case False
    with Cons.prems(1,2) have mem: "a \<in> set xs" by auto
    have "find P (map f xs) = Some (f a)"
      by (rule Cons.IH [OF mem Cons.prems(2) Cons.prems(3) [OF list.set_intros(2)]])
    with False show ?thesis by simp
  qed
qed simp

lemma sort_key_head:
  assumes "sort_key f xs = p # ps"
  shows "p \<in> set xs" "x \<in> set xs \<Longrightarrow> f p \<le> f x"
proof -
  have members: "set xs = set (p # ps)" and ordered: "sorted (map f (p # ps))"
    using assms set_sort [of f xs] sorted_sort_key [of f xs] by simp_all
  show "p \<in> set xs" by (simp add: members)
  show "f p \<le> f x" if "x \<in> set xs" using that ordered unfolding members by auto
qed

lemma previous_pack_Some:
  assumes "previous_pack s n v = Some p"
  shows "p \<in> set (packs s) \<and> reg_name p = n \<and> reg_version p < v \<and> reg_status p = ''superseded'' \<and>
    (\<forall>k \<in> set (packs s). reg_name k = n \<and> reg_version k < v \<and> reg_status k = ''superseded'' \<longrightarrow> reg_version k \<le> reg_version p)"
proof -
  let ?xs = "filter (\<lambda>p. reg_name p = n \<and> reg_version p < v \<and> reg_status p = ''superseded'') (packs s)"
  obtain ps where head: "sort_key (\<lambda>p. - reg_version p) ?xs = p # ps"
    using assms unfolding previous_pack_def by (simp split: list.splits)
  have "p \<in> set ?xs" by (rule sort_key_head(1) [OF head])
  moreover have "reg_version k \<le> reg_version p" if "k \<in> set ?xs" for k using sort_key_head(2) [OF head that] by simp
  ultimately show ?thesis by simp
qed

lemma previous_pack_None:
  "previous_pack s n v = None \<longleftrightarrow> \<not> (\<exists>p \<in> set (packs s). reg_name p = n \<and> reg_version p < v \<and> reg_status p = ''superseded'')"
proof -
  let ?xs = "filter (\<lambda>p. reg_name p = n \<and> reg_version p < v \<and> reg_status p = ''superseded'') (packs s)"
  have "previous_pack s n v = None \<longleftrightarrow> sort_key (\<lambda>p. - reg_version p) ?xs = []"
    unfolding previous_pack_def by (simp split: list.splits)
  also have "\<dots> \<longleftrightarrow> ?xs = []" by (simp only: length_0_conv [symmetric] length_sort)
  finally show ?thesis by (auto simp: filter_empty_conv)
qed

lemma db_keeps_rollback: "keeps (db_ok q) (rollback n)"
  unfolding keeps_def
proof (intro allI impI)
  fix s assume ok: "db_ok q s"
  show "db_ok q (snd (rollback n s))"
  proof (cases "active_pack s n")
    case (Some a)
    show ?thesis
    proof (cases "previous_pack s n (reg_version a)")
      case (Some p)
      have a: "a \<in> set (packs s)" "reg_name a = n" "is_active a"
        using \<open>active_pack s n = Some a\<close> by (auto simp: active_pack_def is_active_def find_Some_iff)
      have p: "p \<in> set (packs s)" "reg_name p = n" using previous_pack_Some [OF Some] by blast+
      have "named (reg_id p) n s"
        using db_ok_named [OF ok p(1)] p(2) by simp
      with a ok have "rollback_guard q n (reg_id a) (reg_id p) s" unfolding rollback_guard_def by blast
      from rb.keeps [OF this] show ?thesis
        by (simp add: rollback_def query_def \<open>active_pack s n = Some a\<close> Some snd_seq_return)
    qed (simp add: rollback_def query_def fail_def Some ok)
  qed (simp add: rollback_def query_def fail_def ok)
qed

lemma db_keeps_activate_pack: "keeps (db_ok q) (activate_pack n v)"
  unfolding keeps_def
proof (intro allI impI)
  fix s assume ok: "db_ok q s"
  show "db_ok q (snd (activate_pack n v s))"
  proof (cases "find (\<lambda>p. reg_name p = n \<and> reg_version p = v) (packs s)")
    case (Some t)
    then have t: "t \<in> set (packs s)" "reg_name t = n" by (auto simp: find_Some_iff)
    then have "named (reg_id t) n s"
      using db_ok_named [OF ok t(1)] by simp
    with ok have "activate_guard q n (reg_id t) s" by (simp add: activate_guard_def)
    from act.keeps [OF this] show ?thesis
      by (simp add: activate_pack_def query_def Some snd_seq_return ok) (simp add: return_def ok)
  qed (simp add: activate_pack_def query_def fail_def ok)
qed

inductive db_step :: "'f sql \<Rightarrow> (string \<Rightarrow> string) \<Rightarrow> 'f store \<Rightarrow> 'f store \<Rightarrow> bool" for q dbg where
  on_items: "repo_step q dbg s t \<Longrightarrow> db_step q dbg s t"
| publishing: "db_step q dbg s (snd (publish q now p s))"
| installing: "db_step q dbg s (snd (install q now p es ds s))"
| rolling_back: "db_step q dbg s (snd (rollback n s))"
| activating: "db_step q dbg s (snd (activate_pack n v s))"

lemma db_step_ok: "db_step q dbg s t \<Longrightarrow> db_ok q s \<Longrightarrow> db_ok q t"
proof (induction rule: db_step.induct)
  case (publishing s now p)
  then show ?case by (simp add: publish_def pub.keeps)
next
  case (installing s now p es ds)
  then show ?case by (simp add: install_def ins.keeps)
qed (simp_all add: repo_step_db_ok db_keeps_rollback [unfolded keeps_def, rule_format] db_keeps_activate_pack [unfolded keeps_def, rule_format])

lemma reachable_db_ok: "(db_step q dbg)\<^sup>*\<^sup>* empty_store s \<Longrightarrow> db_ok q s"
  by (induction rule: rtranclp_induct) (simp_all add: db_ok_empty db_step_ok)

section \<open>What a reachable database guarantees\<close>

text \<open>Which moves the trail of an item in a given state must contain.\<close>

definition required_moves :: "string \<Rightarrow> (string \<times> string) set" where
  "required_moves st =
     (let path = [(''draft'', ''machine_validated''), (''machine_validated'', ''independent_verified''),
        (''independent_verified'', ''content_reviewed''), (''content_reviewed'', ''active'')] in
      if st = ''machine_validated'' then set (take 1 path)
      else if st = ''independent_verified'' then set (take 2 path)
      else if st = ''content_reviewed'' then set (take 3 path)
      else if st = ''active'' then set path else {})"

lemma required_moves_step: "may_move x y \<Longrightarrow> required_moves y \<subseteq> insert (x, y) (required_moves x)"
  unfolding may_move_def by (elim disjE) (auto simp: required_moves_def Let_def)

lemma chain_required: "chain ''draft'' t b \<Longrightarrow> required_moves b \<subseteq> set t"
proof (induction t arbitrary: b rule: rev_induct)
  case Nil
  then show ?case by (auto simp: required_moves_def)
next
  case (snoc m t)
  obtain x y where m: "m = (x, y)" by (cases m)
  with snoc.prems have "chain ''draft'' t x" "may_move x b" "y = b" by (auto simp: chain_snoc)
  with snoc.IH [of x] required_moves_step [of x b] show ?case by (auto simp: m)
qed

lemma db_ok_row: "db_ok q s \<Longrightarrow> r \<in> set (item_rows s) \<Longrightarrow> row_sound q s r"
  by (simp add: db_ok_def store_ok_def)


text \<open>What the state of an active row says of the tables.\<close>

definition reviewed :: "'f store \<Rightarrow> string \<Rightarrow> 'f item_row \<Rightarrow> bool" where
  "reviewed s sub r \<longleftrightarrow> row_subtest r = sub \<and> \<not> blank (row_reviewer r) \<and> \<not> blank (row_objective r) \<and>
    (\<exists>src \<in> ev_id ` set (evidence s). (row_id r, src) \<in> set (citations s)) \<and>
    {(''draft'', ''machine_validated''), (''machine_validated'', ''independent_verified''),
      (''independent_verified'', ''content_reviewed''), (''content_reviewed'', ''active'')} \<subseteq> set (trail (reviews s) (row_id r)) \<and>
    (sub \<in> {''AR'', ''MK''} \<longrightarrow> row_proof_kind r = ''executable'') \<and>
    (row_id r \<in> snd ` set (members s) \<longrightarrow>
       (\<exists>p \<in> set (packs s). is_active p \<and> (reg_id p, row_id r) \<in> set (members s)))"

lemma served_reviewed:
  assumes ok: "db_ok q s" and served: "r \<in> set (servable_in sub obj s)"
  shows "reviewed s sub r"
proof -
  have r: "r \<in> set (item_rows s)" "row_state r = ''active''" "row_subtest r = sub" "delivered s (row_id r)"
    using served by (auto simp: servable_in_def)
  have sound: "row_sound q s r" by (rule db_ok_row [OF ok r(1)])
  then have "active_ok r" and cited: "row_id r \<in> fst ` set (citations s)" and chain: "chain ''draft'' (trail (reviews s) (row_id r)) ''active''"
    using r(2) by (auto simp: row_sound_def row_ok_def)
  have reviewed: "\<not> blank (row_reviewer r)" "\<not> blank (row_objective r)" "sub \<in> {''AR'', ''MK''} \<longrightarrow> row_proof_kind r = ''executable''"
    using \<open>active_ok r\<close> r(3) by (auto simp: active_ok_def)
  have source: "\<exists>src \<in> ev_id ` set (evidence s). (row_id r, src) \<in> set (citations s)"
    using cited ok unfolding db_ok_def store_ok_def keys_ok_def by force
  have moves: "{(''draft'', ''machine_validated''), (''machine_validated'', ''independent_verified''),
      (''independent_verified'', ''content_reviewed''), (''content_reviewed'', ''active'')} \<subseteq> set (trail (reviews s) (row_id r))"
    using chain_required [OF chain] by (simp add: required_moves_def Let_def)
  have member: "row_id r \<in> snd ` set (members s) \<longrightarrow>
      (\<exists>p \<in> set (packs s). is_active p \<and> (reg_id p, row_id r) \<in> set (members s))"
    using r(4) unfolding delivered_def is_active_def by auto
  show ?thesis
    unfolding reviewed_def using r(3) reviewed source moves member by (intro conjI)
qed

text \<open>
  What a learner may be served: an item with a reviewer and an objective, citing a source of the vault,
  whose audit trail contains every move of the pipeline, and, for the two computed sections, with an
  executable proof.
\<close>

theorem served_items_were_reviewed:
  assumes reach: "(db_step q dbg)\<^sup>*\<^sup>* empty_store s" and served: "r \<in> set (servable_in sub obj s)"
  shows "row_subtest r = sub \<and> \<not> blank (row_reviewer r) \<and> \<not> blank (row_objective r) \<and>
    (\<exists>src \<in> ev_id ` set (evidence s). (row_id r, src) \<in> set (citations s)) \<and>
    {(''draft'', ''machine_validated''), (''machine_validated'', ''independent_verified''),
      (''independent_verified'', ''content_reviewed''), (''content_reviewed'', ''active'')} \<subseteq> set (trail (reviews s) (row_id r)) \<and>
    (sub \<in> {''AR'', ''MK''} \<longrightarrow> row_proof_kind r = ''executable'') \<and>
    (row_id r \<in> snd ` set (members s) \<longrightarrow>
       (\<exists>p \<in> set (packs s). is_active p \<and> (reg_id p, row_id r) \<in> set (members s)))"
  by (rule served_reviewed [OF reachable_db_ok [OF reach] served, unfolded reviewed_def])

text \<open>C11. At most one version of a pack is in service, and it is the one \<open>active\<close> answers.\<close>

theorem one_version_in_service:
  assumes reach: "(db_step q dbg)\<^sup>*\<^sup>* empty_store s"
  shows "active_pack s n = Some p \<longleftrightarrow> p \<in> set (packs s) \<and> reg_name p = n \<and> is_active p"
proof
  show "p \<in> set (packs s) \<and> reg_name p = n \<and> is_active p" if "active_pack s n = Some p"
    using that by (auto simp: active_pack_def is_active_def find_Some_iff)
  assume p: "p \<in> set (packs s) \<and> reg_name p = n \<and> is_active p"
  then have "active_pack s n \<noteq> None" by (auto simp: active_pack_def is_active_def find_None_iff)
  then obtain k where k: "active_pack s n = Some k" by auto
  then have "k \<in> set (packs s)" "reg_name k = n" "is_active k" by (auto simp: active_pack_def is_active_def find_Some_iff)
  with p reachable_db_ok [OF reach] have "k = p"
    using db_ok_pack_unique [of q s k p] unfolding db_ok_def registry_ok_def by blast
  with k show "active_pack s n = Some p" by simp
qed

text \<open>An operation on the registry that fails leaves every table as it was.\<close>

theorem failed_operation_changes_no_table:
  "(fst (publish q now p s) = Err e \<longrightarrow> same_tables s (snd (publish q now p s))) \<and>
   (fst (install q now p es ds s) = Err e \<longrightarrow> same_tables s (snd (install q now p es ds s))) \<and>
   (fst (rollback n s) = Err e \<longrightarrow> same_tables s (snd (rollback n s))) \<and>
   (fst (activate_pack n v s) = Err e \<longrightarrow> same_tables s (snd (activate_pack n v s)))"
proof (intro conjI impI)
  show "same_tables s (snd (publish q now p s))" if "fst (publish q now p s) = Err e"
    using that unfolding publish_def by (rule pub.atomic)
  show "same_tables s (snd (install q now p es ds s))" if "fst (install q now p es ds s) = Err e"
    using that unfolding install_def by (rule ins.atomic)
  have self: "same_tables s s" by (simp add: same_tables_def)
  show "same_tables s (snd (rollback n s))" if "fst (rollback n s) = Err e"
    using that self rb.atomic unfolding rollback_def query_def
    by (auto simp: snd_seq_return fst_seq_return fail_def split: option.splits)
  show "same_tables s (snd (activate_pack n v s))" if "fst (activate_pack n v s) = Err e"
    using that self act.atomic unfolding activate_pack_def query_def
    by (auto simp: snd_seq_return fst_seq_return fail_def return_def split: option.splits if_splits)
qed

section \<open>Rolling back and forward\<close>

lemma set_status_Ok:
  "set_status which st s = (Ok v, t) \<longleftrightarrow>
     (\<forall>p \<in> set (packs s). which p \<longrightarrow> st = ''active'' \<longrightarrow> identified p) \<and> t = s\<lparr>packs := restatus which st (packs s)\<rparr>"
  by (simp add: set_status_restatus statement_Ok)

lemma transaction_Ok: "transaction body s = (Ok v, t) \<longleftrightarrow> body s = (Ok v, t)"
  by (auto simp: transaction_def split: prod.splits result.splits)

lemma rollback_Ok:
  assumes "rollback n s = (Ok p, t)"
  obtains a k where "active_pack s n = Some a" "previous_pack s n (reg_version a) = Some k" "p = k\<lparr>reg_status := ''active''\<rparr>"
    "t = s\<lparr>packs := restatus (\<lambda>p. reg_id p = reg_id k) ''active'' (restatus (\<lambda>p. reg_id p = reg_id a) ''quarantined'' (packs s))\<rparr>"
  using assms that unfolding rollback_def query_def
  by (auto simp: seq_Ok transaction_Ok rollback_body_def set_status_Ok return_def fail_def split: option.splits)

definition swapped :: "string \<Rightarrow> string \<Rightarrow> pack_row \<Rightarrow> pack_row" where
  "swapped old new p =
     (if reg_id p = new then p\<lparr>reg_status := ''active''\<rparr> else if reg_id p = old then p\<lparr>reg_status := ''quarantined''\<rparr> else p)"

text \<open>
  A rollback puts the greatest superseded version below the active one in service, withdraws the
  active one and touches no other row.
\<close>

theorem rollback_spec:
  assumes reach: "(db_step q dbg)\<^sup>*\<^sup>* empty_store s" and run: "rollback n s = (Ok p, t)"
  shows "\<exists>a \<in> set (packs s). \<exists>k \<in> set (packs s).
    active_pack s n = Some a \<and> reg_name k = n \<and> reg_status k = ''superseded'' \<and> reg_version k < reg_version a \<and>
    (\<forall>x \<in> set (packs s). reg_name x = n \<and> reg_status x = ''superseded'' \<and> reg_version x < reg_version a \<longrightarrow> reg_version x \<le> reg_version k) \<and>
    p = k\<lparr>reg_status := ''active''\<rparr> \<and> active_pack t n = Some p \<and>
    t = s\<lparr>packs := map (swapped (reg_id a) (reg_id k)) (packs s)\<rparr>"
proof -
  obtain a k where a: "active_pack s n = Some a" and k: "previous_pack s n (reg_version a) = Some k" and p: "p = k\<lparr>reg_status := ''active''\<rparr>"
    and t: "t = s\<lparr>packs := restatus (\<lambda>p. reg_id p = reg_id k) ''active'' (restatus (\<lambda>p. reg_id p = reg_id a) ''quarantined'' (packs s))\<rparr>"
    using rollback_Ok [OF run] .
  have a': "a \<in> set (packs s)" using one_version_in_service [OF reach] a by blast
  note k' = previous_pack_Some [OF k]
  have rows: "restatus (\<lambda>p. reg_id p = reg_id k) ''active'' (restatus (\<lambda>p. reg_id p = reg_id a) ''quarantined'' (packs s)) =
      map (swapped (reg_id a) (reg_id k)) (packs s)"
    by (simp add: restatus_def restat_def swapped_def)
  have "db_step q dbg s t" using db_step.rolling_back [of q dbg s n] by (simp add: run)
  with reach have "(db_step q dbg)\<^sup>*\<^sup>* empty_store t" by simp
  moreover have "p \<in> set (packs t)" unfolding t rows using k' by (auto simp: p swapped_def image_iff)
  ultimately have "active_pack t n = Some p"
    using one_version_in_service [of q dbg t n p] k' by (simp add: p is_active_def)
  moreover have "t = s\<lparr>packs := map (swapped (reg_id a) (reg_id k)) (packs s)\<rparr>" unfolding t rows ..
  ultimately show ?thesis using a a' k' p by (intro bexI [of _ a] bexI [of _ k] conjI) simp_all
qed

lemma swapped_back:
  assumes ok: "db_ok q s" and x: "x \<in> set (packs s)"
    and a: "a \<in> set (packs s)" "reg_name a = n" "is_active a"
    and k: "k \<in> set (packs s)" "reg_name k = n" "reg_status k = ''superseded''"
  shows "restat (\<lambda>p. reg_id p = reg_id a) ''active''
    (restat (\<lambda>p. reg_name p = n \<and> reg_status p = ''active'') ''superseded'' (swapped (reg_id a) (reg_id k) x)) = x"
proof -
  have same: "x = y \<longleftrightarrow> reg_id x = reg_id y" if "y \<in> set (packs s)" for y
    using db_ok_pack_unique [OF ok x that] by blast
  have "a \<noteq> k" using a(3) k(3) by (auto simp: is_active_def)
  then have ak: "reg_id a \<noteq> reg_id k" using db_ok_pack_unique [OF ok a(1) k(1)] by blast
  consider "x = a" | "x = k" | "reg_id x \<noteq> reg_id a" "reg_id x \<noteq> reg_id k" using same a(1) k(1) by blast
  then show ?thesis
  proof cases
    case 1
    with a ak show ?thesis by (simp add: restat_def swapped_def is_active_def)
  next
    case 2
    with k ak show ?thesis by (simp add: restat_def swapped_def)
  next
    case 3
    have "\<not> (reg_name x = n \<and> is_active x)"
      using ok x a 3(1) unfolding db_ok_def registry_ok_def by metis
    with 3 show ?thesis by (simp add: restat_def swapped_def is_active_def)
  qed
qed

text \<open>The way home: activating the version that was in service restores the database as it was.\<close>

theorem rollback_then_activate:
  assumes reach: "(db_step q dbg)\<^sup>*\<^sup>* empty_store s" and a: "active_pack s n = Some a" and run: "rollback n s = (Ok p, t)"
  shows "activate_pack n (reg_version a) t = (Ok a, s)"
proof -
  have ok: "db_ok q s" using reach by (rule reachable_db_ok)
  obtain k where k: "previous_pack s n (reg_version a) = Some k"
    and t: "t = s\<lparr>packs := restatus (\<lambda>p. reg_id p = reg_id k) ''active'' (restatus (\<lambda>p. reg_id p = reg_id a) ''quarantined'' (packs s))\<rparr>"
    using rollback_Ok [OF run] a by (metis option.inject)
  note k' = previous_pack_Some [OF k]
  have a': "a \<in> set (packs s)" "reg_name a = n" "is_active a" using one_version_in_service [OF reach] a by blast+
  let ?sw = "swapped (reg_id a) (reg_id k)"
  have rows: "packs t = map ?sw (packs s)" by (simp add: t restatus_def restat_def swapped_def)
  have fields: "reg_id (?sw x) = reg_id x" "reg_name (?sw x) = reg_name x" "reg_version (?sw x) = reg_version x"
    "identified (?sw x) = identified x" for x by (simp_all add: swapped_def identified_def)
  have ak: "reg_id a \<noteq> reg_id k"
    using db_ok_pack_unique [OF ok a'(1), of k] k' a'(3) by (auto simp: is_active_def)
  have only: "x = a" if "x \<in> set (packs s)" "reg_name x = n" "reg_version x = reg_version a" for x
    using db_ok_version_unique [OF ok that(1) a'(1)] that a'(2) by simp
  have "find (\<lambda>p. reg_name p = n \<and> reg_version p = reg_version a) (map ?sw (packs s)) = Some (?sw a)"
    by (rule find_map_unique [OF a'(1)]) (simp_all only: fields a' only)
  then have found: "find (\<lambda>p. reg_name p = n \<and> reg_version p = reg_version a) (packs t) = Some (a\<lparr>reg_status := ''quarantined''\<rparr>)"
    using ak by (simp add: rows) (simp add: swapped_def)
  have "identified a" using ok a' unfolding db_ok_def registry_ok_def pack_row_ok_def is_active_def by blast
  then have identity: "identified x" if "x \<in> set (packs s)" "reg_id x = reg_id a" for x
    using db_ok_pack_unique [OF ok that(1) a'(1)] that(2) by simp
  have "map (restat (\<lambda>p. reg_id p = reg_id a) ''active'') (map (restat (\<lambda>p. reg_name p = n \<and> reg_status p = ''active'') ''superseded'') (packs t)) = packs s"
    unfolding rows map_map using swapped_back [OF ok _ a' , of _ k] k' by (intro map_idI) simp
  then have "activate_body n (reg_id a) t = (Ok (), s)"
    unfolding activate_body_def supersede_def seq_Ok set_status_Ok
    using identity by (simp add: restatus_def t rows [symmetric])
  then have "transaction (activate_body n (reg_id a)) t = (Ok (), s)" by (simp add: transaction_Ok)
  then show ?thesis
    using a' by (simp add: activate_pack_def query_def found seq_def return_def is_active_def)
qed

section \<open>What an installation delivers\<close>

definition contents :: "'f store \<Rightarrow> (string \<times> string) set" where
  "contents s = (\<lambda>r. (row_id r, row_hash r)) ` set (item_rows s)"

text \<open>The registry rows without their status.\<close>

definition identities :: "'f store \<Rightarrow> pack_row set" where
  "identities s = (\<lambda>p. p\<lparr>reg_status := []\<rparr>) ` set (packs s)"

definition grows :: "('f store, 'a) prog \<Rightarrow> bool" where
  "grows m \<longleftrightarrow> (\<forall>s v t. m s = (Ok v, t) \<longrightarrow>
     contents s \<subseteq> contents t \<and> set (members s) \<subseteq> set (members t) \<and> identities s \<subseteq> identities t)"

lemma identities_restatus [simp]: "identities (s\<lparr>packs := restatus which st (packs s)\<rparr>) = identities s"
proof -
  have "(restat which st p)\<lparr>reg_status := []\<rparr> = p\<lparr>reg_status := []\<rparr>" for p by (simp add: restat_def)
  then show ?thesis by (simp add: identities_def set_restatus image_image)
qed

lemma contents_change:
  "(\<And>r. row_id (f r) = row_id r \<and> row_hash (f r) = row_hash r) \<Longrightarrow> contents (change_row i f s) = contents s"
  unfolding contents_def using arg_cong [OF map_change_row [of "\<lambda>r. (row_id r, row_hash r)" f i s], of set] by simp

lemma growsD: "grows m \<Longrightarrow> m s = (Ok v, t) \<Longrightarrow>
    contents s \<subseteq> contents t \<and> set (members s) \<subseteq> set (members t) \<and> identities s \<subseteq> identities t"
  unfolding grows_def by blast

lemma grows_seq: "grows m \<Longrightarrow> (\<And>v. grows (f v)) \<Longrightarrow> grows (seq m f)"
  unfolding grows_def [of "seq m f"] seq_Ok by (meson growsD subset_trans)

lemma grows_simple [simp]: "grows (return v)" "grows (fail e)" "grows (draw_id q p)"
  by (auto simp: grows_def return_def fail_def draw_id_def contents_def identities_def)

lemma grows_query: "(\<And>s. grows (f s)) \<Longrightarrow> grows (query f)"
  by (auto simp: grows_def query_def)

lemma grows_each: "(\<And>x. x \<in> set xs \<Longrightarrow> grows (f x)) \<Longrightarrow> grows (each_do f xs)"
  by (induction xs) (simp_all add: grows_seq)

lemma grows_statements:
  "grows (insert_item q r)" "grows (insert_citation i src)" "grows (insert_evidence q e)" "grows (insert_review v)"
  "grows (insert_member p i)" "grows (set_state q now i to)" "grows (set_status which st)" "grows (insert_pack q k)"
  "(\<And>r. row_id (f r) = row_id r \<and> row_hash (f r) = row_hash r) \<Longrightarrow> grows (update_row q i f)"
  unfolding grows_def insert_item_def insert_citation_def insert_evidence_def insert_review_def insert_member_def
    set_state_def set_status_restatus insert_pack_def update_row_def statement_Ok
  by (auto simp: contents_change) (auto simp: contents_def identities_def change_row_def split: if_splits)

lemma grows_move: "grows (move_item q now i from to actor why)"
  unfolding move_item_def by (intro grows_seq grows_statements grows_simple)

lemma grows_install_one: "grows (install_one q now pid known d)"
  unfolding install_one_def cite_known_def
  by (auto intro!: grows_seq grows_each grows_statements grows_move simp del: each_do.simps split: prod.split option.split)

lemma install_one_adds:
  assumes "install_one q now pid known d s = (Ok v, t)"
  shows "(row_id (fst d), row_hash (fst d)) \<in> contents t"
proof -
  obtain r srcs where d: "d = (r, srcs)" by (cases d)
  let ?new = "r\<lparr>row_pack := Some pid, row_state := ''draft'', row_reviewer := [], row_created := now, row_updated := now\<rparr>"
  let ?rest = "seq (each_do (cite_known known (row_id r)) srcs) (\<lambda>_.
        seq (update_row q (row_id r) (\<lambda>x. x\<lparr>row_reviewer := row_reviewer r\<rparr>)) (\<lambda>_.
        each_do (\<lambda>st. move_item q now (row_id r) (previous_state st) st ''pack-install'' ''delivered by a signed content pack'')
          [''machine_validated'', ''independent_verified'', ''content_reviewed'', ''active'']))"
  obtain u where u: "insert_item q ?new s = (Ok (), u)" and rest: "?rest u = (Ok v, t)"
    using assms unfolding install_one_def d prod.case seq_Ok [of "insert_item q ?new"] by force
  have "grows (cite_known known (row_id r) x)" for x
    by (cases "known x") (simp_all add: cite_known_def grows_statements)
  then have "grows ?rest" by (intro grows_seq grows_each grows_statements grows_move) simp_all
  moreover have "(row_id r, row_hash r) \<in> contents u"
    using u by (simp add: insert_item_def statement_Ok contents_def)
  ultimately show ?thesis using growsD [of ?rest u v t] rest d by auto
qed

lemma each_adds:
  assumes "\<And>x s v t. f x s = (Ok v, t) \<Longrightarrow> obs s \<subseteq> obs t" "\<And>x s v t. f x s = (Ok v, t) \<Longrightarrow> P x \<in> obs t"
    "each_do f xs s = (Ok v, t)" "x \<in> set xs"
  shows "P x \<in> obs t"
  using assms(3,4)
proof (induction xs arbitrary: s)
  case (Cons y ys)
  have mono: "each_do f zs a = (Ok b, c) \<Longrightarrow> obs a \<subseteq> obs c" for zs a b c
    by (induction zs arbitrary: a) (auto simp: seq_Ok return_def dest: assms(1))
  obtain w u where u: "f y s = (Ok w, u)" and rest: "each_do f ys u = (Ok v, t)"
    using Cons.prems(1) by (auto simp: seq_Ok)
  show ?case
  proof (cases "x = y")
    case True
    with mono [OF rest] assms(2) [OF u] show ?thesis by blast
  next
    case False
    with Cons.IH [OF rest] Cons.prems(2) show ?thesis by simp
  qed
qed simp

definition delivered_id :: "'f delivery \<Rightarrow> string" where
  "delivered_id d = row_id (fst d)"

lemma plan_items_Ok:
  assumes "plan_items s ds todo local present = Ok (todo', local', present')" "distinct (map delivered_id ds)"
  shows "set todo \<subseteq> set todo' \<and> length todo' + present' = length todo + present + length ds \<and>
    (\<forall>i. i \<notin> delivered_id ` set ds \<longrightarrow> local' i = local i) \<and>
    (\<forall>d \<in> set ds. \<exists>l. local' (delivered_id d) = Some l \<and>
       (d \<in> set todo' \<and> l = delivered_id d \<or> (l, row_hash (fst d)) \<in> contents s))"
  using assms
proof (induction s ds todo local present rule: plan_items.induct)
  case (1 s todo local present)
  then show ?case by simp
next
  case (2 s r srcs ds todo local present)
  note id = delivered_id_def [of "(r, srcs)", simplified]
  show ?case
  proof (cases "find (\<lambda>x. row_hash x = row_hash r) (item_rows s)")
    case (Some x)
    then have x: "(row_id x, row_hash r) \<in> contents s" by (auto simp: find_Some_iff contents_def image_iff)
    have rest: "plan_items s ds todo (local(row_id r \<mapsto> row_id x)) (present + 1) = Ok (todo', local', present')"
      using 2(3) Some by simp
    note IH = 2(2) [OF Some rest]
    have "distinct (map delivered_id ds)" and new: "row_id r \<notin> delivered_id ` set ds" using 2(4) by (simp_all add: id)
    with IH have IH': "set todo \<subseteq> set todo'" "length todo' + present' = length todo + (present + 1) + length ds"
      "\<And>i. i \<notin> delivered_id ` set ds \<Longrightarrow> local' i = (local(row_id r \<mapsto> row_id x)) i"
      "\<forall>d \<in> set ds. \<exists>l. local' (delivered_id d) = Some l \<and> (d \<in> set todo' \<and> l = delivered_id d \<or> (l, row_hash (fst d)) \<in> contents s)"
      by blast+
    have "local' (row_id r) = Some (row_id x)" using IH'(3) [OF new] by simp
    with IH' x show ?thesis by (simp add: id)
  next
    case None
    then have free: "row_id r \<notin> item_ids s"
      and rest: "plan_items s ds (todo @ [(r, srcs)]) (local(row_id r \<mapsto> row_id r)) present = Ok (todo', local', present')"
      using 2(3) by (auto split: if_splits)
    note IH = 2(1) [OF None free rest]
    have "distinct (map delivered_id ds)" and new: "row_id r \<notin> delivered_id ` set ds" using 2(4) by (simp_all add: id)
    with IH have IH': "set (todo @ [(r, srcs)]) \<subseteq> set todo'" "length todo' + present' = length (todo @ [(r, srcs)]) + present + length ds"
      "\<And>i. i \<notin> delivered_id ` set ds \<Longrightarrow> local' i = (local(row_id r \<mapsto> row_id r)) i"
      "\<forall>d \<in> set ds. \<exists>l. local' (delivered_id d) = Some l \<and> (d \<in> set todo' \<and> l = delivered_id d \<or> (l, row_hash (fst d)) \<in> contents s)"
      by blast+
    have "local' (row_id r) = Some (row_id r)" using IH'(3) [OF new] by simp
    with IH' show ?thesis by (simp add: id)
  qed
qed

lemma grows_record_sources: "grows (record_sources q now es known added reused)"
proof (induction es arbitrary: known added reused)
  case (Cons e es)
  have "grows (seq (draw_id q ''ev'') (\<lambda>i. seq (insert_evidence q (e\<lparr>ev_id := i, ev_created := now\<rparr>)) (\<lambda>_.
      record_sources q now es (known(ev_id e \<mapsto> i)) (added + 1) reused)))"
    by (intro grows_seq grows_statements grows_simple Cons.IH)
  then show ?case unfolding record_sources.simps by (intro grows_query) (simp add: Cons.IH split: option.split)
qed simp

lemma grows_pack_identity: "grows (pack_identity q now p)"
  unfolding pack_identity_def register_def supersede_def
  by (intro grows_query) (auto intro!: grows_seq grows_statements split: option.split)

lemma join_members_adds:
  "join_members pid local d s = (Ok v, t) \<Longrightarrow> (pid, the (local (delivered_id d))) \<in> set (members t)"
  by (cases "local (row_id (fst d))")
    (auto simp: join_members_def fail_def insert_member_def statement_Ok delivered_id_def split: if_splits)

lemma grows_join: "grows (join_members pid local d)"
  by (cases "local (row_id (fst d))") (simp_all add: join_members_def grows_statements)

text \<open>The row an installation stands for: the one found, or the one it inserted.\<close>

definition registered :: "pack_row \<Rightarrow> string \<Rightarrow> string \<Rightarrow> 'f store \<Rightarrow> pack_row" where
  "registered p now i s = (case registered_as s p of Some k \<Rightarrow> k | None \<Rightarrow> p\<lparr>reg_id := i, reg_created := now\<rparr>)"

lemma pack_identity_Ok:
  assumes "pack_identity q now p s = (Ok i, t)"
  shows "(registered p now i s)\<lparr>reg_status := []\<rparr> \<in> identities t \<and> reg_id (registered p now i s) = i \<and>
    reg_name (registered p now i s) = reg_name p \<and> reg_version (registered p now i s) = reg_version p \<and> reg_hash (registered p now i s) = reg_hash p"
proof (cases "registered_as s p")
  case (Some k)
  then have k: "k \<in> set (packs s)" "reg_name k = reg_name p" "reg_version k = reg_version p" by (auto simp: registered_as_def find_Some_iff)
  moreover have "reg_hash k = reg_hash p" "i = reg_id k" "t = s"
    using assms Some by (auto simp: pack_identity_def query_def return_def fail_def split: if_splits)
  ultimately show ?thesis using Some by (simp add: registered_def identities_def)
next
  case None
  then obtain u where "insert_pack q (p\<lparr>reg_id := i, reg_status := ''active'', reg_created := now\<rparr>) u = (Ok (), t)"
    using assms by (auto simp: pack_identity_def query_def register_def seq_Ok return_def)
  then have "p\<lparr>reg_id := i, reg_status := ''active'', reg_created := now\<rparr> \<in> set (packs t)"
    by (auto simp: insert_pack_def statement_Ok)
  then have "(p\<lparr>reg_id := i, reg_status := ''active'', reg_created := now\<rparr>)\<lparr>reg_status := []\<rparr> \<in> identities t"
    unfolding identities_def by (rule imageI)
  with None show ?thesis by (simp add: registered_def)
qed

lemma install_steps:
  assumes run: "install q now p es ds s = (Ok out, t)"
  obtains pid s1 todo local present known added reused s2 s3 where
    "pack_identity q now p s = (Ok pid, s1)" "plan_items s1 ds [] Map.empty 0 = Ok (todo, local, present)"
    "record_sources q now es Map.empty 0 0 s1 = (Ok (known, added, reused), s2)"
    "each_do (install_one q now pid known) todo s2 = (Ok (), s3)" "each_do (join_members pid local) ds s3 = (Ok (), t)"
    "out = \<lparr>out_pack = pid, installed = length todo, already_present = present, reused_sources = reused, added_sources = added\<rparr>"
proof -
  obtain pid s1 where s1: "pack_identity q now p s = (Ok pid, s1)"
    and rest: "query (\<lambda>s. case plan_items s ds [] Map.empty 0 of Err e \<Rightarrow> fail e
       | Ok (todo, local, present) \<Rightarrow>
           seq (record_sources q now es Map.empty 0 0) (\<lambda>(known, added, reused).
           seq (each_do (install_one q now pid known) todo) (\<lambda>_.
           seq (each_do (join_members pid local) ds) (\<lambda>_.
           return \<lparr>out_pack = pid, installed = length todo, already_present = present, reused_sources = reused, added_sources = added\<rparr>)))) s1 = (Ok out, t)"
    using run unfolding install_def transaction_Ok install_body_def seq_Ok [of "pack_identity q now p"] by blast
  obtain todo local present where plan: "plan_items s1 ds [] Map.empty 0 = Ok (todo, local, present)"
    using rest by (cases "plan_items s1 ds [] Map.empty 0") (auto simp: query_def fail_def)
  obtain known added reused s2 s3 where
    s2: "record_sources q now es Map.empty 0 0 s1 = (Ok (known, added, reused), s2)"
    and s3: "each_do (install_one q now pid known) todo s2 = (Ok (), s3)"
    and t: "each_do (join_members pid local) ds s3 = (Ok (), t)"
    and out: "out = \<lparr>out_pack = pid, installed = length todo, already_present = present, reused_sources = reused, added_sources = added\<rparr>"
    using rest by (auto simp: query_def plan seq_Ok return_def)
  show thesis by (rule that [OF s1 plan s2 s3 t out])
qed

lemma install_grows:
  assumes "pack_identity q now p s = (Ok pid, s1)" "record_sources q now es Map.empty 0 0 s1 = (Ok r, s2)"
    "each_do (install_one q now pid known) todo s2 = (Ok (), s3)" "each_do (join_members pid local) ds s3 = (Ok (), t)"
  shows "contents s1 \<subseteq> contents s3 \<and> contents s3 \<subseteq> contents t \<and> identities s1 \<subseteq> identities t"
  using growsD [OF grows_record_sources assms(2)] growsD [OF grows_each assms(3)] growsD [OF grows_each assms(4)]
    grows_install_one grows_join by blast

lemma install_registers:
  assumes "install q now p es ds s = (Ok out, t)"
  shows "(registered p now (out_pack out) s)\<lparr>reg_status := []\<rparr> \<in> identities t"
    "\<exists>k \<in> set (packs t). reg_id k = out_pack out \<and> reg_name k = reg_name p \<and> reg_version k = reg_version p \<and> reg_hash k = reg_hash p"
proof -
  obtain s1 where identity: "pack_identity q now p s = (Ok (out_pack out), s1)" and "identities s1 \<subseteq> identities t"
    using install_steps [OF assms] install_grows by (metis install_outcome.select_convs(1))
  with pack_identity_Ok [OF identity] show row: "(registered p now (out_pack out) s)\<lparr>reg_status := []\<rparr> \<in> identities t" by blast
  then obtain k where "k \<in> set (packs t)" and eq: "(registered p now (out_pack out) s)\<lparr>reg_status := []\<rparr> = k\<lparr>reg_status := []\<rparr>"
    unfolding identities_def by blast
  moreover have "reg_id k = reg_id (registered p now (out_pack out) s)" "reg_name k = reg_name (registered p now (out_pack out) s)"
    "reg_version k = reg_version (registered p now (out_pack out) s)" "reg_hash k = reg_hash (registered p now (out_pack out) s)"
    using arg_cong [OF eq, of reg_id] arg_cong [OF eq, of reg_name] arg_cong [OF eq, of reg_version] arg_cong [OF eq, of reg_hash] by simp_all
  ultimately show "\<exists>k \<in> set (packs t). reg_id k = out_pack out \<and> reg_name k = reg_name p \<and> reg_version k = reg_version p \<and> reg_hash k = reg_hash p"
    using pack_identity_Ok [OF identity] by auto
qed

lemma install_result:
  assumes run: "install q now p es ds s = (Ok out, t)" and distinct: "distinct (map delivered_id ds)"
  shows "installed out + already_present out = length ds \<and>
    (\<forall>d \<in> set ds. \<exists>i. (i, row_hash (fst d)) \<in> contents t \<and> (out_pack out, i) \<in> set (members t))"
proof -
  obtain pid s1 todo local present known added reused s2 s3 where
    s1: "pack_identity q now p s = (Ok pid, s1)" and plan: "plan_items s1 ds [] Map.empty 0 = Ok (todo, local, present)"
    and s2: "record_sources q now es Map.empty 0 0 s1 = (Ok (known, added, reused), s2)"
    and s3: "each_do (install_one q now pid known) todo s2 = (Ok (), s3)" and t: "each_do (join_members pid local) ds s3 = (Ok (), t)"
    and out: "out = \<lparr>out_pack = pid, installed = length todo, already_present = present, reused_sources = reused, added_sources = added\<rparr>"
    by (rule install_steps [OF run])
  note plan' = plan_items_Ok [OF plan distinct]
  note grow = install_grows [OF s1 s2 s3 t]
  have "\<exists>i. (i, row_hash (fst d)) \<in> contents t \<and> (pid, i) \<in> set (members t)" if d: "d \<in> set ds" for d
  proof -
    obtain l where l: "local (delivered_id d) = Some l" and held: "d \<in> set todo \<and> l = delivered_id d \<or> (l, row_hash (fst d)) \<in> contents s1"
      using plan' d by blast
    have "(pid, the (local (delivered_id d))) \<in> set (members t)"
      by (rule each_adds [where f = "join_members pid local" and obs = "\<lambda>s. set (members s)"
            and P = "\<lambda>d. (pid, the (local (delivered_id d)))", OF _ _ t d])
        (use growsD [OF grows_join] join_members_adds in blast)+
    then have "(pid, l) \<in> set (members t)" by (simp add: l)
    moreover have "(l, row_hash (fst d)) \<in> contents s3"
    proof (cases "(l, row_hash (fst d)) \<in> contents s1")
      case False
      with held have "d \<in> set todo" "l = row_id (fst d)" by (auto simp: delivered_id_def)
      moreover have "(row_id (fst d), row_hash (fst d)) \<in> contents s3"
        by (rule each_adds [where f = "install_one q now pid known" and obs = contents
              and P = "\<lambda>d. (row_id (fst d), row_hash (fst d))", OF _ _ s3 \<open>d \<in> set todo\<close>])
          (use growsD [OF grows_install_one] install_one_adds in blast)+
      ultimately show ?thesis by simp
    qed (use grow in blast)
    ultimately show ?thesis using grow by blast
  qed
  with plan' show ?thesis by (simp add: out)
qed

text \<open>
  A successful installation reports every item it was given, holds the content of each, and lists it
  as a member of the installed version.
\<close>

theorem install_delivers:
  assumes "install q now p es ds s = (Ok out, t)" and "distinct (map delivered_id ds)"
  shows "installed out + already_present out = length ds \<and>
    (\<exists>k \<in> set (packs t). reg_id k = out_pack out \<and> reg_name k = reg_name p \<and> reg_version k = reg_version p \<and> reg_hash k = reg_hash p) \<and>
    (\<forall>d \<in> set ds. \<exists>i. (i, row_hash (fst d)) \<in> contents t \<and> (out_pack out, i) \<in> set (members t))"
  using install_result [OF assms] install_registers [OF assms(1)] by blast

section \<open>A sample database\<close>

definition sample_sql :: "nat sql" where
  "sample_sql = \<lparr>in_scale = (\<lambda>_. True), in_unit = (\<lambda>_. True), json_valid = (\<lambda>_. True), uuid = (\<lambda>n. replicate n (CHR ''a''))\<rparr>"

definition sample_pack :: "int \<Rightarrow> pack_row" where
  "sample_pack v = \<lparr>reg_id = [], reg_name = ''core'', reg_version = v, reg_signature = ''s'', reg_signer = ''k'', reg_hash = ''h'',
     reg_schema = 1, reg_manifest = ''{}'', reg_items = 1, reg_status = [], reg_created = []\<rparr>"

definition sample_evidence :: "nat evidence_row" where
  "sample_evidence = \<lparr>ev_id = ''e'', ev_hash = ''x'', ev_url = ''u'', ev_title = ''t'', ev_license = ''Public domain'', ev_date = ''d'',
     ev_trust = 1, ev_status = ''ok'', ev_created = []\<rparr>"

definition sample_item :: "nat item_row" where
  "sample_item = \<lparr>row_id = ''i'', row_pack = None, row_subtest = ''AR'', row_objective = ''o'', row_state = [], row_stem = ''q'',
     row_passage = None, row_options = [''1'', ''2''], row_correct = 0, row_explanation = ''because'', row_rationales = [],
     row_difficulty = 0, row_proof_kind = ''executable'', row_proof_json = ''{}'', row_reviewer = ''ann'', row_hash = ''c'',
     row_generator = Some ''g'', row_verifier = Some ''v'', row_created = [], row_updated = []\<rparr>"

definition sample_db :: "nat store" where
  "sample_db = snd (install sample_sql ''now'' (sample_pack 1) [sample_evidence] [(sample_item, [''e''])] empty_store)"

definition sample_db2 :: "nat store" where
  "sample_db2 = snd (publish sample_sql ''now'' (sample_pack 2) sample_db)"

lemma sample_db_reachable: "(db_step sample_sql id)\<^sup>*\<^sup>* empty_store sample_db" "(db_step sample_sql id)\<^sup>*\<^sup>* empty_store sample_db2"
proof -
  have "db_step sample_sql id empty_store sample_db" unfolding sample_db_def by (rule db_step.installing)
  then show first: "(db_step sample_sql id)\<^sup>*\<^sup>* empty_store sample_db" by blast
  have "db_step sample_sql id sample_db sample_db2" unfolding sample_db2_def by (rule db_step.publishing)
  with first show "(db_step sample_sql id)\<^sup>*\<^sup>* empty_store sample_db2" by (rule rtranclp.rtrancl_into_rtrancl)
qed

lemma sample_served: "map row_id (servable_in ''AR'' None sample_db) = [''i'']"
  by code_simp

lemma sample_active: "map_option reg_version (active_pack sample_db2 ''core'') = Some 2"
  by code_simp

lemma sample_rollback: "\<exists>p t. rollback ''core'' sample_db2 = (Ok p, t)"
proof -
  have "(case fst (rollback ''core'' sample_db2) of Ok p \<Rightarrow> True | Err _ \<Rightarrow> False)" by code_simp
  then show ?thesis by (cases "rollback ''core'' sample_db2") (auto split: result.splits)
qed


theorem served_items_were_reviewed_witness:
  "\<exists>r. r \<in> set (servable_in ''AR'' None sample_db) \<and> \<not> blank (row_reviewer r)"
proof -
  have "servable_in ''AR'' None sample_db \<noteq> []" using sample_served by auto
  then obtain r where "r \<in> set (servable_in ''AR'' None sample_db)" by (metis list.set_intros(1) neq_Nil_conv)
  with served_items_were_reviewed [OF sample_db_reachable(1) this] show ?thesis by blast
qed

theorem one_version_in_service_witness: "\<exists>p \<in> set (packs sample_db2). is_active p \<and> reg_version p = 2"
proof -
  obtain p where p: "active_pack sample_db2 ''core'' = Some p" "reg_version p = 2" using sample_active by auto
  with one_version_in_service [OF sample_db_reachable(2), of "''core''" p] show ?thesis by blast
qed

theorem failed_operation_changes_no_table_witness:
  "same_tables sample_db (snd (rollback ''core'' sample_db))"
proof -
  have "(case fst (rollback ''core'' sample_db) of Ok p \<Rightarrow> False | Err _ \<Rightarrow> True)" by code_simp
  then obtain e where "fst (rollback ''core'' sample_db) = Err e" by (auto split: result.splits)
  with failed_operation_changes_no_table [of sample_sql "[]" "sample_pack 1" sample_db e "[]" "[]" "''core''" 0] show ?thesis by blast
qed

theorem rollback_spec_witness: "\<exists>p t. rollback ''core'' sample_db2 = (Ok p, t) \<and> active_pack t ''core'' = Some p"
proof -
  obtain p t where run: "rollback ''core'' sample_db2 = (Ok p, t)" using sample_rollback by blast
  with rollback_spec [OF sample_db_reachable(2) run] show ?thesis by blast
qed

theorem rollback_then_activate_witness:
  "\<exists>a p t. rollback ''core'' sample_db2 = (Ok p, t) \<and> activate_pack ''core'' 2 t = (Ok a, sample_db2)"
proof -
  obtain p t where run: "rollback ''core'' sample_db2 = (Ok p, t)" using sample_rollback by blast
  obtain a where a: "active_pack sample_db2 ''core'' = Some a" "reg_version a = 2" using sample_active by auto
  from rollback_then_activate [OF sample_db_reachable(2) a(1) run] run a(2) show ?thesis by auto
qed

theorem install_delivers_witness:
  "\<exists>out t. install sample_sql ''now'' (sample_pack 1) [sample_evidence] [(sample_item, [''e''])] empty_store = (Ok out, t) \<and>
     (\<exists>i. (i, ''c'') \<in> contents t \<and> (out_pack out, i) \<in> set (members t))"
proof -
  let ?run = "install sample_sql ''now'' (sample_pack 1) [sample_evidence] [(sample_item, [''e''])] empty_store"
  have "(case fst ?run of Ok p \<Rightarrow> True | Err _ \<Rightarrow> False)" by code_simp
  then obtain out t where run: "?run = (Ok out, t)" by (cases ?run) (auto split: result.splits)
  from install_delivers [OF run] run show ?thesis by (simp add: sample_item_def)
qed

end
