(* ===== verification/Pack_Install.thy ===== *)
theory Pack_Install
  imports Packs Pack_Registry
begin

text \<open>
  Building, installing and listing packs (\<open>build_pack\<close>, \<open>install_pack\<close>, \<open>installed_packs\<close> of
  \<open>crates/vector-application/src/packs.rs\<close>): the composition of verification with the registry of
  \<^theory_text>\<open>Pack_Registry\<close>. Parameters: the codecs of serde_json, SHA-256, the order a hash set is
  iterated in, and the share of correct answers computed from a list of difficulties.
\<close>

section \<open>Building\<close>

record 'f codec =
  encode :: "'f pack_payload \<Rightarrow> string"
  decode_document :: "string \<Rightarrow> ('f pack_document, string) result"
  decode_payload :: "string \<Rightarrow> 'f pack_payload option"
  sha_hex :: "string \<Rightarrow> string"
  debug :: "string \<Rightarrow> string"
  share_in_unit :: "'f \<Rightarrow> bool"
  share :: "'f list \<Rightarrow> 'f"
  id_order :: "string list \<Rightarrow> string list"
  node_order :: "(string \<times> string) list \<Rightarrow> (string \<times> string) list"
  explain_refusal :: "'f pack_refusal \<Rightarrow> string"
  explain_signature :: "signature_error \<Rightarrow> string"

record 'f build_request =
  req_name :: string
  req_version :: int
  req_app_min :: string
  req_app_max :: "string option"
  req_curriculum :: "curriculum_node list"
  req_calibration :: "'f calibration_entry list"

definition source_record :: "'f evidence_row \<Rightarrow> 'f pack_source" where
  "source_record e = \<lparr>source_id = ev_id e, url = ev_url e, source_title = ev_title e, source_hash = ev_hash e,
     licence = ev_license e, effective_date = ev_date e, trust = ev_trust e, retrieval_status = ev_status e\<rparr>"

fun read_sources :: "'f store \<Rightarrow> string list \<Rightarrow> ('f pack_source list, store_error) result" where
  "read_sources s [] = Ok []"
| "read_sources s (i # ids) =
     (case find (\<lambda>e. ev_id e = i) (evidence s) of
        None \<Rightarrow> Err (Refused (''item provenance cites '' @ i @ '', which the vault lacks''))
      | Some e \<Rightarrow> try_bind (read_sources s ids) (\<lambda>rest. Ok (source_record e # rest)))"

definition active_rows :: "'f store \<Rightarrow> 'f item_row list" where
  "active_rows s = filter (\<lambda>r. row_state r = ''active'') (all_items s)"

definition ledger_ids :: "'f store \<Rightarrow> string list" where
  "ledger_ids s = remdups (concat (map (\<lambda>r. sources_of (row_id r) s) (active_rows s)))"

definition packed_item :: "'f store \<Rightarrow> 'f item_row \<Rightarrow> 'f pack_item" where
  "packed_item s r = \<lparr>item_id = row_id r, item_subtest = row_subtest r, item_objective = row_objective r, stem = row_stem r,
     passage = row_passage r, options = row_options r, correct_index = row_correct r, explanation = row_explanation r,
     distractor_rationales = sort_key fst (map (\<lambda>(i, why). (show_nat i, why)) (row_rationales r)), difficulty = row_difficulty r,
     proof_kind = row_proof_kind r, proof_json = row_proof_json r, item_hash = row_hash r, generator_hash = row_generator r,
     verifier_hash = row_verifier r, reviewer = row_reviewer r, cited = sort (sources_of (row_id r) s)\<rparr>"

definition default_curriculum :: "'f codec \<Rightarrow> 'f pack_item list \<Rightarrow> curriculum_node list" where
  "default_curriculum c js =
     sort_key node_objective (map (\<lambda>(i, sub). \<lparr>node_objective = i, node_subtest = sub, node_title = i, prerequisites = []\<rparr>)
       (node_order c (remdups (map (\<lambda>j. (item_objective j, item_subtest j)) js))))"

definition default_calibration :: "'f codec \<Rightarrow> 'f pack_item list \<Rightarrow> 'f calibration_entry list" where
  "default_calibration c js =
     map (\<lambda>i. \<lparr>cal_objective = i, expected_correct = share c (map difficulty (filter (\<lambda>j. item_objective j = i) js)), responses = 0,
         basis = ''declared from the items' difficulty scale; no responses recorded''\<rparr>)
       (sort (remdups (map item_objective js)))"

definition packed_items :: "'f store \<Rightarrow> 'f pack_item list" where
  "packed_items s = sort_key item_id (map (packed_item s) (active_rows s))"

definition built_payload :: "'f codec \<Rightarrow> string \<Rightarrow> 'f build_request \<Rightarrow> 'f store \<Rightarrow> 'f pack_source list \<Rightarrow> 'f pack_payload" where
  "built_payload c now req s srcs =
     (let ledger = sort_key source_id srcs; js = packed_items s in
      \<lparr>format = PACK_FORMAT, schema_version = PACK_SCHEMA_VERSION, name = req_name req, version = req_version req, created_at = now,
        app_min = req_app_min req, app_max = req_app_max req, sources = ledger, items = js,
        licences = sort (remdups (map licence ledger)),
        curriculum = (if req_curriculum req = [] then default_curriculum c js else sort_key node_objective (req_curriculum req)),
        calibration = (if req_calibration req = [] then default_calibration c js else sort_key cal_objective (req_calibration req))\<rparr>)"

definition sign_payload :: "'f codec \<Rightarrow> 'k ed25519 \<Rightarrow> 'k \<Rightarrow> int \<Rightarrow> 'f build_request \<Rightarrow> 'f pack_payload \<Rightarrow> ('f pack_document, store_error) result" where
  "sign_payload c ed k clock req p =
     (let hash = computed_content_hash (sha_hex c) (encode c) \<lparr>payload = p, document_hash = [], signature = [], signer = []\<rparr> in
      case new_pack clock (req_name req) hash of
        Err e \<Rightarrow> Err (Refused (''cannot sign the pack identity: '' @ explain_signature c e))
      | Ok identity \<Rightarrow>
          (case sign ed k (set_version (pack_version_of (req_version req)) identity) of
             Err e \<Rightarrow> Err (Refused (''cannot sign the pack identity: '' @ explain_signature c e))
           | Ok attested \<Rightarrow>
               Ok \<lparr>payload = p, document_hash = hash,
                 signature = to_hex (case pack_signature attested of None \<Rightarrow> [] | Some b \<Rightarrow> b),
                 signer = to_hex (case pack_signer attested of None \<Rightarrow> [] | Some b \<Rightarrow> b)\<rparr>))"

definition build_pack :: "'f codec \<Rightarrow> 'k ed25519 \<Rightarrow> 'k \<Rightarrow> string \<Rightarrow> int \<Rightarrow> 'f build_request \<Rightarrow> 'f store \<Rightarrow> ('f pack_document, store_error) result" where
  "build_pack c ed k now clock req s =
     (if active_rows s = []
      then Err (Refused ''the store holds no active items, so there is nothing to attest in a pack'')
      else try_bind (read_sources s (id_order c (ledger_ids s)))
        (\<lambda>srcs. sign_payload c ed k clock req (built_payload c now req s srcs)))"

section \<open>Installing\<close>

text \<open>A \<open>BTreeMap\<close> from indices: pairs in the order of their distinct keys, the last write of a key kept.\<close>

definition put_index :: "nat \<Rightarrow> string \<Rightarrow> (nat \<times> string) list \<Rightarrow> (nat \<times> string) list" where
  "put_index i why m = sort_key fst ((i, why) # filter (\<lambda>e. fst e \<noteq> i) m)"

fun rationale_map :: "'f codec \<Rightarrow> (string \<times> string) list \<Rightarrow> (nat \<times> string) list \<Rightarrow> ((nat \<times> string) list, store_error) result" where
  "rationale_map c [] m = Ok m"
| "rationale_map c ((key, why) # rest) m =
     (case parse_usize key of
        None \<Rightarrow> Err (Refused (''rationale key '' @ debug c key @ '' is not an option index''))
      | Some i \<Rightarrow> rationale_map c rest (put_index i why m))"

definition delivery_of :: "'f pack_item \<Rightarrow> (nat \<times> string) list \<Rightarrow> 'f delivery" where
  "delivery_of j m = (\<lparr>row_id = item_id j, row_pack = None, row_subtest = item_subtest j, row_objective = item_objective j, row_state = [],
     row_stem = stem j, row_passage = passage j, row_options = options j, row_correct = correct_index j, row_explanation = explanation j,
     row_rationales = m, row_difficulty = difficulty j, row_proof_kind = proof_kind j, row_proof_json = proof_json j,
     row_reviewer = reviewer j, row_hash = item_hash j, row_generator = generator_hash j, row_verifier = verifier_hash j,
     row_created = [], row_updated = []\<rparr>, cited j)"

fun deliveries :: "'f codec \<Rightarrow> 'f pack_item list \<Rightarrow> ('f delivery list, store_error) result" where
  "deliveries c [] = Ok []"
| "deliveries c (j # js) =
     try_bind (rationale_map c (distractor_rationales j) []) (\<lambda>m.
     try_bind (deliveries c js) (\<lambda>ds. Ok (delivery_of j m # ds)))"

definition registry_record :: "'f codec \<Rightarrow> 'f pack_document \<Rightarrow> pack_row" where
  "registry_record c d = \<lparr>reg_id = [], reg_name = name (payload d), reg_version = version (payload d), reg_signature = signature d,
     reg_signer = signer d, reg_hash = document_hash d, reg_schema = schema_version (payload d), reg_manifest = encode c (payload d),
     reg_items = int (length (items (payload d))), reg_status = [], reg_created = []\<rparr>"

definition vault_record :: "'f pack_source \<Rightarrow> 'f evidence_row" where
  "vault_record x = \<lparr>ev_id = source_id x, ev_hash = source_hash x, ev_url = url x, ev_title = source_title x, ev_license = licence x,
     ev_date = effective_date x, ev_trust = trust x, ev_status = retrieval_status x, ev_created = []\<rparr>"

record install_report =
  rep_name :: string
  rep_version :: int
  rep_hash :: string
  rep_items :: nat
  rep_installed :: nat
  rep_present :: nat
  rep_sources_added :: nat
  rep_sources_reused :: nat

definition install_pack :: "'f codec \<Rightarrow> 'k ed25519 \<Rightarrow> 'f sql \<Rightarrow> string \<Rightarrow> int \<Rightarrow> string \<Rightarrow> string \<Rightarrow> string \<Rightarrow> ('f store, install_report) prog" where
  "install_pack c ed q now clock bytes trusted running =
     (case decode_document c bytes of
        Err e \<Rightarrow> fail (Refused (explain_refusal c (Malformed e)))
      | Ok d \<Rightarrow>
          (case verify_pack (encode c) (sha_hex c) (debug c) (share_in_unit c) ed clock d trusted running of
             Err r \<Rightarrow> fail (Refused (explain_refusal c r))
           | Ok _ \<Rightarrow>
               (case deliveries c (items (payload d)) of
                  Err e \<Rightarrow> fail e
                | Ok ds \<Rightarrow>
                    seq (install q now (registry_record c d) (map vault_record (sources (payload d))) ds) (\<lambda>out.
                    return \<lparr>rep_name = name (payload d), rep_version = version (payload d), rep_hash = document_hash d,
                      rep_items = length (items (payload d)), rep_installed = installed out, rep_present = already_present out,
                      rep_sources_added = added_sources out, rep_sources_reused = reused_sources out\<rparr>))))"

section \<open>Listing\<close>

record 'f pack_objective =
  po_objective :: string
  po_subtest :: string
  po_title :: string
  po_prerequisites :: "string list"
  po_expected :: "'f option"
  po_responses :: "nat option"
  po_basis :: "string option"

definition find_calibration :: "'f calibration_entry list \<Rightarrow> string \<Rightarrow> 'f calibration_entry option" where
  "find_calibration es i = find (\<lambda>e. cal_objective e = i) (rev es)"

definition objectives_from_manifest :: "'f codec \<Rightarrow> string \<Rightarrow> 'f pack_objective list" where
  "objectives_from_manifest c manifest =
     (case decode_payload c manifest of
        None \<Rightarrow> []
      | Some p \<Rightarrow>
          sort_key po_objective (map (\<lambda>n.
            let e = find_calibration (calibration p) (node_objective n) in
            \<lparr>po_objective = node_objective n, po_subtest = node_subtest n, po_title = node_title n, po_prerequisites = prerequisites n,
              po_expected = map_option expected_correct e, po_responses = map_option responses e, po_basis = map_option basis e\<rparr>)
            (curriculum p)))"

definition signature_valid :: "'k ed25519 \<Rightarrow> int \<Rightarrow> pack_row \<Rightarrow> bool" where
  "signature_valid ed clock r =
     (case (Packs.from_hex (reg_signature r), Packs.from_hex (reg_signer r)) of
        (Some sg, Some key) \<Rightarrow>
          (case from_signed clock (reg_name r) (pack_version_of (reg_version r)) (reg_hash r) sg key of
             Err e \<Rightarrow> False
           | Ok identity \<Rightarrow> is_ok (Signed_Pack.verify ed identity))
      | _ \<Rightarrow> False)"

record 'f installed_pack =
  listed :: pack_row
  listed_valid :: bool
  listed_objectives :: "'f pack_objective list"

text \<open>A listed pack carries the row's fields except the signature and the manifest.\<close>

definition listed_as :: "'f codec \<Rightarrow> 'k ed25519 \<Rightarrow> int \<Rightarrow> pack_row \<Rightarrow> 'f installed_pack" where
  "listed_as c ed clock r =
     \<lparr>listed = r\<lparr>reg_signature := [], reg_manifest := []\<rparr>, listed_valid = signature_valid ed clock r,
       listed_objectives = objectives_from_manifest c (reg_manifest r)\<rparr>"

definition installed_packs :: "'f codec \<Rightarrow> 'k ed25519 \<Rightarrow> int \<Rightarrow> 'f store \<Rightarrow> 'f installed_pack list" where
  "installed_packs c ed clock s = map (listed_as c ed clock) (list_packs s)"

definition rollback_pack :: "'f codec \<Rightarrow> 'k ed25519 \<Rightarrow> int \<Rightarrow> string \<Rightarrow> ('f store, 'f installed_pack) prog" where
  "rollback_pack c ed clock n = seq (Pack_Registry.rollback n) (\<lambda>r. return (listed_as c ed clock r))"

definition activate_installed :: "'f codec \<Rightarrow> 'k ed25519 \<Rightarrow> int \<Rightarrow> string \<Rightarrow> int \<Rightarrow> ('f store, 'f installed_pack) prog" where
  "activate_installed c ed clock n v = seq (activate_pack n v) (\<lambda>r. return (listed_as c ed clock r))"

section \<open>What an installation establishes\<close>

lemma deliveries_Ok:
  "deliveries c js = Ok ds \<Longrightarrow> length ds = length js \<and> map delivered_id ds = map item_id js \<and> map (\<lambda>d. row_hash (fst d)) ds = map item_hash js"
  by (induction js arbitrary: ds) (auto simp: try_bind_Ok_iff delivery_of_def delivered_id_def)

lemma install_pack_Ok:
  assumes "install_pack c ed q now clock bytes trusted running s = (Ok rep, t)"
  obtains d ds out where "decode_document c bytes = Ok d"
    "verify_pack (encode c) (sha_hex c) (debug c) (share_in_unit c) ed clock d trusted running = Ok ()"
    "deliveries c (items (payload d)) = Ok ds"
    "install q now (registry_record c d) (map vault_record (sources (payload d))) ds s = (Ok out, t)"
    "rep_hash rep = document_hash d" "rep_items rep = length (items (payload d))" "rep_installed rep = installed out" "rep_present rep = already_present out"
  using assms that unfolding install_pack_def
  by (auto simp: fail_def return_def seq_Ok split: result.splits)

lemma install_Err: "install q now p es ds s = (Err e, t) \<Longrightarrow> same_tables s t"
  using ins.atomic [of q now p es ds s e] by (simp add: install_def)

lemma install_pack_Err:
  "install_pack c ed q now clock bytes trusted running s = (Err e, t) \<Longrightarrow> same_tables s t"
  unfolding install_pack_def
  by (auto simp: fail_def return_def seq_def same_tables_def split: result.splits prod.splits dest: install_Err [unfolded same_tables_def])


lemma signed_listed_valid:
  assumes "signed_by ed d trusted"
  shows "signature_valid ed clock (registry_record c d)"
proof -
  have "check_signature ed clock d trusted = Ok ()" using assms by (simp add: check_signature_iff)
  moreover obtain sg where "Packs.from_hex (signature d) = Some sg" "Packs.from_hex (signer d) = Some trusted"
    using assms by (auto simp: signed_by_def)
  ultimately show ?thesis
    by (auto simp: check_signature_def signature_valid_def registry_record_def then_Ok_iff split: result.splits if_splits)
qed

lemma signature_valid_cong:
  "reg_name r = reg_name r' \<Longrightarrow> reg_version r = reg_version r' \<Longrightarrow> reg_signature r = reg_signature r' \<Longrightarrow> reg_signer r = reg_signer r' \<Longrightarrow>
    reg_hash r = reg_hash r' \<Longrightarrow> signature_valid ed clock r = signature_valid ed clock r'"
  by (simp only: signature_valid_def)

lemma map_insort_key: "map f (insort_key f x xs) = insort (f x) (map f xs)"
  by (induction xs) auto

lemma sort_key_map: "map f (sort_key f xs) = sort (map f xs)"
  by (induction xs) (simp_all add: map_insort_key)

lemma po_objectives:
  "decode_payload c manifest = Some p \<Longrightarrow> map po_objective (objectives_from_manifest c manifest) = sort (map node_objective (curriculum p))"
  by (simp add: objectives_from_manifest_def sort_key_map Let_def comp_def)

text \<open>A newly installed pack is listed with a valid signature and the objectives of its curriculum.\<close>

theorem installed_pack_listed:
  assumes run: "install_pack c ed q now clock bytes trusted running s = (Ok rep, t)" and d: "decode_document c bytes = Ok d"
    and new: "registered_as s (registry_record c d) = None"
    and codec: "decode_payload c (encode c (payload d)) = Some (payload d)"
  shows "\<exists>l \<in> set (installed_packs c ed clock' t). reg_name (listed l) = name (payload d) \<and> reg_version (listed l) = version (payload d) \<and>
    listed_valid l \<and> map po_objective (listed_objectives l) = sort (map node_objective (curriculum (payload d)))"
proof -
  obtain ds out where ok: "verify_pack (encode c) (sha_hex c) (debug c) (share_in_unit c) ed clock d trusted running = Ok ()"
    and inst: "install q now (registry_record c d) (map vault_record (sources (payload d))) ds s = (Ok out, t)"
    by (rule install_pack_Ok [OF run]) (use d in auto)
  let ?row = "(registry_record c d)\<lparr>reg_id := out_pack out, reg_created := now\<rparr>"
  have "?row\<lparr>reg_status := []\<rparr> \<in> identities t"
    using install_registers(1) [OF inst] new by (simp add: registered_def)
  then obtain k where k: "k \<in> set (packs t)" and eq: "?row\<lparr>reg_status := []\<rparr> = k\<lparr>reg_status := []\<rparr>"
    unfolding identities_def by blast
  have fields: "reg_name k = name (payload d)" "reg_version k = version (payload d)" "reg_signature k = signature d"
    "reg_signer k = signer d" "reg_hash k = document_hash d" "reg_manifest k = encode c (payload d)"
    using arg_cong [OF eq, of reg_name] arg_cong [OF eq, of reg_version] arg_cong [OF eq, of reg_signature]
      arg_cong [OF eq, of reg_signer] arg_cong [OF eq, of reg_hash] arg_cong [OF eq, of reg_manifest]
    by (simp_all add: registry_record_def)
  have "signed_by ed d trusted" using ok unfolding verify_pack_def by (auto simp: then_Ok_iff check_signature_iff Let_def split: if_splits)
  then have "signature_valid ed clock' (registry_record c d)" by (rule signed_listed_valid)
  moreover have "signature_valid ed clock' k = signature_valid ed clock' (registry_record c d)"
    by (rule signature_valid_cong) (simp_all add: fields registry_record_def)
  ultimately have "signature_valid ed clock' k" by simp
  moreover have "listed_as c ed clock' k \<in> set (installed_packs c ed clock' t)"
    using k by (simp add: installed_packs_def list_packs_def)
  moreover have "map po_objective (listed_objectives (listed_as c ed clock' k)) = sort (map node_objective (curriculum (payload d)))"
    by (simp add: listed_as_def fields po_objectives [OF codec])
  ultimately show ?thesis using fields by (intro bexI [of _ "listed_as c ed clock' k"]) (simp_all add: listed_as_def)
qed

section \<open>A built pack is accepted\<close>

text \<open>What verification asks of an item beyond what the tables guarantee of an active row.\<close>

definition attestable :: "'f item_row \<Rightarrow> bool" where
  "attestable r \<longleftrightarrow>
     row_generator r \<noteq> None \<and> row_verifier r \<noteq> None \<and> trim (row_reviewer r) \<noteq> [] \<and> trim (row_stem r) \<noteq> [] \<and>
     (\<forall>(i, why) \<in> set (row_rationales r). i < length (row_options r) \<and> i \<noteq> row_correct r \<and> int i < 2 ^ 64) \<and>
     (row_subtest r = ''PC'' \<longrightarrow> (\<exists>t. row_passage r = Some t \<and> trim t \<noteq> [])) \<and>
     (row_subtest r = ''MC'' \<longrightarrow> row_proof_kind r = ''executable'')"

definition permitted_source :: "'f evidence_row \<Rightarrow> bool" where
  "permitted_source e \<longleftrightarrow> ev_license e \<in> set PERMITTED_LICENCES \<and> trim (ev_hash e) \<noteq> [] \<and> trim (ev_url e) \<noteq> []"

definition fair_codec :: "'f codec \<Rightarrow> bool" where
  "fair_codec c \<longleftrightarrow> (\<forall>xs. set (id_order c xs) = set xs) \<and> (\<forall>xs. set (node_order c xs) = set xs) \<and> (\<forall>xs. share_in_unit c (share c xs))"

lemma parse_usize_show_nat: "int n < 2 ^ 64 \<Longrightarrow> parse_usize (show_nat n) = Some n"
proof -
  assume n: "int n < 2 ^ 64"
  obtain d ds where s: "show_nat n = d # ds" using show_nat_nonempty [of n] by (cases "show_nat n") auto
  then have "is_digit d" using show_nat_digits [of n] by auto
  then have "d \<noteq> CHR ''+''" by auto
  moreover have "list_all is_digit (show_nat n)" using show_nat_digits by (simp add: list_all_iff)
  ultimately show ?thesis using n digits_val_show_nat [of n] by (simp add: parse_usize_def s)
qed

lemma set_all_items [simp]: "set (all_items s) = set (item_rows s)"
  by (simp add: all_items_def)

lemma active_rows_iff: "r \<in> set (active_rows s) \<longleftrightarrow> r \<in> set (item_rows s) \<and> row_state r = ''active''"
  by (auto simp: active_rows_def)

lemma set_packed_items [simp]: "set (packed_items s) = packed_item s ` set (active_rows s)"
  by (simp add: packed_items_def)

lemma sources_of_iff: "x \<in> set (sources_of i s) \<longleftrightarrow> (i, x) \<in> set (citations s)"
  by (force simp: sources_of_def)

lemma source_record_id [simp]: "source_id (source_record e) = ev_id e"
  by (simp add: source_record_def)

lemma read_sources_Ok:
  "set ids \<subseteq> ev_id ` set (evidence s) \<Longrightarrow>
    \<exists>srcs. read_sources s ids = Ok srcs \<and> source_id ` set srcs = set ids \<and> set srcs \<subseteq> source_record ` set (evidence s)"
proof (induction ids)
  case (Cons i ids)
  then obtain srcs where srcs: "read_sources s ids = Ok srcs" "source_id ` set srcs = set ids" "set srcs \<subseteq> source_record ` set (evidence s)"
    by auto
  obtain e where e: "find (\<lambda>e. ev_id e = i) (evidence s) = Some e" using Cons.prems by (cases "find (\<lambda>e. ev_id e = i) (evidence s)") (auto simp: find_None_iff)
  then have "e \<in> set (evidence s)" "ev_id e = i" by (auto simp: find_Some_iff)
  then have "source_record e \<in> source_record ` set (evidence s)" "source_id (source_record e) = i" by simp_all
  with srcs e show ?case by simp
qed simp

lemma ledger_ids_ok: "db_ok q s \<Longrightarrow> set (ledger_ids s) \<subseteq> ev_id ` set (evidence s)"
proof
  fix x
  assume ok: "db_ok q s" and x: "x \<in> set (ledger_ids s)"
  from x obtain i where "(i, x) \<in> set (citations s)" by (auto simp: ledger_ids_def sources_of_iff)
  then have "x \<in> snd ` set (citations s)" by (metis snd_conv imageI)
  moreover have "snd ` set (citations s) \<subseteq> ev_id ` set (evidence s)" using ok by (simp add: db_ok_def store_ok_def keys_ok_def)
  ultimately show "x \<in> ev_id ` set (evidence s)" by (rule rev_subsetD)
qed

lemma packed_item_ok:
  assumes ok: "db_ok q s" and r: "r \<in> set (active_rows s)" and att: "attestable r"
    and ledger: "set (ledger_ids s) \<subseteq> source_id ` set (sources p)"
  shows "item_ok p (packed_item s r)"
proof -
  have row: "r \<in> set (item_rows s)" "row_state r = ''active''" using r by (auto simp: active_rows_iff)
  have sound: "row_sound q s r" by (rule db_ok_row [OF ok row(1)])
  then have active: "row_ok q r" "active_ok r" "row_id r \<in> fst ` set (citations s)" using row(2) by (auto simp: row_sound_def row_ok_def)
  then obtain x where "(row_id r, x) \<in> set (citations s)" by auto
  then have "x \<in> set (sources_of (row_id r) s)" by (simp add: sources_of_iff)
  then have cites: "sources_of (row_id r) s \<noteq> []" by auto
  have inside: "set (sources_of (row_id r) s) \<subseteq> source_id ` set (sources p)" using ledger r by (auto simp: ledger_ids_def)
  obtain g v where gv: "row_generator r = Some g" "row_verifier r = Some v" using att by (auto simp: attestable_def)
  with active(2) have differ: "g \<noteq> v" by (auto simp: active_ok_def)
  have why: "\<forall>(key, why) \<in> set (distractor_rationales (packed_item s r)). names_wrong_option (packed_item s r) key"
    using att by (auto simp: attestable_def names_wrong_option_def packed_item_def parse_usize_show_nat)
  have kind: "row_subtest r \<in> set COMPUTABLE_SUBTESTS \<longrightarrow> row_proof_kind r = ''executable''"
    using att active(2) by (auto simp: COMPUTABLE_SUBTESTS_def attestable_def active_ok_def)
  have shape: "2 \<le> length (row_options r)" "row_correct r < length (row_options r)" using active(1) by (simp_all add: row_ok_def)
  have words: "trim (row_reviewer r) \<noteq> []" "trim (row_stem r) \<noteq> []"
    "row_subtest r = ''PC'' \<longrightarrow> (\<exists>t. row_passage r = Some t \<and> trim t \<noteq> [])" using att by (simp_all add: attestable_def)
  have sel: "cited (packed_item s r) = sort (sources_of (row_id r) s)" "reviewer (packed_item s r) = row_reviewer r"
    "options (packed_item s r) = row_options r" "correct_index (packed_item s r) = row_correct r" "stem (packed_item s r) = row_stem r"
    "item_subtest (packed_item s r) = row_subtest r" "passage (packed_item s r) = row_passage r" "proof_kind (packed_item s r) = row_proof_kind r"
    "generator_hash (packed_item s r) = row_generator r" "verifier_hash (packed_item s r) = row_verifier r"
    by (simp_all add: packed_item_def)
  have cites': "cited (packed_item s r) \<noteq> []" unfolding sel using cites by (metis set_empty set_sort)
  show ?thesis
    unfolding item_ok_def using why cites' by (simp add: sel inside shape words kind gv differ)
qed

lemma find_node_in: "find_node ns i = Some n \<Longrightarrow> n \<in> set ns"
  unfolding find_node_def find_Some_iff by (metis nth_mem set_rev)

lemma no_prerequisites_order:
  assumes "\<And>n. n \<in> set ns \<Longrightarrow> prerequisites n = []"
  shows "curriculum_order ns (objectives ns)"
proof -
  have none: "prereqs ns i = []" for i using assms find_node_in [of ns i] by (cases "find_node ns i") (auto simp: prereqs_def)
  have "teachable ns S xs" for S xs by (induction xs arbitrary: S) (simp_all add: none)
  then show ?thesis by (simp add: curriculum_order_def learning_order_def objectives_def)
qed

lemma sign_payload_Ok:
  assumes ed: "signature_scheme ed" and p: "name p = req_name req" "version p = req_version req"
  shows "\<exists>d. sign_payload c ed k clock req p = Ok d \<and> payload d = p \<and> document_hash d = ''sha256:'' @ sha_hex c (encode c p) \<and>
    signed_by ed d (public ed k)"
proof -
  obtain h where eq: "''sha256:'' @ sha_hex c (encode c p) = h" by blast
  have h: "trim h \<noteq> []" unfolding eq [symmetric] by (rule trim_nonempty) simp_all
  have "key_of ed (public ed k) \<noteq> None" using ed unfolding signature_scheme_def by blast
  then obtain key where key: "key_of ed (public ed k) = Some key" by blast
  have ed': "length (public ed k) = 32" "length (sign_with ed k m) = 64" "signature_of ed (sign_with ed k m) = Some (sign_with ed k m)"
    "verify_plain ed key m (sign_with ed k m)" for m
    using ed key by (simp_all add: signature_scheme_def)
  let ?m = "length_prefixed [SIGNING_DOMAIN, req_name req, le_bytes 4 (unat (pack_version_of (req_version req))), h]"
  let ?d = "\<lparr>payload = p, document_hash = h, signature = to_hex (sign_with ed k ?m), signer = to_hex (public ed k)\<rparr>"
  have "sign_payload c ed k clock req p = Ok ?d"
    unfolding sign_payload_def computed_content_hash_def pack_document.select_convs eq Let_def
    using h by (simp add: new_pack_def sign_def set_version_def signing_payload_def identity_fields_def)
  moreover have "signed_by ed ?d (public ed k)"
  proof -
    have "sign_with ed k ?m \<noteq> []" "public ed k \<noteq> []" using ed'(1) ed'(2) [of ?m] by fastforce+
    then show ?thesis unfolding signed_by_def by (simp add: from_hex_of_to_hex h ed' key p)
  qed
  ultimately show ?thesis unfolding eq by auto
qed

lemma find_node_objective: "find_node ns i = Some n \<Longrightarrow> node_objective n = i"
  unfolding find_node_def find_Some_iff by blast

lemma default_curriculum_nodes:
  "fair_codec c \<Longrightarrow> n \<in> set (default_curriculum c js) \<longleftrightarrow>
    prerequisites n = [] \<and> node_title n = node_objective n \<and> (node_objective n, node_subtest n) \<in> (\<lambda>j. (item_objective j, item_subtest j)) ` set js"
  by (cases n) (auto simp: default_curriculum_def fair_codec_def image_iff)

lemma default_calibration_entries:
  "map cal_objective (default_calibration c js) = sort (remdups (map item_objective js))"
  by (simp add: default_calibration_def comp_def)

lemma default_curriculum_ok:
  assumes c: "fair_codec c"
    and agree: "\<And>i j. i \<in> set (items p) \<Longrightarrow> j \<in> set (items p) \<Longrightarrow> item_objective i = item_objective j \<Longrightarrow> item_subtest i = item_subtest j"
    and p: "curriculum p = default_curriculum c (items p)" "calibration p = default_calibration c (items p)"
  shows "curriculum_ok (share_in_unit c) p"
proof -
  let ?ns = "default_curriculum c (items p)"
  note nodes = default_curriculum_nodes [OF c, of _ "items p"]
  have known: "node_objective ` set ?ns = item_objective ` set (items p)"
  proof (intro equalityI subsetI)
    fix x assume "x \<in> item_objective ` set (items p)"
    then obtain j where j: "j \<in> set (items p)" "x = item_objective j" by auto
    then have "\<lparr>node_objective = x, node_subtest = item_subtest j, node_title = x, prerequisites = []\<rparr> \<in> set ?ns" by (auto simp: nodes)
    then show "x \<in> node_objective ` set ?ns" by force
  qed (auto simp: nodes image_iff)
  have cal: "cal_objective ` set (default_calibration c (items p)) = item_objective ` set (items p)"
    using arg_cong [OF default_calibration_entries [of c "items p"], of set] by simp
  have find: "\<exists>n. find_node ?ns (item_objective i) = Some n \<and> node_subtest n = item_subtest i" if i: "i \<in> set (items p)" for i
  proof -
    have "item_objective i \<in> node_objective ` set ?ns" using i known by auto
    then obtain n where n: "find_node ?ns (item_objective i) = Some n"
      by (cases "find_node ?ns (item_objective i)") (auto simp: find_node_None)
    then obtain j where "j \<in> set (items p)" "item_objective j = item_objective i" "node_subtest n = item_subtest j"
      using find_node_in [OF n] find_node_objective [OF n] by (auto simp: nodes)
    with n agree [OF _ i] show ?thesis by auto
  qed
  have order: "\<exists>order. curriculum_order ?ns order" using no_prerequisites_order [of ?ns] by (auto simp: nodes)
  have unit: "\<forall>e \<in> set (default_calibration c (items p)). share_in_unit c (expected_correct e)"
    using c by (auto simp: default_calibration_def fair_codec_def)
  show ?thesis
    unfolding curriculum_ok_def p Let_def cal known default_calibration_entries
    using find order unit by (auto simp: nodes)
qed

lemma built_pack_accepted:
  assumes c: "fair_codec c" and ed: "signature_scheme ed" and ok: "db_ok q s" and some: "active_rows s \<noteq> []"
    and req: "req_curriculum req = []" "req_calibration req = []"
    and range: "req_app_min req \<le> running" "running \<le> (case req_app_max req of None \<Rightarrow> MAX_CHAR | Some m \<Rightarrow> m)"
    and att: "\<forall>r \<in> set (active_rows s). attestable r" and src: "\<forall>e \<in> set (evidence s). permitted_source e"
    and agree: "\<forall>r \<in> set (active_rows s). \<forall>r' \<in> set (active_rows s). row_objective r = row_objective r' \<longrightarrow> row_subtest r = row_subtest r'"
  shows "\<exists>d. build_pack c ed k now clock req s = Ok d \<and>
    verify_pack (encode c) (sha_hex c) (debug c) (share_in_unit c) ed clock' d (public ed k) running = Ok ()"
proof -
  have "set (id_order c (ledger_ids s)) = set (ledger_ids s)" using c by (simp add: fair_codec_def)
  then obtain srcs where srcs: "read_sources s (id_order c (ledger_ids s)) = Ok srcs" "source_id ` set srcs = set (ledger_ids s)"
      "set srcs \<subseteq> source_record ` set (evidence s)"
    using read_sources_Ok [of "id_order c (ledger_ids s)" s] ledger_ids_ok [OF ok] by auto
  let ?p = "built_payload c now req s srcs"
  have p: "format ?p = PACK_FORMAT" "schema_version ?p = PACK_SCHEMA_VERSION" "name ?p = req_name req" "version ?p = req_version req"
      "app_min ?p = req_app_min req" "app_max ?p = req_app_max req" "sources ?p = sort_key source_id srcs" "items ?p = packed_items s"
      "curriculum ?p = default_curriculum c (packed_items s)" "calibration ?p = default_calibration c (packed_items s)"
    by (simp_all add: built_payload_def Let_def req)
  obtain d where d: "sign_payload c ed k clock req ?p = Ok d" "payload d = ?p" "document_hash d = ''sha256:'' @ sha_hex c (encode c ?p)"
      "signed_by ed d (public ed k)"
    using sign_payload_Ok [OF ed p(3,4)] by blast
  have built: "build_pack c ed k now clock req s = Ok d" by (simp add: build_pack_def some srcs d(1))
  have items: "\<forall>i \<in> set (items ?p). item_ok ?p i"
    using packed_item_ok [OF ok, of _ ?p] att srcs(2) by (auto simp: p)
  have sources: "\<forall>x \<in> set (sources ?p). licence x \<in> set PERMITTED_LICENCES \<and> trim (source_hash x) \<noteq> [] \<and> trim (url x) \<noteq> []"
    using srcs(3) src by (force simp: p source_record_def permitted_source_def)
  have curriculum: "curriculum_ok (share_in_unit c) ?p"
  proof (rule default_curriculum_ok [OF c])
    fix i j
    assume "i \<in> set (items ?p)" "j \<in> set (items ?p)" and same: "item_objective i = item_objective j"
    then obtain r r' where r: "r \<in> set (active_rows s)" "i = packed_item s r" "r' \<in> set (active_rows s)" "j = packed_item s r'"
      unfolding p(8) set_packed_items by blast
    moreover have "row_objective r = row_objective r'" using same r by (simp add: packed_item_def)
    ultimately have "row_subtest r = row_subtest r'" using agree by blast
    with r show "item_subtest i = item_subtest j" by (simp add: packed_item_def)
  qed (simp_all add: p)
  have hashes: "distinct (map item_hash (items ?p))"
  proof -
    have "distinct (map row_hash (item_rows s))" using ok by (simp add: db_ok_def store_ok_def keys_ok_def)
    then have "distinct (map row_hash (active_rows s))" unfolding active_rows_def all_items_def by (simp add: distinct_map inj_on_def)
    then have "distinct (map (item_hash \<circ> packed_item s) (active_rows s))" by (simp add: packed_item_def comp_def)
    then have "distinct (active_rows s)" "inj_on (item_hash \<circ> packed_item s) (set (active_rows s))" by (simp_all add: distinct_map)
    then show ?thesis unfolding p(8) packed_items_def distinct_map distinct_sort set_sort set_map
      by (auto simp: distinct_map inj_on_def)
  qed
  have "items ?p \<noteq> []" using some unfolding p(8) set_empty [symmetric] set_packed_items by simp
  moreover have "runs_on ?p running" using range by (simp add: runs_on_def p)
  ultimately have "verify_pack (encode c) (sha_hex c) (debug c) (share_in_unit c) ed clock' d (public ed k) running = Ok ()"
    unfolding verify_pack_accepts Let_def d using items sources curriculum hashes d(4) by (simp add: p)
  with built show ?thesis by blast
qed


section \<open>Concrete inputs\<close>

definition sample_codec :: "nat codec" where
  "sample_codec = \<lparr>encode = (\<lambda>_. []), decode_document = (\<lambda>_. Ok tiny_pack), decode_payload = (\<lambda>_. Some tiny_payload), sha_hex = (\<lambda>_. ''ab''),
     debug = id, share_in_unit = (\<lambda>_. True), share = (\<lambda>_. 0), id_order = id, node_order = id, explain_refusal = (\<lambda>_. []), explain_signature = (\<lambda>_. [])\<rparr>"

definition sample_request :: "nat build_request" where
  "sample_request = \<lparr>req_name = ''core'', req_version = 1, req_app_min = ''0.1'', req_app_max = None, req_curriculum = [], req_calibration = []\<rparr>"

definition tiny_install :: "(install_report, store_error) result \<times> nat store" where
  "tiny_install = install_pack sample_codec sample_scheme sample_sql ''now'' 0 [] (replicate 32 (CHR ''k'')) ''0.2'' empty_store"

lemma tiny_install_runs:
  "tiny_install = seq (install sample_sql ''now'' (registry_record sample_codec tiny_pack) (map vault_record (sources tiny_payload)) [delivery_of tiny_item []])
     (\<lambda>out. return \<lparr>rep_name = ''core'', rep_version = 1, rep_hash = ''sha256:ab'', rep_items = 1, rep_installed = installed out,
        rep_present = already_present out, rep_sources_added = added_sources out, rep_sources_reused = reused_sources out\<rparr>) empty_store"
proof -
  have fields: "payload tiny_pack = tiny_payload" "document_hash tiny_pack = ''sha256:ab''" "name tiny_payload = ''core''"
    "version tiny_payload = 1" "items tiny_payload = [tiny_item]"
    "distractor_rationales tiny_item = []"
    by (simp_all add: tiny_pack_def tiny_payload_def tiny_item_def)
  have delivered: "deliveries sample_codec [tiny_item] = Ok [delivery_of tiny_item []]" by (simp add: fields)
  have codec: "decode_document sample_codec b = Ok tiny_pack" "encode sample_codec = (\<lambda>_. [])" "sha_hex sample_codec = (\<lambda>_. ''ab'')"
    "debug sample_codec = id" "share_in_unit sample_codec = (\<lambda>_. True)" for b
    by (simp_all add: sample_codec_def)
  show ?thesis by (simp add: tiny_install_def install_pack_def codec tiny_pack_accepted fields delivered)
qed

lemma tiny_record:
  "registry_record sample_codec tiny_pack = \<lparr>reg_id = [], reg_name = ''core'', reg_version = 1,
     reg_signature = ''6b6b6b6b6b6b6b6b6b6b6b6b6b6b6b6b6b6b6b6b6b6b6b6b6b6b6b6b6b6b6b6b6b6b6b6b6b6b6b6b6b6b6b6b6b6b6b6b6b6b6b6b6b6b6b6b6b6b6b6b6b6b6b6b'',
     reg_signer = ''6b6b6b6b6b6b6b6b6b6b6b6b6b6b6b6b6b6b6b6b6b6b6b6b6b6b6b6b6b6b6b6b'', reg_hash = ''sha256:ab'', reg_schema = 1, reg_manifest = [],
     reg_items = 1, reg_status = [], reg_created = []\<rparr>"
proof -
  have one: "to_hex [CHR ''k''] = ''6b''" by code_simp
  have hex: "to_hex (CHR ''k'' # bs) = ''6b'' @ to_hex bs" for bs using one by (simp add: to_hex_def)
  show ?thesis
    by (simp add: registry_record_def tiny_pack_def tiny_payload_def tiny_item_def sample_codec_def hex eval_nat_numeral PACK_SCHEMA_VERSION_def)
qed

lemma tiny_delivery:
  "delivery_of tiny_item [] = (\<lparr>row_id = ''i'', row_pack = None, row_subtest = ''AR'', row_objective = ''o'', row_state = [], row_stem = ''q'',
     row_passage = None, row_options = [''1'', ''2''], row_correct = 0, row_explanation = [], row_rationales = [], row_difficulty = 0,
     row_proof_kind = ''executable'', row_proof_json = ''{}'', row_reviewer = ''ann'', row_hash = ''c'', row_generator = Some ''g'',
     row_verifier = Some ''v'', row_created = [], row_updated = []\<rparr>, [''e''])"
  by (simp add: delivery_of_def tiny_item_def)

lemma tiny_vault:
  "map vault_record (sources tiny_payload) = [\<lparr>ev_id = ''e'', ev_hash = ''h'', ev_url = ''u'', ev_title = [], ev_license = ''Public domain'',
     ev_date = [], ev_trust = 1, ev_status = [], ev_created = []\<rparr>]"
  by (simp add: vault_record_def tiny_payload_def)

lemma tiny_install_Ok: "\<exists>rep t. tiny_install = (Ok rep, t)"
proof -
  have "case fst (install sample_sql ''now'' (registry_record sample_codec tiny_pack) (map vault_record (sources tiny_payload))
      [delivery_of tiny_item []] empty_store) of Ok p \<Rightarrow> True | Err _ \<Rightarrow> False"
    unfolding tiny_record tiny_delivery tiny_vault by code_simp
  then show ?thesis unfolding tiny_install_runs by (auto simp: seq_def return_def split: prod.splits result.splits)
qed


theorem installed_pack_listed_witness:
  "\<exists>rep t l. install_pack sample_codec sample_scheme sample_sql ''now'' 0 [] (replicate 32 (CHR ''k'')) ''0.2'' empty_store = (Ok rep, t) \<and>
     l \<in> set (installed_packs sample_codec sample_scheme 5 t) \<and> listed_valid l \<and> map po_objective (listed_objectives l) = [''o'']"
proof -
  obtain rep t where run: "install_pack sample_codec sample_scheme sample_sql ''now'' 0 [] (replicate 32 (CHR ''k'')) ''0.2'' empty_store = (Ok rep, t)"
    using tiny_install_Ok by (auto simp: tiny_install_def)
  have d: "decode_document sample_codec [] = Ok tiny_pack" "decode_payload sample_codec (encode sample_codec (payload tiny_pack)) = Some (payload tiny_pack)"
    by (simp_all add: sample_codec_def tiny_pack_def)
  have new: "registered_as empty_store (registry_record sample_codec tiny_pack) = None" by (simp add: registered_as_def empty_store_def)
  have "map node_objective (curriculum (payload tiny_pack)) = [''o'']" by (simp add: tiny_pack_def tiny_payload_def)
  with installed_pack_listed [OF run d(1) new d(2), of 5] show ?thesis unfolding run by auto
qed


end
