(* ===== verification/Pipeline.thy ===== *)
theory Pipeline
  imports Pack_Registry
begin

text \<open>
  The content pipeline of \<open>crates/vector-application/src/content.rs\<close>, without what is particular to a
  source: storing one verified item, the run over a list of items and its report, serving, and the
  operations of the content manager. A lane is the record of what a kind of item contributes: its
  hash, the question it asks, what is submitted for it and its name in a report. \<open>None\<close> is a panic.
\<close>

section \<open>Storing one item\<close>

record 'f lane_env =
  sql :: "'f sql"
  debug :: "string \<Rightarrow> string"
  explain_error :: "store_error \<Rightarrow> string"
  today :: string

record 'f submission =
  sub_row :: "'f item_row"
  sub_sources :: "string list"
  sub_verifier :: string
  sub_actor :: string
  sub_reviewer :: string
  sub_note :: string

definition new_item :: "string \<Rightarrow> string \<Rightarrow> string \<Rightarrow> string option \<Rightarrow> string list \<Rightarrow> nat \<Rightarrow> string \<Rightarrow> (nat \<times> string) list \<Rightarrow> 'f \<Rightarrow>
    string \<Rightarrow> string \<Rightarrow> string \<Rightarrow> string option \<Rightarrow> 'f item_row" where
  "new_item sub obj stem passage opts correct explanation why difficulty kind proof hash generator =
     \<lparr>row_id = [], row_pack = None, row_subtest = sub, row_objective = obj, row_state = [], row_stem = stem, row_passage = passage,
      row_options = opts, row_correct = correct, row_explanation = explanation, row_rationales = why, row_difficulty = difficulty,
      row_proof_kind = kind, row_proof_json = proof, row_reviewer = [], row_hash = hash, row_generator = generator, row_verifier = None,
      row_created = [], row_updated = []\<rparr>"

text \<open>The steps after the row exists, and \<open>finish_item\<close>, which discards the draft when one fails.\<close>

definition record_verifier :: "'f sql \<Rightarrow> string \<Rightarrow> string \<Rightarrow> ('f store, unit) prog" where
  "record_verifier q i v = update_row q i (\<lambda>r. r\<lparr>row_verifier := Some v\<rparr>)"

definition complete_item :: "'f lane_env \<Rightarrow> string \<Rightarrow> 'f submission \<Rightarrow> ('f store, unit) prog" where
  "complete_item e i b =
     seq (each_do (cite i) (sub_sources b)) (\<lambda>_.
     seq (record_verifier (sql e) i (sub_verifier b)) (\<lambda>_.
     seq (walk_to_content_reviewed (sql e) (debug e) (today e) i (sub_actor b)) (\<lambda>_.
     activate (sql e) (debug e) (today e) i (sub_reviewer b) (sub_note b))))"

definition finish_item :: "'f lane_env \<Rightarrow> string \<Rightarrow> ('f store, unit) prog \<Rightarrow> ('f store, string) prog" where
  "finish_item e i work s =
     (case work s of
        (Ok _, t) \<Rightarrow> (Ok i, t)
      | (Err x, t) \<Rightarrow>
          (case discard_draft i t of
             (Err y, t') \<Rightarrow> (Err (Refused (''and the draft it left behind could not be discarded: '' @ explain_error e y)), t')
           | (Ok _, t') \<Rightarrow> (Err x, t')))"

definition store_submission :: "'f lane_env \<Rightarrow> 'f submission \<Rightarrow> ('f store, string) prog" where
  "store_submission e b =
     seq (draw_id (sql e) ''q'') (\<lambda>i.
     seq (insert_draft (sql e) (today e) ((sub_row b)\<lparr>row_id := i\<rparr>)) (\<lambda>_.
     finish_item e i (complete_item e i b)))"

section \<open>A run over the items of a lane\<close>

record ('i, 'f) lane =
  lane_hash :: "'i \<Rightarrow> string"
  lane_question :: "'i \<Rightarrow> (string \<times> string \<times> string \<times> string option) option"
  lane_submit :: "'i \<Rightarrow> ('f submission, string) result option"
  lane_name :: "'i \<Rightarrow> string"

record tally =
  run_verified :: nat
  run_activated :: nat
  run_present :: nat
  run_rejected :: "(string \<times> string) list"
  run_ids :: "string list"

definition empty_tally :: tally where
  "empty_tally = \<lparr>run_verified = 0, run_activated = 0, run_present = 0, run_rejected = [], run_ids = []\<rparr>"

definition is_clean :: "tally \<Rightarrow> bool" where
  "is_clean t \<longleftrightarrow> run_rejected t = []"

definition content_hash_exists :: "string \<Rightarrow> 'f store \<Rightarrow> bool" where
  "content_hash_exists h s \<longleftrightarrow> 0 < length (filter (\<lambda>r. row_hash r = h) (item_rows s))"

definition store_verified :: "'f lane_env \<Rightarrow> ('i, 'f) lane \<Rightarrow> 'i \<Rightarrow> 'f store \<Rightarrow> ((string, store_error) result \<times> 'f store) option" where
  "store_verified e L i s =
     (case lane_submit L i of
        None \<Rightarrow> None
      | Some (Err why) \<Rightarrow> Some (Err (Refused why), s)
      | Some (Ok b) \<Rightarrow> Some (store_submission e b s))"

definition is_stored :: "('i, 'f) lane \<Rightarrow> 'i \<Rightarrow> 'f store \<Rightarrow> bool option" where
  "is_stored L i s =
     (if content_hash_exists (lane_hash L i) s then Some True
      else case lane_question L i of
        None \<Rightarrow> None
      | Some (sub, stem, correct, passage) \<Rightarrow> Some (question_exists sub stem correct passage s))"

definition note_outcome :: "'f lane_env \<Rightarrow> string \<Rightarrow> (string, store_error) result \<Rightarrow> tally \<Rightarrow> tally" where
  "note_outcome e name r t =
     (case r of
        Ok i \<Rightarrow> t\<lparr>run_verified := run_verified t + 1, run_activated := run_activated t + 1, run_ids := run_ids t @ [i]\<rparr>
      | Err x \<Rightarrow> t\<lparr>run_rejected := run_rejected t @ [(name, explain_error e x)]\<rparr>)"

fun run_lane :: "'f lane_env \<Rightarrow> ('i, 'f) lane \<Rightarrow> 'i list \<Rightarrow> tally \<Rightarrow> 'f store \<Rightarrow> (tally \<times> 'f store) option" where
  "run_lane e L [] t s = Some (t, s)"
| "run_lane e L (i # js) t s =
     (case is_stored L i s of
        None \<Rightarrow> None
      | Some True \<Rightarrow> run_lane e L js (t\<lparr>run_present := run_present t + 1\<rparr>) s
      | Some False \<Rightarrow>
          (case store_verified e L i s of
             None \<Rightarrow> None
           | Some (r, s') \<Rightarrow> run_lane e L js (note_outcome e (lane_name L i) r t) s'))"

text \<open>A run that stored nothing and met nothing it already held is an error; \<open>whole\<close> is what it is told about.\<close>

definition stored_nothing :: "string \<Rightarrow> tally \<Rightarrow> store_error" where
  "stored_nothing whole t =
     Refused (whole @ '' stored nothing: all '' @ show_nat (length (run_rejected t)) @ '' item(s) were refused; first reason: '' @
       (case run_rejected t of [] \<Rightarrow> ''no reason recorded'' | (_, why) # _ \<Rightarrow> why))"

definition run_or_fail :: "'f lane_env \<Rightarrow> ('i, 'f) lane \<Rightarrow> string \<Rightarrow> 'i list \<Rightarrow> 'f store \<Rightarrow> ((tally, store_error) result \<times> 'f store) option" where
  "run_or_fail e L whole js s =
     (case run_lane e L js empty_tally s of
        None \<Rightarrow> None
      | Some (t, s') \<Rightarrow>
          Some (if run_activated t = 0 \<and> run_present t = 0 then Err (stored_nothing whole t) else Ok t, s'))"

section \<open>Serving\<close>

definition pick :: "'f item_row list \<Rightarrow> string list \<Rightarrow> 'f item_row option" where
  "pick rs seen =
     (case find (\<lambda>r. row_id r \<notin> set seen) rs of
        Some r \<Rightarrow> Some r
      | None \<Rightarrow> (case rs of [] \<Rightarrow> None | r # _ \<Rightarrow> Some r))"

record 'f item_dto =
  dto_id :: string
  dto_subtest :: string
  dto_objective :: string
  dto_stem :: string
  dto_passage :: "string option"
  dto_options :: "string list"
  dto_correct :: nat
  dto_explanation :: string
  dto_rationales :: "(nat \<times> string) list"
  dto_difficulty :: 'f

definition dto_of :: "'f item_row \<Rightarrow> 'f item_dto" where
  "dto_of r = \<lparr>dto_id = row_id r, dto_subtest = row_subtest r, dto_objective = row_objective r, dto_stem = row_stem r,
     dto_passage = row_passage r, dto_options = row_options r, dto_correct = row_correct r, dto_explanation = row_explanation r,
     dto_rationales = row_rationales r, dto_difficulty = row_difficulty r\<rparr>"

definition next_item_for :: "string \<Rightarrow> string option \<Rightarrow> string list \<Rightarrow> 'f store \<Rightarrow> 'f item_dto option" where
  "next_item_for sub obj seen s =
     (case (case obj of None \<Rightarrow> None | Some x \<Rightarrow> pick (servable_in sub (Some x) s) seen) of
        Some r \<Rightarrow> Some (dto_of r)
      | None \<Rightarrow> map_option dto_of (pick (servable sub s) seen))"

definition next_item :: "string \<Rightarrow> string list \<Rightarrow> 'f store \<Rightarrow> 'f item_dto option" where
  "next_item sub = next_item_for sub None"

section \<open>The content manager\<close>

record content_stats =
  st_total :: nat
  st_servable :: nat
  st_sources :: nat
  by_state :: "(string \<times> nat) list"
  by_subtest :: "(string \<times> nat) list"

definition stats :: "'f store \<Rightarrow> content_stats" where
  "stats s = \<lparr>st_total = length (item_rows s), st_servable = length (filter (\<lambda>r. row_state r = ''active'') (item_rows s)),
     st_sources = length (evidence s), by_state = counts_by_state s,
     by_subtest = map (\<lambda>x. (x, length (filter (\<lambda>r. row_subtest r = x) (item_rows s)))) (sort (remdups (map row_subtest (item_rows s))))\<rparr>"

record 'f source_dto =
  src_id :: string
  src_title :: string
  src_url :: string
  src_licence :: string
  src_trust :: 'f
  src_items :: nat

definition sources :: "'f store \<Rightarrow> 'f source_dto list" where
  "sources s = map (\<lambda>e. \<lparr>src_id = ev_id e, src_title = ev_title e, src_url = ev_url e, src_licence = ev_license e, src_trust = ev_trust e,
       src_items = length (filter (\<lambda>c. snd c = ev_id e) (citations s))\<rparr>)
     (sort_key ev_created (sort_key ev_id (evidence s)))"

text \<open>\<open>truncate\<close>: the ellipsis is three bytes; \<open>rsplit_once\<close> cuts at the last space.\<close>

definition ELLIPSIS :: string where
  "ELLIPSIS = [CHR 0xE2, CHR 0x80, CHR 0xA6]"

definition before_last_space :: "string \<Rightarrow> string option" where
  "before_last_space s =
     (case dropWhile (\<lambda>c. c \<noteq> CHR '' '') (rev s) of [] \<Rightarrow> None | _ # rest \<Rightarrow> Some (rev rest))"

definition truncate_text :: "string \<Rightarrow> nat \<Rightarrow> string" where
  "truncate_text s limit =
     (let cleaned = collapse s in
      if length (chars cleaned) \<le> limit then cleaned
      else let cut = concat (take limit (chars cleaned)) in
        (case before_last_space cut of Some head \<Rightarrow> head @ ELLIPSIS | None \<Rightarrow> cut @ ELLIPSIS))"

record item_summary =
  sum_id :: string
  sum_subtest :: string
  sum_state :: string
  sum_objective :: string
  sum_preview :: string
  sum_answer :: string
  sum_reviewer :: string
  sum_hash :: string
  sum_sources :: "string list"

definition summary_of :: "'f store \<Rightarrow> 'f item_row \<Rightarrow> item_summary" where
  "summary_of s r = \<lparr>sum_id = row_id r, sum_subtest = row_subtest r, sum_state = row_state r, sum_objective = row_objective r,
     sum_preview = truncate_text (row_stem r) 120,
     sum_answer = (if row_correct r < length (row_options r) then row_options r ! row_correct r else []),
     sum_reviewer = row_reviewer r, sum_hash = row_hash r, sum_sources = sources_of (row_id r) s\<rparr>"

definition wanted :: "string option \<Rightarrow> string \<Rightarrow> bool" where
  "wanted filter_by x \<longleftrightarrow> (case filter_by of None \<Rightarrow> True | Some y \<Rightarrow> x = y)"

fun list_items :: "'f store \<Rightarrow> string option \<Rightarrow> string option \<Rightarrow> nat \<Rightarrow> 'f item_row list \<Rightarrow> item_summary list \<Rightarrow> item_summary list" where
  "list_items s sub st limit [] out = out"
| "list_items s sub st limit (r # rs) out =
     (if \<not> wanted sub (row_subtest r) \<or> \<not> wanted st (row_state r) then list_items s sub st limit rs out
      else if limit \<le> length out then out
      else list_items s sub st limit rs (out @ [summary_of s r]))"

definition items :: "string option \<Rightarrow> string option \<Rightarrow> nat \<Rightarrow> 'f store \<Rightarrow> item_summary list" where
  "items sub st limit s = list_items s sub st limit (all_items s) []"

definition quarantine_item :: "'f lane_env \<Rightarrow> string \<Rightarrow> string \<Rightarrow> string \<Rightarrow> ('f store, unit) prog" where
  "quarantine_item e i actor why = query (\<lambda>s.
     case find_row s i of
       None \<Rightarrow> fail (Refused (''no such content item: '' @ i))
     | Some r \<Rightarrow>
         if row_state r = ''quarantined'' then fail (Refused (i @ '' is already quarantined''))
         else advance (sql e) (debug e) (today e) i ''quarantined'' actor why)"

definition reinstate_item :: "'f lane_env \<Rightarrow> string \<Rightarrow> string \<Rightarrow> string \<Rightarrow> ('f store, unit) prog" where
  "reinstate_item e i actor why = query (\<lambda>s.
     case find_row s i of
       None \<Rightarrow> fail (Refused (''no such content item: '' @ i))
     | Some r \<Rightarrow>
         if row_state r \<noteq> ''quarantined''
         then fail (Refused (i @ '' is '' @ row_state r @ '' and not quarantined, so there is nothing to reinstate''))
         else if trim_text (row_reviewer r) = []
         then fail (Refused (i @ '' has no reviewer recorded, so it cannot be returned to service''))
         else
           seq (advance (sql e) (debug e) (today e) i ''draft'' actor why) (\<lambda>_.
           seq (walk_to_content_reviewed (sql e) (debug e) (today e) i actor) (\<lambda>_.
           activate (sql e) (debug e) (today e) i (row_reviewer r) why)))"

record 'f manager_view =
  view_stats :: content_stats
  view_sources :: "'f source_dto list"
  view_items :: "item_summary list"

definition manager_view :: "nat \<Rightarrow> 'f store \<Rightarrow> 'f manager_view" where
  "manager_view limit s = \<lparr>view_stats = stats s, view_sources = sources s, view_items = items None None limit s\<rparr>"

text \<open>\<open>ensure_construct_source\<close>; the trust 0.9 is the argument \<open>nine_tenths\<close>.\<close>

definition ensure_construct_source :: "'f lane_env \<Rightarrow> 'f \<Rightarrow> ('f store, string) prog" where
  "ensure_construct_source e nine_tenths = put_evidence (sql e) (today e)
     \<lparr>ev_id = [], ev_hash = ''sha256:asvab-subtest-constructs-2026-09-22'',
      ev_url = ''https://www.officialasvab.com/applicants/sample-questions/'',
      ev_title = ''ASVAB subtest construct definitions (facts only)'', ev_license = ''Facts-only; item text is original work'',
      ev_date = ''2026-09-22'', ev_trust = nine_tenths, ev_status = ''retrieved'', ev_created = []\<rparr>"

section \<open>Every step keeps the database sound\<close>

lemma keeps_finish: "keeps (db_ok q) work \<Longrightarrow> keeps (db_ok q) (finish_item e i work)"
  unfolding keeps_def finish_item_def
  by (auto split: prod.splits result.splits) (metis db_repo_keeps(3) keeps_def snd_conv)+

lemma keeps_record_verifier: "keeps (db_ok q) (record_verifier q i v)"
  using db_update_row [of "\<lambda>r. r\<lparr>row_verifier := Some v\<rparr>" "\<lambda>_. True" i q]
  by (simp add: record_verifier_def update_row_def keeps_of_valid)

lemma keeps_complete: "keeps (db_ok (sql e)) (complete_item e i b)"
  unfolding complete_item_def by (intro keeps_seq keeps_each db_repo_keeps keeps_record_verifier)

lemma keeps_store_submission: "keeps (db_ok (sql e)) (store_submission e b)"
  unfolding store_submission_def by (intro keeps_seq keeps_finish keeps_complete db_keeps_draw db_repo_keeps)

lemma keeps_quarantine: "keeps (db_ok (sql e)) (quarantine_item e i actor why)"
  unfolding quarantine_item_def
  by (rule keeps_query) (simp add: db_keeps_advance split: option.split)

lemma keeps_reinstate: "keeps (db_ok (sql e)) (reinstate_item e i actor why)"
  unfolding reinstate_item_def
  by (rule keeps_query) (auto intro!: keeps_seq db_repo_keeps split: option.split)

inductive app_step :: "'f lane_env \<Rightarrow> 'f store \<Rightarrow> 'f store \<Rightarrow> bool" for e where
  database: "db_step (sql e) (debug e) s t \<Longrightarrow> app_step e s t"
| storing: "app_step e s (snd (store_submission e b s))"
| quarantining: "app_step e s (snd (quarantine_item e i actor why s))"
| reinstating: "app_step e s (snd (reinstate_item e i actor why s))"
| construct: "app_step e s (snd (ensure_construct_source e x s))"

lemma app_step_ok: "app_step e s t \<Longrightarrow> db_ok (sql e) s \<Longrightarrow> db_ok (sql e) t"
proof (induction rule: app_step.induct)
  case (database s t)
  then show ?case by (simp add: db_step_ok)
qed (simp_all add: ensure_construct_source_def keeps_store_submission [unfolded keeps_def, rule_format] keeps_quarantine [unfolded keeps_def, rule_format]
  keeps_reinstate [unfolded keeps_def, rule_format] db_keeps_put_evidence [unfolded keeps_def, rule_format])

lemma reachable_app_ok: "(app_step e)\<^sup>*\<^sup>* empty_store s \<Longrightarrow> db_ok (sql e) s"
  by (induction rule: rtranclp_induct) (simp_all add: db_ok_empty app_step_ok)

lemma store_verified_step: "store_verified e L i s = Some (r, t) \<Longrightarrow> (app_step e)\<^sup>*\<^sup>* s t"
  unfolding store_verified_def
  by (auto split: option.splits result.splits) (metis app_step.storing r_into_rtranclp snd_conv)

lemma run_lane_steps: "run_lane e L js t s = Some (t', s') \<Longrightarrow> (app_step e)\<^sup>*\<^sup>* s s'"
proof (induction js arbitrary: t s)
  case (Cons i js)
  then show ?case
    by (auto split: option.splits bool.splits) (meson rtranclp_trans store_verified_step)+
qed simp

section \<open>The course of one submission\<close>

text \<open>\<open>extends s r cs vs t\<close>: \<open>t\<close> is \<open>s\<close> with the one row \<open>r\<close> added, its citations \<open>cs\<close> and its audit rows \<open>vs\<close>.\<close>

definition extends :: "'f store \<Rightarrow> 'f item_row \<Rightarrow> string list \<Rightarrow> review_row list \<Rightarrow> 'f store \<Rightarrow> bool" where
  "extends s r cs vs t \<longleftrightarrow>
     t = s\<lparr>item_rows := item_rows s @ [r], citations := citations s @ map (Pair (row_id r)) cs, reviews := reviews s @ vs, drawn := drawn t\<rparr> \<and>
     (\<forall>v \<in> set vs. review_item v = row_id r)"

lemma extends_fields:
  assumes "extends s r cs vs t"
  shows "item_rows t = item_rows s @ [r]" "citations t = citations s @ map (Pair (row_id r)) cs" "reviews t = reviews s @ vs"
    "evidence t = evidence s" "packs t = packs s" "members t = members s" "item_ids t = insert (row_id r) (item_ids s)"
proof -
  let ?t = "s\<lparr>item_rows := item_rows s @ [r], citations := citations s @ map (Pair (row_id r)) cs, reviews := reviews s @ vs, drawn := drawn t\<rparr>"
  have t: "t = ?t" using assms by (simp add: extends_def)
  show "item_rows t = item_rows s @ [r]" by (subst t) simp
  then show "item_ids t = insert (row_id r) (item_ids s)" by (simp add: item_ids_def)
  show "citations t = citations s @ map (Pair (row_id r)) cs" by (subst t) simp
  show "reviews t = reviews s @ vs" by (subst t) simp
  show "evidence t = evidence s" by (subst t) simp
  show "packs t = packs s" by (subst t) simp
  show "members t = members s" by (subst t) simp
qed

lemma not_in_ids: "i \<notin> item_ids s \<Longrightarrow> x \<in> set (item_rows s) \<Longrightarrow> row_id x \<noteq> i"
  by (auto simp: item_ids_def)

lemma find_snoc: "(\<And>x. x \<in> set xs \<Longrightarrow> \<not> P x) \<Longrightarrow> P y \<Longrightarrow> find P (xs @ [y]) = Some y"
  by (induction xs) auto

lemma extends_find: "extends s r cs vs t \<Longrightarrow> row_id r \<notin> item_ids s \<Longrightarrow> find_row t (row_id r) = Some r"
  unfolding find_row_def by (simp add: extends_fields find_snoc not_in_ids)

lemma extends_drawn: "extends s r cs vs t \<Longrightarrow> extends s r cs vs (t\<lparr>drawn := n\<rparr>)"
  unfolding extends_def by (metis (no_types, lifting) store.surjective store.update_convs(7) store.select_convs(7))

lemma same_tables_drawn: "same_tables t t' \<Longrightarrow> extends s r cs vs t \<Longrightarrow> extends s r cs vs t'"
  using extends_drawn [of s r cs vs t "drawn t'"] by (simp add: same_tables_def)

lemma extends_change:
  assumes ext: "extends s r cs vs t" and new: "row_id r \<notin> item_ids s" and same: "row_id (f r) = row_id r"
  shows "extends s (f r) cs vs (change_row (row_id r) f t)"
proof -
  have "map (\<lambda>x. if row_id x = row_id r then f x else x) (item_rows s) = item_rows s"
    using not_in_ids [OF new] by (intro map_idI) simp
  then have "change_row (row_id r) f t = t\<lparr>item_rows := item_rows s @ [f r]\<rparr>" by (simp add: change_row_def extends_fields(1) [OF ext])
  with ext same show ?thesis by (cases s) (cases t, simp add: extends_def)
qed

lemma extends_only: "extends s r cs vs t \<Longrightarrow> row_id r \<notin> item_ids s \<Longrightarrow> (\<forall>x \<in> set (item_rows t). row_id x = row_id r \<longrightarrow> P x) \<longleftrightarrow> P r"
  using not_in_ids [of "row_id r" s] by (auto simp: extends_fields)

lemma update_extends:
  assumes "extends s r cs vs t" "row_id r \<notin> item_ids s" "row_id (f r) = row_id r"
  shows "update_row q (row_id r) f t =
    (if passage_ok (f r) \<and> row_ok q (f r) then (Ok (), change_row (row_id r) f t) else (Err (Constraint ''content_items''), t))"
  using extends_only [OF assms(1,2)] by (simp add: update_row_def statement_def)

text \<open>One transition, and when it succeeds.\<close>

definition transition :: "'f sql \<Rightarrow> nat \<Rightarrow> string \<Rightarrow> string \<Rightarrow> string \<Rightarrow> string \<Rightarrow> string \<Rightarrow> string \<Rightarrow> review_row" where
  "transition q n now i from to actor why = \<lparr>review_id = ''rev'' @ ''-'' @ uuid q n, review_item = i, review_from = from, review_to = to,
     review_actor = actor, review_rationale = why, review_at = now\<rparr>"

lemma advance_extends:
  assumes ext: "extends s r cs vs t" and new: "row_id r \<notin> item_ids s"
    and run: "advance q dbg now (row_id r) to actor why t = (res, t')"
  shows "case res of
      Ok _ \<Rightarrow> extends s (r\<lparr>row_state := to, row_updated := now\<rparr>) cs (vs @ [transition q (drawn t) now (row_id r) (row_state r) to actor why]) t' \<and>
        drawn t' = drawn t + 1
    | Err _ \<Rightarrow> extends s r cs vs t'"
proof (cases res)
  case (Err e)
  then have "same_tables t t'"
    using run by (auto simp: advance_def fail_def same_tables_def transaction_def split: if_splits prod.splits result.splits)
  with Err same_tables_drawn [OF _ ext] show ?thesis by simp
next
  case (Ok v)
  let ?i = "row_id r" and ?f = "\<lambda>r. r\<lparr>row_state := to, row_updated := now\<rparr>"
  let ?v = "transition q (drawn t) now ?i (row_state r) to actor why"
  have "advance_body q now ?i to actor why t = (Ok v, t')"
    using run Ok by (auto simp: advance_def fail_def transaction_def split: if_splits prod.splits result.splits)
  then have "move_item q now ?i (row_state r) to actor why t = (Ok v, t')"
    using extends_find [OF ext new] by (simp add: advance_body_def query_def)
  then have t': "t' = (change_row ?i ?f t)\<lparr>drawn := drawn t + 1, reviews := reviews t @ [?v]\<rparr>"
    unfolding move_item_def by (auto simp: seq_Ok set_state_def statement_Ok draw_id_def insert_review_def transition_def)
  have "extends s (?f r) cs vs (change_row ?i ?f t)" by (rule extends_change [OF ext new]) simp
  then have "extends s (?f r) cs (vs @ [?v]) t'"
    unfolding t' extends_fields(3) [OF ext] by (cases s) (cases "change_row ?i ?f t", simp add: extends_def transition_def)
  with Ok t' show ?thesis by simp
qed

lemma advance_succeeds:
  assumes ext: "extends s r cs vs t" and new: "row_id r \<notin> item_ids s" and to: "to \<in> set STATES" and actor: "\<not> blank actor"
    and row: "passage_ok r" "row_ok q (r\<lparr>row_state := to, row_updated := now\<rparr>)" "may_move (row_state r) to"
    and cited: "to = ''active'' \<Longrightarrow> cs \<noteq> []"
    and fresh: "''rev'' @ ''-'' @ uuid q (drawn t) \<notin> review_id ` set (reviews t)"
  shows "\<exists>t'. advance q dbg now (row_id r) to actor why t = (Ok (), t')"
proof -
  let ?i = "row_id r" and ?f = "\<lambda>r. r\<lparr>row_state := to, row_updated := now\<rparr>"
  have only: "(\<forall>x \<in> set (item_rows t). row_id x = ?i \<longrightarrow> P x) \<longleftrightarrow> P r" for P by (rule extends_only [OF ext new])
  have "to = ''active'' \<longrightarrow> ?i \<in> fst ` set (citations t)"
    using cited by (cases cs) (auto simp: extends_fields(2) [OF ext])
  then have set: "set_state q now ?i to t = (Ok (), change_row ?i ?f t)"
    unfolding set_state_def statement_def only using row by simp
  have member: "?i \<in> item_ids (change_row ?i ?f t)"
    using extends_fields(7) [OF ext] by (simp add: item_ids_change)
  have "\<exists>t'. move_item q now ?i (row_state r) to actor why t = (Ok (), t')"
    unfolding move_item_def using set member actor fresh
    by (simp add: seq_def draw_id_def insert_review_def statement_def)
  then have "\<exists>t'. advance_body q now ?i to actor why t = (Ok (), t')"
    using extends_find [OF ext new] by (simp add: advance_body_def query_def)
  with to show ?thesis by (auto simp: advance_def transaction_def)
qed

text \<open>The moves of an item through the pipeline.\<close>

definition pipeline_moves :: "(string \<times> string) list" where
  "pipeline_moves = [(''draft'', ''machine_validated''), (''machine_validated'', ''independent_verified''),
     (''independent_verified'', ''content_reviewed''), (''content_reviewed'', ''active'')]"

definition moves_of :: "review_row list \<Rightarrow> (string \<times> string) list" where
  "moves_of vs = map (\<lambda>v. (review_from v, review_to v)) vs"

lemma extends_cite:
  assumes "extends s r cs vs t"
  shows "cite (row_id r) src t = (Ok (), t') \<Longrightarrow> extends s r (cs @ [src]) vs t'"
    and "cite (row_id r) src t = (Err e, t') \<Longrightarrow> t' = t"
proof -
  show "t' = t" if "cite (row_id r) src t = (Err e, t')" using that by (simp add: cite_def insert_citation_def statement_def split: if_splits)
  assume "cite (row_id r) src t = (Ok (), t')"
  then have "t' = t\<lparr>citations := citations t @ [(row_id r, src)]\<rparr>" by (simp add: cite_def insert_citation_def statement_Ok)
  with assms show "extends s r (cs @ [src]) vs t'" unfolding extends_fields(2) [OF assms] by (cases s) (cases t, simp add: extends_def)
qed

lemma extends_cites:
  "extends s r cs vs t \<Longrightarrow> each_do (cite (row_id r)) srcs t = (res, t') \<Longrightarrow>
    \<exists>cs'. extends s r (cs @ cs') vs t' \<and> (res = Ok () \<longrightarrow> cs' = srcs)"
proof (induction srcs arbitrary: cs t)
  case Nil
  then have "t' = t" by (simp add: return_def)
  with Nil(1) show ?case by (intro exI [of _ "[]"]) simp
next
  case (Cons src srcs)
  show ?case
  proof (cases "cite (row_id r) src t")
    case (Pair x u)
    show ?thesis
    proof (cases x)
      case (Err e)
      with Pair Cons.prems extends_cite(2) [OF Cons.prems(1)] have "t' = t" "res \<noteq> Ok ()" by (auto simp: seq_def)
      with Cons.prems(1) show ?thesis by (intro exI [of _ "[]"]) simp
    next
      case (Ok v)
      with Pair have "extends s r (cs @ [src]) vs u" using extends_cite(1) [OF Cons.prems(1)] by simp
      moreover have "each_do (cite (row_id r)) srcs u = (res, t')" using Pair Ok Cons.prems(2) by (simp add: seq_def)
      ultimately obtain cs' where "extends s r ((cs @ [src]) @ cs') vs t'" "res = Ok () \<longrightarrow> cs' = srcs" using Cons.IH by blast
      then show ?thesis by (intro exI [of _ "src # cs'"]) simp
    qed
  qed
qed

text \<open>A walk ends in the state it reached; only a complete one succeeds.\<close>

lemma walk_extends:
  "extends s r cs vs t \<Longrightarrow> row_id r \<notin> item_ids s \<Longrightarrow>
    each_do (\<lambda>to. advance q dbg now (row_id r) to actor why) tos t = (res, t') \<Longrightarrow>
    \<exists>done vs'. (tos = done \<or> res \<noteq> Ok () \<and> length done < length tos \<and> take (length done) tos = done) \<and>
      extends s (if done = [] then r else r\<lparr>row_state := last done, row_updated := now\<rparr>) cs (vs @ vs') t' \<and>
      moves_of vs' = zip (row_state r # done) done"
proof (induction tos arbitrary: r vs t)
  case Nil
  then have "t' = t" by (simp add: return_def)
  with Nil(1) show ?case by (intro exI [of _ "[]"]) (simp add: moves_of_def)
next
  case (Cons to tos)
  obtain x u where step: "advance q dbg now (row_id r) to actor why t = (x, u)" by (cases "advance q dbg now (row_id r) to actor why t")
  note one = advance_extends [OF Cons.prems(1,2) step]
  show ?case
  proof (cases x)
    case (Err e)
    with one have "extends s r cs vs u" by simp
    moreover have "t' = u" "res \<noteq> Ok ()" using Cons.prems(3) step Err by (auto simp: seq_def)
    ultimately show ?thesis by (intro exI [of _ "[]"]) (simp add: moves_of_def)
  next
    case (Ok v)
    let ?r = "r\<lparr>row_state := to, row_updated := now\<rparr>" and ?v = "transition q (drawn t) now (row_id r) (row_state r) to actor why"
    have "extends s ?r cs (vs @ [?v]) u" using one Ok by simp
    moreover have "row_id ?r \<notin> item_ids s" using Cons.prems(2) by simp
    moreover have "each_do (\<lambda>to. advance q dbg now (row_id ?r) to actor why) tos u = (res, t')"
      using Cons.prems(3) step Ok by (simp add: seq_def)
    ultimately obtain ds vs' where ds: "tos = ds \<or> res \<noteq> Ok () \<and> length ds < length tos \<and> take (length ds) tos = ds"
        "extends s (if ds = [] then ?r else ?r\<lparr>row_state := last ds, row_updated := now\<rparr>) cs ((vs @ [?v]) @ vs') t'"
        "moves_of vs' = zip (row_state ?r # ds) ds"
      using Cons.IH by blast
    have "extends s (r\<lparr>row_state := last (to # ds), row_updated := now\<rparr>) cs (vs @ ?v # vs') t'"
      using ds(2) by (cases "ds = []") simp_all
    moreover have "moves_of (?v # vs') = zip (row_state r # to # ds) (to # ds)"
      using ds(3) by (simp add: moves_of_def transition_def)
    ultimately show ?thesis using ds(1) by (intro exI [of _ "to # ds"] exI [of _ "?v # vs'"]) auto
  qed
qed

lemma record_extends:
  assumes "extends s r cs vs t" "row_id r \<notin> item_ids s" "record_verifier q (row_id r) v t = (res, t')"
  shows "extends s (if res = Ok () then r\<lparr>row_verifier := Some v\<rparr> else r) cs vs t'"
  using assms(3) update_extends [OF assms(1,2), of "\<lambda>r. r\<lparr>row_verifier := Some v\<rparr>"]
    extends_change [OF assms(1,2), of "\<lambda>r. r\<lparr>row_verifier := Some v\<rparr>"] assms(1)
  by (auto simp: record_verifier_def split: if_splits)

lemma activate_extends:
  assumes ext: "extends s r cs vs t" and new: "row_id r \<notin> item_ids s"
    and run: "activate q dbg now (row_id r) reviewer why t = (res, t')"
  shows "\<exists>r' vs'. extends s r' cs (vs @ vs') t' \<and>
    (if res = Ok () then r' = r\<lparr>row_reviewer := reviewer, row_state := ''active'', row_updated := now\<rparr> \<and> moves_of vs' = [(row_state r, ''active'')]
     else r' \<in> {r, r\<lparr>row_reviewer := reviewer, row_updated := now\<rparr>} \<and> vs' = [])"
proof -
  let ?f = "\<lambda>r. r\<lparr>row_reviewer := reviewer, row_updated := now\<rparr>"
  note up = update_extends [OF ext new, of ?f q]
  show ?thesis
  proof (cases "trim_text reviewer = [] \<or> \<not> (passage_ok (?f r) \<and> row_ok q (?f r))")
    case True
    then have "t' = t \<and> res \<noteq> Ok ()" using run up by (auto simp: activate_def fail_def seq_def split: if_splits)
    with ext show ?thesis by (intro exI [of _ r] exI [of _ "[]"]) simp
  next
    case False
    let ?u = "change_row (row_id r) ?f t"
    have u: "extends s (?f r) cs vs ?u" by (rule extends_change [OF ext new]) simp
    have "advance q dbg now (row_id (?f r)) ''active'' reviewer why ?u = (res, t')"
      using run up False by (simp add: activate_def seq_def)
    note one = advance_extends [OF u _ this]
    show ?thesis
    proof (cases res)
      case (Ok v)
      with one new show ?thesis
        by (intro exI [of _ "r\<lparr>row_reviewer := reviewer, row_state := ''active'', row_updated := now\<rparr>"]
          exI [of _ "[transition q (drawn ?u) now (row_id r) (row_state r) ''active'' reviewer why]"]) (simp add: moves_of_def transition_def)
    next
      case (Err x)
      with one new show ?thesis by (intro exI [of _ "?f r"] exI [of _ "[]"]) simp
    qed
  qed
qed

definition accepted_row :: "'f lane_env \<Rightarrow> 'f submission \<Rightarrow> string \<Rightarrow> 'f item_row" where
  "accepted_row e b i = (sub_row b)\<lparr>row_id := i, row_pack := None, row_state := ''active'', row_reviewer := sub_reviewer b,
     row_verifier := Some (sub_verifier b), row_created := today e, row_updated := today e\<rparr>"

definition draft_row :: "'f lane_env \<Rightarrow> 'f submission \<Rightarrow> string \<Rightarrow> 'f item_row" where
  "draft_row e b i = (sub_row b)\<lparr>row_id := i, row_pack := None, row_state := ''draft'', row_reviewer := [], row_verifier := None,
     row_created := today e, row_updated := today e\<rparr>"

lemma seq_cases:
  assumes "seq m f s = (res, t)"
  obtains (stop) x where "m s = (Err x, t)" "res = Err x" | (go) v u where "m s = (Ok v, u)" "f v u = (res, t)"
  using assms by (cases "m s"; cases "fst (m s)") (auto simp: seq_def)

lemma complete_extends:
  assumes ext: "extends s (draft_row e b i) [] [] t" and new: "i \<notin> item_ids s" and run: "complete_item e i b t = (res, t')"
  shows "\<exists>r cs vs. extends s r cs vs t' \<and> row_id r = i \<and>
    (if res = Ok () then r = accepted_row e b i \<and> cs = sub_sources b \<and> moves_of vs = pipeline_moves else row_state r \<in> set PIPELINE)"
proof -
  let ?r0 = "draft_row e b i" and ?v = "sub_verifier b"
  let ?r1 = "?r0\<lparr>row_verifier := Some ?v\<rparr>"
  have id0: "row_id ?r0 = i" "row_id ?r1 = i" and st: "row_state ?r0 = ''draft''" "row_state ?r1 = ''draft''" by (simp_all add: draft_row_def)
  have failed: ?thesis if "extends s r cs vs t'" "row_id r = i" "res \<noteq> Ok ()" "row_state r \<in> set PIPELINE" for r cs vs
    using that by auto
  from run [unfolded complete_item_def] show ?thesis
  proof (cases rule: seq_cases)
    case (stop x)
    with extends_cites [of s ?r0 "[]" "[]" t "sub_sources b" "Err x" t'] ext failed [of ?r0] show ?thesis
      by (auto simp: id0 st PIPELINE_def)
  next
    case (go v u)
    obtain cs where u: "extends s ?r0 cs [] u" "cs = sub_sources b"
      using extends_cites [of s ?r0 "[]" "[]" t "sub_sources b" "Ok v" u] ext go(1) by (auto simp: id0)
    from go(2) show ?thesis
    proof (cases rule: seq_cases)
      case (stop x)
      with record_extends [OF u(1), of "sql e" ?v "Err x" t'] new failed [of ?r0] show ?thesis by (auto simp: id0 st PIPELINE_def)
    next
      case (go v u2)
      have u2: "extends s ?r1 cs [] u2"
        using record_extends [OF u(1), of "sql e" ?v "Ok v" u2] go(1) new by (simp add: id0)
      from go(2) show ?thesis
      proof (cases rule: seq_cases)
        case (stop x)
        have "each_do (\<lambda>to. advance (sql e) (debug e) (today e) (row_id ?r1) to (sub_actor b) ''pipeline step'') (tl PIPELINE) u2 = (Err x, t')"
          using stop(1) by (simp add: walk_to_content_reviewed_def id0)
        from walk_extends [OF u2 _ this] new obtain ds vs' where
            "tl PIPELINE = ds \<or> length ds < length (tl PIPELINE) \<and> take (length ds) (tl PIPELINE) = ds"
            and ds': "extends s (if ds = [] then ?r1 else ?r1\<lparr>row_state := last ds, row_updated := today e\<rparr>) cs vs' t'"
          unfolding id0 append_Nil by blast
        then have "take (length ds) (tl PIPELINE) = ds" by auto
        note ds = this ds'
        have "last ds \<in> set PIPELINE" if "ds \<noteq> []"
        proof -
          have "set ds \<subseteq> set (tl PIPELINE)" using ds(1) set_take_subset by metis
          then have "last ds \<in> set (tl PIPELINE)" using that last_in_set by blast
          then show ?thesis by (simp add: PIPELINE_def)
        qed
        with stop(2) failed [OF ds(2)] show ?thesis by (cases "ds = []") (auto simp: id0 st PIPELINE_def)
      next
        case (go v u3)
        have "each_do (\<lambda>to. advance (sql e) (debug e) (today e) (row_id ?r1) to (sub_actor b) ''pipeline step'') (tl PIPELINE) u2 = (Ok v, u3)"
          using go(1) by (simp add: walk_to_content_reviewed_def id0)
        from walk_extends [OF u2 _ this] new obtain vs where
            u3: "extends s (?r1\<lparr>row_state := ''content_reviewed'', row_updated := today e\<rparr>) cs vs u3"
            "moves_of vs = zip (''draft'' # tl PIPELINE) (tl PIPELINE)"
          by (auto simp: id0 st PIPELINE_def)
        let ?r3 = "?r1\<lparr>row_state := ''content_reviewed'', row_updated := today e\<rparr>"
        have "activate (sql e) (debug e) (today e) (row_id ?r3) (sub_reviewer b) (sub_note b) u3 = (res, t')" using go(2) by (simp add: id0)
        from activate_extends [OF u3(1) _ this] new obtain r' vs' where r': "extends s r' cs (vs @ vs') t'"
            "if res = Ok () then r' = ?r3\<lparr>row_reviewer := sub_reviewer b, row_state := ''active'', row_updated := today e\<rparr> \<and>
               moves_of vs' = [(row_state ?r3, ''active'')]
             else r' \<in> {?r3, ?r3\<lparr>row_reviewer := sub_reviewer b, row_updated := today e\<rparr>} \<and> vs' = []"
          by (auto simp: id0)
        show ?thesis
        proof (cases "res = Ok ()")
          case True
          with r'(2) have "r' = accepted_row e b i" by (simp add: draft_row_def accepted_row_def)
          moreover have "moves_of (vs @ vs') = pipeline_moves"
            using r'(2) True u3(2) by (simp add: moves_of_def pipeline_moves_def PIPELINE_def)
          moreover have "row_id (accepted_row e b i) = i" by (simp add: accepted_row_def)
          ultimately show ?thesis using True r'(1) u(2) by auto
        next
          case False
          with r'(2) have "row_id r' = i" "row_state r' = ''content_reviewed''" by (auto simp: id0)
          with False failed [OF r'(1)] show ?thesis by (simp add: PIPELINE_def)
        qed
      qed
    qed
  qed
qed

lemma insert_draft_extends:
  assumes "insert_draft q now r s = (res, t)"
  shows "case res of
      Ok _ \<Rightarrow> row_id r \<notin> item_ids s \<and> t = s\<lparr>item_rows := item_rows s @ [r\<lparr>row_pack := None, row_state := ''draft'', row_reviewer := [],
          row_verifier := None, row_created := now, row_updated := now\<rparr>]\<rparr> \<and>
        passage_ok r \<and> row_ok q (r\<lparr>row_pack := None, row_state := ''draft'', row_reviewer := [],
          row_verifier := None, row_created := now, row_updated := now\<rparr>)
    | Err _ \<Rightarrow> t = s"
  using assms by (auto simp: insert_draft_def insert_item_def statement_def fail_def passage_ok_def split: if_splits)

lemma extends_draft: "extends s (draft_row e b i) [] [] (s\<lparr>drawn := n, item_rows := item_rows s @ [draft_row e b i]\<rparr>)"
  by (cases s) (simp add: extends_def)

lemma store_submission_cases:
  assumes run: "store_submission e b s = (res, t)"
  obtains (refused) x where "res = Err x" "same_tables s t"
    | (entered) i r u where "i = ''q'' @ ''-'' @ uuid (sql e) (drawn s)" "i \<notin> item_ids s"
        "passage_ok (draft_row e b i)" "row_ok (sql e) (draft_row e b i)"
        "complete_item e i b (s\<lparr>drawn := drawn s + 1, item_rows := item_rows s @ [draft_row e b i]\<rparr>) = (r, u)"
        "case r of Ok _ \<Rightarrow> res = Ok i \<and> t = u | Err x \<Rightarrow> res = Err x \<and> discard_draft i u = (Ok (), t)"
proof -
  let ?i = "''q'' @ ''-'' @ uuid (sql e) (drawn s)"
  let ?s = "s\<lparr>drawn := drawn s + 1\<rparr>"
  have go: "seq (insert_draft (sql e) (today e) ((sub_row b)\<lparr>row_id := ?i\<rparr>)) (\<lambda>_. finish_item e ?i (complete_item e ?i b)) ?s = (res, t)"
    using run by (simp add: store_submission_def seq_def draw_id_def)
  then show thesis
  proof (cases rule: seq_cases)
    case (stop x)
    with insert_draft_extends [OF stop(1)] show ?thesis by (intro refused [of x]) (simp_all add: same_tables_def)
  next
    case (go v u)
    note ins = insert_draft_extends [OF go(1)]
    have row: "draft_row e b ?i = (sub_row b)\<lparr>row_id := ?i, row_pack := None, row_state := ''draft'', row_reviewer := [],
        row_verifier := None, row_created := today e, row_updated := today e\<rparr>"
      by (simp add: draft_row_def)
    have u: "u = s\<lparr>drawn := drawn s + 1, item_rows := item_rows s @ [draft_row e b ?i]\<rparr>" "?i \<notin> item_ids s"
        "passage_ok (draft_row e b ?i)" "row_ok (sql e) (draft_row e b ?i)"
      using ins unfolding row by (simp_all add: passage_ok_def)
    obtain r w where w: "complete_item e ?i b u = (r, w)" by (cases "complete_item e ?i b u")
    have discard: "fst (discard_draft ?i w) = Ok ()" by (simp add: discard_draft_def delete_draft_def)
    have "case r of Ok _ \<Rightarrow> res = Ok ?i \<and> t = w | Err x \<Rightarrow> res = Err x \<and> discard_draft ?i w = (Ok (), t)"
      using go(2) w discard by (auto simp: finish_item_def split: result.splits prod.splits)
    with u w show ?thesis by (intro entered [of ?i r w]) simp_all
  qed
qed

text \<open>Discarding the draft that a failed submission left restores the tables.\<close>

lemma discard_extends:
  assumes ok: "db_ok q s" and new: "row_id r \<notin> item_ids s" and ext: "extends s r cs vs u" and run: "discard_draft (row_id r) u = (Ok (), t)"
    and draft: "row_state r = ''draft''"
  shows "same_tables s t"
proof -
  note keys = ok [unfolded db_ok_def store_ok_def keys_ok_def links_ok_def]
  let ?i = "row_id r"
  have rows: "filter (\<lambda>x. row_id x \<noteq> ?i) (item_rows u) = item_rows s"
    using not_in_ids [OF new] by (simp add: extends_fields(1) [OF ext] filter_id_conv)
  have "fst c \<noteq> ?i" if "c \<in> set (citations s)" for c using keys that new by auto
  then have cites: "filter (\<lambda>c. fst c \<noteq> ?i) (citations u) = citations s"
    by (auto simp: extends_fields(2) [OF ext] filter_id_conv filter_empty_conv)
  have "snd m \<noteq> ?i" if "m \<in> set (members s)" for m using keys that new by auto
  then have membs: "filter (\<lambda>m. snd m \<noteq> ?i) (members u) = members s"
    by (simp add: extends_fields(6) [OF ext] filter_id_conv)
  have "\<exists>x \<in> set (item_rows u). row_id x = ?i \<and> row_state x = ''draft''" using draft by (simp add: extends_fields(1) [OF ext])
  then have t: "t = u\<lparr>item_rows := item_rows s, citations := citations s, reviews := filter (\<lambda>v. review_item v \<noteq> ?i) (reviews u), members := members s\<rparr>"
    using run rows cites membs by (simp add: discard_draft_def delete_draft_def)
  have "review_item v \<noteq> ?i" if "v \<in> set (reviews s)" for v using keys that new by auto
  moreover have "\<forall>v \<in> set vs. review_item v = ?i" using ext by (simp add: extends_def)
  ultimately have "filter (\<lambda>v. review_item v \<noteq> ?i) (reviews u) = reviews s"
    by (auto simp: extends_fields(3) [OF ext] filter_id_conv filter_empty_conv)
  with t have "t = u\<lparr>item_rows := item_rows s, citations := citations s, reviews := reviews s, members := members s\<rparr>" by simp
  then show ?thesis using extends_fields(4,5) [OF ext] by (cases s) (cases u, simp add: same_tables_def)
qed

section \<open>Which submissions fail, and what they leave\<close>

definition fresh_reviews :: "'f sql \<Rightarrow> 'f store \<Rightarrow> bool" where
  "fresh_reviews q t \<longleftrightarrow> (\<forall>n \<ge> drawn t. ''rev'' @ ''-'' @ uuid q n \<notin> review_id ` set (reviews t))"

text \<open>What activation and the audit trail ask of a submission.\<close>

definition activatable :: "'f submission \<Rightarrow> bool" where
  "activatable b \<longleftrightarrow>
     \<not> blank (sub_actor b) \<and> trim_text (sub_reviewer b) \<noteq> [] \<and> \<not> blank (row_objective (sub_row b)) \<and>
     row_generator (sub_row b) \<noteq> Some (sub_verifier b) \<and> sub_sources b \<noteq> [] \<and>
     (row_subtest (sub_row b) \<in> {''AR'', ''MK''} \<longrightarrow> row_proof_kind (sub_row b) = ''executable'')"

lemma blank_trim: "blank s \<Longrightarrow> trim_text s = []"
proof -
  assume "blank s"
  then have "\<forall>c \<in> set s. c = CHR '' ''" by (simp only: blank_def sql_trim_def drop_ends_def [symmetric] drop_ends_Nil)
  then have s: "s = replicate (length s) (CHR '' '')" by (metis replicate_length_same)
  have b: "byte (CHR '' '') = 32" by (simp add: byte_def)
  have "chars (replicate n (CHR '' '')) = replicate n [CHR '' '']" for n
    by (induction n) (simp_all add: chars_ascii_Cons b)
  then have "chars s = replicate (length s) [CHR '' '']" using s by metis
  moreover have "white [CHR '' '']" using b by (simp add: white_def ws_len.simps(2))
  ultimately have "drop_ends white (chars s) = []" by (simp add: drop_ends_Nil)
  then show ?thesis by (simp add: trim_text_def trim_matches_def)
qed

lemma advance_next:
  assumes ext: "extends s r cs vs t" and new: "row_id r \<notin> item_ids s" and inj: "inj (uuid q)" and fresh: "fresh_reviews q t"
    and to: "to \<in> set STATES" and actor: "\<not> blank actor"
    and row: "passage_ok r" "row_ok q (r\<lparr>row_state := to, row_updated := now\<rparr>)" "may_move (row_state r) to"
    and cited: "to = ''active'' \<Longrightarrow> cs \<noteq> []"
  shows "\<exists>t' vs'. advance q dbg now (row_id r) to actor why t = (Ok (), t') \<and>
    extends s (r\<lparr>row_state := to, row_updated := now\<rparr>) cs vs' t' \<and> fresh_reviews q t'"
proof -
  have "''rev'' @ ''-'' @ uuid q (drawn t) \<notin> review_id ` set (reviews t)" using fresh by (simp add: fresh_reviews_def)
  then obtain t' where t': "advance q dbg now (row_id r) to actor why t = (Ok (), t')"
    using advance_succeeds [OF ext new to actor row cited] by blast
  let ?v = "transition q (drawn t) now (row_id r) (row_state r) to actor why"
  have e: "extends s (r\<lparr>row_state := to, row_updated := now\<rparr>) cs (vs @ [?v]) t'" "drawn t' = drawn t + 1"
    using advance_extends [OF ext new t'] by simp_all
  have "reviews t' = reviews t @ [?v]" by (simp add: extends_fields(3) [OF e(1)] extends_fields(3) [OF ext])
  moreover have "review_id ?v = ''rev'' @ ''-'' @ uuid q (drawn t)" by (simp add: transition_def)
  moreover have "uuid q n \<noteq> uuid q (drawn t)" if "drawn t + 1 \<le> n" for n using inj that by (auto dest: injD)
  ultimately have "fresh_reviews q t'" using fresh e(2) by (auto simp: fresh_reviews_def)
  with t' e(1) show ?thesis by blast
qed

lemma row_ok_move:
  "row_ok q r \<Longrightarrow> to \<in> set STATES \<Longrightarrow> (to = ''active'' \<Longrightarrow> active_ok r) \<Longrightarrow> row_ok q (r\<lparr>row_state := to, row_updated := now\<rparr>)"
  by (auto simp: row_ok_def active_ok_def)

text \<open>Once the first transition is made, an activatable submission goes all the way.\<close>

lemma walk_succeeds:
  assumes ext: "extends s r cs vs t" and new: "row_id r \<notin> item_ids s" and inj: "inj (uuid q)" and fresh: "fresh_reviews q t"
    and actor: "\<not> blank actor" and row: "passage_ok r" "row_ok q r" "row_state r = ''draft''"
  shows "\<exists>t' vs'. walk_to_content_reviewed q dbg now (row_id r) actor t = (Ok (), t') \<and>
    extends s (r\<lparr>row_state := ''content_reviewed'', row_updated := now\<rparr>) cs vs' t' \<and> fresh_reviews q t'"
proof -
  let ?at = "\<lambda>st. r\<lparr>row_state := st, row_updated := now\<rparr>"
  have ok: "passage_ok (?at st)" "row_ok q (?at st)" if "st \<in> set STATES" "st \<noteq> ''active''" for st
    using row row_ok_move [OF row(2) that(1)] that(2) by (simp_all add: passage_ok_def)
  obtain t1 v1 where 1: "advance q dbg now (row_id r) ''machine_validated'' actor ''pipeline step'' t = (Ok (), t1)"
      "extends s (?at ''machine_validated'') cs v1 t1" "fresh_reviews q t1"
    using advance_next [OF ext new inj fresh, of "''machine_validated''" actor now dbg "''pipeline step''"] actor row ok(2) [of "''machine_validated''"]
    by (auto simp: STATES_def may_move_def)
  obtain t2 v2 where 2: "advance q dbg now (row_id r) ''independent_verified'' actor ''pipeline step'' t1 = (Ok (), t2)"
      "extends s (?at ''independent_verified'') cs v2 t2" "fresh_reviews q t2"
    using advance_next [OF 1(2) _ inj 1(3), of "''independent_verified''" actor now dbg "''pipeline step''"] new actor
      ok(1) [of "''machine_validated''"] ok(2) [of "''independent_verified''"]
    by (auto simp: STATES_def may_move_def)
  obtain t3 v3 where 3: "advance q dbg now (row_id r) ''content_reviewed'' actor ''pipeline step'' t2 = (Ok (), t3)"
      "extends s (?at ''content_reviewed'') cs v3 t3" "fresh_reviews q t3"
    using advance_next [OF 2(2) _ inj 2(3), of "''content_reviewed''" actor now dbg "''pipeline step''"] new actor
      ok(1) [of "''independent_verified''"] ok(2) [of "''content_reviewed''"]
    by (auto simp: STATES_def may_move_def)
  from 1(1) 2(1) 3 show ?thesis
    by (simp add: walk_to_content_reviewed_def PIPELINE_def seq_def return_def) blast
qed

lemma activate_succeeds:
  assumes ext: "extends s r cs vs t" and new: "row_id r \<notin> item_ids s" and inj: "inj (uuid q)" and fresh: "fresh_reviews q t"
    and row: "passage_ok r" "row_ok q r" "row_state r = ''content_reviewed''" "active_ok (r\<lparr>row_reviewer := reviewer\<rparr>)"
    and reviewer: "trim_text reviewer \<noteq> []" and cited: "cs \<noteq> []"
  shows "\<exists>t'. activate q dbg now (row_id r) reviewer why t = (Ok (), t') \<and> fresh_reviews q t'"
proof -
  let ?f = "\<lambda>r. r\<lparr>row_reviewer := reviewer, row_updated := now\<rparr>"
  let ?u = "change_row (row_id r) ?f t"
  have ok: "passage_ok (?f r)" "row_ok q (?f r)" using row by (simp_all add: passage_ok_def row_ok_def)
  have u: "extends s (?f r) cs vs ?u" by (rule extends_change [OF ext new]) simp
  have up: "update_row q (row_id r) ?f t = (Ok (), ?u)" using update_extends [OF ext new, of ?f q] ok by simp
  have "active_ok (?f r)" using row(4) by (simp add: active_ok_def)
  then have "row_ok q ((?f r)\<lparr>row_state := ''active'', row_updated := now\<rparr>)"
    using row_ok_move [OF ok(2), of "''active''" now] by (simp add: STATES_def)
  moreover have "fresh_reviews q ?u" using fresh by (simp add: fresh_reviews_def)
  moreover have "\<not> blank reviewer" using reviewer blank_trim by blast
  ultimately have "\<exists>t'. advance q dbg now (row_id r) ''active'' reviewer why ?u = (Ok (), t') \<and> fresh_reviews q t'"
    using advance_next [OF u _ inj, of "''active''" reviewer now dbg why] new ok(1) row(3) cited by (auto simp: STATES_def may_move_def)
  with up reviewer show ?thesis by (auto simp: activate_def seq_def)
qed

lemma fresh_statement: "valid (fresh_reviews q) (insert_citation i src) (\<lambda>_. fresh_reviews q)"
  unfolding insert_citation_def by (rule valid_statement) (simp add: fresh_reviews_def)

lemma record_verifier_cases:
  assumes "extends s r cs vs t" "row_id r \<notin> item_ids s" "passage_ok r" "row_ok q r" "row_state r \<noteq> ''active''"
  shows "\<exists>t'. record_verifier q (row_id r) v t = (Ok (), t') \<and> extends s (r\<lparr>row_verifier := Some v\<rparr>) cs vs t' \<and>
    (fresh_reviews q t \<longrightarrow> fresh_reviews q t')"
proof -
  have "passage_ok (r\<lparr>row_verifier := Some v\<rparr>)" "row_ok q (r\<lparr>row_verifier := Some v\<rparr>)"
    using assms(3-5) by (auto simp: passage_ok_def row_ok_def)
  with update_extends [OF assms(1,2), of "\<lambda>r. r\<lparr>row_verifier := Some v\<rparr>" q] extends_change [OF assms(1,2), of "\<lambda>r. r\<lparr>row_verifier := Some v\<rparr>"]
  show ?thesis by (simp add: record_verifier_def fresh_reviews_def)
qed

text \<open>An activatable submission whose sources are cited goes all the way.\<close>

lemma complete_after_cites:
  assumes ext: "extends s (draft_row e b i) cs vs u" and new: "i \<notin> item_ids s" and inj: "inj (uuid (sql e))" and fresh: "fresh_reviews (sql e) u"
    and row: "passage_ok (draft_row e b i)" "row_ok (sql e) (draft_row e b i)" and sound: "activatable b" and cs: "cs \<noteq> []"
  shows "\<exists>t. seq (record_verifier (sql e) i (sub_verifier b)) (\<lambda>_.
     seq (walk_to_content_reviewed (sql e) (debug e) (today e) i (sub_actor b)) (\<lambda>_.
     activate (sql e) (debug e) (today e) i (sub_reviewer b) (sub_note b))) u = (Ok (), t) \<and> fresh_reviews (sql e) t"
proof -
  let ?r0 = "draft_row e b i"
  let ?r1 = "?r0\<lparr>row_verifier := Some (sub_verifier b)\<rparr>"
  let ?r2 = "?r1\<lparr>row_state := ''content_reviewed'', row_updated := today e\<rparr>"
  have id: "row_id ?r0 = i" "row_state ?r0 = ''draft''" by (simp_all add: draft_row_def)
  obtain u1 where u1: "record_verifier (sql e) i (sub_verifier b) u = (Ok (), u1)" "extends s ?r1 cs vs u1" "fresh_reviews (sql e) u1"
    using record_verifier_cases [OF ext _ row, of "sub_verifier b"] new fresh by (auto simp: id)
  have ok1: "passage_ok ?r1" "row_ok (sql e) ?r1" using row by (auto simp: passage_ok_def row_ok_def id)
  obtain u2 vs2 where u2: "walk_to_content_reviewed (sql e) (debug e) (today e) i (sub_actor b) u1 = (Ok (), u2)" "extends s ?r2 cs vs2 u2"
      "fresh_reviews (sql e) u2"
    using walk_succeeds [OF u1(2) _ inj u1(3) _ ok1, of "sub_actor b" "debug e" "today e"] new sound by (auto simp: id activatable_def)
  have ok2: "passage_ok ?r2" "row_ok (sql e) ?r2"
    using ok1 row_ok_move [OF ok1(2), of "''content_reviewed''" "today e"] by (simp_all add: passage_ok_def STATES_def)
  have reviewer: "\<not> blank (sub_reviewer b)" using sound blank_trim unfolding activatable_def by blast
  have "active_ok (?r2\<lparr>row_reviewer := sub_reviewer b\<rparr>)"
    using sound reviewer by (auto simp: active_ok_def activatable_def draft_row_def)
  then obtain t where "activate (sql e) (debug e) (today e) i (sub_reviewer b) (sub_note b) u2 = (Ok (), t)" "fresh_reviews (sql e) t"
    using activate_succeeds [OF u2(2) _ inj u2(3) ok2, of "sub_reviewer b" "debug e" "today e" "sub_note b"] new sound cs
    by (auto simp: id activatable_def)
  with u1(1) u2(1) show ?thesis by (simp add: seq_def)
qed

lemma submission_fails_clean:
  assumes ok: "db_ok (sql e) s" and inj: "inj (uuid (sql e))" and fresh: "fresh_reviews (sql e) s" and sound: "activatable b"
    and run: "store_submission e b s = (Err x, t)"
  shows "same_tables s t"
  using run
proof (cases rule: store_submission_cases)
  case (entered i r u)
  let ?s = "s\<lparr>drawn := drawn s + 1, item_rows := item_rows s @ [draft_row e b i]\<rparr>"
  have id: "row_id (draft_row e b i) = i" "row_state (draft_row e b i) = ''draft''" by (simp_all add: draft_row_def)
  obtain y where r: "r = Err y" and discard: "discard_draft i u = (Ok (), t)" using entered(6) by (cases r) auto
  have ext: "extends s (draft_row e b i) [] [] ?s" by (rule extends_draft)
  have fresh': "fresh_reviews (sql e) ?s" using fresh by (simp add: fresh_reviews_def)
  from entered(5) [unfolded complete_item_def r] have "\<exists>cs vs. extends s (draft_row e b i) cs vs u"
  proof (cases rule: seq_cases)
    case (stop z)
    with extends_cites [of s "draft_row e b i" "[]" "[]" ?s "sub_sources b" "Err z" u] ext show ?thesis by (auto simp: id)
  next
    case (go v w)
    have "extends s (draft_row e b i) (sub_sources b) [] w"
      using extends_cites [of s "draft_row e b i" "[]" "[]" ?s "sub_sources b" "Ok v" w] ext go(1) by (auto simp: id)
    moreover have "valid (fresh_reviews (sql e)) (each_do (cite i) (sub_sources b)) (\<lambda>_. fresh_reviews (sql e))"
      by (rule valid_each) (simp add: cite_def fresh_statement)
    from validD [OF this fresh' go(1)] have "fresh_reviews (sql e) w" .
    ultimately show ?thesis
      using complete_after_cites [of s e b i "sub_sources b" "[]" w] entered(2-4) inj sound go(2) by (auto simp: activatable_def)
  qed
  then obtain cs vs where "extends s (draft_row e b i) cs vs u" by blast
  from discard_extends [OF ok _ this] entered(2) discard show ?thesis by (simp add: id)
qed simp

lemma submission_accepted:
  assumes run: "store_submission e b s = (Ok i, t)"
  shows "i \<notin> item_ids s \<and> (\<exists>vs. extends s (accepted_row e b i) (sub_sources b) vs t \<and> moves_of vs = pipeline_moves)"
  using run
proof (cases rule: store_submission_cases)
  case (entered j r u)
  then obtain v where r: "r = Ok v" "j = i" "t = u" by (cases r) auto
  from complete_extends [OF extends_draft entered(2,5)] r show ?thesis using entered(2) by auto
qed simp

section \<open>What a run does\<close>

lemma run_lane_Cons:
  assumes "run_lane e L (i # js) t s = Some out"
  obtains (held) "is_stored L i s = Some True" "run_lane e L js (t\<lparr>run_present := run_present t + 1\<rparr>) s = Some out"
    | (tried) r u where "is_stored L i s = Some False" "store_verified e L i s = Some (r, u)"
        "run_lane e L js (note_outcome e (lane_name L i) r t) u = Some out"
  using assms by (auto split: option.splits bool.splits)

lemma note_outcome_count:
  "run_present (note_outcome e n r t) = run_present t"
  "run_activated (note_outcome e n r t) + length (run_rejected (note_outcome e n r t)) = Suc (run_activated t + length (run_rejected t))"
  "run_verified t = run_activated t \<Longrightarrow> run_verified (note_outcome e n r t) = run_activated (note_outcome e n r t)"
  "run_activated t = length (run_ids t) \<Longrightarrow> run_activated (note_outcome e n r t) = length (run_ids (note_outcome e n r t))"
  by (cases r; simp add: note_outcome_def)+

lemma run_counts:
  "run_lane e L js t s = Some (t', s') \<Longrightarrow>
    run_present t' + run_activated t' + length (run_rejected t') = run_present t + run_activated t + length (run_rejected t) + length js \<and>
    (run_verified t = run_activated t \<longrightarrow> run_verified t' = run_activated t') \<and>
    (run_activated t = length (run_ids t) \<longrightarrow> run_activated t' = length (run_ids t'))"
proof (induction js arbitrary: t s)
  case (Cons i js)
  from Cons.prems show ?case
  proof (cases rule: run_lane_Cons)
    case held
    from Cons.IH [OF held(2)] show ?thesis by simp
  next
    case (tried r u)
    from Cons.IH [OF tried(3)] note_outcome_count [where e = e and n = "lane_name L i" and r = r and t = t] show ?thesis by simp
  qed
qed simp

text \<open>A row that a run stored is not changed by the rest of the run.\<close>

lemma store_verified_grows:
  assumes ok: "db_ok (sql e) s" and run: "store_verified e L i s = Some (r, u)"
  shows "set (item_rows s) \<subseteq> set (item_rows u) \<and>
    (\<forall>x. r = Ok x \<longrightarrow> x \<notin> item_ids s \<and> (\<exists>b. lane_submit L i = Some (Ok b) \<and> accepted_row e b x \<in> set (item_rows u)))"
proof (cases "lane_submit L i")
  case (Some y)
  show ?thesis
  proof (cases y)
    case (Ok b)
    then have sub: "store_submission e b s = (r, u)" using run Some by (simp add: store_verified_def)
    show ?thesis
    proof (cases r)
      case (Ok x)
      with submission_accepted [of e b s x u] sub obtain vs where "x \<notin> item_ids s" "extends s (accepted_row e b x) (sub_sources b) vs u" by auto
      with Ok Some \<open>y = Ok b\<close> show ?thesis by (auto simp: extends_fields(1))
    next
      case (Err z)
      from sub [unfolded Err] have "set (item_rows s) \<subseteq> set (item_rows u)"
      proof (cases rule: store_submission_cases)
        case (refused a)
        then show ?thesis by (simp add: same_tables_def) (metis order_refl store.select_convs(1) store.surjective store.update_convs(7))
      next
        case (entered j q w)
        then obtain a where "discard_draft j w = (Ok (), u)" by (cases q) auto
        moreover obtain r' cs vs where "extends s r' cs vs w" "row_id r' = j" using complete_extends [OF extends_draft entered(2,5)] by blast
        ultimately show ?thesis
          using entered(2) not_in_ids [of j s] by (auto simp: discard_draft_def delete_draft_def extends_fields(1) split: if_splits)
      qed
      with Err show ?thesis by simp
    qed
  qed (use run Some in \<open>auto simp: store_verified_def\<close>)
qed (use run in \<open>simp add: store_verified_def\<close>)

lemma app_steps_ok: "(app_step e)\<^sup>*\<^sup>* s t \<Longrightarrow> db_ok (sql e) s \<Longrightarrow> db_ok (sql e) t"
  by (induction rule: rtranclp_induct) (auto simp: app_step_ok)

lemma store_verified_ok: "store_verified e L i s = Some (r, u) \<Longrightarrow> db_ok (sql e) s \<Longrightarrow> db_ok (sql e) u"
  by (rule app_steps_ok [OF store_verified_step])

lemma run_stores:
  "run_lane e L js t s = Some (t', s') \<Longrightarrow> db_ok (sql e) s \<Longrightarrow>
    set (item_rows s) \<subseteq> set (item_rows s') \<and>
    (\<exists>new. run_ids t' = run_ids t @ new \<and> distinct new \<and> set new \<inter> item_ids s = {} \<and>
      (\<forall>x \<in> set new. \<exists>i \<in> set js. \<exists>b. lane_submit L i = Some (Ok b) \<and> accepted_row e b x \<in> set (item_rows s')))"
proof (induction js arbitrary: t s)
  case (Cons i js)
  from Cons.prems(1) show ?case
  proof (cases rule: run_lane_Cons)
    case held
    from Cons.IH [OF held(2) Cons.prems(2)] show ?thesis by (simp add: bex_Un) blast
  next
    case (tried r u)
    note grows = store_verified_grows [OF Cons.prems(2) tried(2)]
    then have ids: "item_ids s \<subseteq> item_ids u" by (auto simp: item_ids_def)
    obtain new where new: "run_ids t' = run_ids (note_outcome e (lane_name L i) r t) @ new" "distinct new" "set new \<inter> item_ids u = {}"
        "\<forall>x \<in> set new. \<exists>i \<in> set js. \<exists>b. lane_submit L i = Some (Ok b) \<and> accepted_row e b x \<in> set (item_rows s')"
      and rows: "set (item_rows u) \<subseteq> set (item_rows s')"
      using Cons.IH [OF tried(3) store_verified_ok [OF tried(2) Cons.prems(2)]] by blast
    show ?thesis
    proof (cases r)
      case (Err z)
      with new rows grows ids show ?thesis by (auto simp: note_outcome_def)
    next
      case (Ok x)
      with grows obtain b where b: "x \<notin> item_ids s" "lane_submit L i = Some (Ok b)" "accepted_row e b x \<in> set (item_rows u)" by blast
      have "x \<in> item_ids u" using b(3) by (force simp: item_ids_def accepted_row_def)
      with new b ids Ok have "run_ids t' = run_ids t @ x # new \<and> distinct (x # new) \<and> set (x # new) \<inter> item_ids s = {}"
        by (auto simp: note_outcome_def)
      moreover have "\<forall>y \<in> set (x # new). \<exists>i \<in> set (i # js). \<exists>b. lane_submit L i = Some (Ok b) \<and> accepted_row e b y \<in> set (item_rows s')"
        using new(4) b(2,3) rows by auto
      ultimately show ?thesis using rows grows by blast
    qed
  qed
qed simp

section \<open>A question is stored once\<close>

definition normal :: "string \<Rightarrow> string" where
  "normal s = ascii_lower (sql_trim s)"

definition asks :: "'f item_row \<Rightarrow> string \<times> string \<times> string \<times> string" where
  "asks r = (row_subtest r, normal (row_stem r), normal (if row_correct r < length (row_options r) then row_options r ! row_correct r else []),
     normal (case row_passage r of None \<Rightarrow> [] | Some p \<Rightarrow> p))"

definition in_play :: "'f item_row \<Rightarrow> bool" where
  "in_play r \<longleftrightarrow> row_state r \<in> {''active'', ''draft''}"

definition questions_once :: "'f store \<Rightarrow> bool" where
  "questions_once s \<longleftrightarrow> distinct (map asks (filter in_play (item_rows s)))"

lemma question_exists_iff:
  "question_exists sub stem correct passage s \<longleftrightarrow>
    (sub, normal stem, normal correct, normal (case passage of None \<Rightarrow> [] | Some p \<Rightarrow> p)) \<in> asks ` set (filter in_play (item_rows s))"
proof -
  have image: "k \<in> asks ` set (filter in_play rs) \<longleftrightarrow> (\<exists>r \<in> set rs. in_play r \<and> asks r = k)" for k rs by auto
  show ?thesis
    unfolding image question_exists_def Let_def list_ex_iff
    by (rule bex_cong [OF refl]) (simp only: asks_def in_play_def normal_def prod.inject conj_assoc conj_left_commute [of "row_subtest _ = sub"])
qed

text \<open>The question a lane asks about before it submits an item is the question of what it submits.\<close>

definition consistent :: "('i, 'f) lane \<Rightarrow> 'i \<Rightarrow> bool" where
  "consistent L i \<longleftrightarrow>
     (\<forall>b sub stem correct passage. lane_submit L i = Some (Ok b) \<longrightarrow> lane_question L i = Some (sub, stem, correct, passage) \<longrightarrow>
        asks (sub_row b) = (sub, normal stem, normal correct, normal (case passage of None \<Rightarrow> [] | Some p \<Rightarrow> p)))"

lemma same_tables_rows: "same_tables s t \<Longrightarrow> item_rows t = item_rows s"
  unfolding same_tables_def by (metis store.select_convs(1) store.surjective store.update_convs(7))

lemma store_verified_in_play:
  assumes run: "store_verified e L i s = Some (r, u)"
  shows "filter in_play (item_rows u) = filter in_play (item_rows s) \<or>
    (\<exists>b x. lane_submit L i = Some (Ok b) \<and> item_rows u = item_rows s @ [accepted_row e b x])"
proof (cases "\<exists>b. lane_submit L i = Some (Ok b)")
  case False
  with run show ?thesis by (auto simp: store_verified_def split: option.splits result.splits)
next
  case True
  then obtain b where b: "lane_submit L i = Some (Ok b)" by blast
  with run have sub: "store_submission e b s = (r, u)" by (simp add: store_verified_def)
  show ?thesis
  proof (cases r)
    case (Ok x)
    with submission_accepted [of e b s x u] sub b show ?thesis by (auto simp: extends_fields(1))
  next
    case (Err z)
    from sub [unfolded Err] have "filter in_play (item_rows u) = filter in_play (item_rows s)"
    proof (cases rule: store_submission_cases)
      case (refused a)
      then show ?thesis by (simp add: same_tables_rows)
    next
      case (entered j q w)
      then obtain a where fail: "q = Err a" "discard_draft j w = (Ok (), u)" by (cases q) auto
      obtain r' cs vs where r': "extends s r' cs vs w" "row_id r' = j" "row_state r' \<in> set PIPELINE"
        using complete_extends [OF extends_draft entered(2,5)] fail(1) by auto
      have others: "filter (\<lambda>x. row_id x \<noteq> j) (item_rows s) = item_rows s" using not_in_ids [OF entered(2)] by (simp add: filter_id_conv)
      have only: "(\<exists>x \<in> set (item_rows w). row_id x = j \<and> row_state x = ''draft'') \<longleftrightarrow> row_state r' = ''draft''"
        using not_in_ids [OF entered(2)] by (auto simp: extends_fields(1) [OF r'(1)] r'(2))
      show ?thesis
      proof (cases "row_state r' = ''draft''")
        case True
        with fail(2) only have "item_rows u = filter (\<lambda>x. row_id x \<noteq> j) (item_rows w)" by (auto simp: discard_draft_def delete_draft_def)
        then show ?thesis using others by (simp add: extends_fields(1) [OF r'(1)] r'(2))
      next
        case False
        with fail(2) only have "u = w" by (auto simp: discard_draft_def delete_draft_def)
        moreover have "\<not> in_play r'" using False r'(3) by (auto simp: in_play_def PIPELINE_def)
        ultimately show ?thesis by (simp add: extends_fields(1) [OF r'(1)])
      qed
    qed
    then show ?thesis ..
  qed
qed

lemma run_asks_once:
  "run_lane e L js t s = Some (t', s') \<Longrightarrow> (\<And>i. i \<in> set js \<Longrightarrow> consistent L i) \<Longrightarrow> questions_once s \<Longrightarrow> questions_once s'"
proof (induction js arbitrary: t s)
  case (Cons i js)
  have rest: "\<And>i. i \<in> set js \<Longrightarrow> consistent L i" using Cons.prems(2) by simp
  from Cons.prems(1) show ?case
  proof (cases rule: run_lane_Cons)
    case held
    from Cons.IH [OF held(2) rest Cons.prems(3)] show ?thesis .
  next
    case (tried r u)
    have "questions_once u"
    proof (cases "filter in_play (item_rows u) = filter in_play (item_rows s)")
      case True
      with Cons.prems(3) show ?thesis by (simp add: questions_once_def)
    next
      case False
      with store_verified_in_play [OF tried(2)] obtain b x where b: "lane_submit L i = Some (Ok b)"
          "item_rows u = item_rows s @ [accepted_row e b x]" by blast
      obtain sub stem correct passage where key: "lane_question L i = Some (sub, stem, correct, passage)"
          "\<not> question_exists sub stem correct passage s"
        using tried(1) by (auto simp: is_stored_def split: if_splits option.splits prod.splits)
      have "asks (accepted_row e b x) = asks (sub_row b)" by (simp add: asks_def accepted_row_def)
      also have "\<dots> = (sub, normal stem, normal correct, normal (case passage of None \<Rightarrow> [] | Some p \<Rightarrow> p))"
        using Cons.prems(2) [of i] b(1) key(1) unfolding consistent_def by simp
      finally have "asks (accepted_row e b x) \<notin> asks ` set (filter in_play (item_rows s))"
        using key(2) unfolding question_exists_iff by simp
      with Cons.prems(3) show ?thesis by (auto simp: questions_once_def b(2))
    qed
    from Cons.IH [OF tried(3) rest this] show ?thesis .
  qed
qed simp

section \<open>What the pipeline guarantees\<close>

text \<open>
  C21. A submission that is stored adds one row and nothing else: it carries the submitted content, the
  reviewer and the verifier's hash, it is active, it cites exactly the submitted sources, and its audit
  trail is the pipeline from draft to active.
\<close>

theorem stored_item_is_accepted:
  assumes run: "store_submission e b s = (Ok i, t)"
  shows "i \<notin> item_ids s \<and> item_rows t = item_rows s @ [accepted_row e b i] \<and>
    citations t = citations s @ map (Pair i) (sub_sources b) \<and>
    (\<exists>vs. reviews t = reviews s @ vs \<and> moves_of vs = pipeline_moves) \<and>
    evidence t = evidence s \<and> packs t = packs s \<and> members t = members s"
proof -
  obtain vs where new: "i \<notin> item_ids s" "extends s (accepted_row e b i) (sub_sources b) vs t" "moves_of vs = pipeline_moves"
    using submission_accepted [OF run] by blast
  moreover have "row_id (accepted_row e b i) = i" by (simp add: accepted_row_def)
  ultimately show ?thesis using extends_fields [OF new(2)] by auto
qed

text \<open>
  C22. A submission that is refused leaves every table as it was, when the reviewer, the actor and the objective
  are named, the two hashes differ, a source is cited, a computed section has an executable proof, and
  identifiers do not repeat.
\<close>

theorem rejected_item_leaves_no_row:
  assumes reach: "(app_step e)\<^sup>*\<^sup>* empty_store s" and ids: "inj (uuid (sql e))" "fresh_reviews (sql e) s" and sound: "activatable b"
    and run: "store_submission e b s = (Err x, t)"
  shows "same_tables s t"
  by (rule submission_fails_clean [OF reachable_app_ok [OF reach] ids sound run])

text \<open>
  C23. A run accounts for every item as present, activated or rejected. The identifiers it reports are new and
  distinct, each is the row of a submitted item, and no row that was there is lost.
\<close>

theorem run_accounts_for_every_item:
  assumes reach: "(app_step e)\<^sup>*\<^sup>* empty_store s" and run: "run_lane e L js empty_tally s = Some (t, s')"
  shows "run_present t + run_activated t + length (run_rejected t) = length js \<and> run_verified t = run_activated t \<and>
    run_activated t = length (run_ids t) \<and> distinct (run_ids t) \<and> set (run_ids t) \<inter> item_ids s = {} \<and>
    set (item_rows s) \<subseteq> set (item_rows s') \<and>
    (\<forall>x \<in> set (run_ids t). \<exists>i \<in> set js. \<exists>b. lane_submit L i = Some (Ok b) \<and> accepted_row e b x \<in> set (item_rows s'))"
  using run_counts [OF run] run_stores [OF run reachable_app_ok [OF reach]] by (auto simp: empty_tally_def)

text \<open>A run over a lane that asks the question it submits never puts a question in the store a second time.\<close>

theorem no_question_is_stored_twice:
  assumes "run_lane e L js t s = Some (t', s')" and "\<forall>i \<in> set js. consistent L i" and "questions_once s"
  shows "questions_once s'"
  using run_asks_once [OF assms(1) _ assms(3)] assms(2) by blast

section \<open>Serving and listing\<close>

lemma pick_None_iff: "pick rs seen = None \<longleftrightarrow> rs = []"
  by (cases rs) (auto simp: pick_def split: option.split)

lemma pick_Nil [simp]: "pick [] seen = None"
  by (simp add: pick_def)

lemma pick_Some:
  "pick rs seen = Some r \<Longrightarrow> r \<in> set rs \<and> (row_id r \<in> set seen \<longrightarrow> row_id ` set rs \<subseteq> set seen)"
  by (auto simp: pick_def find_Some_iff find_None_iff split: option.splits list.splits)

lemma servable_objective: "set (servable_in sub (Some x) s) = {r \<in> set (servable sub s). row_objective r = x}"
  by (auto simp: servable_def servable_in_def)

text \<open>The items a request may draw from: those of the objective, or the whole subtest when it has none.\<close>

definition pool :: "string \<Rightarrow> string option \<Rightarrow> 'f store \<Rightarrow> 'f item_row list" where
  "pool sub obj s = (case obj of None \<Rightarrow> servable sub s
     | Some x \<Rightarrow> if servable_in sub (Some x) s = [] then servable sub s else servable_in sub (Some x) s)"

lemma next_item_pool: "next_item_for sub obj seen s = map_option dto_of (pick (pool sub obj s) seen)"
  by (auto simp: next_item_for_def pool_def pick_None_iff split: option.split)


lemma list_items_eq:
  "length out \<le> limit \<Longrightarrow> list_items s sub st limit rs out =
    out @ map (summary_of s) (take (limit - length out) (filter (\<lambda>r. wanted sub (row_subtest r) \<and> wanted st (row_state r)) rs))"
proof (induction rs arbitrary: out)
  case (Cons r rs)
  show ?case
  proof (cases "wanted sub (row_subtest r) \<and> wanted st (row_state r) \<and> length out < limit")
    case True
    then have "limit - length out = Suc (limit - Suc (length out))" by (simp add: Suc_diff_Suc)
    with True Cons.IH [of "out @ [summary_of s r]"] show ?thesis by simp
  next
    case False
    with Cons show ?thesis by auto
  qed
qed simp

text \<open>C26. The content manager lists the first items that match, in the order of the store, and never more than the limit.\<close>

theorem listing_is_bounded:
  "items sub st limit s = map (summary_of s) (take limit (filter (\<lambda>r. wanted sub (row_subtest r) \<and> wanted st (row_state r)) (all_items s))) \<and>
   length (items sub st limit s) \<le> limit"
  by (simp add: items_def list_items_eq)

lemma sum_by_key: "set (map f xs) \<subseteq> set ks \<Longrightarrow> distinct ks \<Longrightarrow> sum_list (map (\<lambda>k. length (filter (\<lambda>x. f x = k) xs)) ks) = length xs"
proof (induction xs)
  case (Cons x xs)
  have "sum_list (map (\<lambda>k. length (filter (\<lambda>y. f y = k) (x # xs))) ks) =
      sum_list (map (\<lambda>k. (if k = f x then 1 else 0) + length (filter (\<lambda>y. f y = k) xs)) ks)"
    by (rule arg_cong [of _ _ sum_list], rule map_cong) auto
  also have "\<dots> = sum_list (map (\<lambda>k. if k = f x then 1 else 0) ks) + length xs"
    using Cons by (simp add: sum_list_addf)
  also have "sum_list (map (\<lambda>k. if k = f x then 1 else (0 :: nat)) ks) = 1"
    using Cons.prems by (simp add: sum_list_distinct_conv_sum_set)
  finally show ?case by simp
qed (induction ks, auto)

text \<open>The statistics add up: over the states, and over the subtests, the counts sum to the number of items.\<close>

theorem statistics_add_up:
  "sum_list (map snd (by_state (stats s))) = st_total (stats s) \<and> sum_list (map snd (by_subtest (stats s))) = st_total (stats s) \<and>
   st_servable (stats s) \<le> st_total (stats s)"
  using sum_by_key [of row_state "item_rows s" "sort (remdups (map row_state (item_rows s)))"]
    sum_by_key [of row_subtest "item_rows s" "sort (remdups (map row_subtest (item_rows s)))"]
  by (simp add: stats_def counts_by_state_def comp_def)

section \<open>Withdrawing and reinstating\<close>

lemma change_row_change: "(\<And>r. row_id (f r) = row_id r) \<Longrightarrow> change_row i g (change_row i f s) = change_row i (\<lambda>r. g (f r)) s"
  by (simp add: change_row_def comp_def if_distrib cong: if_cong)

lemma rows_change_row: "item_rows (change_row i f s) = map (\<lambda>r. if row_id r = i then f r else r) (item_rows s)"
  by (simp add: change_row_def)

text \<open>\<open>moved i f vs s t\<close>: the row \<open>i\<close> changed by \<open>f\<close> and its audit trail grew by the moves \<open>vs\<close>; nothing else changed.\<close>

definition moved :: "string \<Rightarrow> ('f item_row \<Rightarrow> 'f item_row) \<Rightarrow> (string \<times> string) list \<Rightarrow> 'f store \<Rightarrow> 'f store \<Rightarrow> bool" where
  "moved i f ms s t \<longleftrightarrow>
     item_rows t = item_rows (change_row i f s) \<and> citations t = citations s \<and> evidence t = evidence s \<and> packs t = packs s \<and>
     members t = members s \<and> (\<exists>vs. reviews t = reviews s @ vs \<and> moves_of vs = ms \<and> (\<forall>v \<in> set vs. review_item v = i))"

lemma moved_trans:
  assumes "moved i f ms s t" "moved i g ns t u" "\<And>r. row_id (f r) = row_id r"
  shows "moved i (\<lambda>r. g (f r)) (ms @ ns) s u"
proof -
  have "item_rows (change_row i g t) = item_rows (change_row i g (change_row i f s))"
    using assms(1) by (simp add: moved_def change_row_def)
  with assms show ?thesis by (auto simp: moved_def change_row_change moves_of_def)
qed

lemma advance_moved:
  assumes "advance q dbg now i to actor why s = (Ok (), t)"
  shows "\<exists>r. find_row s i = Some r \<and> moved i (\<lambda>r. r\<lparr>row_state := to, row_updated := now\<rparr>) [(row_state r, to)] s t"
proof -
  have run: "advance_body q now i to actor why s = (Ok (), t)"
    using assms by (auto simp: advance_def fail_def transaction_def split: if_splits prod.splits result.splits)
  then obtain r where r: "find_row s i = Some r" by (cases "find_row s i") (auto simp: advance_body_def query_def fail_def)
  with run have "move_item q now i (row_state r) to actor why s = (Ok (), t)" by (simp add: advance_body_def query_def)
  then have t: "t = (change_row i (\<lambda>r. r\<lparr>row_state := to, row_updated := now\<rparr>) s)\<lparr>drawn := drawn s + 1,
      reviews := reviews s @ [transition q (drawn s) now i (row_state r) to actor why]\<rparr>"
    unfolding move_item_def by (auto simp: seq_Ok set_state_def statement_Ok draw_id_def insert_review_def transition_def)
  have "moved i (\<lambda>r. r\<lparr>row_state := to, row_updated := now\<rparr>) [(row_state r, to)] s t"
    unfolding moved_def t by (auto simp: moves_of_def transition_def)
  with r show ?thesis by blast
qed

lemma moved_find:
  assumes "moved i f ms s t" "find_row s i = Some r" "\<And>r. row_id (f r) = row_id r"
  shows "find_row t i = Some (f r)"
proof -
  have "find (\<lambda>x. row_id x = i) (map (\<lambda>x. if row_id x = i then f x else x) xs) = map_option f (find (\<lambda>x. row_id x = i) xs)" for xs
    using assms(3) by (induction xs) auto
  with assms(1,2) show ?thesis by (simp add: moved_def find_row_def change_row_def)
qed

lemma walk_moved:
  assumes run: "walk_to_content_reviewed q dbg now i actor s = (Ok (), t)" and r: "find_row s i = Some r"
  shows "moved i (\<lambda>r. r\<lparr>row_state := ''content_reviewed'', row_updated := now\<rparr>)
    [(row_state r, ''machine_validated''), (''machine_validated'', ''independent_verified''), (''independent_verified'', ''content_reviewed'')] s t"
proof -
  obtain s1 s2 where steps: "advance q dbg now i ''machine_validated'' actor ''pipeline step'' s = (Ok (), s1)"
      "advance q dbg now i ''independent_verified'' actor ''pipeline step'' s1 = (Ok (), s2)"
      "advance q dbg now i ''content_reviewed'' actor ''pipeline step'' s2 = (Ok (), t)"
    using run by (auto simp: walk_to_content_reviewed_def PIPELINE_def seq_Ok return_def)
  let ?f = "\<lambda>st r. r\<lparr>row_state := st, row_updated := now\<rparr>"
  have 1: "moved i (?f ''machine_validated'') [(row_state r, ''machine_validated'')] s s1"
    using advance_moved [OF steps(1)] r by auto
  have r1: "find_row s1 i = Some (?f ''machine_validated'' r)" by (rule moved_find [OF 1 r]) simp
  have 2: "moved i (?f ''independent_verified'') [(''machine_validated'', ''independent_verified'')] s1 s2"
    using advance_moved [OF steps(2)] r1 by auto
  have r2: "find_row s2 i = Some (?f ''independent_verified'' (?f ''machine_validated'' r))" by (rule moved_find [OF 2 r1]) simp
  have 3: "moved i (?f ''content_reviewed'') [(''independent_verified'', ''content_reviewed'')] s2 t"
    using advance_moved [OF steps(3)] r2 by auto
  from moved_trans [OF moved_trans [OF 1 2] 3] show ?thesis by simp
qed

lemma activate_moved:
  assumes run: "activate q dbg now i reviewer why s = (Ok (), t)" and r: "find_row s i = Some r"
  shows "moved i (\<lambda>r. r\<lparr>row_reviewer := reviewer, row_state := ''active'', row_updated := now\<rparr>) [(row_state r, ''active'')] s t"
proof -
  let ?f = "\<lambda>r. r\<lparr>row_reviewer := reviewer, row_updated := now\<rparr>"
  have "advance q dbg now i ''active'' reviewer why (change_row i ?f s) = (Ok (), t)"
    using run by (auto simp: activate_def fail_def seq_Ok update_row_def statement_Ok split: if_splits)
  moreover have 1: "moved i ?f [] s (change_row i ?f s)" by (simp add: moved_def moves_of_def)
  moreover have "find_row (change_row i ?f s) i = Some (?f r)" by (rule moved_find [OF 1 r]) simp
  ultimately have 2: "moved i (\<lambda>r. r\<lparr>row_state := ''active'', row_updated := now\<rparr>) [(row_state r, ''active'')] (change_row i ?f s) t"
    using advance_moved by fastforce
  from moved_trans [OF 1 2] show ?thesis by simp
qed

lemma moved_out_of_service:
  assumes m: "moved i f ms s t" and out: "\<And>r. row_state (f r) \<noteq> ''active''" and id: "\<And>r. row_id (f r) = row_id r"
  shows "i \<notin> row_id ` set (servable_in sub obj t)"
proof
  assume "i \<in> row_id ` set (servable_in sub obj t)"
  then obtain r where "r \<in> set (item_rows t)" "row_id r = i" "row_state r = ''active''" by (auto simp: servable_in_def)
  with m out id show False by (auto simp: moved_def change_row_def split: if_splits)
qed

text \<open>
  C25. A withdrawn item is not served. Reinstating it restores its row but for the time of the update, leaves
  the rest of the store as it was, and records the withdrawal and a second walk through the pipeline.
\<close>

theorem reinstatement_restores:
  assumes ok: "(app_step e)\<^sup>*\<^sup>* empty_store s" and r: "find_row s i = Some r" "row_state r = ''active''"
    and withdrawn: "quarantine_item e i a why s = (Ok (), t)" and returned: "reinstate_item e i a' why' t = (Ok (), u)"
  shows "(\<forall>sub obj. i \<notin> row_id ` set (servable_in sub obj t)) \<and>
    moved i (\<lambda>r. r\<lparr>row_updated := today e\<rparr>) ([(''active'', ''quarantined''), (''quarantined'', ''draft'')] @ pipeline_moves) s u"
proof -
  let ?q = "\<lambda>r. r\<lparr>row_state := ''quarantined'', row_updated := today e\<rparr>" and ?d = "\<lambda>r. r\<lparr>row_state := ''draft'', row_updated := today e\<rparr>"
  let ?c = "\<lambda>r. r\<lparr>row_state := ''content_reviewed'', row_updated := today e\<rparr>"
  let ?a = "\<lambda>x. x\<lparr>row_reviewer := row_reviewer r, row_state := ''active'', row_updated := today e\<rparr>"
  have "advance (sql e) (debug e) (today e) i ''quarantined'' a why s = (Ok (), t)"
    using withdrawn r by (simp add: quarantine_item_def query_def)
  from advance_moved [OF this] r have 1: "moved i ?q [(''active'', ''quarantined'')] s t" by auto
  have r1: "find_row t i = Some (?q r)" by (rule moved_find [OF 1 r(1)]) simp
  have "\<exists>t1 t2. advance (sql e) (debug e) (today e) i ''draft'' a' why' t = (Ok (), t1) \<and>
      walk_to_content_reviewed (sql e) (debug e) (today e) i a' t1 = (Ok (), t2) \<and>
      activate (sql e) (debug e) (today e) i (row_reviewer r) why' t2 = (Ok (), u)"
    using returned r1 by (auto simp: reinstate_item_def query_def fail_def seq_Ok split: if_splits)
  then obtain t1 t2 where steps: "advance (sql e) (debug e) (today e) i ''draft'' a' why' t = (Ok (), t1)"
      "walk_to_content_reviewed (sql e) (debug e) (today e) i a' t1 = (Ok (), t2)"
      "activate (sql e) (debug e) (today e) i (row_reviewer r) why' t2 = (Ok (), u)" by blast
  from advance_moved [OF steps(1)] r1 have 2: "moved i ?d [(''quarantined'', ''draft'')] t t1" by auto
  have r2: "find_row t1 i = Some (?d (?q r))" by (rule moved_find [OF 2 r1]) simp
  have 3: "moved i ?c [(''draft'', ''machine_validated''), (''machine_validated'', ''independent_verified''),
      (''independent_verified'', ''content_reviewed'')] t1 t2"
    using walk_moved [OF steps(2) r2] by simp
  have r3: "find_row t2 i = Some (?c (?d (?q r)))" by (rule moved_find [OF 3 r2]) simp
  have 4: "moved i ?a [(''content_reviewed'', ''active'')] t2 u"
    using activate_moved [OF steps(3) r3] by simp
  have all: "moved i (\<lambda>x. ?a (?c (?d (?q x)))) ([(''active'', ''quarantined''), (''quarantined'', ''draft'')] @ pipeline_moves) s u"
    using moved_trans [OF moved_trans [OF moved_trans [OF 1 2] 3] 4] by (simp add: pipeline_moves_def)
  have only: "x = r" if "x \<in> set (item_rows s)" "row_id x = i" for x
    using store_ok_unique [of "sql e" s x r] reachable_app_ok [OF ok] find_row_Some [OF r(1)] that by (simp add: db_ok_def)
  have "r\<lparr>row_state := ''active''\<rparr> = r" using r(2) by (metis item_row.surjective item_row.update_convs(5))
  then have eq: "?a (?c (?d (?q r))) = r\<lparr>row_updated := today e\<rparr>" by (cases r) simp
  have "?a (?c (?d (?q x))) = x\<lparr>row_updated := today e\<rparr>" if "x \<in> set (item_rows s)" "row_id x = i" for x
    unfolding only [OF that] by (rule eq)
  then have "item_rows (change_row i (\<lambda>x. ?a (?c (?d (?q x)))) s) = item_rows (change_row i (\<lambda>r. r\<lparr>row_updated := today e\<rparr>) s)"
    unfolding rows_change_row by (intro map_cong refl) simp
  with all have "moved i (\<lambda>r. r\<lparr>row_updated := today e\<rparr>) ([(''active'', ''quarantined''), (''quarantined'', ''draft'')] @ pipeline_moves) s u"
    unfolding moved_def by simp
  with moved_out_of_service [OF 1] show ?thesis by simp
qed

section \<open>Concrete inputs\<close>

definition sample_env :: "nat lane_env" where
  "sample_env = \<lparr>sql = sample_sql, debug = id, explain_error = (\<lambda>x. case x of Refused m \<Rightarrow> m | Constraint m \<Rightarrow> m), today = ''now''\<rparr>"

definition sample_submission :: "string list \<Rightarrow> string \<Rightarrow> string \<Rightarrow> nat submission" where
  "sample_submission srcs reviewer_name h = \<lparr>
     sub_row = new_item ''MC'' ''o'' ''what is 1+1'' None [''2'', ''3''] 0 ''sum'' [] 0 ''executable'' ''{}'' h (Some ''g''),
     sub_sources = srcs, sub_verifier = ''v'', sub_actor = ''gen'', sub_reviewer = reviewer_name, sub_note = ''checked''\<rparr>"

lemma sample_env_reachable: "(app_step sample_env)\<^sup>*\<^sup>* empty_store sample_db"
proof -
  have "app_step sample_env empty_store sample_db"
    by (rule app_step.database) (simp add: sample_env_def sample_db_def db_step.installing)
  then show ?thesis by blast
qed

lemma sample_ids: "inj (uuid (sql sample_env))" "fresh_reviews (sql sample_env) sample_db"
proof -
  have uuid: "uuid (sql sample_env) n = replicate n (CHR ''a'')" for n by (simp add: sample_env_def sample_sql_def)
  show "inj (uuid (sql sample_env))" by (rule injI) (metis uuid length_replicate)
  have "\<forall>v \<in> set (reviews sample_db). length (review_id v) < drawn sample_db + 4" by code_simp
  then have short: "length (review_id v) < drawn sample_db + 4" if "v \<in> set (reviews sample_db)" for v using that by blast
  have long: "length (''rev'' @ ''-'' @ uuid (sql sample_env) n) = n + 4" for n by (simp add: uuid)
  show "fresh_reviews (sql sample_env) sample_db"
    unfolding fresh_reviews_def
  proof (intro allI impI notI)
    fix n
    assume n: "drawn sample_db \<le> n" and "''rev'' @ ''-'' @ uuid (sql sample_env) n \<in> review_id ` set (reviews sample_db)"
    then obtain v where v: "v \<in> set (reviews sample_db)" "''rev'' @ ''-'' @ uuid (sql sample_env) n = review_id v" by blast
    have "length (review_id v) = n + 4" using long [of n] unfolding v(2) .
    with short [OF v(1)] n show False by simp
  qed
qed

theorem stored_item_is_accepted_witness:
  "\<exists>i t. store_submission sample_env (sample_submission [''ev-a''] ''ann'' ''h1'') sample_db = (Ok i, t) \<and>
     item_rows t = item_rows sample_db @ [accepted_row sample_env (sample_submission [''ev-a''] ''ann'' ''h1'') i]"
proof -
  let ?run = "store_submission sample_env (sample_submission [''ev-a''] ''ann'' ''h1'') sample_db"
  have "case fst ?run of Ok i \<Rightarrow> True | Err _ \<Rightarrow> False" by code_simp
  then obtain i t where run: "?run = (Ok i, t)" by (cases ?run) (auto split: result.splits)
  from stored_item_is_accepted [OF run] run show ?thesis by blast
qed

theorem rejected_item_leaves_no_row_witness:
  "\<exists>x t. store_submission sample_env (sample_submission [''unknown''] ''ann'' ''h1'') sample_db = (Err x, t) \<and> same_tables sample_db t"
proof -
  let ?b = "sample_submission [''unknown''] ''ann'' ''h1''"
  have "case fst (store_submission sample_env ?b sample_db) of Ok i \<Rightarrow> False | Err _ \<Rightarrow> True" by code_simp
  then obtain x t where run: "store_submission sample_env ?b sample_db = (Err x, t)"
    by (cases "store_submission sample_env ?b sample_db") (auto split: result.splits)
  have "trim_text ''ann'' \<noteq> []" "\<not> blank ''gen''" "\<not> blank ''o''" by code_simp+
  then have "activatable ?b" by (simp add: activatable_def sample_submission_def new_item_def)
  from rejected_item_leaves_no_row [OF sample_env_reachable sample_ids this run] run show ?thesis by blast
qed

text \<open>Without a reviewer the walk succeeds, activation is refused, and the row stays in the store.\<close>

lemma refused_activation_leaves_a_row:
  "(let (r, t) = store_submission sample_env (sample_submission [''ev-a''] '' '' ''h1'') sample_db in
    (case r of Ok _ \<Rightarrow> False | Err _ \<Rightarrow> True) \<and> map row_state (item_rows t) = [''active'', ''content_reviewed''])"
  by code_simp

definition sample_lane :: "(string, nat) lane" where
  "sample_lane = \<lparr>lane_hash = id, lane_question = (\<lambda>h. Some (''MC'', ''what is 1+1'', ''2'', None)),
     lane_submit = (\<lambda>h. Some (Ok (sample_submission [''ev-a''] ''ann'' h))), lane_name = id\<rparr>"

lemma sample_run: "\<exists>t s. run_lane sample_env sample_lane [''h1'', ''h2''] empty_tally sample_db = Some (t, s) \<and> run_activated t = 1 \<and> run_present t = 1"
proof -
  have "(case run_lane sample_env sample_lane [''h1'', ''h2''] empty_tally sample_db of Some (t, s) \<Rightarrow> run_activated t = 1 \<and> run_present t = 1 | None \<Rightarrow> False)"
    by code_simp
  then show ?thesis by (auto split: option.splits)
qed

theorem run_accounts_for_every_item_witness:
  "\<exists>t s. run_lane sample_env sample_lane [''h1'', ''h2''] empty_tally sample_db = Some (t, s) \<and> length (run_ids t) = 1 \<and> run_rejected t = []"
proof -
  obtain t s where run: "run_lane sample_env sample_lane [''h1'', ''h2''] empty_tally sample_db = Some (t, s)" "run_activated t = 1" "run_present t = 1"
    using sample_run by blast
  with run_accounts_for_every_item [OF sample_env_reachable run(1)] show ?thesis by auto
qed

theorem no_question_is_stored_twice_witness:
  "\<exists>t s. run_lane sample_env sample_lane [''h1'', ''h2''] empty_tally sample_db = Some (t, s) \<and> questions_once s"
proof -
  obtain t s where run: "run_lane sample_env sample_lane [''h1'', ''h2''] empty_tally sample_db = Some (t, s)" using sample_run by blast
  have "consistent sample_lane i" for i
    by (simp add: consistent_def sample_lane_def sample_submission_def new_item_def asks_def)
  moreover have "questions_once sample_db" unfolding questions_once_def by code_simp
  ultimately have "questions_once s" using no_question_is_stored_twice [OF run] by blast
  with run show ?thesis by blast
qed


theorem reinstatement_restores_witness:
  "\<exists>t u. quarantine_item sample_env ''i'' ''ann'' ''doubt'' sample_db = (Ok (), t) \<and> reinstate_item sample_env ''i'' ''bob'' ''fixed'' t = (Ok (), u) \<and>
     ''i'' \<notin> row_id ` set (servable_in ''AR'' None t) \<and>
     item_rows u = item_rows (change_row ''i'' (\<lambda>r. r\<lparr>row_updated := ''now''\<rparr>) sample_db)"
proof -
  have "case quarantine_item sample_env ''i'' ''ann'' ''doubt'' sample_db of
      (Ok _, t) \<Rightarrow> (case fst (reinstate_item sample_env ''i'' ''bob'' ''fixed'' t) of Ok _ \<Rightarrow> True | Err _ \<Rightarrow> False) | _ \<Rightarrow> False"
    by code_simp
  then obtain t where t: "quarantine_item sample_env ''i'' ''ann'' ''doubt'' sample_db = (Ok (), t)"
      "case fst (reinstate_item sample_env ''i'' ''bob'' ''fixed'' t) of Ok _ \<Rightarrow> True | Err _ \<Rightarrow> False"
    by (cases "quarantine_item sample_env ''i'' ''ann'' ''doubt'' sample_db") (auto split: result.splits)
  then obtain u where u: "reinstate_item sample_env ''i'' ''bob'' ''fixed'' t = (Ok (), u)"
    by (cases "reinstate_item sample_env ''i'' ''bob'' ''fixed'' t") (auto split: result.splits)
  have "map_option row_state (find_row sample_db ''i'') = Some ''active''" by code_simp
  then obtain r where r: "find_row sample_db ''i'' = Some r" "row_state r = ''active''" by auto
  have "today sample_env = ''now''" by (simp add: sample_env_def)
  with reinstatement_restores [OF sample_env_reachable r t(1) u] t(1) u show ?thesis by (simp add: moved_def)
qed

text \<open>The question check does not look at withdrawn items, so reinstating one can put a question in service twice.\<close>

lemma reinstatement_repeats_question:
  "(let (r1, s1) = store_submission sample_env (sample_submission [''ev-a''] ''ann'' ''h1'') sample_db;
        i = (case r1 of Ok i \<Rightarrow> i | Err _ \<Rightarrow> []);
        s2 = snd (quarantine_item sample_env i ''ann'' ''doubt'' s1)
    in case run_lane sample_env sample_lane [''h2''] empty_tally s2 of
         None \<Rightarrow> False
       | Some (t, s3) \<Rightarrow>
           (let s4 = snd (reinstate_item sample_env i ''bob'' ''fixed'' s3) in
            run_activated t = 1 \<and> map row_stem (servable ''MC'' s4) = [''what is 1+1'', ''what is 1+1'']))"
  by code_simp

end
