(* ===== verification/Legibility.thy ===== *)
theory Legibility
  imports Dictionary Glossary Encoding
begin

text \<open>
  The checks of \<open>crates/vector-application/src/content.rs\<close> on text a learner reads: words the
  dictionary carries with their inflections, words a scanner ran together, and glossary entries that
  survived the scan. The dictionary is the one of \<^theory_text>\<open>Dictionary\<close>.
\<close>

section \<open>Words\<close>

definition WORD_SUFFIXES :: "string list" where
  "WORD_SUFFIXES = [''s'', ''es'', ''ed'', ''ing'', ''ly'', ''est'', ''er'']"

definition covers_word :: "unicode \<Rightarrow> dictionary \<Rightarrow> string \<Rightarrow> bool" where
  "covers_word u d w =
     (if covers u d w then True
      else let lower = to_lower u w in
        if list_ex (\<lambda>s. case strip_suffix lower s of None \<Rightarrow> False
             | Some stem \<Rightarrow> 3 \<le> length stem \<and> (covers u d stem \<or> covers u d (stem @ ''e''))) WORD_SUFFIXES then True
        else list_ex (\<lambda>s. case strip_suffix lower s of None \<Rightarrow> False
             | Some stem \<Rightarrow> 2 \<le> length stem \<and> covers u d (stem @ ''y'')) [''ies'', ''ied''])"

definition option_words_are_known :: "unicode \<Rightarrow> dictionary \<Rightarrow> string \<Rightarrow> bool" where
  "option_words_are_known u d t = list_all (covers_word u d) (filter (\<lambda>w. 4 \<le> length w) (split_text (\<lambda>c. \<not> alphabetic u c) t))"

section \<open>Words run together\<close>

definition comes_apart_into_two_words :: "unicode \<Rightarrow> dictionary \<Rightarrow> string \<Rightarrow> bool" where
  "comes_apart_into_two_words u d w =
     (if covers_word u d w then False
      else let lower = to_lower u w in
        list_ex (\<lambda>i. boundary lower i \<and> covers_word u d (take i lower) \<and> covers_word u d (drop i lower)) [2..<length lower - 1])"

text \<open>A comma or semicolon, which is one byte, with something on both sides of it.\<close>

definition joined_by_punctuation :: "string \<Rightarrow> bool" where
  "joined_by_punctuation t = list_ex (\<lambda>i. t ! i \<in> {CHR '','', CHR '';''} \<and> 0 < i \<and> i + 1 < length t) [0..<length t]"

definition joined_token :: "unicode \<Rightarrow> dictionary \<Rightarrow> string \<Rightarrow> bool" where
  "joined_token u d token =
     (let trimmed = trim_matches (\<lambda>c. \<not> alphanumeric u c) token in
      if joined_by_punctuation trimmed then True
      else if length trimmed < 5 \<or> \<not> list_all (alphabetic u) (chars trimmed)
      then list_ex (\<lambda>part. 5 \<le> length part \<and> comes_apart_into_two_words u d part) (split_on (CHR ''-'') trimmed)
      else comes_apart_into_two_words u d (to_lower u trimmed))"

definition has_joined_words :: "unicode \<Rightarrow> dictionary \<Rightarrow> string \<Rightarrow> string option" where
  "has_joined_words u d t = find (joined_token u d) (split_whitespace t)"

section \<open>Glossary entries\<close>

definition long_tokens :: "string \<Rightarrow> string list" where
  "long_tokens t = filter (\<lambda>w. 4 \<le> length w) (split_text (\<lambda>c. \<not> ascii_alphabetic c) t)"

definition entry_is_legible :: "unicode \<Rightarrow> dictionary \<Rightarrow> glossary \<Rightarrow> string \<Rightarrow> string \<Rightarrow> bool" where
  "entry_is_legible u d g term_text definition_text \<longleftrightarrow>
     list_all (\<lambda>w. \<not> looks_like_misreading u d w) (long_tokens term_text) \<and>
     list_all (\<lambda>w. defines_term u g w \<or> \<not> looks_like_misreading u d w) (long_tokens definition_text)"

section \<open>A lost space is found\<close>

text \<open>Unicode tables that agree with ASCII on lower-case letters.\<close>

definition knows_lower :: "unicode \<Rightarrow> bool" where
  "knows_lower u \<longleftrightarrow> (\<forall>s. (\<forall>c \<in> set s. is_lower c) \<longrightarrow> to_lower u s = s) \<and> (\<forall>c. is_lower c \<longrightarrow> alphabetic u [c] \<and> alphanumeric u [c])"

lemma lower_ascii: "is_lower c \<Longrightarrow> byte c < 128"
  by (simp add: is_lower_def)

lemma lower_chars: "\<forall>c \<in> set s. is_lower c \<Longrightarrow> chars s = map (\<lambda>c. [c]) s"
  by (rule chars_ascii) (auto intro: lower_ascii)

lemma comes_apart_iff:
  assumes u: "knows_lower u" and w: "\<forall>c \<in> set w. is_lower c"
  shows "comes_apart_into_two_words u d w \<longleftrightarrow>
    \<not> covers_word u d w \<and> (\<exists>a b. w = a @ b \<and> 2 \<le> length a \<and> 2 \<le> length b \<and> covers_word u d a \<and> covers_word u d b)"
proof -
  have low: "to_lower u w = w" using u w by (simp add: knows_lower_def)
  have edge: "boundary w i" if "i \<le> length w" for i
    using that w lower_ascii [of "w ! i"] by (auto simp: boundary_def continuation_def)
  have "(\<exists>i. 2 \<le> i \<and> i < length w - 1 \<and> boundary w i \<and> covers_word u d (take i w) \<and> covers_word u d (drop i w)) \<longleftrightarrow>
      (\<exists>a b. w = a @ b \<and> 2 \<le> length a \<and> 2 \<le> length b \<and> covers_word u d a \<and> covers_word u d b)" (is "?l \<longleftrightarrow> ?r")
  proof
    assume ?l
    then obtain i where i: "2 \<le> i" "i < length w - 1" "covers_word u d (take i w)" "covers_word u d (drop i w)" by blast
    then show ?r by (intro exI [of _ "take i w"] exI [of _ "drop i w"]) auto
  next
    assume ?r
    then obtain a b where ab: "w = a @ b" "2 \<le> length a" "2 \<le> length b" "covers_word u d a" "covers_word u d b" by blast
    with edge [of "length a"] show ?l by (intro exI [of _ "length a"]) auto
  qed
  then show ?thesis by (auto simp: comes_apart_into_two_words_def low list_ex_iff Let_def)
qed

lemma lower_not_punctuation: "\<forall>c \<in> set t. is_lower c \<Longrightarrow> \<not> joined_by_punctuation t"
proof -
  assume t: "\<forall>c \<in> set t. is_lower c"
  have "\<not> is_lower (CHR '','')" "\<not> is_lower (CHR '';'')" by (simp_all add: is_lower_def byte_def)
  then show ?thesis using t by (auto simp: joined_by_punctuation_def list_ex_iff dest!: nth_mem)
qed

lemma joined_token_lower:
  assumes u: "knows_lower u" and t: "\<forall>c \<in> set t. is_lower c" and long: "5 \<le> length t"
  shows "joined_token u d t = comes_apart_into_two_words u d t"
proof -
  have letters: "\<forall>c \<in> set (chars t). alphanumeric u c \<and> alphabetic u c"
    using u t by (auto simp: lower_chars knows_lower_def)
  then have "trim_matches (\<lambda>c. \<not> alphanumeric u c) t = t"
  proof -
    have keep: "dropWhile (\<lambda>c. \<not> alphanumeric u c) xs = xs" if "\<forall>c \<in> set xs. alphanumeric u c" for xs
      using that by (cases xs) auto
    show ?thesis using letters by (simp add: trim_matches_def drop_ends_def keep)
  qed
  moreover have "to_lower u t = t" using u t by (simp add: knows_lower_def)
  ultimately show ?thesis
    using lower_not_punctuation [OF t] long letters by (simp add: joined_token_def list_all_iff)
qed


lemma ascii_knows_lower: "knows_lower ascii_unicode"
proof -
  have "lower_byte c = c" if "is_lower c" for c using that by (simp add: lower_byte_def is_lower_def is_upper_def)
  then have "ascii_lower s = s" if "\<forall>c \<in> set s. is_lower c" for s using that by (simp add: ascii_lower_def map_idI)
  then show ?thesis by (simp add: knows_lower_def ascii_unicode_def ascii_alphabetic_def ascii_alphanumeric_def)
qed


end
