(* ===== verification/Failure_Texts.thy ===== *)
theory Failure_Texts
  imports Factory Thesaurus Glossary Passages Facts
begin

text \<open>
  The \<open>Display\<close> of the verification failures of \<open>crates/vector-questions/src\<close>, as the pipeline puts
  them into the reason of a rejection. The \<open>Debug\<close> form of a string is the parameter \<open>dbg\<close> and that of
  a character \<open>dbg_char\<close>; a vector of indices is written out.
\<close>

definition show_indices :: "nat list \<Rightarrow> string" where
  "show_indices ns = ''['' @ join '', '' (map show_nat ns) @ '']''"

definition two_options :: "nat \<Rightarrow> string" where
  "two_options n = ''an item needs at least 2 options, found '' @ show_nat n"

definition index_outside :: "nat \<Rightarrow> nat \<Rightarrow> string" where
  "index_outside index n = ''correct_index '' @ show_nat index @ '' is outside '' @ show_nat n @ '' options''"

definition appears_twice :: "string \<Rightarrow> string" where
  "appears_twice shown = ''option '' @ shown @ '' appears more than once''"

definition wrong_coverage :: "nat list \<Rightarrow> nat list \<Rightarrow> string" where
  "wrong_coverage missing extra = ''rationales missing for '' @ show_indices missing @ '' and unexpected for '' @ show_indices extra"

section \<open>The evaluator and the factory\<close>

fun proof_error_text :: "(string \<Rightarrow> string) \<Rightarrow> (char \<Rightarrow> string) \<Rightarrow> proof_error \<Rightarrow> string" where
  "proof_error_text dbg dbg_char Empty = ''proof expression is empty''"
| "proof_error_text dbg dbg_char (UnexpectedCharacter c i) =
     ''unexpected character '' @ dbg_char c @ '' at position '' @ show_nat i"
| "proof_error_text dbg dbg_char UnexpectedEnd = ''proof expression ended early''"
| "proof_error_text dbg dbg_char UnclosedParenthesis = ''unclosed parenthesis''"
| "proof_error_text dbg dbg_char UnmatchedClosingParenthesis = ''closing parenthesis with no opener''"
| "proof_error_text dbg dbg_char (NumberTooLarge literal) = ''number literal '' @ dbg literal @ '' does not fit in i128''"
| "proof_error_text dbg dbg_char DivisionByZero = ''division by zero''"
| "proof_error_text dbg dbg_char (NonExactDivision numerator denominator) =
     show_int numerator @ '' is not exactly divisible by '' @ show_int denominator @ '', so the proof would rely on truncation''"
| "proof_error_text dbg dbg_char Overflow = ''proof expression overflowed i128''"
| "proof_error_text dbg dbg_char (AnswerNotAnInteger literal) = ''declared answer '' @ dbg literal @ '' is not an integer''"
| "proof_error_text dbg dbg_char (AnswerMismatch declared recomputed) =
     ''declared answer '' @ show_int declared @ '' disagrees with the expression, which evaluates to '' @ show_int recomputed"

fun generated_failure_text :: "(string \<Rightarrow> string) \<Rightarrow> (char \<Rightarrow> string) \<Rightarrow> verification_failure \<Rightarrow> string" where
  "generated_failure_text dbg dbg_char (ProofRejected reason) = ''proof rejected: '' @ proof_error_text dbg dbg_char reason"
| "generated_failure_text dbg dbg_char (Factory.TooFewOptions n) = two_options n"
| "generated_failure_text dbg dbg_char (Factory.CorrectIndexOutOfRange index n) = index_outside index n"
| "generated_failure_text dbg dbg_char (CorrectOptionDisagreesWithProof opt proved) =
     ''the option at correct_index is '' @ dbg opt @ '' but the proof gives '' @ dbg proved"
| "generated_failure_text dbg dbg_char (Factory.DuplicateOption opt) = appears_twice (dbg opt)"
| "generated_failure_text dbg dbg_char (DistractorEqualsAnswer index v) =
     ''distractor at index '' @ show_nat index @ '' is '' @ dbg v @ '', equal to the answer''"
| "generated_failure_text dbg dbg_char (Factory.RationaleCoverage missing extra) = wrong_coverage missing extra"
| "generated_failure_text dbg dbg_char (Factory.Blank what) = what @ '' is blank''"

section \<open>The sources\<close>

fun wk_failure_text :: "(string \<Rightarrow> string) \<Rightarrow> wk_failure \<Rightarrow> string" where
  "wk_failure_text dbg (CorrectOptionNotInSource opt head) = ''the source does not list '' @ dbg opt @ '' with '' @ dbg head"
| "wk_failure_text dbg (AmbiguousDistractor opt head) = dbg opt @ '' is listed with '' @ dbg head @
     '', so it may also be a synonym and the item would have no single right answer''"
| "wk_failure_text dbg (Thesaurus.TooFewOptions n) = two_options n"
| "wk_failure_text dbg (Thesaurus.CorrectIndexOutOfRange index n) = index_outside index n"
| "wk_failure_text dbg (Thesaurus.DuplicateOption opt) = appears_twice (dbg opt)"
| "wk_failure_text dbg (Thesaurus.RationaleCoverage missing extra) = wrong_coverage missing extra"
| "wk_failure_text dbg (Thesaurus.Blank what) = what @ '' is blank''"
| "wk_failure_text dbg (UnknownHeadword w) = ''the headword '' @ dbg w @ '' is not in the source''"

fun ei_failure_text :: "(string \<Rightarrow> string) \<Rightarrow> ei_failure \<Rightarrow> string" where
  "ei_failure_text dbg (CorrectOptionIsNotTheDefinedTerm opt t) =
     ''the option marked correct is '' @ dbg opt @ '', but the prompt defines '' @ dbg t"
| "ei_failure_text dbg (DistractorIsTheAnswer opt) = ''distractor '' @ dbg opt @ '' is the term being asked about''"
| "ei_failure_text dbg (Glossary.DuplicateOption opt) = appears_twice (dbg opt)"
| "ei_failure_text dbg (Glossary.TooFewOptions n) = two_options n"
| "ei_failure_text dbg (Glossary.CorrectIndexOutOfRange index n) = index_outside index n"
| "ei_failure_text dbg (Glossary.RationaleCoverage missing extra) = wrong_coverage missing extra"
| "ei_failure_text dbg (Glossary.Blank what) = what @ '' is blank''"
| "ei_failure_text dbg (UnknownTerm t) = dbg t @ '' is not in the glossary''"
| "ei_failure_text dbg (OptionIsNotAGlossaryTerm opt) =
     ''option '' @ dbg opt @ '' is not a glossary term, so it is not a real distractor''"

fun pc_failure_text :: "(string \<Rightarrow> string) \<Rightarrow> pc_failure \<Rightarrow> string" where
  "pc_failure_text dbg (CorrectOptionNotInPassage opt) = ''the option marked correct is not stated in the passage: '' @ dbg opt"
| "pc_failure_text dbg (DistractorAlsoInPassage opt) =
     ''distractor '' @ dbg opt @ '' is also stated in the passage, so two options would be true''"
| "pc_failure_text dbg (DistractorTokenPresent opt token) =
     ''distractor '' @ dbg opt @ '' differs from the passage only by '' @ dbg token @
     '', which the passage also contains, so it cannot be ruled out''"
| "pc_failure_text dbg (Passages.TooFewOptions n) = two_options n"
| "pc_failure_text dbg (Passages.CorrectIndexOutOfRange index n) = index_outside index n"
| "pc_failure_text dbg (Passages.DuplicateOption opt) = appears_twice (dbg opt)"
| "pc_failure_text dbg (Passages.RationaleCoverage missing extra) = wrong_coverage missing extra"
| "pc_failure_text dbg (Passages.Blank what) = what @ '' is blank''"
| "pc_failure_text dbg (PassageLength words) = ''the passage is '' @ show_nat words @ '' words long''"
| "pc_failure_text dbg (ClauseLength opt words) =
     ''option '' @ dbg opt @ '' is '' @ show_nat words @ '' words, outside the clause band, so it is answerable by shape''"

fun fact_failure_text :: "(string \<Rightarrow> string) \<Rightarrow> fact_failure \<Rightarrow> string" where
  "fact_failure_text dbg (Facts.Blank what) = ''the '' @ what @ '' is blank''"
| "fact_failure_text dbg (AnswerNotFromSource opt) = ''the correct option is not the answer this source gives: '' @ dbg opt"
| "fact_failure_text dbg (DistractorNotFromSource opt) = ''the distractor is not an answer this source contains: '' @ dbg opt"
| "fact_failure_text dbg (Facts.TooFewOptions n) = ''an item needs at least 2 options, got '' @ show_nat n"
| "fact_failure_text dbg (OptionLength opt words) = ''option '' @ dbg opt @ '' has '' @ show_nat words @ '' words, outside the comparable band''"
| "fact_failure_text dbg (Facts.CorrectIndexOutOfRange index n) = index_outside index n"
| "fact_failure_text dbg (Facts.DuplicateOption opt) = ''two options are the same: '' @ dbg opt"
| "fact_failure_text dbg (MissingRationale index) = ''option '' @ show_nat index @ '' has no rationale''"
| "fact_failure_text dbg (NotAQuestion prompt) = ''the prompt is not a question: '' @ dbg prompt"

end
