(* ===== verification/Lanes.thy ===== *)
theory Lanes
  imports Pipeline Legibility Failure_Texts Ingestion
begin

text \<open>
  The lanes of \<open>crates/vector-application/src/content.rs\<close>: what each kind of item submits after its
  verification, and the five operations that build a batch and run it. Each lane is a
  \<^theory_text>\<open>lane\<close> of \<^theory_text>\<open>Pipeline\<close>, and a batch is built by the operations of the item theories.
\<close>

section \<open>What a lane is given\<close>

text \<open>
  The database, the Unicode tables, SHA-256, serde's encoding of a proof, the \<open>Debug\<close> of a character, and
  the floating-point numbers of the difficulties: those of the factory by \<open>of_rat\<close>, that of a Word
  Knowledge item by its headword and the number of its related terms, the constants 0.3, 0.4, 0.2 and 0.1 of the others.
\<close>

record 'f pipeline_env =
  host :: "'f lane_env"
  tables :: unicode
  sha256 :: "string \<Rightarrow> string"
  proof_text :: "answer_proof \<Rightarrow> string"
  debug_char :: "char \<Rightarrow> string"
  of_rat :: "rat \<Rightarrow> 'f"
  wk_difficulty :: "string \<Rightarrow> nat \<Rightarrow> 'f"
  ei_difficulty :: 'f
  pc_difficulty :: 'f
  fact_difficulty :: 'f
  purpose_difficulty :: 'f

definition text_hash :: "'f pipeline_env \<Rightarrow> string \<Rightarrow> string" where
  "text_hash E t = as_str (hash_of_text (sha256 E) t)"

definition with_marks :: "string list \<Rightarrow> string" where
  "with_marks parts = join [CHR 0x01] parts"

definition options_text :: "string list \<Rightarrow> string" where
  "options_text opts = join [CHR 0x02] opts"

definition quoted :: "string \<Rightarrow> string" where
  "quoted t = [CHR 0x22] @ t @ [CHR 0x22]"

definition show_bool :: "bool \<Rightarrow> string" where
  "show_bool b = (if b then ''true'' else ''false'')"

text \<open>A refusal of the verifier.\<close>

definition unproved :: "string \<Rightarrow> ('f submission, string) result option" where
  "unproved why = Some (Err (''item failed source verification: '' @ why))"

section \<open>Generated items\<close>

record generate_request =
  gen_subtest :: string
  gen_count :: nat
  gen_seed :: "64 word"
  gen_reviewer :: string
  gen_source :: string
  gen_generator :: string

definition factory_generator_hash :: "'f pipeline_env \<Rightarrow> generated_item \<Rightarrow> string" where
  "factory_generator_hash E i = text_hash E (with_marks [item_template_id i, item_stem i, item_answer i])"

definition factory_verifier_hash :: "'f pipeline_env \<Rightarrow> generated_item \<Rightarrow> int \<Rightarrow> string" where
  "factory_verifier_hash E i recomputed = text_hash E (with_marks [item_expression i, show_int recomputed])"

definition factory_accepted :: "'f pipeline_env \<Rightarrow> generate_request \<Rightarrow> generated_item \<Rightarrow> int \<Rightarrow> 'f submission" where
  "factory_accepted E q i recomputed =
     \<lparr>sub_row = Pipeline.new_item (item_subtest i) (item_objective_id i) (item_stem i) None (options i) (correct_index i)
        (item_expression i @ '' = '' @ show_int recomputed) (distractor_rationales i) (of_rat E (item_difficulty i)) ''executable''
        (proof_text E (Executable (item_expression i) (show_int recomputed))) (Factory.content_hash (sha256 E) i)
        (Some (factory_generator_hash E i)),
      sub_sources = [gen_source q], sub_verifier = factory_verifier_hash E i recomputed, sub_actor = gen_generator q,
      sub_reviewer = gen_reviewer q, sub_note = ''machine-verified original item, deterministic proof checked''\<rparr>"

definition factory_submission :: "'f pipeline_env \<Rightarrow> generate_request \<Rightarrow> generated_item \<Rightarrow> ('f submission, string) result option" where
  "factory_submission E q i =
     (case Factory.verify i of
        None \<Rightarrow> None
      | Some (Err failure) \<Rightarrow>
          Some (Err (''item failed independent verification: '' @ generated_failure_text (debug (host E)) (debug_char E) failure))
      | Some (Ok _) \<Rightarrow>
          (case verify_answer (item_expression i) (item_answer i) of
             Panic \<Rightarrow> None
           | Out_of_fuel \<Rightarrow> None
           | Error e \<Rightarrow> Some (Err (''proof re-check failed: '' @ proof_error_text (debug (host E)) (debug_char E) e))
           | Value recomputed \<Rightarrow> Some (Ok (factory_accepted E q i recomputed))))"

definition factory_lane :: "'f pipeline_env \<Rightarrow> generate_request \<Rightarrow> (generated_item, 'f) lane" where
  "factory_lane E q = \<lparr>lane_hash = Factory.content_hash (sha256 E),
     lane_question = (\<lambda>i. Some (item_subtest i, item_stem i, item_answer i, None)),
     lane_submit = factory_submission E q, lane_name = item_template_id\<rparr>"

record generation_report =
  report_subtest :: string
  generated :: nat
  generation_run :: tally

definition generatable :: "string list" where
  "generatable = filter (\<lambda>sub. templates_for sub \<noteq> []) [''AR'', ''MK'', ''MC'']"

definition generate_and_activate :: "'f pipeline_env \<Rightarrow> generate_request \<Rightarrow> 'f store \<Rightarrow>
    ((generation_report, store_error) result \<times> 'f store) option" where
  "generate_and_activate E q s = do {
     js \<leftarrow> generate_many (gen_subtest q) (gen_count q) (gen_seed q);
     if js = []
     then Some (Err (Refused (''the factory produced nothing for subtest '' @ debug (host E) (gen_subtest q) @
       ''; templates exist for '' @ join '', '' generatable)), s)
     else do {
       (t, s') \<leftarrow> run_lane (host E) (factory_lane E q) js empty_tally s;
       Some (Ok \<lparr>report_subtest = gen_subtest q, generated = length js, generation_run = t\<rparr>, s')
     }
   }"

text \<open>What the interface shows of a run: one line per refused item. The factory always names its template.\<close>

record generation_dto =
  shown_subtest :: string
  shown_generated :: nat
  shown_verified :: nat
  shown_activated :: nat
  shown_present :: nat
  shown_rejected :: "string list"

definition generation_dto_of :: "generation_report \<Rightarrow> generation_dto" where
  "generation_dto_of r =
     \<lparr>shown_subtest = report_subtest r, shown_generated = generated r, shown_verified = run_verified (generation_run r),
      shown_activated = run_activated (generation_run r), shown_present = run_present (generation_run r),
      shown_rejected = map (\<lambda>(name, reason). name @ '': '' @ reason) (run_rejected (generation_run r))\<rparr>"

text \<open>\<open>item_history\<close>: the audit trail of one item, oldest first, without its keys.\<close>

record review_entry =
  entry_from :: string
  entry_to :: string
  entry_actor :: string
  entry_rationale :: string
  entry_at :: string

definition item_trail :: "string \<Rightarrow> 'f store \<Rightarrow> review_entry list" where
  "item_trail i s = map (\<lambda>v. \<lparr>entry_from = review_from v, entry_to = review_to v, entry_actor = review_actor v,
     entry_rationale = review_rationale v, entry_at = review_at v\<rparr>) (history i s)"

section \<open>Word Knowledge\<close>

record wk_request =
  wkq_thesaurus_source :: string
  wkq_dictionary_source :: string
  wkq_count :: nat
  wkq_seed :: "64 word"
  wkq_min_lines :: nat
  wkq_reviewer :: string
  wkq_generator :: string

definition wk_rubric :: "string \<Rightarrow> string \<Rightarrow> string" where
  "wk_rubric correct head = ''The thesaurus lists '' @ quoted correct @ '' with '' @ quoted head @
     '' on the same line, and Webster's Unabridged defines one of the two using the other, so the pair is '' @
     ''corroborated by both sources rather than asserted by this program.''"

definition wk_accepted :: "'f pipeline_env \<Rightarrow> dictionary \<Rightarrow> wk_request \<Rightarrow> wk_item \<Rightarrow> string \<Rightarrow> 'f submission" where
  "wk_accepted E d q i correct =
     \<lparr>sub_row = Pipeline.new_item ''WK'' (wk_objective_id i) (wk_prompt i) None (wk_options i) (wk_correct_index i) (wk_explanation i)
        (wk_rationales i) (wk_difficulty E (wk_headword i) (wk_related_count i)) ''source_backed''
        (proof_text E (SourceBacked (wkq_thesaurus_source q) (wk_rubric correct (wk_headword i)))) (wk_hash (tables E) (sha256 E) i)
        (Some (text_hash E (with_marks [wk_headword i, options_text (wk_options i), correct]))),
      sub_sources = [wkq_thesaurus_source q, wkq_dictionary_source q],
      sub_verifier = text_hash E (with_marks [wk_supporting_line i, correct,
        ''linked='' @ show_bool (are_linked (tables E) d (wk_headword i) correct)]),
      sub_actor = wkq_generator q, sub_reviewer = wkq_reviewer q,
      sub_note = ''ingested from public-domain sources; synonym pair corroborated by both''\<rparr>"

definition wk_submission :: "'f pipeline_env \<Rightarrow> thesaurus \<Rightarrow> dictionary \<Rightarrow> wk_request \<Rightarrow> wk_item \<Rightarrow> ('f submission, string) result option" where
  "wk_submission E th d q i = do {
     verdict \<leftarrow> Thesaurus.verify (tables E) i th;
     case verdict of
       Err failure \<Rightarrow> unproved (wk_failure_text (debug (host E)) failure)
     | Ok _ \<Rightarrow> do {
         correct \<leftarrow> index_vec (wk_options i) (wk_correct_index i);
         Some (Ok (wk_accepted E d q i correct))
       }
   }"

definition question_of :: "string \<Rightarrow> string \<Rightarrow> string list \<Rightarrow> nat \<Rightarrow> string option \<Rightarrow> (string \<times> string \<times> string \<times> string option) option" where
  "question_of sub prompt opts k passage = map_option (\<lambda>correct. (sub, prompt, correct, passage)) (index_vec opts k)"

definition wk_lane :: "'f pipeline_env \<Rightarrow> thesaurus \<Rightarrow> dictionary \<Rightarrow> wk_request \<Rightarrow> (wk_item, 'f) lane" where
  "wk_lane E th d q = \<lparr>lane_hash = wk_hash (tables E) (sha256 E),
     lane_question = (\<lambda>i. question_of ''WK'' (wk_prompt i) (wk_options i) (wk_correct_index i) None),
     lane_submit = wk_submission E th d q, lane_name = wk_headword\<rparr>"

record wk_report =
  wk_built :: nat
  wk_run :: tally

definition corroborated :: "unicode \<Rightarrow> dictionary \<Rightarrow> unit Thesaurus.veto" where
  "corroborated u d head candidate acc = (are_linked u d head candidate, acc)"

text \<open>What a run reports, when it does not fail.\<close>

definition reported :: "(tally \<Rightarrow> 'r) \<Rightarrow> (tally, store_error) result \<times> 's \<Rightarrow> ('r, store_error) result \<times> 's" where
  "reported rep out = (case out of (Ok t, s) \<Rightarrow> (Ok (rep t), s) | (Err e, s) \<Rightarrow> (Err e, s))"

definition ingest_wk :: "'f pipeline_env \<Rightarrow> thesaurus \<Rightarrow> dictionary \<Rightarrow> wk_request \<Rightarrow> 'f store \<Rightarrow>
    ((wk_report, store_error) result \<times> 'f store) option" where
  "ingest_wk E th d q s = do {
     (js, _) \<leftarrow> build_items_configured (tables E) (sha256 E) th (wkq_count q) (wkq_seed q) (wkq_min_lines q) (corroborated (tables E) d) ();
     if js = []
     then Some (Err (Refused (''no Word Knowledge items survived the dictionary filter; either the sources are wrong or the '' @
       ''filter is rejecting everything'')), s)
     else do {
       out \<leftarrow> run_or_fail (host E) (wk_lane E th d q) ''ingestion'' js s;
       Some (reported (\<lambda>t. \<lparr>wk_built = length js, wk_run = t\<rparr>) out)
     }
   }"

section \<open>Electronics Information\<close>

record ei_request =
  eiq_module :: string
  eiq_source :: string
  eiq_count :: nat
  eiq_seed :: "64 word"
  eiq_min_words :: nat
  eiq_reviewer :: string
  eiq_generator :: string

definition ei_rubric :: "ei_item \<Rightarrow> string" where
  "ei_rubric i = ''NEETS, '' @ ei_module i @ '', defines '' @ quoted (ei_term i) @
     '' as the definition quoted in the prompt, and every option is a term the same module defines.''"

definition ei_accepted :: "'f pipeline_env \<Rightarrow> glossary \<Rightarrow> ei_request \<Rightarrow> ei_item \<Rightarrow> 'f submission" where
  "ei_accepted E g q i =
     \<lparr>sub_row = Pipeline.new_item ''EI'' (ei_objective_id i) (ei_prompt i) None (ei_options i) (ei_correct_index i) (ei_explanation i)
        (ei_rationales i) (ei_difficulty E) ''source_backed'' (proof_text E (SourceBacked (eiq_source q) (ei_rubric i)))
        (ei_hash (tables E) (sha256 E) i) (Some (text_hash E (with_marks [ei_module i, options_text (ei_options i), ei_term i]))),
      sub_sources = [eiq_source q],
      sub_verifier = text_hash E (with_marks [ei_supporting_definition i, ei_term i,
        ''defined='' @ show_bool (defines_term (tables E) g (ei_term i))]),
      sub_actor = eiq_generator q, sub_reviewer = eiq_reviewer q,
      sub_note = ''ingested from a public-domain Navy training module; definition quoted verbatim''\<rparr>"

definition ei_submission :: "'f pipeline_env \<Rightarrow> glossary \<Rightarrow> ei_request \<Rightarrow> ei_item \<Rightarrow> ('f submission, string) result option" where
  "ei_submission E g q i =
     (case Glossary.verify (tables E) i g of
        Err failure \<Rightarrow> unproved (ei_failure_text (debug (host E)) failure)
      | Ok _ \<Rightarrow> Some (Ok (ei_accepted E g q i)))"

definition ei_lane :: "'f pipeline_env \<Rightarrow> glossary \<Rightarrow> ei_request \<Rightarrow> (ei_item, 'f) lane" where
  "ei_lane E g q = \<lparr>lane_hash = ei_hash (tables E) (sha256 E),
     lane_question = (\<lambda>i. question_of ''EI'' (ei_prompt i) (ei_options i) (ei_correct_index i) None),
     lane_submit = ei_submission E g q, lane_name = ei_term\<rparr>"

record ei_report =
  ei_label :: string
  ei_entries :: nat
  ei_built :: nat
  ei_run :: tally

definition legible :: "unicode \<Rightarrow> dictionary \<Rightarrow> glossary \<Rightarrow> unit Glossary.veto" where
  "legible u d g t definition_text acc = (entry_is_legible u d g t definition_text, acc)"

definition ingest_ei :: "'f pipeline_env \<Rightarrow> glossary \<Rightarrow> dictionary \<Rightarrow> ei_request \<Rightarrow> 'f store \<Rightarrow>
    ((ei_report, store_error) result \<times> 'f store) option" where
  "ingest_ei E g d q s = do {
     (js, _) \<leftarrow> Glossary.build_items (tables E) (sha256 E) g (eiq_count q) (eiq_seed q) (eiq_min_words q) (legible (tables E) d g) ();
     if js = []
     then Some (Err (Refused (''module '' @ debug (host E) (eiq_module q) @ '' produced no Electronics Information items from '' @
       show_nat (length (Glossary.entries g)) @ '' entries; either the glossary shape changed or every definition was rejected'')), s)
     else do {
       out \<leftarrow> run_or_fail (host E) (ei_lane E g q) (''module '' @ debug (host E) (eiq_module q)) js s;
       Some (reported (\<lambda>t. \<lparr>ei_label = eiq_module q, ei_entries = length (Glossary.entries g), ei_built = length js, ei_run = t\<rparr>) out)
     }
   }"

section \<open>Paragraph Comprehension\<close>

record pc_request =
  pcq_label :: string
  pcq_source :: string
  pcq_count :: nat
  pcq_seed :: "64 word"
  pcq_reviewer :: string
  pcq_generator :: string

definition pc_rubric :: "string \<Rightarrow> string" where
  "pc_rubric label = label @ '' contains the passage, and the passage states the correct option in its own words. Every other option '' @
     ''differs from it by one word, and that word does not occur in the passage, so the passage rules the option out.''"

definition pc_accepted :: "'f pipeline_env \<Rightarrow> source_text \<Rightarrow> pc_request \<Rightarrow> pc_item \<Rightarrow> 'f submission" where
  "pc_accepted E src q i =
     \<lparr>sub_row = Pipeline.new_item ''PC'' (pc_objective_id i) (pc_prompt i) (Some (pc_passage i)) (pc_options i) (pc_correct_index i)
        (pc_explanation i) (pc_rationales i) (pc_difficulty E) ''source_backed''
        (proof_text E (SourceBacked (pcq_source q) (pc_rubric (pcq_label q)))) (pc_hash (tables E) (sha256 E) i)
        (Some (text_hash E (with_marks [pc_supporting_clause i, options_text (pc_options i), show_nat (pc_correct_index i)]))),
      sub_sources = [pcq_source q],
      sub_verifier = text_hash E (with_marks [pc_passage i, pc_supporting_clause i,
        ''in_source='' @ show_bool (contains_passage (tables E) src (pc_passage i)), ''options='' @ show_nat (length (pc_options i))]),
      sub_actor = pcq_generator q, sub_reviewer = pcq_reviewer q,
      sub_note = ''ingested from public-domain prose; passage occurs verbatim in the source''\<rparr>"

definition pc_submission :: "'f pipeline_env \<Rightarrow> source_text \<Rightarrow> pc_request \<Rightarrow> pc_item \<Rightarrow> ('f submission, string) result option" where
  "pc_submission E src q i =
     (case Passages.verify (tables E) i of
        Err failure \<Rightarrow> unproved (pc_failure_text (debug (host E)) failure)
      | Ok _ \<Rightarrow>
          if \<not> contains_passage (tables E) src (pc_passage i)
          then Some (Err (''the item's passage does not occur in '' @ debug (host E) (pcq_label q) @ '', so the item is not source-backed''))
          else Some (Ok (pc_accepted E src q i)))"

definition pc_lane :: "'f pipeline_env \<Rightarrow> source_text \<Rightarrow> pc_request \<Rightarrow> (pc_item, 'f) lane" where
  "pc_lane E src q = \<lparr>lane_hash = pc_hash (tables E) (sha256 E),
     lane_question = (\<lambda>i. question_of ''PC'' (pc_prompt i) (pc_options i) (pc_correct_index i) (Some (pc_passage i))),
     lane_submit = pc_submission E src q, lane_name = pc_supporting_clause\<rparr>"

text \<open>The reports of the runs that may have nothing to offer: \<open>skipped\<close> says why.\<close>

record pc_report =
  pc_label :: string
  pc_paragraphs :: nat
  pc_built :: nat
  pc_run :: tally
  pc_skipped :: "string option"

definition usable_prose :: "unicode \<Rightarrow> unit Passages.veto" where
  "usable_prose u p acc = (is_usable_passage u p, acc)"

definition no_passage :: string where
  "no_passage = ''no paragraph satisfies the '' @ show_nat MIN_PASSAGE_WORDS @ ''-'' @ show_nat MAX_PASSAGE_WORDS @
     '' word passage band with '' @ show_nat MIN_CLAUSE_WORDS @ ''-'' @ show_nat MAX_CLAUSE_WORDS @ '' word options''"

definition ingest_pc :: "'f pipeline_env \<Rightarrow> source_text \<Rightarrow> pc_request \<Rightarrow> 'f store \<Rightarrow>
    ((pc_report, store_error) result \<times> 'f store) option" where
  "ingest_pc E src q s = do {
     (js, _) \<leftarrow> Passages.build_items (tables E) (debug (host E)) (sha256 E) src (pcq_count q) (pcq_seed q) (usable_prose (tables E)) ();
     let report = (\<lambda>t skipped. \<lparr>pc_label = pcq_label q, pc_paragraphs = length (paragraphs src), pc_built = length js, pc_run = t,
       pc_skipped = skipped\<rparr>);
     if paragraphs src = []
     then Some (Err (Refused (''text '' @ debug (host E) (pcq_label q) @ '' parsed to no paragraphs; the file's markers may have changed'')), s)
     else if js = [] then Some (Ok (report empty_tally (Some no_passage)), s)
     else do {
       out \<leftarrow> run_or_fail (host E) (pc_lane E src q) (''text '' @ debug (host E) (pcq_label q)) js s;
       Some (reported (\<lambda>t. report t None) out)
     }
   }"

section \<open>Facts\<close>

record fact_request =
  fq_subtest :: string
  fq_label :: string
  fq_source :: string
  fq_count :: nat
  fq_seed :: "64 word"
  fq_reviewer :: string
  fq_generator :: string

definition fact_rubric :: "string \<Rightarrow> string" where
  "fact_rubric label = label @ '' asks this question and gives this answer; every other option is an answer the same work gives to '' @
     ''a different question, so the work itself rules each one out.''"

definition fact_accepted :: "'f pipeline_env \<Rightarrow> faq \<Rightarrow> fact_request \<Rightarrow> fact_item \<Rightarrow> 'f submission" where
  "fact_accepted E f q i =
     \<lparr>sub_row = Pipeline.new_item (fq_subtest q) (fact_objective_id i) (fact_prompt i) None (fact_options i) (fact_correct_index i)
        (fact_explanation i) (fact_rationales i) (fact_difficulty E) ''source_backed''
        (proof_text E (SourceBacked (fq_source q) (fact_rubric (fq_label q)))) (fact_hash (tables E) (sha256 E) i)
        (Some (text_hash E (with_marks [fact_prompt i, options_text (fact_options i), show_nat (fact_correct_index i)]))),
      sub_sources = [fq_source q],
      sub_verifier = text_hash E (with_marks [fact_supporting_answer i, fact_prompt i,
        ''from_source='' @ show_bool (says (tables E) f (fact_prompt i) (fact_supporting_answer i))]),
      sub_actor = fq_generator q, sub_reviewer = fq_reviewer q,
      sub_note = ''ingested from a public-domain work; question and answer quoted verbatim''\<rparr>"

definition fact_submission :: "'f pipeline_env \<Rightarrow> faq \<Rightarrow> fact_request \<Rightarrow> fact_item \<Rightarrow> ('f submission, string) result option" where
  "fact_submission E f q i =
     (case Facts.verify (tables E) i f of
        Err failure \<Rightarrow> unproved (fact_failure_text (debug (host E)) failure)
      | Ok _ \<Rightarrow> Some (Ok (fact_accepted E f q i)))"

definition fact_lane :: "'f pipeline_env \<Rightarrow> faq \<Rightarrow> fact_request \<Rightarrow> (fact_item, 'f) lane" where
  "fact_lane E f q = \<lparr>lane_hash = fact_hash (tables E) (sha256 E),
     lane_question = (\<lambda>i. question_of (fq_subtest q) (fact_prompt i) (fact_options i) (fact_correct_index i) None),
     lane_submit = fact_submission E f q, lane_name = fact_prompt\<rparr>"

record fact_report =
  fact_label :: string
  fact_questions :: nat
  fact_built :: nat
  fact_run :: tally
  fact_skipped :: "string option"

definition any_fact :: "unit Facts.veto" where
  "any_fact i acc = (True, acc)"

definition MIN_OPTION_WORDS :: nat where "MIN_OPTION_WORDS = 6"
definition MAX_OPTION_WORDS :: nat where "MAX_OPTION_WORDS = 30"

definition no_answer :: string where
  "no_answer = ''no question has an answer of '' @ show_nat MIN_OPTION_WORDS @ ''-'' @ show_nat MAX_OPTION_WORDS @
     '' words that the dictionary reads as clean prose''"

definition ingest_facts :: "'f pipeline_env \<Rightarrow> faq \<Rightarrow> fact_request \<Rightarrow> 'f store \<Rightarrow>
    ((fact_report, store_error) result \<times> 'f store) option" where
  "ingest_facts E f q s = do {
     (js, _) \<leftarrow> Facts.build_items (tables E) (sha256 E) f (fq_subtest q) (fq_count q) (fq_seed q) MIN_OPTION_WORDS MAX_OPTION_WORDS any_fact ();
     let report = (\<lambda>t skipped. \<lparr>fact_label = fq_label q, fact_questions = length (Facts.entries f), fact_built = length js, fact_run = t,
       fact_skipped = skipped\<rparr>);
     if Facts.entries f = []
     then Some (Err (Refused (''text '' @ debug (host E) (fq_label q) @ '' parsed to no questions at all; the file's markers or its '' @
       ''question style may have changed'')), s)
     else if js = [] then Some (Ok (report empty_tally (Some no_answer)), s)
     else do {
       out \<leftarrow> run_or_fail (host E) (fact_lane E f q) (''text '' @ debug (host E) (fq_label q)) js s;
       Some (reported (\<lambda>t. report t None) out)
     }
   }"

section \<open>What every lane promises\<close>

text \<open>
  A run is sound when it accounts for every item and each identifier it reports is the row, in
  service, of an item of the batch that is \<open>proved\<close>, with the content \<open>accepted\<close> for it.
\<close>

definition run_sound :: "'f lane_env \<Rightarrow> ('i \<Rightarrow> 'f submission) \<Rightarrow> ('i \<Rightarrow> bool) \<Rightarrow> 'i list \<Rightarrow> 'f store \<Rightarrow> tally \<Rightarrow> 'f store \<Rightarrow> bool" where
  "run_sound e accepted proved js s t s' \<longleftrightarrow>
     run_present t + run_activated t + length (run_rejected t) = length js \<and> run_activated t = length (run_ids t) \<and>
     distinct (run_ids t) \<and> set (run_ids t) \<inter> item_ids s = {} \<and> set (item_rows s) \<subseteq> set (item_rows s') \<and>
     (\<forall>x \<in> set (run_ids t). \<exists>i \<in> set js. proved i \<and> accepted_row e (accepted i) x \<in> set (item_rows s'))"

locale source_lane =
  fixes L :: "('i, 'f) lane" and accepted :: "'i \<Rightarrow> 'f submission" and built proved :: "'i \<Rightarrow> bool"
  assumes asks_and_submits: "built i \<Longrightarrow> lane_question L i \<noteq> None \<and> lane_submit L i \<noteq> None"
    and same_question: "built i \<Longrightarrow> consistent L i"
    and submitted: "lane_submit L i = Some (Ok b) \<Longrightarrow> b = accepted i \<and> proved i"
begin

lemma run_returns:
  "list_all built js \<Longrightarrow> run_lane e L js t s \<noteq> None"
proof (induction js arbitrary: t s)
  case (Cons i js)
  have i: "built i" "list_all built js" using Cons.prems by simp_all
  obtain sub stem correct passage where q: "lane_question L i = Some (sub, stem, correct, passage)"
    using asks_and_submits [OF i(1)] by fastforce
  obtain r where r: "lane_submit L i = Some r" using asks_and_submits [OF i(1)] by blast
  obtain out where "store_verified e L i s = Some out" by (cases r) (auto simp: store_verified_def r)
  then show ?case using Cons.IH [OF i(2)] by (cases out) (auto simp: is_stored_def q split: bool.split)
qed simp

lemma run_asks_each_question_once:
  assumes "list_all built js" "run_lane e L js t s = Some (t', s')" "questions_once s"
  shows "questions_once s'"
  using assms same_question by (auto simp: list_all_iff intro: run_asks_once [OF assms(2) _ assms(3)])

lemma run_is_sound:
  assumes run: "run_lane e L js empty_tally s = Some (t, s')" and reach: "(app_step e)\<^sup>*\<^sup>* empty_store s"
  shows "run_sound e accepted proved js s t s'"
proof -
  obtain new where new: "set (item_rows s) \<subseteq> set (item_rows s')" "run_ids t = run_ids empty_tally @ new" "distinct new"
      "set new \<inter> item_ids s = {}"
      "\<forall>x \<in> set new. \<exists>i \<in> set js. \<exists>b. lane_submit L i = Some (Ok b) \<and> accepted_row e b x \<in> set (item_rows s')"
    using run_stores [OF run reachable_app_ok [OF reach]] by blast
  have "\<exists>i \<in> set js. proved i \<and> accepted_row e (accepted i) x \<in> set (item_rows s')" if "x \<in> set new" for x
    using new(5) that submitted by metis
  with new(1-4) run_counts [OF run] show ?thesis by (simp add: run_sound_def empty_tally_def)
qed

lemma batch_is_sound:
  assumes built: "list_all built js" and reach: "(app_step e)\<^sup>*\<^sup>* empty_store s"
  shows "\<exists>out s'. run_or_fail e L whole js s = Some (out, s') \<and> (questions_once s \<longrightarrow> questions_once s') \<and>
    (\<forall>t. out = Ok t \<longrightarrow> run_sound e accepted proved js s t s')"
proof -
  obtain t s' where run: "run_lane e L js empty_tally s = Some (t, s')" using run_returns [OF built] by fastforce
  with run_is_sound [OF run reach] run_asks_each_question_once [OF built run] show ?thesis
    by (simp add: run_or_fail_def)
qed

end

section \<open>Every lane keeps it\<close>

lemma index_vec_Some: "index_vec xs n = Some x \<longleftrightarrow> n < length xs \<and> xs ! n = x"
  by (simp add: index_vec_def)

lemma question_of_Some: "question_of sub prompt opts k passage = Some out \<longleftrightarrow> k < length opts \<and> out = (sub, prompt, opts ! k, passage)"
  by (auto simp: question_of_def index_vec_def)

lemma asks_new_item: "asks (Pipeline.new_item sub obj stem passage opts k expl why diff kind proof h g) =
    (sub, normal stem, normal (if k < length opts then opts ! k else []), normal (case passage of None \<Rightarrow> [] | Some p \<Rightarrow> p))"
  by (simp add: asks_def Pipeline.new_item_def)

definition recomputed :: "generated_item \<Rightarrow> int" where
  "recomputed i = (case verify_answer (item_expression i) (item_answer i) of Value v \<Rightarrow> v | _ \<Rightarrow> 0)"

lemma factory_submission_Ok:
  "factory_submission E q i = Some (Ok b) \<Longrightarrow> b = factory_accepted E q i (recomputed i) \<and> Factory.verify i = Some (Ok ())"
  by (auto simp: factory_submission_def recomputed_def split: option.splits result.splits outcome.splits)

lemma verified_recomputes: "Factory.verify i = Some (Ok ()) \<Longrightarrow> \<exists>v. verify_answer (item_expression i) (item_answer i) = Value v \<and> well_posed i v"
  unfolding Factory.verify_def evaluator.verified_iff .

definition generated_ok :: "generated_item \<Rightarrow> bool" where
  "generated_ok i \<longleftrightarrow> Factory.verify i = Some (Ok ()) \<and> states_answer i"

interpretation gen_lane: source_lane "factory_lane E q" "\<lambda>i. factory_accepted E q i (recomputed i)" generated_ok
  "\<lambda>i. Factory.verify i = Some (Ok ())"
proof
  fix i b
  show "lane_question (factory_lane E q) i \<noteq> None \<and> lane_submit (factory_lane E q) i \<noteq> None" if "generated_ok i"
    using that verified_recomputes [of i] by (auto simp: factory_lane_def factory_submission_def generated_ok_def)
  show "consistent (factory_lane E q) i" if "generated_ok i"
    using that by (auto simp: consistent_def factory_lane_def factory_accepted_def asks_new_item generated_ok_def states_answer_def
      dest!: factory_submission_Ok)
  show "b = factory_accepted E q i (recomputed i) \<and> Factory.verify i = Some (Ok ())" if "lane_submit (factory_lane E q) i = Some (Ok b)"
    using that factory_submission_Ok by (simp add: factory_lane_def)
qed

interpretation synonym_lane: source_lane "wk_lane E th d q" "\<lambda>i. wk_accepted E d q i (wk_options i ! wk_correct_index i)"
  "\<lambda>i. Thesaurus.verify (tables E) i th \<noteq> None \<and> wk_correct_index i < length (wk_options i)"
  "\<lambda>i. Thesaurus.verify (tables E) i th = Some (Ok ())"
proof
  fix i b
  let ?built = "Thesaurus.verify (tables E) i th \<noteq> None \<and> wk_correct_index i < length (wk_options i)"
  have ok: "b = wk_accepted E d q i (wk_options i ! wk_correct_index i) \<and> Thesaurus.verify (tables E) i th = Some (Ok ())"
    if "wk_submission E th d q i = Some (Ok b)" for b
  proof -
    from that obtain v where v: "Thesaurus.verify (tables E) i th = Some v"
      by (auto simp: wk_submission_def bind_eq_Some_conv)
    with that show ?thesis by (cases v) (auto simp: wk_submission_def unproved_def index_vec_Some bind_eq_Some_conv)
  qed
  show "lane_question (wk_lane E th d q) i \<noteq> None \<and> lane_submit (wk_lane E th d q) i \<noteq> None" if ?built
    using that by (auto simp: wk_lane_def question_of_def index_vec_def wk_submission_def unproved_def split: result.split)
  show "consistent (wk_lane E th d q) i" if ?built
    using that by (auto simp: consistent_def wk_lane_def wk_accepted_def asks_new_item question_of_Some dest!: ok)
  show "b = wk_accepted E d q i (wk_options i ! wk_correct_index i) \<and> Thesaurus.verify (tables E) i th = Some (Ok ())"
    if "lane_submit (wk_lane E th d q) i = Some (Ok b)" using that ok by (simp add: wk_lane_def)
qed

interpretation term_lane: source_lane "ei_lane E g q" "ei_accepted E g q" "\<lambda>i. ei_correct_index i < length (ei_options i)"
  "\<lambda>i. Glossary.verify (tables E) i g = Ok ()"
proof
  fix i b
  have ok: "b = ei_accepted E g q i \<and> Glossary.verify (tables E) i g = Ok ()" if "ei_submission E g q i = Some (Ok b)" for b
    using that by (auto simp: ei_submission_def unproved_def split: result.splits)
  show "lane_question (ei_lane E g q) i \<noteq> None \<and> lane_submit (ei_lane E g q) i \<noteq> None" if "ei_correct_index i < length (ei_options i)"
    using that by (auto simp: ei_lane_def question_of_def index_vec_def ei_submission_def unproved_def split: result.split)
  show "consistent (ei_lane E g q) i" if "ei_correct_index i < length (ei_options i)"
    using that by (auto simp: consistent_def ei_lane_def ei_accepted_def asks_new_item question_of_Some dest!: ok)
  show "b = ei_accepted E g q i \<and> Glossary.verify (tables E) i g = Ok ()" if "lane_submit (ei_lane E g q) i = Some (Ok b)"
    using that ok by (simp add: ei_lane_def)
qed

interpretation passage_lane: source_lane "pc_lane E src q" "pc_accepted E src q" "\<lambda>i. pc_correct_index i < length (pc_options i)"
  "\<lambda>i. Passages.verify (tables E) i = Ok () \<and> contains_passage (tables E) src (pc_passage i)"
proof
  fix i b
  have ok: "b = pc_accepted E src q i \<and> Passages.verify (tables E) i = Ok () \<and> contains_passage (tables E) src (pc_passage i)"
    if "pc_submission E src q i = Some (Ok b)" for b
    using that by (auto simp: pc_submission_def unproved_def split: result.splits if_splits)
  show "lane_question (pc_lane E src q) i \<noteq> None \<and> lane_submit (pc_lane E src q) i \<noteq> None" if "pc_correct_index i < length (pc_options i)"
    using that by (auto simp: pc_lane_def question_of_def index_vec_def pc_submission_def unproved_def split: result.split)
  show "consistent (pc_lane E src q) i" if "pc_correct_index i < length (pc_options i)"
    using that by (auto simp: consistent_def pc_lane_def pc_accepted_def asks_new_item question_of_Some dest!: ok)
  show "b = pc_accepted E src q i \<and> Passages.verify (tables E) i = Ok () \<and> contains_passage (tables E) src (pc_passage i)"
    if "lane_submit (pc_lane E src q) i = Some (Ok b)" using that ok by (simp add: pc_lane_def)
qed

interpretation answer_lane: source_lane "fact_lane E f q" "fact_accepted E f q" "\<lambda>i. fact_correct_index i < length (fact_options i)"
  "\<lambda>i. Facts.verify (tables E) i f = Ok ()"
proof
  fix i b
  have ok: "b = fact_accepted E f q i \<and> Facts.verify (tables E) i f = Ok ()" if "fact_submission E f q i = Some (Ok b)" for b
    using that by (auto simp: fact_submission_def unproved_def split: result.splits)
  show "lane_question (fact_lane E f q) i \<noteq> None \<and> lane_submit (fact_lane E f q) i \<noteq> None" if "fact_correct_index i < length (fact_options i)"
    using that by (auto simp: fact_lane_def question_of_def index_vec_def fact_submission_def unproved_def split: result.split)
  show "consistent (fact_lane E f q) i" if "fact_correct_index i < length (fact_options i)"
    using that by (auto simp: consistent_def fact_lane_def fact_accepted_def asks_new_item question_of_Some dest!: ok)
  show "b = fact_accepted E f q i \<and> Facts.verify (tables E) i f = Ok ()" if "lane_submit (fact_lane E f q) i = Some (Ok b)"
    using that ok by (simp add: fact_lane_def)
qed

section \<open>What the batches are\<close>

lemma run_sound_mono:
  "run_sound e accepted proved js s t s' \<Longrightarrow> (\<And>i. i \<in> set js \<Longrightarrow> proved i \<Longrightarrow> better i) \<Longrightarrow> run_sound e accepted better js s t s'"
  unfolding run_sound_def by blast

lemma wk_batch:
  assumes "Thesaurus.fits (parse_moby u raw)"
  shows "\<exists>js acc'. build_items_configured u sha (parse_moby u raw) n seed min_lines accept acc = Some (js, acc') \<and>
    list_all (wk_good u (parse_moby u raw) accept) js"
proof (cases "Thesaurus.entries (parse_moby u raw) = []")
  case False
  then have "thesaurus_sound u (parse_moby u raw)" using assms parse_moby_ok by (simp add: thesaurus_sound_def Thesaurus.fits_def)
  from wk.build_good [OF this, of seed min_lines accept "wk_hash u sha" n "attempts_for 8 n" seed acc] False
  show ?thesis by (auto simp: build_items_configured_def)
qed (simp add: build_items_configured_def)

lemma ei_batch:
  assumes "length (Glossary.entries (parse_neets_glossary u raw name)) < 2 ^ 63"
  shows "\<exists>js acc'. Glossary.build_items u sha (parse_neets_glossary u raw name) n seed min_words accept acc = Some (js, acc') \<and>
    list_all (ei_good u (parse_neets_glossary u raw name) accept) js"
proof (cases "Glossary.entries (parse_neets_glossary u raw name) = []")
  case False
  then have "glossary_sound u (parse_neets_glossary u raw name)" using assms parse_glossary_ok by (simp add: glossary_sound_def)
  from ei.build_good [OF this, of seed min_words accept "ei_hash u sha" n "attempts_for 8 n" seed acc] False
  show ?thesis by (auto simp: Glossary.build_items_def)
qed (simp add: Glossary.build_items_def)

lemma pc_batch:
  assumes "parse_gutenberg u raw label = Some src" "Passages.fits u src"
  shows "\<exists>js acc'. Passages.build_items u dbg sha src n seed accept acc = Some (js, acc') \<and> list_all (pc_good src accept) js"
proof (cases "paragraphs src = []")
  case False
  have "text_ok u src" using parse_gutenberg_ok assms(1) by blast
  with assms(2) False have "text_sound u src" by (auto simp: text_sound_def Passages.fits_def list_all_iff)
  from pc.build_good [OF this, of dbg seed accept "pc_hash u sha" n "attempts_for 12 n" seed acc] False
  show ?thesis by (auto simp: Passages.build_items_def)
qed (simp add: Passages.build_items_def)

lemma fact_batch:
  assumes "parse_faq u raw label = Some f" "length (Facts.entries f) < 2 ^ 63"
  shows "\<exists>js acc'. Facts.build_items u sha f sub n seed min_words max_words accept acc = Some (js, acc') \<and> list_all (fact_good u f accept) js"
proof (cases "length (usable min_words max_words f) < 4")
  case False
  then have "faq_sound u min_words max_words f" using assms parse_faq_ok by (auto simp: faq_sound_def)
  from fact.build_good [OF this, of sub seed accept "fact_hash u sha" n "attempts_for 12 n" seed acc] False
  show ?thesis by (auto simp: Facts.build_items_def)
qed (simp add: Facts.build_items_def)

section \<open>From the source to the store\<close>

text \<open>
  C28. Generating into a reachable database returns for every subtest, count and seed; it never puts a
  question in the store twice; and a report accounts for every generated item and names rows, in
  service, of items whose answer the evaluator recomputes and whose options hold that answer once.
\<close>

theorem generation_stores_proved_items:
  assumes reach: "(app_step (host E))\<^sup>*\<^sup>* empty_store s"
  shows "\<exists>out s'. generate_and_activate E q s = Some (out, s') \<and> (questions_once s \<longrightarrow> questions_once s') \<and>
    (\<forall>rep. out = Ok rep \<longrightarrow> (\<exists>js. generate_many (gen_subtest q) (gen_count q) (gen_seed q) = Some js \<and> generated rep = length js \<and>
       run_sound (host E) (\<lambda>i. factory_accepted E q i (recomputed i))
         (\<lambda>i. verify_answer (item_expression i) (item_answer i) = Value (recomputed i) \<and> well_posed i (recomputed i))
         js s (generation_run rep) s'))"
proof -
  obtain js where js: "generate_many (gen_subtest q) (gen_count q) (gen_seed q) = Some js" "list_all generated_ok js"
    using generate_many_result [of "gen_subtest q" "gen_count q" "gen_seed q"] by (auto simp: generated_ok_def list_all_iff)
  show ?thesis
  proof (cases "js = []")
    case False
    obtain t s' where run: "run_lane (host E) (factory_lane E q) js empty_tally s = Some (t, s')"
      using gen_lane.run_returns [OF js(2)] by fastforce
    have "run_sound (host E) (\<lambda>i. factory_accepted E q i (recomputed i))
        (\<lambda>i. verify_answer (item_expression i) (item_answer i) = Value (recomputed i) \<and> well_posed i (recomputed i)) js s t s'"
      by (rule run_sound_mono [OF gen_lane.run_is_sound [OF run reach]]) (use verified_recomputes in \<open>force simp: recomputed_def\<close>)
    with gen_lane.run_asks_each_question_once [OF js(2) run] show ?thesis
      by (simp add: generate_and_activate_def js(1) False run)
  qed (simp add: generate_and_activate_def js(1))
qed





section \<open>Concrete inputs\<close>

definition sample_pipeline :: "nat pipeline_env" where
  "sample_pipeline = \<lparr>host = sample_env, tables = ascii_unicode, sha256 = (\<lambda>t. CHR ''h'' # t), proof_text = (\<lambda>_. ''{}''), debug_char = (\<lambda>c. [c]),
     of_rat = (\<lambda>_. 0), wk_difficulty = (\<lambda>_ _. 0), ei_difficulty = 0, pc_difficulty = 0, fact_difficulty = 0,
     purpose_difficulty = 0\<rparr>"

definition sample_generation :: generate_request where
  "sample_generation = \<lparr>gen_subtest = ''MC'', gen_count = 1, gen_seed = 7, gen_reviewer = ''ann'', gen_source = ''ev-a'', gen_generator = ''gen''\<rparr>"

definition sample_wk :: wk_request where
  "sample_wk = \<lparr>wkq_thesaurus_source = ''ev-a'', wkq_dictionary_source = ''ev-a'', wkq_count = 3, wkq_seed = 7, wkq_min_lines = 1,
     wkq_reviewer = ''ann'', wkq_generator = ''gen''\<rparr>"

definition sample_ei :: ei_request where
  "sample_ei = \<lparr>eiq_module = ''M'', eiq_source = ''ev-a'', eiq_count = 3, eiq_seed = 7, eiq_min_words = 1, eiq_reviewer = ''ann'', eiq_generator = ''gen''\<rparr>"

definition sample_pc :: pc_request where
  "sample_pc = \<lparr>pcq_label = ''S'', pcq_source = ''ev-a'', pcq_count = 3, pcq_seed = 7, pcq_reviewer = ''ann'', pcq_generator = ''gen''\<rparr>"

definition sample_fact :: fact_request where
  "sample_fact = \<lparr>fq_subtest = ''GS'', fq_label = ''S'', fq_source = ''ev-a'', fq_count = 3, fq_seed = 7, fq_reviewer = ''ann'', fq_generator = ''gen''\<rparr>"

lemma sample_questions: "questions_once sample_db"
  unfolding questions_once_def by code_simp

lemma sample_host: "(app_step (host sample_pipeline))\<^sup>*\<^sup>* empty_store sample_db" "tables sample_pipeline = ascii_unicode"
  using sample_env_reachable by (simp_all add: sample_pipeline_def)

theorem generation_stores_proved_items_witness:
  "\<exists>out s'. generate_and_activate sample_pipeline sample_generation sample_db = Some (out, s') \<and> questions_once s'"
  using generation_stores_proved_items [OF sample_host(1), of sample_generation] sample_questions by blast





end
