(* ===== verification/Clean_Runs.thy ===== *)
theory Clean_Runs
  imports Lanes
begin

text \<open>
  When a run refuses nothing: the conditions on what a lane submits under which every item is stored or
  already present, and that the factory's items meet them. Everything the schema, the audit trail and the
  vault ask for is named; what only the parameters can promise (the hash, JSON, the identifiers) is a hypothesis.
\<close>

section \<open>The identifiers that were drawn\<close>

lemma drawn_statement:
  assumes "\<And>s. drawn (change s) = drawn s"
  shows "keeps (\<lambda>s. n \<le> drawn s) (statement allowed why change)"
  using assms by (simp add: keeps_def statement_def)

lemma drawn_draw: "keeps (\<lambda>s. n \<le> drawn s) (draw_id q p)"
  by (simp add: keeps_def draw_id_def)

lemma drawn_transaction: "keeps (\<lambda>s. n \<le> drawn s) m \<Longrightarrow> keeps (\<lambda>s. n \<le> drawn s) (transaction m)"
  unfolding keeps_def transaction_def by (auto split: prod.splits result.splits)

lemma drawn_advance: "keeps (\<lambda>s. n \<le> drawn s) (advance q dbg now i to actor why)"
  unfolding advance_def advance_body_def move_item_def set_state_def insert_review_def
  by (auto intro!: drawn_transaction keeps_query keeps_seq drawn_statement drawn_draw simp: change_row_def split: option.split)

lemma drawn_discard: "keeps (\<lambda>s. n \<le> drawn s) (discard_draft i)"
  by (simp add: keeps_def discard_draft_def delete_draft_def)

lemma drawn_complete: "keeps (\<lambda>s. n \<le> drawn s) (complete_item e i b)"
  unfolding complete_item_def cite_def insert_citation_def record_verifier_def update_row_def walk_to_content_reviewed_def activate_def
  by (auto intro!: keeps_seq keeps_each drawn_statement drawn_advance simp: change_row_def)

section \<open>A submission that is stored\<close>

text \<open>No identifier the supply still holds is in use.\<close>

definition fresh_ids :: "'f sql \<Rightarrow> 'f store \<Rightarrow> bool" where
  "fresh_ids q s \<longleftrightarrow> fresh_reviews q s \<and> (\<forall>n \<ge> drawn s. ''q'' @ ''-'' @ uuid q n \<notin> item_ids s)"

definition storable :: "'f lane_env \<Rightarrow> 'f store \<Rightarrow> 'f submission \<Rightarrow> bool" where
  "storable e s b \<longleftrightarrow>
     activatable b \<and> passage_ok (sub_row b) \<and> row_ok (sql e) ((sub_row b)\<lparr>row_state := ''draft''\<rparr>) \<and> distinct (sub_sources b) \<and>
     (\<forall>src \<in> set (sub_sources b). \<not> Sql_Store.blank src \<and> src \<in> ev_id ` set (evidence s))"

lemma cites_succeed:
  "extends s r cs vs t \<Longrightarrow> fst ` set (citations s) \<subseteq> item_ids s \<Longrightarrow> row_id r \<notin> item_ids s \<Longrightarrow> distinct (cs @ srcs) \<Longrightarrow>
    (\<forall>src \<in> set srcs. \<not> Sql_Store.blank src \<and> src \<in> ev_id ` set (evidence s)) \<Longrightarrow>
    \<exists>t'. each_do (cite (row_id r)) srcs t = (Ok (), t') \<and> extends s r (cs @ srcs) vs t'"
proof (induction srcs arbitrary: cs t)
  case Nil
  then show ?case by (simp add: return_def)
next
  case (Cons src srcs)
  have "(row_id r, src) \<notin> set (citations t)"
    using Cons.prems(2-4) by (auto simp: extends_fields(2) [OF Cons.prems(1)])
  then obtain t1 where t1: "cite (row_id r) src t = (Ok (), t1)"
    using Cons.prems(5) by (simp add: cite_def insert_citation_def statement_def extends_fields [OF Cons.prems(1)])
  from extends_cite(1) [OF Cons.prems(1) t1] have ext: "extends s r (cs @ [src]) vs t1" .
  then obtain t' where "each_do (cite (row_id r)) srcs t1 = (Ok (), t')" "extends s r ((cs @ [src]) @ srcs) vs t'"
    using Cons.IH [OF ext Cons.prems(2,3)] Cons.prems(4,5) by auto
  with t1 show ?case by (simp add: seq_def)
qed

lemma row_ok_draft: "row_ok q (draft_row e b i) \<longleftrightarrow> row_ok q ((sub_row b)\<lparr>row_state := ''draft''\<rparr>)"
  by (simp add: row_ok_def draft_row_def)

lemma submission_succeeds:
  assumes ok: "db_ok (sql e) s" and inj: "inj (uuid (sql e))" and fresh: "fresh_ids (sql e) s" and sound: "storable e s b"
    and hash: "row_hash (sub_row b) \<notin> row_hash ` set (item_rows s)"
  shows "\<exists>i t. store_submission e b s = (Ok i, t) \<and> fresh_ids (sql e) t \<and> evidence t = evidence s"
proof -
  define i where "i = ''q'' @ ''-'' @ uuid (sql e) (drawn s)"
  let ?r = "draft_row e b i" and ?s = "s\<lparr>drawn := drawn s + 1, item_rows := item_rows s @ [draft_row e b i]\<rparr>"
  have id: "row_id ?r = i" by (simp add: draft_row_def)
  have new: "i \<notin> item_ids s" using fresh by (simp add: fresh_ids_def i_def)
  have row: "passage_ok ?r" "row_ok (sql e) ?r"
    using sound row_ok_draft [of "sql e" e b i] by (simp_all add: storable_def passage_ok_def draft_row_def)
  have "row_correct (sub_row b) < length (row_options (sub_row b))" using sound by (simp add: storable_def row_ok_def)
  then have insert: "insert_draft (sql e) (today e) ((sub_row b)\<lparr>row_id := i\<rparr>) (s\<lparr>drawn := drawn s + 1\<rparr>) = (Ok (), ?s)"
    using row hash new by (simp add: insert_draft_def insert_item_def statement_def draft_row_def passage_ok_def)
  have cited: "fst ` set (citations s) \<subseteq> item_ids s" using ok by (simp add: db_ok_def store_ok_def keys_ok_def)
  obtain u where u: "each_do (cite i) (sub_sources b) ?s = (Ok (), u)" "extends s ?r (sub_sources b) [] u"
    using cites_succeed [OF extends_draft cited, of e b i "sub_sources b" "drawn s + 1"] new sound by (auto simp: id storable_def)
  have "fresh_reviews (sql e) ?s" using fresh by (simp add: fresh_ids_def fresh_reviews_def)
  moreover have "valid (fresh_reviews (sql e)) (each_do (cite i) (sub_sources b)) (\<lambda>_. fresh_reviews (sql e))"
    by (rule valid_each) (simp add: cite_def fresh_statement)
  ultimately have "fresh_reviews (sql e) u" using u(1) by (blast dest: validD)
  then obtain t where rest: "seq (record_verifier (sql e) i (sub_verifier b)) (\<lambda>_.
      seq (walk_to_content_reviewed (sql e) (debug e) (today e) i (sub_actor b)) (\<lambda>_.
      activate (sql e) (debug e) (today e) i (sub_reviewer b) (sub_note b))) u = (Ok (), t)" and t': "fresh_reviews (sql e) t"
    using complete_after_cites [OF u(2) new inj _ row] sound by (auto simp: storable_def activatable_def)
  have t: "complete_item e i b ?s = (Ok (), t)"
    unfolding complete_item_def seq_def [of "each_do (cite i) (sub_sources b)"] u(1) using rest by simp
  have run: "store_submission e b s = (Ok i, t)"
    using insert t by (simp add: store_submission_def seq_def draw_id_def i_def finish_item_def)
  from submission_accepted [OF run] obtain vs where ext: "extends s (accepted_row e b i) (sub_sources b) vs t" by blast
  have "keeps (\<lambda>s'. drawn s + 1 \<le> drawn s') (complete_item e i b)" by (rule drawn_complete)
  then have later: "drawn s + 1 \<le> drawn t" using t unfolding keeps_def by (metis order_refl snd_conv store.select_convs(7) store.surjective store.update_convs(1) store.update_convs(7))
  have "''q'' @ ''-'' @ uuid (sql e) n \<notin> item_ids t" if n: "drawn t \<le> n" for n
  proof -
    have "uuid (sql e) n \<noteq> uuid (sql e) (drawn s)" using inj n later by (auto dest: injD)
    moreover have "''q'' @ ''-'' @ uuid (sql e) n \<notin> item_ids s" using fresh n later by (simp add: fresh_ids_def)
    moreover have "row_id (accepted_row e b i) = i" by (simp add: accepted_row_def)
    ultimately show ?thesis by (simp add: extends_fields(7) [OF ext] i_def)
  qed
  with run t' show ?thesis by (auto simp: fresh_ids_def extends_fields(4) [OF ext])
qed

section \<open>A run that refuses nothing\<close>

definition lane_storable :: "'f lane_env \<Rightarrow> 'f store \<Rightarrow> ('i, 'f) lane \<Rightarrow> 'i \<Rightarrow> bool" where
  "lane_storable e s L i \<longleftrightarrow> lane_question L i \<noteq> None \<and>
     (\<exists>b. lane_submit L i = Some (Ok b) \<and> storable e s b \<and> row_hash (sub_row b) = lane_hash L i)"

lemma storable_evidence: "evidence t = evidence s \<Longrightarrow> lane_storable e t L i = lane_storable e s L i"
  by (simp add: lane_storable_def storable_def)

lemma run_refuses_nothing:
  "db_ok (sql e) s \<Longrightarrow> inj (uuid (sql e)) \<Longrightarrow> fresh_ids (sql e) s \<Longrightarrow> list_all (lane_storable e s L) js \<Longrightarrow>
    \<exists>t' s'. run_lane e L js t s = Some (t', s') \<and> run_rejected t' = run_rejected t"
proof (induction js arbitrary: s t)
  case (Cons i js)
  obtain b where i: "lane_question L i \<noteq> None" "lane_submit L i = Some (Ok b)" "storable e s b" "row_hash (sub_row b) = lane_hash L i"
    and js: "list_all (lane_storable e s L) js"
    using Cons.prems(4) by (auto simp: lane_storable_def [of e s L i])
  have "is_stored L i s \<noteq> None" using i(1) by (auto simp: is_stored_def)
  then obtain held where held: "is_stored L i s = Some held" by blast
  show ?case
  proof (cases held)
    case True
    with Cons.IH [OF Cons.prems(1-3) js, of "t\<lparr>run_present := run_present t + 1\<rparr>"] held show ?thesis by simp
  next
    case False
    then have "lane_hash L i \<notin> row_hash ` set (item_rows s)"
      using held by (auto simp: is_stored_def content_hash_exists_def filter_empty_conv split: if_splits)
    with submission_succeeds [OF Cons.prems(1-3) i(3)] i(4) obtain x u where
        u: "store_submission e b s = (Ok x, u)" "fresh_ids (sql e) u" "evidence u = evidence s" by auto
    have store: "store_verified e L i s = Some (Ok x, u)" using i(2) u(1) by (simp add: store_verified_def)
    have "list_all (lane_storable e u L) js" using js by (simp add: list_all_iff storable_evidence [OF u(3)])
    from Cons.IH [OF store_verified_ok [OF store Cons.prems(1)] Cons.prems(2) u(2) this, of "note_outcome e (lane_name L i) (Ok x) t"]
    show ?thesis using held False store by (simp add: note_outcome_def)
  qed
qed simp


section \<open>The two hashes of a generated item differ\<close>

text \<open>A template's name has a dot, and no expression the evaluator gives a value has one.\<close>

definition dotless :: "string \<Rightarrow> bool" where
  "dotless s \<longleftrightarrow> CHR ''.'' \<notin> set s"

lemma dotless_parts [simp]: "dotless []" "dotless (c # s) \<longleftrightarrow> c \<noteq> CHR ''.'' \<and> dotless s" "dotless (s @ t) \<longleftrightarrow> dotless s \<and> dotless t"
  by (auto simp: dotless_def)

lemma dotless_all: "list_all P s \<Longrightarrow> \<not> P (CHR ''.'') \<Longrightarrow> dotless s"
  by (auto simp: dotless_def list_all_iff)

lemma dot_class: "\<not> Proof_Eval.blank (CHR ''.'')" "\<not> is_digit (CHR ''.'')"
  by (simp_all add: Proof_Eval.blank_def is_digit_def byte_def)

lemma grammar_dotless:
  "expr_text s e \<Longrightarrow> dotless s" "expr_rest e s f \<Longrightarrow> dotless s" "term_text s e \<Longrightarrow> dotless s"
  "term_rest e s f \<Longrightarrow> dotless s" "unary_text s e \<Longrightarrow> dotless s" "primary_text s e \<Longrightarrow> dotless s"
  by (induction rule: expr_text_expr_rest_term_text_term_rest_unary_text_primary_text.inducts) (auto dest: dotless_all simp: dot_class)

lemma show_int_dotless: "dotless (show_int v)"
proof -
  have "dotless (show_nat n)" for n
    using show_nat_digits [of n] dot_class(2) by (auto simp: dotless_def)
  then show ?thesis by (simp add: show_int_def)
qed

lemma dotless_str_replace: "dotless b \<Longrightarrow> dotless s \<Longrightarrow> dotless (str_replace a b s)"
proof (induction a b s rule: str_replace.induct)
  case (2 pat rep c s)
  have "dotless (drop (length pat) (c # s))" using "2.prems"(2) by (auto simp: dotless_def dest: in_set_dropD)
  with 2 show ?case by (simp del: drop.simps split: if_split)
qed simp

lemma dot_str_replace: "dotless a \<Longrightarrow> \<not> dotless s \<Longrightarrow> \<not> dotless (str_replace a b s)"
proof (induction a b s rule: str_replace.induct)
  case (2 pat rep c s)
  show ?case
  proof (cases "pat \<noteq> [] \<and> starts_with (c # s) pat")
    case True
    then obtain s' where s': "c # s = pat @ s'" by (auto simp: starts_with_iff)
    then have "\<not> dotless s'" using "2.prems" by (metis dotless_parts(3))
    then have "\<not> dotless (drop (length pat) (c # s))" by (simp add: s')
    with 2(1) [OF True "2.prems"(1)] True show ?thesis by (simp del: drop.simps)
  next
    case False
    with 2 show ?thesis by auto
  qed
qed simp

lemma ws_len_takes: "c \<in> set (take (ws_len s) s) \<Longrightarrow> \<not> plain c"
  by (cases s; cases "tl s"; cases "tl (tl s)") (auto simp: ws_len.simps plain_def Let_def split: if_splits)

lemma strip_while_keeps:
  assumes white: "\<And>s c. c \<in> set (take (f s) s) \<Longrightarrow> \<not> plain c"
  shows "c \<in> set s \<Longrightarrow> plain c \<Longrightarrow> c \<in> set (strip_while f s)"
proof (induction "length s" arbitrary: s rule: less_induct)
  case (less s)
  show ?case
  proof (cases "f s = 0 \<or> s = []")
    case True
    with less.prems show ?thesis by (simp add: strip_while.simps [of _ s])
  next
    case False
    have "c \<in> set (take (f s) s @ drop (f s) s)" using less.prems by simp
    with less.prems white [of c s] have "c \<in> set (drop (f s) s)" by (auto simp del: append_take_drop_id)
    with less.prems less.hyps [of "drop (f s) s"] False show ?thesis by (simp add: strip_while.simps [of _ s])
  qed
qed

lemma trim_dotless: "dotless (trim s) \<Longrightarrow> dotless s"
proof -
  have dot: "plain (CHR ''.'')" by (simp add: plain_def byte_def)
  have "CHR ''.'' \<in> set (trim s)" if "CHR ''.'' \<in> set s"
    using strip_while_keeps [of ws_len, OF ws_len_takes that dot] strip_while_keeps_plain [of "CHR ''.''" "rev (trim_start s)"] dot
    by (simp add: trim_def trim_end_def trim_start_def)
  then show "dotless (trim s) \<Longrightarrow> dotless s" by (auto simp: dotless_def)
qed

lemma templates_named:
  "list_all (\<lambda>t. \<not> dotless (template_id t) \<and> \<not> Sql_Store.blank (template_objective t) \<and> template_subtest t \<in> {''AR'', ''MK'', ''MC''}) TEMPLATES"
  by (simp add: TEMPLATES_def dotless_def Sql_Store.blank_def sql_trim_def)

lemma generated_hashes_differ:
  assumes i: "generated_ok i" and inj: "inj (sha256 E)"
  shows "factory_generator_hash E i \<noteq> factory_verifier_hash E i (recomputed i)"
proof -
  let ?crlf = "[CHR 0x0D, CHR 0x0A]" and ?lf = "[CHR 0x0A]"
  obtain v where "verify_answer (item_expression i) (item_answer i) = Value v"
    using verified_recomputes [of i] i by (auto simp: generated_ok_def)
  then have "\<exists>v. evaluate (item_expression i) = Value v" by (auto simp: verify_answer_def and_then_Value_iff)
  then obtain e where "expr_text (trim (item_expression i)) e" using evaluate_value by blast
  then have expr: "dotless (item_expression i)" using grammar_dotless(1) trim_dotless by blast
  have "\<not> dotless (item_template_id i)" using i templates_named by (auto simp: generated_ok_def states_answer_def list_all_iff)
  then have "\<not> dotless (str_replace ?crlf ?lf (with_marks [item_template_id i, item_stem i, item_answer i]))"
    by (intro dot_str_replace) (simp_all add: with_marks_def)
  moreover have "dotless (str_replace ?crlf ?lf (with_marks [item_expression i, show_int (recomputed i)]))"
    by (intro dotless_str_replace) (simp_all add: with_marks_def expr show_int_dotless)
  ultimately have "str_replace ?crlf ?lf (with_marks [item_template_id i, item_stem i, item_answer i]) \<noteq>
      str_replace ?crlf ?lf (with_marks [item_expression i, show_int (recomputed i)])" by metis
  with inj show ?thesis by (auto simp: factory_generator_hash_def factory_verifier_hash_def text_hash_def hash_of_text_def hash_of_def dest: injD)
qed

section \<open>Generation\<close>

text \<open>
  What the rest of the system owes a generation: identifiers that do not repeat, a named reviewer and actor, a
  source in the vault, a hash without collisions that is not blank, JSON that SQLite accepts, and difficulties in scale.
\<close>

definition ready_to_generate :: "'f pipeline_env \<Rightarrow> generate_request \<Rightarrow> 'f store \<Rightarrow> bool" where
  "ready_to_generate E q s \<longleftrightarrow>
     inj (uuid (sql (host E))) \<and> fresh_ids (sql (host E)) s \<and> \<not> Sql_Store.blank (gen_generator q) \<and> trim_text (gen_reviewer q) \<noteq> [] \<and>
     \<not> Sql_Store.blank (gen_source q) \<and> gen_source q \<in> ev_id ` set (evidence s) \<and> inj (sha256 E) \<and> (\<forall>t. \<not> Sql_Store.blank (sha256 E t)) \<and>
     (\<forall>p. json_valid (sql (host E)) (proof_text E p)) \<and> (\<forall>d. in_scale (sql (host E)) (of_rat E d))"

lemma trim_blank: "Sql_Store.blank t \<Longrightarrow> trim t = []"
proof -
  assume "Sql_Store.blank t"
  then have t: "t = replicate (length t) (CHR '' '')"
    by (simp only: Sql_Store.blank_def sql_trim_def drop_ends_def [symmetric] drop_ends_Nil) (metis replicate_length_same)
  have "ws_len (CHR '' '' # s) = 1" for s by (simp add: ws_len.simps byte_def)
  then have "strip_while ws_len (replicate n (CHR '' '')) = []" for n
    by (induction n) (simp_all add: strip_while.simps [of _ "_ # _"])
  then have "trim_start t = []" using t by (metis trim_start_def)
  then show ?thesis by (simp add: trim_def trim_end_def)
qed

lemma computable_named: "list_all (\<lambda>sub. \<not> Sql_Store.blank sub) [''AR'', ''MK'', ''MC'']"
  by code_simp

lemma generated_storable:
  assumes ready: "ready_to_generate E q s" and i: "generated_ok i"
  shows "lane_storable (host E) s (factory_lane E q) i"
proof -
  obtain v where v: "verify_answer (item_expression i) (item_answer i) = Value v" "well_posed i v"
    using verified_recomputes [of i] i by (auto simp: generated_ok_def)
  then have r: "recomputed i = v" by (simp add: recomputed_def)
  let ?b = "factory_accepted E q i v"
  have named: "\<not> Sql_Store.blank (item_objective_id i)" "item_subtest i \<in> {''AR'', ''MK'', ''MC''}"
    using i templates_named by (auto simp: generated_ok_def states_answer_def list_all_iff)
  have "factory_generator_hash E i \<noteq> factory_verifier_hash E i v"
    using generated_hashes_differ [OF i, of E] ready r by (simp add: ready_to_generate_def)
  then have act: "activatable ?b"
    using ready named by (auto simp: activatable_def factory_accepted_def Pipeline.new_item_def ready_to_generate_def)
  have "\<not> Sql_Store.blank (item_stem i)" using v(2) trim_blank by (auto simp: well_posed_def)
  moreover have "\<not> Sql_Store.blank (item_subtest i)" using named(2) computable_named by (simp add: list_all_iff) (elim disjE; simp)
  ultimately have row: "row_ok (sql (host E)) ((sub_row ?b)\<lparr>row_state := ''draft''\<rparr>)"
    using ready v(2) by (auto simp: row_ok_def factory_accepted_def Pipeline.new_item_def ready_to_generate_def well_posed_def STATES_def
      Factory.content_hash_def hash_of_text_def hash_of_def)
  have "passage_ok (sub_row ?b)" using named(2) by (auto simp: passage_ok_def factory_accepted_def Pipeline.new_item_def)
  then have "storable (host E) s ?b"
    using act row ready by (simp add: storable_def factory_accepted_def ready_to_generate_def)
  moreover have "lane_submit (factory_lane E q) i = Some (Ok ?b)"
    using i v(1) by (simp add: factory_lane_def factory_submission_def generated_ok_def)
  moreover have "row_hash (sub_row ?b) = lane_hash (factory_lane E q) i"
    by (simp add: factory_lane_def factory_accepted_def Pipeline.new_item_def)
  ultimately show ?thesis by (auto simp: lane_storable_def factory_lane_def)
qed


section \<open>Concrete inputs\<close>

definition first_seed :: "64 word" where
  "first_seed = 7 + 0x9E3779B97F4A7C15"

definition pressure_template :: template where
  "pressure_template = \<lparr>template_id = ''mc.pressure'', template_subtest = ''MC'', template_objective = ''OBJ-MC-FLUID-01'', template_build = mc_pressure\<rparr>"

definition pressure_candidate :: candidate where
  "pressure_candidate = \<lparr>cand_stem = ''A force of 160 pounds acts on a piston with an area of 4 square inches. How many pounds per square inch of pressure does the piston exert?'',
     cand_expression = ''160 / 4'', cand_correct = 40,
     cand_distractors = [(640, ''Multiplied by the area instead of dividing by it.''), (4, ''Reported the area rather than the pressure.''),
       (156, ''Subtracted the area from the force.'')],
     cand_difficulty = - (3 / 10)\<rparr>"

lemma first_draw: "unat (fst (next_u64 first_seed) mod word_of_nat 8) = 4"
  by code_simp

lemma mc_templates: "length (filter (\<lambda>t. template_subtest t = ''MC'') TEMPLATES) = 8"
    "filter (\<lambda>t. template_subtest t = ''MC'') TEMPLATES ! 4 = pressure_template"
  by (simp_all add: TEMPLATES_def pressure_template_def)

lemma pressure_built: "map_option fst (mc_pressure (first_seed XOR 0xA5A55A5A12345678)) = Some (Some pressure_candidate)"
  by code_simp

lemma pressure_assembled: "case assemble pressure_template pressure_candidate (first_seed XOR 0x0F0FF0F0DEADBEEF) first_seed of Some (Some i) \<Rightarrow> True | _ \<Rightarrow> False"
  by code_simp

lemma sample_generated: "\<exists>i. generate_one ''MC'' first_seed = Some (Some i)"
proof -
  let ?ts = "filter (\<lambda>t. template_subtest t = ''MC'') TEMPLATES"
  obtain r where r: "mc_pressure (first_seed XOR 0xA5A55A5A12345678) = Some (Some pressure_candidate, r)" using pressure_built by auto
  obtain i where i: "assemble pressure_template pressure_candidate (first_seed XOR 0x0F0FF0F0DEADBEEF) first_seed = Some (Some i)"
    using pressure_assembled by (auto split: option.splits)
  obtain u r' where u: "next_u64 first_seed = (u, r')" by fastforce
  have draw: "index_vec ?ts (unat (u mod word_of_nat (length ?ts))) = Some pressure_template"
    using first_draw by (simp add: u mc_templates index_vec_def)
  have ne: "?ts \<noteq> []" using mc_templates(1) by (metis list.size(3) zero_neq_numeral)
  have build: "template_build pressure_template = mc_pressure" by (simp add: pressure_template_def)
  have "[0..<64] = 0 # [1..<64]" by (simp add: upt_rec)
  then have "generate_one ''MC'' first_seed = attempt_loop ?ts first_seed (0 # [1..<64])" using ne by (simp only: generate_one_def Let_def if_False)
  also have "\<dots> = Some (Some i)" using draw by (simp add: u r i build)
  finally show ?thesis by blast
qed

lemma sample_batch: "generate_many ''MC'' 1 7 \<noteq> Some []"
proof -
  obtain i where i: "generate_one ''MC'' first_seed = Some (Some i)" using sample_generated by blast
  then have "many_loop (Suc (Suc n)) ''MC'' 1 7 {} [] = Some [i]" for n by (simp add: first_seed_def Let_def)
  moreover have "attempt_limit 1 = Suc (Suc 62)" by (simp add: attempt_limit_def)
  ultimately show ?thesis unfolding generate_many_def by (metis list.distinct(1) option.inject)
qed

lemma sample_ready: "ready_to_generate sample_pipeline sample_generation sample_db"
proof -
  have host: "host sample_pipeline = sample_env" by (simp add: sample_pipeline_def)
  have "list_all (\<lambda>t. take 1 t = ''i'') (map row_id (item_rows sample_db))" by code_simp
  then have named: "take 1 t = ''i''" if "t \<in> item_ids sample_db" for t using that by (auto simp: list_all_iff item_ids_def)
  have "''q'' @ ''-'' @ uuid (sql sample_env) n \<notin> item_ids sample_db" for n
  proof
    assume "''q'' @ ''-'' @ uuid (sql sample_env) n \<in> item_ids sample_db"
    from named [OF this] show False by simp
  qed
  then have fresh: "fresh_ids (sql sample_env) sample_db" using sample_ids(2) by (simp add: fresh_ids_def)
  have "''ev-a'' \<in> set (map ev_id (evidence sample_db))" by code_simp
  then have vault: "''ev-a'' \<in> ev_id ` set (evidence sample_db)" by simp
  have people: "\<not> Sql_Store.blank ''gen''" "trim_text ''ann'' \<noteq> []" "\<not> Sql_Store.blank ''ev-a''" by code_simp+
  have sha: "inj (sha256 sample_pipeline)" "\<not> Sql_Store.blank (sha256 sample_pipeline t)" for t
    by (auto simp: sample_pipeline_def inj_def Sql_Store.blank_def sql_trim_def dropWhile_eq_Nil_conv)
  have "json_valid (sql sample_env) j" "in_scale (sql sample_env) x" for j x by (simp_all add: sample_env_def sample_sql_def)
  with fresh vault people sha sample_ids(1) show ?thesis
    by (simp add: ready_to_generate_def sample_generation_def host)
qed


end
