(* ===== verification/Ascii_Text.thy ===== *)
theory Ascii_Text
  imports Text_Tools
begin

text \<open>
  Words and trimming of ASCII texts, whose characters are their bytes: where the words of a
  text come from when it is cut, trimmed, extended or joined from words, and what lower-casing by a
  table that agrees with ASCII makes of them.
\<close>

definition ascii :: "string \<Rightarrow> bool" where
  "ascii s \<longleftrightarrow> (\<forall>c \<in> set s. byte c < 128)"

definition ascii_folding :: "unicode \<Rightarrow> bool" where
  "ascii_folding u \<longleftrightarrow> (\<forall>s. ascii s \<longrightarrow> to_lower u s = ascii_lower s)"

lemma ascii_simps [simp]:
  "ascii []" "ascii (c # s) \<longleftrightarrow> byte c < 128 \<and> ascii s" "ascii (s @ t) \<longleftrightarrow> ascii s \<and> ascii t"
  by (auto simp: ascii_def)

lemma ascii_subset: "ascii s \<Longrightarrow> set t \<subseteq> set s \<Longrightarrow> ascii t"
  by (auto simp: ascii_def)

lemma ascii_chars: "ascii s \<Longrightarrow> chars s = map (\<lambda>c. [c]) s"
  by (rule chars_ascii) (simp add: ascii_def)

lemma chars_append: "ascii s \<Longrightarrow> chars (s @ t) = map (\<lambda>c. [c]) s @ chars t"
  by (induction s) (simp_all add: chars_ascii_Cons)

lemma ascii_folding_ascii [simp]: "ascii_folding ascii_unicode"
  by (simp add: ascii_folding_def ascii_unicode_def)

section \<open>Pieces\<close>

lemma pieces_sep: "p c \<Longrightarrow> pieces p (xs @ c # ys) = pieces p xs @ pieces p ys"
proof (induction xs)
  case (Cons x xs)
  then show ?case using pieces_nonempty [of p xs] by (auto split: list.splits)
qed simp

lemma pieces_append:
  "pieces p (xs @ ys) = butlast (pieces p xs) @ (last (pieces p xs) @ hd (pieces p ys)) # tl (pieces p ys)"
proof (induction xs)
  case Nil
  then show ?case using pieces_nonempty [of p ys] by simp
next
  case (Cons x xs)
  obtain w ws where w: "pieces p xs = w # ws" using pieces_nonempty [of p xs] by (cases "pieces p xs") auto
  show ?case using Cons by (cases ws) (auto simp: w)
qed

definition words_of :: "string list \<Rightarrow> string list" where
  "words_of cs = filter (\<lambda>w. w \<noteq> []) (pieces white cs)"

lemma split_whitespace_words: "split_whitespace s = words_of (chars s)"
  by (simp add: split_whitespace_def split_text_def words_of_def)

lemma words_of_sep: "white c \<Longrightarrow> words_of (xs @ c # ys) = words_of xs @ words_of ys"
  by (simp add: words_of_def pieces_sep)

lemma words_of_dropWhile: "words_of (dropWhile white cs) = words_of cs"
proof (induction cs)
  case (Cons c cs)
  then show ?case using words_of_sep [of c "[]" cs] by (simp add: words_of_def)
qed simp

lemma words_of_drop_end: "words_of (rev (dropWhile white (rev cs))) = words_of cs"
proof (induction cs rule: rev_induct)
  case (snoc c cs)
  then show ?case using words_of_sep [of c cs "[]"] by (simp add: words_of_def)
qed simp

lemma words_of_drop_ends: "words_of (drop_ends white cs) = words_of cs"
  by (simp add: drop_ends_def words_of_drop_end words_of_dropWhile)

lemma words_of_plain: "\<forall>c \<in> set cs. \<not> white c \<Longrightarrow> concat cs \<noteq> [] \<Longrightarrow> words_of cs = [concat cs]"
proof -
  assume "\<forall>c \<in> set cs. \<not> white c"
  then have "pieces white cs = [concat cs]" by (induction cs) auto
  then show "concat cs \<noteq> [] \<Longrightarrow> words_of cs = [concat cs]" by (simp add: words_of_def)
qed

section \<open>Subsets\<close>

lemma set_concat_sub: "set cs \<subseteq> set ds \<Longrightarrow> set (concat cs) \<subseteq> set (concat ds)"
  by auto

lemma set_trim_text: "set (trim_text s) \<subseteq> set s"
  using set_concat_sub [OF set_drop_ends [of white "chars s"]] by (simp add: trim_text_def trim_matches_def)

lemma set_trim_end_matches: "set (trim_end_matches p s) \<subseteq> set s"
proof -
  have "set (rev (dropWhile p (rev (chars s)))) \<subseteq> set (chars s)" by (auto dest: set_dropWhileD)
  from set_concat_sub [OF this] show ?thesis by (simp add: trim_end_matches_def)
qed

lemma ascii_trim: "ascii s \<Longrightarrow> ascii (trim_text s)"
  by (rule ascii_subset [OF _ set_trim_text])

lemma ascii_trim_end: "ascii s \<Longrightarrow> ascii (trim_end_matches p s)"
  by (rule ascii_subset [OF _ set_trim_end_matches])

lemma concat_pieces: "w \<in> set (pieces p cs) \<Longrightarrow> set w \<subseteq> set (concat cs)"
proof (induction cs arbitrary: w)
  case (Cons c cs)
  obtain v vs where v: "pieces p cs = v # vs" using pieces_nonempty [of p cs] by (cases "pieces p cs") auto
  show ?case
  proof (cases "p c")
    case True
    with Cons show ?thesis by auto
  next
    case False
    with Cons.prems v consider "w = c @ v" | "w \<in> set vs" by auto
    then show ?thesis using Cons.IH [of v] Cons.IH [of w] v by cases auto
  qed
qed simp

lemma set_split_text: "w \<in> set (split_text p s) \<Longrightarrow> set w \<subseteq> set s"
  using concat_pieces [of w p "chars s"] by (simp add: split_text_def)

lemma set_split_whitespace: "w \<in> set (split_whitespace s) \<Longrightarrow> set w \<subseteq> set s"
  by (auto simp: split_whitespace_def dest: set_split_text)

lemma set_join: "set (join sep ws) \<subseteq> set sep \<union> (\<Union>w \<in> set ws. set w)"
  by (induction sep ws rule: join.induct) auto

lemma set_split_on: "w \<in> set (split_on d s) \<Longrightarrow> set w \<subseteq> set s"
proof (induction d s arbitrary: w rule: split_on.induct)
  case (2 d c s)
  obtain v vs where v: "split_on d s = v # vs" using split_on_nonempty [of d s] by (cases "split_on d s") auto
  have sub: "set x \<subseteq> set s" if "x = v \<or> x \<in> set vs" for x
    using 2(1) [of x] 2(2) [of x] that v by (cases "c = d") auto
  from 2(3) v consider "w = []" | "w = v \<or> w \<in> set vs" | "w = c # v" by (auto split: if_splits)
  then show ?case using sub [of v] sub [of w] by cases auto
qed simp

lemma set_text_lines: "l \<in> set (text_lines s) \<Longrightarrow> set l \<subseteq> set s"
proof -
  let ?ls = "split_on (CHR 0x0A) s"
  assume "l \<in> set (text_lines s)"
  then consider m where "m \<in> set (butlast ?ls)" "l = strip_cr m" | "l = last ?ls"
    by (auto simp: text_lines_def Let_def split: if_splits)
  then show ?thesis
  proof cases
    case 1
    then have "set l \<subseteq> set m" by (auto simp: strip_cr_def dest: in_set_butlastD)
    with 1 set_split_on [of m "CHR 0x0A" s] show ?thesis by (auto dest: in_set_butlastD)
  qed (use set_split_on [of l "CHR 0x0A" s] in simp)
qed

section \<open>Words of ASCII texts\<close>

lemma singles: "\<forall>c \<in> set cs. \<exists>x. c = [x] \<and> byte x < 128 \<Longrightarrow> chars (concat cs) = cs"
proof -
  assume cs: "\<forall>c \<in> set cs. \<exists>x. c = [x] \<and> byte x < 128"
  then obtain xs where xs: "cs = map (\<lambda>c. [c]) xs" "ascii xs"
  proof (induction cs arbitrary: thesis)
    case (Cons c cs)
    then obtain x where x: "c = [x]" "byte x < 128" by auto
    from Cons obtain xs where "cs = map (\<lambda>c. [c]) xs" "ascii xs" by auto
    with x Cons.prems(1) [of "x # xs"] show ?case by simp
  qed simp
  then show ?thesis by (simp add: ascii_chars)
qed

lemma ascii_singles: "ascii s \<Longrightarrow> \<forall>c \<in> set (chars s). \<exists>x. c = [x] \<and> byte x < 128"
  by (auto simp: ascii_chars ascii_def)

lemma chars_trim_text: "ascii s \<Longrightarrow> chars (trim_text s) = drop_ends white (chars s)"
  unfolding trim_text_def trim_matches_def using ascii_singles [of s] set_drop_ends [of white "chars s"]
  by (intro singles) blast

lemma words_trim_text [simp]: "ascii s \<Longrightarrow> split_whitespace (trim_text s) = split_whitespace s"
  by (simp add: split_whitespace_words chars_trim_text words_of_drop_ends)

lemma collapse_trim_text [simp]: "ascii s \<Longrightarrow> collapse (trim_text s) = collapse s"
  by (simp add: collapse_def)

lemma chars_trim_end: "ascii s \<Longrightarrow> chars (trim_end_matches p s) = rev (dropWhile p (rev (chars s)))"
  unfolding trim_end_matches_def using ascii_singles [of s] by (intro singles) (auto dest: set_dropWhileD)

lemma words_trim_end [simp]: "ascii s \<Longrightarrow> split_whitespace (trim_end_matches white s) = split_whitespace s"
  by (simp add: split_whitespace_words chars_trim_end words_of_drop_end)

lemma words_sep: "ascii x \<Longrightarrow> byte c < 128 \<Longrightarrow> white [c] \<Longrightarrow> split_whitespace (x @ c # y) = split_whitespace x @ split_whitespace y"
  by (simp add: split_whitespace_words chars_append chars_ascii_Cons ascii_chars words_of_sep)

lemma white_space [simp]: "white '' ''"
  by (simp add: white_def Let_def ws_len.simps byte_def)

lemma space_byte [simp]: "byte (CHR '' '') = 32"
  by (simp add: byte_def)

definition solid :: "string \<Rightarrow> bool" where
  "solid w \<longleftrightarrow> w \<noteq> [] \<and> ascii w \<and> (\<forall>c \<in> set w. \<not> white [c])"

lemma words_solid: "solid w \<Longrightarrow> split_whitespace w = [w]"
  unfolding split_whitespace_words solid_def by (subst words_of_plain) (auto simp: ascii_chars)

lemma words_join: "\<forall>w \<in> set ws. solid w \<Longrightarrow> split_whitespace (join '' '' ws) = ws"
proof (induction "'' ''" ws rule: join.induct)
  case (3 v w ws)
  then have "split_whitespace (v @ CHR '' '' # join '' '' (w # ws)) = v # w # ws"
    by (subst words_sep) (simp_all add: words_solid, simp add: solid_def)
  then show ?case by simp
next
  case (2 w)
  then show ?case by (simp add: words_solid)
qed (simp add: split_whitespace_words words_of_def)

lemma pieces_plain: "w \<in> set (pieces p cs) \<Longrightarrow> \<forall>c \<in> set cs. \<exists>x. c = [x] \<Longrightarrow> x \<in> set w \<Longrightarrow> \<not> p [x]"
proof (induction cs arbitrary: w)
  case (Cons c cs)
  obtain v vs where v: "pieces p cs = v # vs" using pieces_nonempty [of p cs] by (cases "pieces p cs") auto
  obtain y where "c = [y]" using Cons.prems(2) by auto
  have "w = [] \<or> w \<in> set (v # vs) \<or> \<not> p [y] \<and> w = y # v"
    using Cons.prems(1) v \<open>c = [y]\<close> by (cases "p [y]") auto
  moreover have "x \<in> set v \<Longrightarrow> \<not> p [x]" "w \<in> set (v # vs) \<Longrightarrow> \<not> p [x]"
    using Cons.IH [of v] Cons.IH [of w] Cons.prems(2,3) v by auto
  ultimately show ?case using Cons.prems(3) by auto
qed simp

lemma split_whitespace_solid: "ascii s \<Longrightarrow> w \<in> set (split_whitespace s) \<Longrightarrow> solid w"
proof -
  assume s: "ascii s" and w: "w \<in> set (split_whitespace s)"
  then have p: "w \<in> set (pieces white (chars s))" "w \<noteq> []" by (auto simp: split_whitespace_words words_of_def)
  have "\<not> white [x]" if "x \<in> set w" for x
    using pieces_plain [OF p(1) _ that] ascii_singles [OF s] by blast
  then show ?thesis using p(2) ascii_subset [OF s set_split_whitespace [OF w]] by (simp add: solid_def)
qed

section \<open>Prefixes and suffixes\<close>

lemma join_words: "xs \<noteq> [] \<Longrightarrow> ys \<noteq> [] \<Longrightarrow> join sep (xs @ ys) = join sep xs @ sep @ join sep ys"
proof (induction sep xs rule: join.induct)
  case (2 sep x)
  then show ?case by (cases ys) simp_all
qed simp_all

lemma join_prefix: "\<exists>z. join sep (xs @ ys) = join sep xs @ z"
  by (cases "xs = [] \<or> ys = []") (auto simp: join_words)

lemma join_suffix: "\<exists>z. join sep (xs @ ys) = z @ join sep ys"
proof (cases "xs = [] \<or> ys = []")
  case False
  then show ?thesis using join_words [of xs ys sep] by (metis append_assoc)
qed auto

lemma join_extend: "\<exists>z. join sep (xs @ (w @ v) # ys) = join sep (xs @ [w]) @ z"
proof -
  have one: "\<exists>z. join sep ((w @ v) # ys) = w @ z" by (cases ys) auto
  show ?thesis
  proof (cases "xs = []")
    case False
    with one join_words [of xs "(w @ v) # ys" sep] join_words [of xs "[w]" sep] show ?thesis by auto
  qed (use one in simp)
qed

lemma collapse_prefix: "ascii x \<Longrightarrow> \<exists>z. collapse (x @ y) = collapse x @ z"
proof -
  assume x: "ascii x"
  let ?P = "pieces white (chars x)" and ?Q = "pieces white (chars y)"
  have "?P = butlast ?P @ [last ?P]" using pieces_nonempty by simp
  then have wx: "split_whitespace x = filter (\<lambda>w. w \<noteq> []) (butlast ?P) @ filter (\<lambda>w. w \<noteq> []) [last ?P]"
    unfolding split_whitespace_words words_of_def by (metis filter_append)
  have wxy: "split_whitespace (x @ y) = filter (\<lambda>w. w \<noteq> []) (butlast ?P) @ filter (\<lambda>w. w \<noteq> []) ((last ?P @ hd ?Q) # tl ?Q)"
    using x by (simp add: split_whitespace_words words_of_def chars_append ascii_chars pieces_append)
  show ?thesis
  proof (cases "last ?P = []")
    case True
    then show ?thesis unfolding collapse_def wxy wx using join_prefix by simp
  next
    case False
    then show ?thesis unfolding collapse_def wxy wx using join_extend by simp
  qed
qed

section \<open>Lower case\<close>

lemma ascii_lower_append [simp]: "ascii_lower (s @ t) = ascii_lower s @ ascii_lower t"
  and ascii_lower_Nil [simp]: "ascii_lower [] = []"
  and ascii_lower_Cons [simp]: "ascii_lower (c # s) = lower_byte c # ascii_lower s"
  by (simp_all add: ascii_lower_def)

lemma length_ascii_lower [simp]: "length (ascii_lower s) = length s"
  by (simp add: ascii_lower_def)

lemma lower_byte_space [simp]: "lower_byte c = CHR '' '' \<longleftrightarrow> c = CHR '' ''"
  by (cases c) (simp add: lower_byte_code is_upper_code)

lemma ascii_lower_join: "ascii_lower (join '' '' ws) = join '' '' (map ascii_lower ws)"
proof (induction "'' ''" ws rule: join.induct)
  case (3 v w ws)
  have "lower_byte (CHR '' '') = CHR '' ''" by simp
  with 3 show ?case by simp
qed simp_all

lemma fold_ascii: "ascii_folding u \<Longrightarrow> ascii s \<Longrightarrow> fold_text u s = ascii_lower (collapse s)"
proof -
  assume u: "ascii_folding u" and s: "ascii s"
  have "set (collapse s) \<subseteq> set '' '' \<union> set s"
    using set_join [of "'' ''" "split_whitespace s"] set_split_whitespace [of _ s] unfolding collapse_def by blast
  then have "ascii (collapse s)" using s by (auto simp: ascii_def)
  with u show ?thesis by (simp add: fold_text_def ascii_folding_def)
qed

lemma lower_byte_ascii [simp]: "byte (lower_byte c) < 128 \<longleftrightarrow> byte c < 128"
proof -
  have "byte (char_of (byte c + 32)) = byte c + 32" if "byte c \<le> 90" using that by (simp add: byte_def)
  then show ?thesis by (simp add: lower_byte_def)
qed

lemma lower_byte_twice [simp]: "lower_byte (lower_byte c) = lower_byte c"
  by (cases c) (simp add: lower_byte_code is_upper_code)

lemma lower_byte_white: "white [lower_byte c] \<longleftrightarrow> white [c]"
proof -
  have "white_byte (lower_byte c) = white_byte c"
    by (cases c) (auto simp: lower_byte_code is_upper_code white_byte_code)
  then show ?thesis by (simp add: white_code)
qed

end
