(* ===== verification/Purposes.thy ===== *)
theory Purposes
  imports Ascii_Text Encoding
begin

text \<open>
  What a tool manual says its tools are for, the reading half of
  \<open>crates/vector-questions/src/purposes.rs\<close>: the repair of a scanned text, its sentences, the tool
  and the purpose a sentence states, and the guards that refuse what only looks like one. A byte
  offset found in the lower-cased sentence is used to slice the sentence itself, so a slice may
  be out of range or inside a character: \<^const>\<open>None\<close> on the outside is that panic, \<^const>\<open>None\<close> on
  the inside a sentence that states nothing.
\<close>

section \<open>Descriptions\<close>

datatype link = To | For | As

record purpose =
  tool :: string
  purpose :: string
  sentence :: string
  link :: link

record purposes =
  manual_label :: string
  statements :: "purpose list"

fun tool_question :: "link \<Rightarrow> string \<Rightarrow> string" where
  "tool_question To p = ''Which tool is used to '' @ p"
| "tool_question For p = ''Which tool is used for '' @ p"
| "tool_question As p = ''Which tool serves as '' @ p"

section \<open>Words\<close>

definition NOT_A_TOOL :: "string list" where
  "NOT_A_TOOL = [''it'', ''they'', ''this'', ''that'', ''these'', ''those'', ''which'', ''one'', ''some'', ''many'', ''most'', ''you'', ''we'', ''he'',
     ''she'', ''there'', ''figure'', ''fig'', ''chapter'', ''table'', ''page'', ''and'', ''what'', ''who'', ''whose'', ''how'', ''why'',
     ''when'', ''where'', ''or'', ''but'', ''nor'']"

definition SCAN_FURNITURE :: "string list" where
  "SCAN_FURNITURE = [''digitized'', ''google'', ''microsoft'', ''archive'', ''original'', ''university'', ''california'', ''ocr'']"

definition NOT_A_TOOL_HEAD :: "string list" where
  "NOT_A_TOOL_HEAD = [''type'', ''types'', ''kind'', ''kinds'', ''method'', ''methods'', ''means'', ''way'', ''ways'', ''manner'', ''purpose'', ''purposes'',
     ''sort'', ''example'', ''examples'', ''instance'', ''class'', ''classes'', ''thick'', ''thickness'', ''wide'', ''width'', ''deep'',
     ''depth'', ''long'', ''high'', ''broad'', ''diameter'', ''inch'', ''inches'', ''foot'', ''feet'', ''yard'', ''yards'', ''pound'',
     ''pounds'', ''gallon'', ''gallons'', ''work'', ''works'', ''substance'', ''substances'', ''material'', ''materials'', ''tool'', ''tools'']"

definition NAME_STOP_WORDS :: "string list" where
  "NAME_STOP_WORDS = [''does'', ''do'', ''did'', ''is'', ''are'', ''was'', ''were'', ''be'', ''been'', ''being'', ''has'', ''have'', ''had'', ''can'', ''may'',
     ''will'', ''would'', ''should'', ''could'', ''not'', ''no'', ''any'', ''all'', ''each'', ''both'', ''some'', ''every'', ''either'',
     ''neither'', ''whatever'', ''whichever'', ''such'', ''other'', ''another'', ''this'', ''that'', ''these'', ''those'', ''it'', ''they'',
     ''you'', ''we'', ''he'', ''she'', ''which'', ''what'', ''who'', ''as'', ''about'', ''same'', ''third'', ''second'', ''first'', ''then'',
     ''than'', ''when'', ''whenever'', ''where'', ''whereas'', ''while'', ''because'', ''since'', ''if'', ''so'', ''also'', ''thus'', ''hence'',
     ''therefore'', ''however'', ''although'', ''unless'', ''until'']"

definition PURPOSE_VERBS :: "string list" where
  "PURPOSE_VERBS = [''absorb'', ''accomplish'', ''adhere'', ''adjust'', ''aid'', ''allow'', ''apply'', ''applying'', ''attach'', ''attaching'', ''avoid'',
     ''balance'', ''bend'', ''bind'', ''block'', ''bore'', ''boring'', ''break'', ''burn'', ''carry'', ''change'', ''charge'', ''check'',
     ''checking'', ''circulate'', ''clean'', ''cleaning'', ''close'', ''collect'', ''combine'', ''compensate'', ''compress'', ''connect'',
     ''contain'', ''control'', ''convert'', ''cool'', ''coordinate'', ''cut'', ''cutting'', ''deliver'', ''dent'', ''describe'', ''designate'',
     ''detect'', ''determine'', ''develop'', ''direct'', ''distribute'', ''dope'', ''drain'', ''dress'', ''dressing'', ''drill'', ''drilling'',
     ''drive'', ''driving'', ''enable'', ''enlarge'', ''ensure'', ''exert'', ''express'', ''extract'', ''fasten'', ''file'', ''fill'',
     ''finish'', ''fit'', ''flare'', ''float'', ''follow'', ''force'', ''form'', ''generate'', ''get'', ''grasp'', ''grind'', ''grinding'',
     ''grip'', ''gripping'', ''group'', ''guide'', ''guiding'', ''handle'', ''heat'', ''help'', ''hold'', ''holding'', ''hone'', ''honing'',
     ''increase'', ''indicate'', ''induce'', ''inspect'', ''inspecting'', ''install'', ''installing'', ''insulate'', ''interconnect'', ''join'',
     ''joining'', ''keep'', ''knock'', ''knocking'', ''lay'', ''laying'', ''level'', ''lift'', ''limit'', ''line'', ''link'', ''load'',
     ''loading'', ''locate'', ''lock'', ''lower'', ''lubricate'', ''lubricating'', ''maintain'', ''make'', ''mark'', ''marking'', ''match'',
     ''measure'', ''measuring'', ''meet'', ''mix'', ''move'', ''nail'', ''nailing'', ''obtain'', ''observe'', ''open'', ''operate'',
     ''operating'', ''penetrate'', ''perform'', ''place'', ''plan'', ''planing'', ''position'', ''pour'', ''pressurize'', ''prevent'',
     ''produce'', ''project'', ''protect'', ''provide'', ''pull'', ''push'', ''put'', ''raise'', ''reach'', ''ream'', ''reduce'', ''regulate'',
     ''reinforce'', ''remove'', ''resist'', ''retain'', ''retaining'', ''rethread'', ''rotate'', ''run'', ''scatter'', ''scavenge'',
     ''scavenging'', ''secure'', ''securing'', ''set'', ''setting'', ''shape'', ''shaping'', ''sharpen'', ''smooth'', ''smoothing'', ''solder'',
     ''space'', ''splice'', ''start'', ''starting'', ''steer'', ''store'', ''strike'', ''striking'', ''support'', ''suppress'', ''take'',
     ''tap'', ''test'', ''thread'', ''threading'', ''tie'', ''transfer'', ''transmit'', ''trim'', ''trigger'', ''turn'', ''turning'', ''unite'',
     ''use'', ''whittle'', ''wire'', ''wiring'', ''withstand'']"

definition FUNCTION_WORDS :: "string list" where
  "FUNCTION_WORDS = [''in'', ''and'', ''the'', ''to'', ''for'', ''with'', ''from'', ''of'', ''or'', ''on'', ''at'', ''by'', ''is'', ''are'', ''was'', ''were'',
     ''as'', ''if'', ''it'', ''its'', ''into'', ''than'', ''then'', ''when'']"

definition ENDS_THE_NAME :: "string list" where
  "ENDS_THE_NAME = [''with'', ''for'', ''of'', ''in'', ''on'', ''to'', ''by'', ''from'', ''that'', ''which'', ''whose'', ''shown'', ''illustrated'', ''made'',
     ''listed'', ''described'', ''used'', ''at'', ''under'', ''over'', ''near'', ''between'', ''through'', ''during'', ''after'', ''before'',
     ''against'', ''along'', ''across'', ''around'', ''behind'', ''below'', ''beneath'', ''beside'', ''beyond'', ''inside'', ''outside'',
     ''toward'', ''towards'', ''within'', ''without'', ''upon'', ''is'', ''are'', ''was'', ''were'', ''has'', ''have'', ''had'']"

definition NOT_A_SUBJECT_START :: "string list" where
  "NOT_A_SUBJECT_START = [''or'', ''and'', ''but'', ''nor'']"

definition articles :: "string list" where
  "articles = [''the'', ''a'', ''an'']"

definition is_adverb :: "string \<Rightarrow> bool" where
  "is_adverb w \<longleftrightarrow> ends_with w ''ly'' \<or> w \<in> set [''generally'', ''usually'', ''normally'', ''often'', ''sometimes'', ''also'', ''always'',
     ''almost'', ''nearly'', ''quite'', ''very'', ''only'', ''still'', ''even'', ''just'', ''particularly'', ''especially'', ''mainly'', ''mostly'']"

definition singular :: "unicode \<Rightarrow> string \<Rightarrow> string" where
  "singular u w = (let lower = to_lower u w in case strip_suffix lower ''s'' of Some stem \<Rightarrow> stem | None \<Rightarrow> lower)"

section \<open>Repairing a scan\<close>

definition NOISE :: string where
  "NOISE = ''*'' @ [CHR 0x5C] @ ''|~{}^''"

definition clean :: "unicode \<Rightarrow> string \<Rightarrow> string" where
  "clean u t = join '' '' (filter (\<lambda>w. \<not> list_ex (one_of NOISE) (chars w) \<and> list_ex (alphabetic u) (chars w)) (split_whitespace t))"

definition HOMOGLYPHS :: "(string \<times> string) list" where
  "HOMOGLYPHS = [([CHR 0xD0, CHR 0x90], ''A''), ([CHR 0xD0, CHR 0x92], ''B''), ([CHR 0xD0, CHR 0x95], ''E''), ([CHR 0xD0, CHR 0x9A], ''K''),
     ([CHR 0xD0, CHR 0x9C], ''M''), ([CHR 0xD0, CHR 0x9D], ''H''), ([CHR 0xD0, CHR 0x9E], ''O''), ([CHR 0xD0, CHR 0xA0], ''P''),
     ([CHR 0xD0, CHR 0xA1], ''C''), ([CHR 0xD0, CHR 0xA2], ''T''), ([CHR 0xD0, CHR 0xA3], ''Y''), ([CHR 0xD0, CHR 0xA5], ''X''),
     ([CHR 0xD0, CHR 0xB0], ''a''), ([CHR 0xD0, CHR 0xB5], ''e''), ([CHR 0xD0, CHR 0xBE], ''o''), ([CHR 0xD1, CHR 0x80], ''p''),
     ([CHR 0xD1, CHR 0x81], ''c''), ([CHR 0xD1, CHR 0x83], ''y''), ([CHR 0xD1, CHR 0x85], ''x''), ([CHR 0xD1, CHR 0x96], ''i''),
     ([CHR 0xD1, CHR 0x95], ''s''), ([CHR 0xD1, CHR 0x98], ''j''), ([CHR 0xD0, CHR 0xBF], ''n''), ([CHR 0xD0, CHR 0xB2], ''b''),
     ([CHR 0xD0, CHR 0xBA], ''k''), ([CHR 0xD0, CHR 0xBC], ''m''), ([CHR 0xD0, CHR 0xBD], ''h''), ([CHR 0xD1, CHR 0x82], ''t'')]"

definition normalize_homoglyphs :: "string \<Rightarrow> string" where
  "normalize_homoglyphs t = concat (map (\<lambda>c. case map_of HOMOGLYPHS c of Some l \<Rightarrow> l | None \<Rightarrow> c) (chars t))"

text \<open>The loop over the lines: a word split at a line end is joined again.\<close>

fun join_lines :: "unicode \<Rightarrow> string list \<Rightarrow> string \<Rightarrow> string" where
  "join_lines u [] joined = joined"
| "join_lines u (line # ls) joined =
     (let trimmed = trim_text line in
      if trimmed = [] then join_lines u ls joined
      else if \<not> list_ex (alphabetic u) (chars trimmed) then join_lines u ls joined
      else if ends_with joined ''-'' \<and> lowercase u (hd (chars trimmed)) then join_lines u ls (butlast joined @ trimmed)
      else join_lines u ls ((if joined \<noteq> [] then joined @ '' '' else joined) @ trimmed))"

definition clean_scan :: "unicode \<Rightarrow> string \<Rightarrow> string" where
  "clean_scan u t = clean u (normalize_homoglyphs (join_lines u (text_lines t) []))"

text \<open>Sentences, over the characters; a full stop ends one only before an ASCII capital.\<close>

fun manual_sentences :: "string list \<Rightarrow> string \<Rightarrow> string list" where
  "manual_sentences [] current = (if trim_text current \<noteq> [] then [trim_text current] else [])"
| "manual_sentences (c # cs) current =
     (if \<not> one_of ''.?!'' c then manual_sentences cs (current @ c)
      else let following = (case find (\<lambda>c. \<not> white c) cs of Some d \<Rightarrow> d | None \<Rightarrow> '' '') in
        if c = ''.'' \<and> \<not> ascii_uppercase following then manual_sentences cs (current @ c)
        else trim_text (current @ c) # manual_sentences cs [])"

section \<open>Damage\<close>

fun broken_word :: "unicode \<Rightarrow> string list \<Rightarrow> bool" where
  "broken_word u (a # b # c # d # cs) \<longleftrightarrow>
     alphabetic u a \<and> b = ''-'' \<and> white c \<and> lowercase u d \<or> broken_word u (b # c # d # cs)"
| "broken_word u _ \<longleftrightarrow> False"

definition figure_label :: "unicode \<Rightarrow> string \<Rightarrow> bool" where
  "figure_label u w \<longleftrightarrow>
     (let bare = trim_matches (\<lambda>c. \<not> alphabetic u c) w in
      length (chars bare) = 1 \<and> list_all (lowercase u) (chars bare) \<and> bare \<noteq> ''a'' \<and> bare \<noteq> ''i'')"

definition is_label :: "unicode \<Rightarrow> string \<Rightarrow> bool" where
  "is_label u w \<longleftrightarrow> (let letters = filter (alphabetic u) (chars w) in 3 \<le> length letters \<and> list_all (uppercase u) letters)"

fun label_run :: "unicode \<Rightarrow> nat \<Rightarrow> string list \<Rightarrow> bool" where
  "label_run u n [] = False"
| "label_run u n (w # ws) =
     (let in_a_row = (if is_label u w then n + 1 else 0) in if 2 \<le> in_a_row then True else label_run u in_a_row ws)"

definition UNITS :: "string list" where
  "UNITS = [''mph'', ''km/h'', ''psi'', ''rpm'', ''percent'', ''gallons'', ''liters'', ''amperes'', ''volts'', ''ohms'', ''watts'', ''degrees'']"

text \<open>A unit whose word before has no digit; the first word has none before it.\<close>

fun bare_unit :: "unicode \<Rightarrow> string \<Rightarrow> string list \<Rightarrow> bool" where
  "bare_unit u before [] = False"
| "bare_unit u before (w # ws) =
     (if trim_matches (\<lambda>c. \<not> alphanumeric u c \<and> c \<noteq> ''/'') w \<in> set UNITS \<and> \<not> list_ex ascii_digit (chars before) then True
      else bare_unit u w ws)"

definition carries_scan_damage :: "unicode \<Rightarrow> string \<Rightarrow> bool" where
  "carries_scan_damage u t =
     (if broken_word u (chars t) then True
      else if list_ex (figure_label u) (split_whitespace t) then True
      else if label_run u 0 (split_whitespace t) then True
      else let lower = to_lower u t in
        if contains lower '' of to '' \<or> contains lower '' a to '' then True
        else if bare_unit u [] (split_whitespace lower) then True
        else length (filter (one_of ''(['') (chars t)) \<noteq> length (filter (one_of '')]'') (chars t)))"

definition is_ascii :: "string \<Rightarrow> bool" where
  "is_ascii = ascii_class (\<lambda>c. byte c < 128)"

definition uses_only_latin :: "unicode \<Rightarrow> string \<Rightarrow> bool" where
  "uses_only_latin u t = list_all (\<lambda>c. is_ascii c \<or> \<not> alphabetic u c) (chars t)"

definition after_stop :: "string list" where
  "after_stop = [[CHR 0xE2, CHR 0x80, CHR 0x9D], [CHR 0x22], [CHR 0xE2, CHR 0x80, CHR 0x99], [CHR 0x27], '')'', '']'']"

fun full_stop_in :: "string list \<Rightarrow> bool" where
  "full_stop_in [] = False"
| "full_stop_in (c # cs) =
     (if c \<noteq> ''.'' then full_stop_in cs
      else case find (\<lambda>d. d \<notin> set after_stop) cs of
          None \<Rightarrow> True
        | Some d \<Rightarrow> if white d then True else full_stop_in cs)"

definition contains_full_stop :: "string \<Rightarrow> bool" where
  "contains_full_stop t = full_stop_in (chars t)"

section \<open>Names and purposes\<close>

definition names_a_tool :: "unicode \<Rightarrow> string \<Rightarrow> bool" where
  "names_a_tool u t =
     (let ws = split_whitespace t; lower = to_lower u t in
      if ws = [] \<or> 3 < length ws then False
      else if \<not> uses_only_latin u t then False
      else if list_ex (\<lambda>c. c = [CHR 0x27] \<or> c = [CHR 0xE2, CHR 0x80, CHR 0x99]) (chars t) then False
      else if carries_scan_damage u t then False
      else if list_ex (\<lambda>w. to_lower u w \<in> set NOT_A_TOOL) ws then False
      else if contains lower ''(fig'' \<or> contains lower ''fig.'' \<or> contains lower ''figure'' then False
      else if list_ex (\<lambda>w. length w = 1 \<and> list_all ascii_uppercase (chars w)) ws then False
      else if list_ex ascii_digit (chars t) then False
      else if list_ex (one_of (''(),;:'' @ [CHR 0x22])) (chars t) then False
      else if \<not> list_ex (\<lambda>w. 4 \<le> length (chars w)) ws then False
      else if \<not> list_all (\<lambda>w. 2 \<le> length (filter (alphabetic u) (chars w))) ws then False
      else if list_ex (\<lambda>w. list_ex (\<lambda>part. list_ex (uppercase u) (drop 1 (chars part))) (split_on (CHR ''-'') w)) ws then False
      else if list_ex (\<lambda>w. to_lower u w \<in> set NAME_STOP_WORDS) ws then False
      else to_lower u (last ws) \<notin> set NOT_A_TOOL_HEAD)"

definition first_stem :: "unicode \<Rightarrow> string \<Rightarrow> string" where
  "first_stem u w = to_lower u (trim_matches (\<lambda>c. \<not> alphabetic u c) w)"

definition names_a_figure :: "string \<Rightarrow> bool" where
  "names_a_figure p \<longleftrightarrow> contains p ''(fig'' \<or> contains p ''figure '' \<or> contains p ''Fig.''"

definition reads_as_a_purpose :: "unicode \<Rightarrow> string \<Rightarrow> link \<Rightarrow> bool" where
  "reads_as_a_purpose u p l =
     (let ws = split_whitespace p; stem = first_stem u (hd ws) in
      if length ws < 4 then False
      else if l = As then
        if stem \<in> set PURPOSE_VERBS \<or> stem \<in> set NAME_STOP_WORDS \<or> length ws < 2 then False
        else \<not> contains_full_stop p \<and> \<not> contains p '';'' \<and> uses_only_latin u p \<and> \<not> carries_scan_damage u p \<and> \<not> names_a_figure p
      else if stem \<notin> set PURPOSE_VERBS then False
      else if contains_full_stop p \<or> contains p '';'' then False
      else if \<not> uses_only_latin u p then False
      else if carries_scan_damage u p then False
      else \<not> names_a_figure p)"

definition opens_with_a_gerund :: "unicode \<Rightarrow> string \<Rightarrow> bool" where
  "opens_with_a_gerund u p =
     ends_with (first_stem u (case split_whitespace p of [] \<Rightarrow> [] | w # _ \<Rightarrow> w)) ''ing''"

section \<open>The subject\<close>

text \<open>Capitals a scan set inside a run of words, from the word at \<open>n\<close> on.\<close>

definition lowered :: "unicode \<Rightarrow> bool \<Rightarrow> nat \<Rightarrow> string \<Rightarrow> string" where
  "lowered u lower_first n w =
     (case chars w of
        [] \<Rightarrow> w
      | c # cs \<Rightarrow>
          if \<not> uppercase u c then w
          else if list_ex (uppercase u) cs then w
          else let candidate = to_lower u c @ concat cs in
            if lower_first \<and> n = 0 \<or> candidate \<in> set FUNCTION_WORDS then candidate
            else if 0 < n then candidate else w)"

fun lower_from :: "unicode \<Rightarrow> bool \<Rightarrow> nat \<Rightarrow> string list \<Rightarrow> string list" where
  "lower_from u lower_first n [] = []"
| "lower_from u lower_first n (w # ws) = lowered u lower_first n w # lower_from u lower_first (Suc n) ws"

definition lower_words :: "unicode \<Rightarrow> bool \<Rightarrow> string \<Rightarrow> string" where
  "lower_words u lower_first t = join '' '' (lower_from u lower_first 0 (split_whitespace t))"

definition lower_scan_capitals :: "unicode \<Rightarrow> string \<Rightarrow> string" where
  "lower_scan_capitals u t = lower_words u True t"

definition lower_name_capitals :: "unicode \<Rightarrow> string \<Rightarrow> string" where
  "lower_name_capitals u t = lower_words u False t"

definition is_heading :: "unicode \<Rightarrow> string \<Rightarrow> bool" where
  "is_heading u w \<longleftrightarrow> (let letters = filter (alphabetic u) (chars w) in 1 < length letters \<and> list_all (uppercase u) letters)"

fun drop_headings :: "unicode \<Rightarrow> string list \<Rightarrow> string list" where
  "drop_headings u (w # v # ws) = (if is_heading u w then drop_headings u (v # ws) else w # v # ws)"
| "drop_headings u ws = ws"

definition is_article :: "unicode \<Rightarrow> string \<Rightarrow> bool" where
  "is_article u w \<longleftrightarrow> to_lower u w \<in> set articles"

fun drop_article :: "unicode \<Rightarrow> string list \<Rightarrow> string list" where
  "drop_article u [] = []"
| "drop_article u (w # ws) = (if is_article u w then ws else w # ws)"

fun drop_phrase :: "unicode \<Rightarrow> string list \<Rightarrow> string list" where
  "drop_phrase u (w # v # ws) =
     (if to_lower u w \<in> set ENDS_THE_NAME \<and> is_article u v then drop_phrase u (v # ws) else w # v # ws)"
| "drop_phrase u ws = ws"

fun cut_at_preposition :: "unicode \<Rightarrow> string list \<Rightarrow> string list" where
  "cut_at_preposition u [] = []"
| "cut_at_preposition u (w # ws) = w # takeWhile (\<lambda>v. to_lower u v \<notin> set ENDS_THE_NAME) ws"

text \<open>On the words in reverse.\<close>

fun drop_adverbs :: "unicode \<Rightarrow> string list \<Rightarrow> string list" where
  "drop_adverbs u (w # v # ws) = (if is_adverb (to_lower u w) then drop_adverbs u (v # ws) else w # v # ws)"
| "drop_adverbs u ws = ws"

text \<open>One round of the last loop: doubled words, a repeated heading, an article; and the loop.\<close>

fun undouble_from :: "unicode \<Rightarrow> string \<Rightarrow> string list \<Rightarrow> string list" where
  "undouble_from u v [] = []"
| "undouble_from u v (w # ws) = (if singular u v = singular u w then undouble_from u v ws else w # undouble_from u w ws)"

fun undouble :: "unicode \<Rightarrow> string list \<Rightarrow> string list" where
  "undouble u [] = []"
| "undouble u (w # ws) = w # undouble_from u w ws"

definition drop_repeat :: "unicode \<Rightarrow> string list \<Rightarrow> string list" where
  "drop_repeat u ws = (if 2 \<le> length ws \<and> singular u (hd ws) = singular u (last ws) then tl ws else ws)"

definition drop_left_article :: "unicode \<Rightarrow> string list \<Rightarrow> string list" where
  "drop_left_article u ws = (if 2 \<le> length ws \<and> is_article u (hd ws) then tl ws else ws)"

function settle :: "unicode \<Rightarrow> string list \<Rightarrow> string list" where
  "settle u ws =
     (let deduped = undouble u ws; ws' = drop_left_article u (drop_repeat u deduped) in
      if \<not> length ws' < length ws \<or> length ws' = length deduped then ws' else settle u ws')"
  by pat_completeness auto
termination
  by (relation "measure (length \<circ> snd)") auto

declare settle.simps [simp del]

definition subject_as_tool :: "unicode \<Rightarrow> string \<Rightarrow> string option" where
  "subject_as_tool u subject =
     (let ws = split_whitespace (last (split_on (CHR '','') subject)) in
      if ws = [] then None
      else
        let ws = cut_at_preposition u (drop_phrase u (drop_article u (drop_headings u ws)));
            ws = drop_article u (drop (length ws - 3) ws);
            ws = rev (drop_adverbs u (rev ws))
        in if list_ex (\<lambda>w. to_lower u w \<in> set NAME_STOP_WORDS) ws then None
        else let ws = settle u ws in
          if ws = [] then None
          else if length ws = 1 \<and> (is_adverb (to_lower u (hd ws)) \<or> to_lower u (hd ws) \<in> set NOT_A_SUBJECT_START) then None
          else let t = lower_name_capitals u (trim_text (trim_end_matches (one_of ''.,;:'') (join '' '' ws))) in
            if t \<noteq> [] then Some t else None)"

section \<open>What a sentence states\<close>

definition MAX_SUBJECT_WORDS :: nat where
  "MAX_SUBJECT_WORDS = 14"

type_synonym statement = "string \<times> string \<times> link"

definition finish :: "unicode \<Rightarrow> string \<Rightarrow> string \<Rightarrow> link \<Rightarrow> statement option" where
  "finish u subject p l =
     (if MAX_SUBJECT_WORDS < word_count subject then None
      else if list_ex (ends_with (to_lower u subject)) ['' that'', '' which'', '' who''] then None
      else if contains (to_lower u p) '' is the '' then None
      else case subject_as_tool u subject of
          None \<Rightarrow> None
        | Some t \<Rightarrow>
            let p = lower_scan_capitals u (trim_text (trim_end_matches (one_of ''.'') p)) in
            if p = [] then None else Some (t, p, l))"

text \<open>\<open>min_by_key\<close> keeps the first of the smallest.\<close>

fun first_min :: "(nat \<times> 'a) list \<Rightarrow> (nat \<times> 'a) option" where
  "first_min [] = None"
| "first_min (x # xs) = (case first_min xs of None \<Rightarrow> Some x | Some y \<Rightarrow> if fst x \<le> fst y then Some x else Some y)"

definition VERBS :: "(string \<times> link) list" where
  "VERBS = [('' are used for '', For), ('' are used to '', To), ('' is used for '', For), ('' is used to '', To),
     ('' are used as '', As), ('' is used as '', As), ('' are designed to '', To), ('' is designed to '', To),
     ('' are intended to '', To), ('' is intended to '', To), ('' serve to '', To), ('' serves to '', To),
     ('' are employed to '', To), ('' is employed to '', To), ('' are employed for '', For), ('' is employed for '', For),
     ('' are utilized to '', To), ('' is utilized to '', To), ('' are adapted to '', To), ('' is adapted to '', To),
     ('' are adapted for '', For), ('' is adapted for '', For), ('' are arranged to '', To), ('' is arranged to '', To),
     ('' serve as '', As), ('' serves as '', As), ('' act as '', As), ('' acts as '', As)]"

definition describe_by_verb :: "unicode \<Rightarrow> string \<Rightarrow> statement option option" where
  "describe_by_verb u s =
     (let lower = to_lower u s in
      case first_min (List.map_filter (\<lambda>(verb, l). map_option (\<lambda>position. (position, verb, l)) (find_sub lower verb)) VERBS) of
        None \<Rightarrow> Some None
      | Some (position, verb, l) \<Rightarrow> do {
          subject \<leftarrow> str_slice s 0 position;
          rest \<leftarrow> str_slice s (position + length verb) (length s);
          Some (finish u (trim_text subject) (trim_text rest) l)
        })"

text \<open>The phrase and the link are ASCII, so the offset after one lies between characters.\<close>

definition describe_named_relation :: "unicode \<Rightarrow> string \<Rightarrow> statement option option" where
  "describe_named_relation u s =
     (let lower = to_lower u s in
      case first_min (List.map_filter (\<lambda>phrase. map_option (\<lambda>k. (k + length phrase, phrase)) (find_sub lower phrase))
             [''function of '', ''purpose of '']) of
        None \<Rightarrow> Some None
      | Some (after, _) \<Rightarrow>
          (case first_min (List.map_filter (\<lambda>is_link. map_option (\<lambda>k. (after + k, is_link)) (find_sub (drop after lower) is_link))
                  ['' is to '', '' is for '']) of
             None \<Rightarrow> Some None
           | Some (link_at, is_link) \<Rightarrow> do {
               subject \<leftarrow> str_slice s after link_at;
               rest \<leftarrow> str_slice s (link_at + length is_link) (length s);
               if opens_with_a_gerund u (trim_text subject) then Some None
               else do {
                 before \<leftarrow> str_slice s 0 link_at;
                 Some (finish u (trim_text subject) (trim_text rest)
                   (if ends_with (to_lower u before) '' is for'' then For else To))
               }
             }))"

definition describe :: "unicode \<Rightarrow> string \<Rightarrow> statement option option" where
  "describe u s = do {
     named \<leftarrow> describe_named_relation u s;
     case named of Some found \<Rightarrow> Some (Some found) | None \<Rightarrow> describe_by_verb u s
   }"

section \<open>The parse\<close>

fun purposes_loop :: "unicode \<Rightarrow> string list \<Rightarrow> string set \<Rightarrow> purpose list option" where
  "purposes_loop u [] seen = Some []"
| "purposes_loop u (s # ss) seen =
     (if ends_with (trim_end_matches white s) ''?'' then purposes_loop u ss seen
      else do {
        found \<leftarrow> describe u s;
        case found of
          None \<Rightarrow> purposes_loop u ss seen
        | Some (t, p, l) \<Rightarrow>
            if \<not> names_a_tool u t \<or> \<not> reads_as_a_purpose u p l then purposes_loop u ss seen
            else if list_ex (contains (to_lower u t)) SCAN_FURNITURE then purposes_loop u ss seen
            else if fold_text u t \<in> seen then purposes_loop u ss seen
            else do {
              rest \<leftarrow> purposes_loop u ss (insert (fold_text u t) seen);
              Some (\<lparr>tool = t, purpose = p, sentence = trim_text s, link = l\<rparr> # rest)
            }
      })"

definition parse_purposes :: "unicode \<Rightarrow> string \<Rightarrow> string \<Rightarrow> purposes option" where
  "parse_purposes u t label = do {
     es \<leftarrow> purposes_loop u (manual_sentences (chars (clean_scan u t)) []) {};
     Some \<lparr>manual_label = label, statements = es\<rparr>
   }"

section \<open>What the parse keeps\<close>

text \<open>A description that passed the guards.\<close>

definition readable :: "unicode \<Rightarrow> purpose \<Rightarrow> bool" where
  "readable u e \<longleftrightarrow> names_a_tool u (tool e) \<and> reads_as_a_purpose u (purpose e) (link e) \<and>
     \<not> list_ex (contains (to_lower u (tool e))) SCAN_FURNITURE"

lemma purposes_loop_kept:
  "purposes_loop u ss seen = Some es \<Longrightarrow>
    distinct (map (\<lambda>e. fold_text u (tool e)) es) \<and> (\<forall>e \<in> set es. fold_text u (tool e) \<notin> seen \<and> readable u e \<and>
      (\<exists>s \<in> set ss. \<not> ends_with (trim_end_matches white s) ''?'' \<and> sentence e = trim_text s \<and>
        describe u s = Some (Some (tool e, purpose e, link e))))"
proof (induction ss arbitrary: seen es)
  case (Cons s ss)
  show ?case
  proof (cases "ends_with (trim_end_matches white s) ''?''")
    case True
    with Cons.prems have "purposes_loop u ss seen = Some es" by simp
    from Cons.IH [OF this] show ?thesis by auto
  next
    case False
    with Cons.prems obtain found where found: "describe u s = Some found" by (auto split: bind_splits)
    show ?thesis
    proof (cases found)
      case None
      with Cons.prems False found have "purposes_loop u ss seen = Some es" by simp
      from Cons.IH [OF this] show ?thesis by auto
    next
      case (Some stated)
      obtain t p l where tpl: "stated = (t, p, l)" by (cases stated)
      show ?thesis
      proof (cases "\<not> names_a_tool u t \<or> \<not> reads_as_a_purpose u p l \<or> list_ex (contains (to_lower u t)) SCAN_FURNITURE \<or> fold_text u t \<in> seen")
        case True
        with Cons.prems False found Some tpl have "purposes_loop u ss seen = Some es" by (auto split: if_splits)
        from Cons.IH [OF this] show ?thesis by auto
      next
        case keep: False
        with Cons.prems False found Some tpl obtain rest where
          rest: "purposes_loop u ss (insert (fold_text u t) seen) = Some rest"
            "es = \<lparr>tool = t, purpose = p, sentence = trim_text s, link = l\<rparr> # rest"
          by (auto split: bind_splits)
        from Cons.IH [OF rest(1)] keep rest(2) False found Some tpl show ?thesis by (auto simp: readable_def)
      qed
    qed
  qed
qed simp

section \<open>ASCII manuals\<close>

lemma str_slice_ascii: "ascii s \<Longrightarrow> lo \<le> hi \<Longrightarrow> hi \<le> length s \<Longrightarrow> str_slice s lo hi = Some (take (hi - lo) (drop lo s))"
proof -
  assume s: "ascii s" and le: "lo \<le> hi" "hi \<le> length s"
  have "boundary s i" if "i \<le> length s" for i
  proof (cases "i = length s")
    case False
    with that have "s ! i \<in> set s" by simp
    with s have "byte (s ! i) < 128" by (simp add: ascii_def)
    with that False show ?thesis by (simp add: boundary_def continuation_def)
  qed (simp add: boundary_def)
  with le show ?thesis by (simp add: str_slice_def)
qed

text \<open>A phrase that ends in a space is found where the sentence itself has that space.\<close>

lemma found_phrase:
  assumes u: "ascii_folding u" "ascii s" and v: "v = w @ '' ''" and k: "find_sub (drop n (to_lower u s)) v = Some k" and n: "n \<le> length s"
  shows "n + k + length v \<le> length s \<and> (\<exists>x. s = x @ CHR '' '' # drop (n + k + length v) s)"
proof -
  have lower: "to_lower u s = ascii_lower s" using u by (simp add: ascii_folding_def)
  from find_sub_Some [OF k] have le: "k + Suc (length w) \<le> length s - n"
    and at: "starts_with (drop (n + k) (ascii_lower s)) (w @ '' '')" by (simp_all add: lower v add.commute)
  let ?m = "n + k + length w"
  have m: "?m < length s" using le n by simp
  from at obtain z where "drop (n + k) (ascii_lower s) = (w @ '' '') @ z" by (auto simp: starts_with_iff)
  then have "drop (n + k) (ascii_lower s) ! length w = CHR '' ''" by (simp add: nth_append)
  then have "ascii_lower s ! ?m = CHR '' ''" using m by (simp add: nth_drop add.assoc)
  then have "s ! ?m = CHR '' ''" using m by (simp add: ascii_lower_def)
  with id_take_nth_drop [OF m] have "s = take ?m s @ CHR '' '' # drop (n + k + length v) s" by (simp add: v)
  then have "\<exists>x. s = x @ CHR '' '' # drop (n + k + length v) s" by blast
  moreover have "n + k + length v \<le> length s" using le n by (simp add: v)
  ultimately show ?thesis by blast
qed

lemma first_min_in: "first_min xs = Some x \<Longrightarrow> x \<in> set xs"
  by (induction xs arbitrary: x) (auto split: option.splits if_splits)

lemma verbs_end_in_space: "(verb, l) \<in> set VERBS \<Longrightarrow> verb = butlast verb @ '' ''"
  by (auto simp: VERBS_def)

lemma finish_link: "finish u a b l = Some (t, p, l') \<Longrightarrow> l' = l"
  by (auto simp: finish_def Let_def split: if_splits option.splits)

lemma describe_by_verb_ascii:
  assumes u: "ascii_folding u" "ascii s"
  shows "\<exists>r. describe_by_verb u s = Some r \<and> (\<forall>t p l. r = Some (t, p, l) \<longrightarrow>
    (\<exists>x y subject. ascii subject \<and> s = x @ CHR '' '' # y \<and> finish u subject (trim_text y) l = Some (t, p, l)))"
proof (cases "first_min (List.map_filter (\<lambda>(verb, l). map_option (\<lambda>position. (position, verb, l)) (find_sub (to_lower u s) verb)) VERBS)")
  case None
  then show ?thesis by (simp add: describe_by_verb_def)
next
  case (Some found)
  obtain position verb l where found: "found = (position, verb, l)" by (cases found)
  from first_min_in [OF Some] have v: "(verb, l) \<in> set VERBS" "find_sub (to_lower u s) verb = Some position"
    by (auto simp: found List.map_filter_def split: prod.splits)
  have verb: "verb = butlast verb @ '' ''" by (rule verbs_end_in_space [OF v(1)])
  from found_phrase [OF u verb, of 0 position] v(2) have
    le: "position + length verb \<le> length s" and
    cut: "\<exists>x. s = x @ CHR '' '' # drop (position + length verb) s" by simp_all
  let ?y = "drop (position + length verb) s"
  have "describe_by_verb u s = Some (finish u (trim_text (take position s)) (trim_text ?y) l)"
    using Some le by (simp add: describe_by_verb_def found str_slice_ascii [OF u(2)])
  moreover have "ascii (trim_text (take position s))" using u(2) by (intro ascii_subset [OF u(2)] subset_trans [OF set_trim_text]) (rule set_take_subset)
  ultimately show ?thesis using cut finish_link by blast
qed

lemma describe_named_relation_ascii:
  assumes u: "ascii_folding u" "ascii s"
  shows "\<exists>r. describe_named_relation u s = Some r \<and> (\<forall>t p l. r = Some (t, p, l) \<longrightarrow>
    (\<exists>x y subject. ascii subject \<and> s = x @ CHR '' '' # y \<and> finish u subject (trim_text y) l = Some (t, p, l)))"
proof -
  let ?lower = "to_lower u s"
  let ?phrases = "List.map_filter (\<lambda>phrase. map_option (\<lambda>k. (k + length phrase, phrase)) (find_sub ?lower phrase)) [''function of '', ''purpose of '']"
  show ?thesis
  proof (cases "first_min ?phrases")
    case None
    then show ?thesis by (simp add: describe_named_relation_def)
  next
    case (Some found)
    obtain after phrase where found: "found = (after, phrase)" by (cases found)
    from first_min_in [OF Some] obtain k where "find_sub ?lower phrase = Some k" "after = k + length phrase"
      by (auto simp: found List.map_filter_def split: if_splits)
    with find_sub_Some [of ?lower phrase k] u have after: "after \<le> length s" by (simp add: ascii_folding_def)
    let ?links = "List.map_filter (\<lambda>is_link. map_option (\<lambda>k. (after + k, is_link)) (find_sub (drop after ?lower) is_link)) ['' is to '', '' is for '']"
    show ?thesis
    proof (cases "first_min ?links")
      case None
      with Some found show ?thesis by (simp add: describe_named_relation_def)
    next
      case (Some linked)
      note phrase = \<open>first_min ?phrases = Some found\<close>
      obtain link_at is_link where linked: "linked = (link_at, is_link)" by (cases linked)
      from first_min_in [OF Some] obtain j where j: "find_sub (drop after ?lower) is_link = Some j" "link_at = after + j"
        and is_link: "is_link = butlast is_link @ '' ''"
        by (auto simp: linked List.map_filter_def split: if_splits)
      from found_phrase [OF u is_link j(1) after] have
        le: "link_at + length is_link \<le> length s" and
        cut: "\<exists>x. s = x @ CHR '' '' # drop (link_at + length is_link) s" unfolding j(2) by simp_all
      let ?y = "drop (link_at + length is_link) s" and ?subject = "take (link_at - after) (drop after s)"
      define l where "l = (if ends_with (to_lower u (take link_at s)) '' is for'' then For else To)"
      have eq: "describe_named_relation u s = Some (if opens_with_a_gerund u (trim_text ?subject) then None
          else finish u (trim_text ?subject) (trim_text ?y) l)"
        using phrase Some le j(2) by (simp add: describe_named_relation_def found linked str_slice_ascii [OF u(2)] l_def)
      show ?thesis
      proof (rule exI, rule conjI, rule eq, intro allI impI)
        fix t p l'
        assume "(if opens_with_a_gerund u (trim_text ?subject) then None else finish u (trim_text ?subject) (trim_text ?y) l) = Some (t, p, l')"
        then have "finish u (trim_text ?subject) (trim_text ?y) l = Some (t, p, l')" by (simp split: if_splits)
        moreover have "ascii (trim_text ?subject)"
          by (intro ascii_subset [OF u(2)] subset_trans [OF set_trim_text] subset_trans [OF set_take_subset]) (rule set_drop_subset)
        ultimately show "\<exists>x y subject. ascii subject \<and> s = x @ CHR '' '' # y \<and> finish u subject (trim_text y) l' = Some (t, p, l')"
          using cut finish_link by blast
      qed
    qed
  qed
qed

lemma describe_ascii:
  assumes u: "ascii_folding u" "ascii s"
  shows "\<exists>r. describe u s = Some r \<and> (\<forall>t p l. r = Some (t, p, l) \<longrightarrow>
    (\<exists>x y subject. ascii subject \<and> s = x @ CHR '' '' # y \<and> finish u subject (trim_text y) l = Some (t, p, l)))"
proof -
  from describe_named_relation_ascii [OF u] obtain r where r: "describe_named_relation u s = Some r"
    "\<And>t p l. r = Some (t, p, l) \<Longrightarrow> \<exists>x y subject. ascii subject \<and> s = x @ CHR '' '' # y \<and> finish u subject (trim_text y) l = Some (t, p, l)" by blast
  show ?thesis
  proof (cases r)
    case None
    then show ?thesis using r(1) describe_by_verb_ascii [OF u] by (simp add: describe_def)
  next
    case (Some found)
    then show ?thesis using r by (simp add: describe_def)
  qed
qed

text \<open>The words of a purpose are those of the sentence after the phrase, but for capitals.\<close>

lemma lowered_ascii:
  assumes u: "ascii_folding u" and w: "solid w"
  shows "solid (lowered u f n w) \<and> ascii_lower (lowered u f n w) = ascii_lower w"
proof -
  from w obtain x xs where xs: "w = x # xs" "byte x < 128" "ascii xs" by (cases w) (auto simp: solid_def)
  have "to_lower u [x] = [lower_byte x]" using u xs by (simp add: ascii_folding_def)
  moreover have "concat (map (\<lambda>c. [c]) xs) = xs" by (induction xs) simp_all
  ultimately have "lowered u f n w = w \<or> lowered u f n w = lower_byte x # xs"
    using xs by (auto simp: lowered_def ascii_chars Let_def)
  moreover have "solid (lower_byte x # xs)"
    using w xs lower_byte_white by (auto simp: solid_def lower_byte_ascii)
  ultimately show ?thesis using w xs by (auto simp: lower_byte_twice)
qed

lemma lower_from_ascii:
  "ascii_folding u \<Longrightarrow> \<forall>w \<in> set ws. solid w \<Longrightarrow>
    (\<forall>w \<in> set (lower_from u f n ws). solid w) \<and> map ascii_lower (lower_from u f n ws) = map ascii_lower ws"
  by (induction u f n ws rule: lower_from.induct) (use lowered_ascii in auto)

lemma fold_lowered:
  assumes u: "ascii_folding u" and t: "ascii t"
  shows "ascii (lower_words u f t) \<and> split_whitespace (lower_words u f t) = lower_from u f 0 (split_whitespace t) \<and>
    fold_text u (lower_words u f t) = ascii_lower (collapse t)"
proof -
  let ?ws = "lower_from u f 0 (split_whitespace t)"
  from lower_from_ascii [OF u, of "split_whitespace t" f 0] split_whitespace_solid [OF t]
  have ws: "\<forall>w \<in> set ?ws. solid w" "map ascii_lower ?ws = map ascii_lower (split_whitespace t)" by auto
  then have "ascii (join '' '' ?ws)" using set_join [of "'' ''" ?ws] by (auto simp: ascii_def solid_def)
  moreover have words: "split_whitespace (join '' '' ?ws) = ?ws" by (rule words_join [OF ws(1)])
  ultimately show ?thesis using u ws(2)
    by (simp add: fold_ascii lower_words_def collapse_def ascii_lower_join)
qed

lemma fold_contains:
  assumes u: "ascii_folding u" and s: "ascii s" "s = x @ CHR '' '' # y"
    and p: "p = lower_scan_capitals u (trim_text (trim_end_matches d (trim_text y)))"
  shows "contains (fold_text u s) (fold_text u p)"
proof -
  let ?t = "trim_end_matches d (trim_text y)"
  have y: "ascii y" "ascii x" using s by simp_all
  then have t: "ascii (trim_text y)" "ascii ?t" "ascii (trim_text ?t)" by (simp_all add: ascii_trim ascii_trim_end)
  obtain r where "trim_text y = ?t @ r"
  proof -
    let ?cs = "rev (chars (trim_text y))"
    have "trim_text y = concat (rev (takeWhile d ?cs @ dropWhile d ?cs))" by simp
    then have "trim_text y = concat (rev (dropWhile d ?cs)) @ concat (rev (takeWhile d ?cs))" by (simp only: rev_append concat_append)
    with that show thesis by (simp add: trim_end_matches_def)
  qed
  with collapse_trim_text [OF y(1)] have "collapse y = collapse (?t @ r)" by simp
  with collapse_prefix [OF t(2), of r] obtain z where z: "collapse y = collapse ?t @ z" by metis
  have "split_whitespace s = split_whitespace x @ split_whitespace y" using s(2) y by (simp add: words_sep)
  with join_suffix [of "'' ''" "split_whitespace x" "split_whitespace y"] obtain z' where
    "collapse s = z' @ collapse y" by (auto simp: collapse_def)
  then have "fold_text u s = ascii_lower z' @ ascii_lower (collapse ?t) @ ascii_lower z"
    using fold_ascii [OF u s(1)] z by simp
  moreover have "fold_text u p = ascii_lower (collapse ?t)"
    using fold_lowered [OF u t(3), of True] t(2) by (simp add: p lower_scan_capitals_def)
  ultimately have "fold_text u s = ascii_lower z' @ fold_text u p @ ascii_lower z" by simp
  then show ?thesis unfolding contains_iff by blast
qed

lemma finish_purpose: "finish u subject y l = Some (t, p, l') \<Longrightarrow>
    p = lower_scan_capitals u (trim_text (trim_end_matches (one_of ''.'') y)) \<and> subject_as_tool u subject = Some t"
  by (auto simp: finish_def Let_def split: if_splits option.splits)

text \<open>Repairing and cutting a text takes no new characters but spaces.\<close>

lemma ascii_join: "(\<And>w. w \<in> set ws \<Longrightarrow> ascii w) \<Longrightarrow> ascii (join '' '' ws)"
  using set_join [of "'' ''" ws] by (auto simp: ascii_def)

lemma ascii_join_lines: "\<forall>l \<in> set ls. ascii l \<Longrightarrow> ascii joined \<Longrightarrow> ascii (join_lines u ls joined)"
proof (induction u ls joined rule: join_lines.induct)
  case (2 u line ls joined)
  have "ascii (trim_text line)" "ascii (butlast joined)"
    using 2 ascii_trim ascii_subset [of joined "butlast joined"] by (auto dest: in_set_butlastD)
  with 2 show ?case by (simp add: Let_def)
qed simp

lemma homoglyphs_long: "map_of HOMOGLYPHS [c] = None"
  by (simp add: HOMOGLYPHS_def)

lemma normalize_homoglyphs_ascii: "ascii s \<Longrightarrow> normalize_homoglyphs s = s"
proof -
  have "concat (map (\<lambda>c. case map_of HOMOGLYPHS [c] of Some l \<Rightarrow> l | None \<Rightarrow> [c]) s) = s" by (induction s) (simp_all add: homoglyphs_long)
  moreover assume "ascii s"
  ultimately show ?thesis by (simp add: normalize_homoglyphs_def ascii_chars comp_def)
qed

lemma clean_scan_ascii: "ascii t \<Longrightarrow> ascii (clean_scan u t)"
proof -
  assume t: "ascii t"
  have "\<forall>l \<in> set (text_lines t). ascii l" using ascii_subset [OF t set_text_lines] by blast
  then have j: "ascii (join_lines u (text_lines t) [])" by (rule ascii_join_lines) simp
  have "ascii w" if "w \<in> set (split_whitespace (join_lines u (text_lines t) []))" for w
    by (rule ascii_subset [OF j set_split_whitespace [OF that]])
  then show ?thesis unfolding clean_scan_def clean_def normalize_homoglyphs_ascii [OF j] by (intro ascii_join) auto
qed

lemma manual_sentences_ascii:
  "\<forall>c \<in> set cs. ascii c \<Longrightarrow> ascii current \<Longrightarrow> s \<in> set (manual_sentences cs current) \<Longrightarrow> ascii s \<and> trim_text s \<noteq> []"
proof (induction cs current arbitrary: rule: manual_sentences.induct)
  case (1 current)
  then show ?case using ascii_trim [of current] by (auto simp: trim_text_Nil_iff split: if_splits)
next
  case (2 c cs current)
  have cur: "ascii (current @ c)" using 2 by simp
  have "trim_text (current @ c) \<noteq> []" if c: "one_of ''.?!'' c"
  proof -
    from c obtain d where d: "c = [d]" "d \<in> set ''.?!''" by (auto simp: one_of_def split: list.splits)
    then have "plain d" by auto
    then show ?thesis using cur d plain_trim [of "current @ c" d] by (simp add: ascii_def)
  qed
  then have "one_of ''.?!'' c \<Longrightarrow> ascii (trim_text (current @ c)) \<and> trim_text (trim_text (current @ c)) \<noteq> []"
    using ascii_trim [OF cur] cur by (simp add: trim_text_Nil_iff)
  with 2 cur show ?case by (auto simp: Let_def split: if_splits option.splits)
qed

text \<open>The words of a name are words of the subject.\<close>

lemma set_drop_headings: "set (drop_headings u ws) \<subseteq> set ws"
  by (induction u ws rule: drop_headings.induct) auto

lemma set_drop_article: "set (drop_article u ws) \<subseteq> set ws"
  by (induction u ws rule: drop_article.induct) auto

lemma set_drop_phrase: "set (drop_phrase u ws) \<subseteq> set ws"
  by (induction u ws rule: drop_phrase.induct) auto

lemma set_cut_at_preposition: "set (cut_at_preposition u ws) \<subseteq> set ws"
  by (induction u ws rule: cut_at_preposition.induct) (auto dest: set_takeWhileD)

lemma set_drop_adverbs: "set (drop_adverbs u ws) \<subseteq> set ws"
  by (induction u ws rule: drop_adverbs.induct) auto

lemma set_undouble_from: "set (undouble_from u v ws) \<subseteq> set ws"
  by (induction u v ws rule: undouble_from.induct) auto

lemma set_undouble: "set (undouble u ws) \<subseteq> set ws"
  using set_undouble_from by (cases ws) fastforce+

lemma set_tl_sub: "set (tl ws) \<subseteq> set ws"
  by (cases ws) auto

lemma set_drop_repeat: "set (drop_repeat u ws) \<subseteq> set ws" and set_drop_left_article: "set (drop_left_article u ws) \<subseteq> set ws"
  using set_tl_sub [of ws] by (auto simp: drop_repeat_def drop_left_article_def)

lemma set_settle: "set (settle u ws) \<subseteq> set ws"
proof (induction u ws rule: settle.induct)
  case (1 u ws)
  let ?next = "drop_left_article u (drop_repeat u (undouble u ws))"
  have "set ?next \<subseteq> set ws" using set_undouble set_drop_repeat set_drop_left_article by (meson subset_trans)
  with 1 show ?case by (subst settle.simps) (auto simp: Let_def split: if_splits)
qed

lemma subject_as_tool_ascii:
  assumes u: "ascii_folding u" and s: "ascii subject" and t: "subject_as_tool u subject = Some t"
  shows "ascii t"
proof -
  let ?clause = "last (split_on (CHR '','') subject)"
  have clause: "ascii ?clause" by (rule ascii_subset [OF s set_split_on [of _ "CHR '',''"]]) simp
  let ?ws = "split_whitespace ?clause"
  let ?cut = "cut_at_preposition u (drop_phrase u (drop_article u (drop_headings u ?ws)))"
  let ?head = "drop_article u (drop (length ?cut - 3) ?cut)"
  let ?name = "settle u (rev (drop_adverbs u (rev ?head)))"
  have "set ?cut \<subseteq> set ?ws"
    using set_cut_at_preposition set_drop_phrase set_drop_article set_drop_headings by (meson subset_trans)
  then have "set ?head \<subseteq> set ?ws" using set_drop_article set_drop_subset by (meson subset_trans)
  then have "set (rev (drop_adverbs u (rev ?head))) \<subseteq> set ?ws" using set_drop_adverbs [of u "rev ?head"] by auto
  then have "set ?name \<subseteq> set ?ws" using set_settle by (meson subset_trans)
  then have "ascii w" if "w \<in> set ?name" for w
    using that split_whitespace_solid [OF clause] by (auto simp: solid_def)
  then have "ascii (join '' '' ?name)" by (rule ascii_join)
  then have "ascii (trim_text (trim_end_matches (one_of ''.,;:'') (join '' '' ?name)))"
    by (simp add: ascii_trim ascii_trim_end)
  with fold_lowered [OF u this] t show ?thesis
    by (auto simp: subject_as_tool_def Let_def lower_name_capitals_def split: if_splits)
qed

text \<open>A description of an ASCII manual, and every manual read from ASCII text.\<close>

definition plainly_stated :: "unicode \<Rightarrow> purpose \<Rightarrow> bool" where
  "plainly_stated u e \<longleftrightarrow> readable u e \<and> ascii (tool e) \<and> ascii (purpose e) \<and> ascii (sentence e) \<and>
     trim_text (sentence e) \<noteq> [] \<and> contains (fold_text u (sentence e)) (fold_text u (purpose e))"

lemma described_plainly:
  assumes u: "ascii_folding u" and s: "ascii s" "trim_text s \<noteq> []" and r: "readable u e"
    and e: "sentence e = trim_text s" "describe u s = Some (Some (tool e, purpose e, link e))"
  shows "plainly_stated u e"
proof -
  from describe_ascii [OF u s(1)] e(2) obtain x y subject where
    d: "ascii subject" "s = x @ CHR '' '' # y" "finish u subject (trim_text y) (link e) = Some (tool e, purpose e, link e)" by auto
  note p = finish_purpose [OF d(3)]
  have "ascii y" using d(2) s(1) by simp
  then have "ascii (trim_text (trim_end_matches (one_of ''.'') (trim_text y)))" by (simp add: ascii_trim ascii_trim_end)
  from fold_lowered [OF u this] have "ascii (purpose e)" using p by (simp add: lower_scan_capitals_def)
  moreover have "ascii (tool e)" using subject_as_tool_ascii [OF u d(1)] p by blast
  moreover have "contains (fold_text u (trim_text s)) (fold_text u (purpose e))"
    using fold_contains [OF u s(1) d(2), of "purpose e" "one_of ''.''"] p s(1) by (simp add: fold_text_def)
  ultimately show ?thesis using s r ascii_trim [OF s(1)] by (simp add: plainly_stated_def e(1) trim_text_Nil_iff)
qed

lemma purposes_loop_returns:
  "ascii_folding u \<Longrightarrow> \<forall>s \<in> set ss. ascii s \<Longrightarrow> purposes_loop u ss seen \<noteq> None"
proof (induction ss arbitrary: seen)
  case (Cons s ss)
  from describe_ascii [OF Cons.prems(1), of s] Cons.prems(2) obtain r where "describe u s = Some r" by auto
  moreover have "\<exists>es. purposes_loop u ss seen' = Some es" for seen' using Cons by auto
  then obtain rest where "\<And>seen'. purposes_loop u ss seen' = Some (rest seen')" by metis
  ultimately show ?case by (auto split: option.splits prod.splits)
qed simp

lemma parsed_manual:
  assumes u: "ascii_folding u" and t: "ascii t"
  shows "\<exists>m. parse_purposes u t label = Some m \<and> manual_label m = label \<and>
    distinct (map (\<lambda>e. fold_text u (tool e)) (statements m)) \<and> (\<forall>e \<in> set (statements m). plainly_stated u e)"
proof -
  let ?ss = "manual_sentences (chars (clean_scan u t)) []"
  have cs: "\<forall>c \<in> set (chars (clean_scan u t)). ascii c" using ascii_singles [OF clean_scan_ascii [OF t]] by fastforce
  have ss: "\<forall>s \<in> set ?ss. ascii s \<and> trim_text s \<noteq> []"
    by (intro ballI, rule manual_sentences_ascii [OF cs]) simp_all
  with purposes_loop_returns [OF u, of ?ss "{}"] obtain es where es: "purposes_loop u ?ss {} = Some es" by auto
  note kept = purposes_loop_kept [OF this]
  have "plainly_stated u e" if "e \<in> set es" for e
  proof -
    from kept that obtain s where "s \<in> set ?ss" "readable u e" "sentence e = trim_text s"
      "describe u s = Some (Some (tool e, purpose e, link e))" by blast
    with ss described_plainly [OF u, of s e] show ?thesis by blast
  qed
  with kept have "distinct (map (\<lambda>e. fold_text u (tool e)) es) \<and> (\<forall>e \<in> set es. plainly_stated u e)" by blast
  with es show ?thesis by (simp add: parse_purposes_def)
qed

section \<open>A small manual\<close>

text \<open>The last sentence asks a question and is left out; the capitals of a heading are not part of the name.\<close>

definition sample_manual :: string where
  "sample_manual = ''DRILLS Drills are used to bore all round holes. Rasps are used to block out the stock. '' @
     ''Clamps are used for attaching the thin parts. The vise is used to bind all loose parts. Where is it?''"

definition sample_sentences :: "string list" where
  "sample_sentences = [''DRILLS Drills are used to bore all round holes.'', ''Rasps are used to block out the stock.'',
     ''Clamps are used for attaching the thin parts.'', ''The vise is used to bind all loose parts.'', ''Where is it?'']"

lemma sample_sentences_cut: "manual_sentences (chars (clean_scan ascii_unicode sample_manual)) [] = sample_sentences"
  by code_simp

definition sample_statements :: "purpose list" where
  "sample_statements =
     [\<lparr>tool = ''Drills'', purpose = ''bore all round holes'', sentence = ''DRILLS Drills are used to bore all round holes.'', link = To\<rparr>,
      \<lparr>tool = ''Rasps'', purpose = ''block out the stock'', sentence = ''Rasps are used to block out the stock.'', link = To\<rparr>,
      \<lparr>tool = ''Clamps'', purpose = ''attaching the thin parts'', sentence = ''Clamps are used for attaching the thin parts.'', link = For\<rparr>,
      \<lparr>tool = ''vise'', purpose = ''bind all loose parts'', sentence = ''The vise is used to bind all loose parts.'', link = To\<rparr>]"

lemma sample_statements_read: "purposes_loop ascii_unicode sample_sentences {} = Some sample_statements"
  by code_simp

lemma sample_manual_read: "parse_purposes ascii_unicode sample_manual ''M'' = Some \<lparr>manual_label = ''M'', statements = sample_statements\<rparr>"
  by (simp add: parse_purposes_def sample_sentences_cut sample_statements_read)

section \<open>Where the code departs from its comments\<close>

text \<open>
  The Kelvin sign is three bytes and its lower case, k, one: every offset after it in the lower-cased
  sentence is two too small for the sentence, and the slice before the verb ends inside the sign.
\<close>

definition kelvin :: string where
  "kelvin = [CHR 0xE2, CHR 0x84, CHR 0xAA]"

definition kelvin_unicode :: unicode where
  "kelvin_unicode = ascii_unicode\<lparr>to_lower := \<lambda>s. ascii_lower (str_replace kelvin ''k'' s),
     alphabetic := \<lambda>c. ascii_alphabetic c \<or> c = kelvin, uppercase := \<lambda>c. ascii_uppercase c \<or> c = kelvin\<rparr>"

lemma kelvin_panics: "parse_purposes kelvin_unicode (kelvin @ '' is used to heat the metal.'') label = None"
proof -
  have "purposes_loop kelvin_unicode (manual_sentences (chars (clean_scan kelvin_unicode (kelvin @ '' is used to heat the metal.''))) []) {} = None"
    by code_simp
  then show ?thesis by (simp add: parse_purposes_def)
qed

text \<open>The complement of \<open>is for\<close> is recorded as an infinitive: the test looks at the text before the link.\<close>

lemma relation_is_for_reads_as_to:
  "describe_named_relation ascii_unicode ''The purpose of the punch is for marking centers.'' = Some (Some (''punch'', ''marking centers'', To))"
  by code_simp

text \<open>A noun phrase of fewer than four words is no purpose, though the comment takes these two as descriptions.\<close>

lemma short_complements_refused: "\<not> reads_as_a_purpose u ''a switch'' As \<and> \<not> reads_as_a_purpose u ''a thrust bearing'' As"
proof -
  have "length (split_whitespace ''a switch'') < 4 \<and> length (split_whitespace ''a thrust bearing'') < 4" by code_simp
  then show ?thesis by (simp add: reads_as_a_purpose_def Let_def)
qed

section \<open>Property\<close>


lemma sample_manual_ascii: "ascii sample_manual"
  by (simp add: sample_manual_def byte_def)


end
