(* ===== verification/Purpose_Items.thy ===== *)
theory Purpose_Items
  imports Purposes Item_Builder
begin

text \<open>
  Shop and Auto Information items from a tool manual, the building and verifying half of
  \<open>crates/vector-questions/src/purposes.rs\<close>. One description carries two questions: which tool
  serves the purpose, and what the tool is for. The difficulty 0.1 is left out.
\<close>

section \<open>Items\<close>

datatype item_kind = Tool | Function

record purpose_item =
  purpose_subtest :: string
  purpose_kind :: item_kind
  purpose_objective_id :: string
  purpose_prompt :: string
  purpose_options :: "string list"
  purpose_correct_index :: nat
  purpose_rationales :: "(nat \<times> string) list"
  supporting_sentence :: string
  purpose_source_label :: string
  purpose_seed :: "64 word"

definition purpose_canonical :: "unicode \<Rightarrow> purpose_item \<Rightarrow> string" where
  "purpose_canonical u i =
     purpose_subtest i @ [CHR 0x01] @ fold_text u (purpose_prompt i) @ [CHR 0x01] @ fold_text u (supporting_sentence i)"

definition purpose_hash :: "unicode \<Rightarrow> (string \<Rightarrow> string) \<Rightarrow> purpose_item \<Rightarrow> string" where
  "purpose_hash u sha i = as_str (hash_of_text sha (purpose_canonical u i))"

definition purpose_explanation :: "purpose_item \<Rightarrow> string" where
  "purpose_explanation i = purpose_source_label i @ '' says: '' @ [CHR 0x22] @ supporting_sentence i @ [CHR 0x22]"

datatype purpose_failure =
    Blank string
  | NotFromSource string
  | WrongTool string
  | DuplicateOption string
  | TooFewOptions nat
  | CorrectIndexOutOfRange nat nat
  | UnknownDistractor string
  | DistractorAlsoFits string
  | MissingRationale nat
  | NotAPurposeQuestion string
  | OptionFormMismatch string

section \<open>Prompts and options\<close>

definition is_plural :: "unicode \<Rightarrow> string \<Rightarrow> bool" where
  "is_plural u component =
     (case rev (split_whitespace component) of
        [] \<Rightarrow> False
      | w # _ \<Rightarrow> let lower = to_lower u w in ends_with lower ''s'' \<and> \<not> ends_with lower ''ss'')"

definition component_question :: "unicode \<Rightarrow> string \<Rightarrow> string" where
  "component_question u component =
     (if is_plural u component then ''What are the '' @ component @ '' used for?'' else ''What is the '' @ component @ '' used for?'')"

definition function_question :: "unicode \<Rightarrow> string \<Rightarrow> link \<Rightarrow> string" where
  "function_question u component l =
     (if l = As
      then if is_plural u component then ''What do the '' @ component @ '' serve as?'' else ''What does the '' @ component @ '' serve as?''
      else component_question u component)"

definition function_option :: "purpose \<Rightarrow> string" where
  "function_option e = (if link e = As then purpose e else ''to '' @ purpose e)"

definition question_for :: "unicode \<Rightarrow> string \<Rightarrow> link \<Rightarrow> string" where
  "question_for u p l = tool_question (if l = To \<and> opens_with_a_gerund u p then For else l) p"

definition question_frames :: "string list" where
  "question_frames = [''Which tool is used to '', ''Which tool is used for '', ''Which tool serves as '']"

definition purpose_in_prompt :: "string \<Rightarrow> string option" where
  "purpose_in_prompt prompt =
     (case List.map_filter (strip_prefix prompt) question_frames of
        [] \<Rightarrow> None
      | rest # _ \<Rightarrow> Some (trim_text (trim_end_matches (one_of ''?'') rest)))"

definition link_in_prompt :: "string \<Rightarrow> link option" where
  "link_in_prompt prompt =
     (if starts_with prompt ''Which tool serves as '' then Some As
      else if starts_with prompt ''Which tool is used for '' then Some For
      else if starts_with prompt ''Which tool is used to '' then Some To
      else None)"

definition component_frames :: "(string \<times> string) list" where
  "component_frames = [(''What is the '', '' used for?''), (''What are the '', '' used for?''),
     (''What does the '', '' serve as?''), (''What do the '', '' serve as?'')]"

fun framed :: "string \<Rightarrow> string \<times> string \<Rightarrow> string option" where
  "framed prompt (prefix, suffix) = do { rest \<leftarrow> strip_prefix prompt prefix; strip_suffix rest suffix }"

definition component_in_prompt :: "string \<Rightarrow> string option" where
  "component_in_prompt prompt =
     (case List.map_filter (framed prompt) component_frames of
        [] \<Rightarrow> None
      | rest # _ \<Rightarrow> if trim_text rest \<noteq> [] then Some (trim_text rest) else None)"

definition function_in_option :: "string \<Rightarrow> string" where
  "function_in_option opt = (case strip_prefix (trim_text opt) ''to '' of Some f \<Rightarrow> f | None \<Rightarrow> trim_text opt)"

definition option_matches_link :: "string \<Rightarrow> link \<Rightarrow> bool" where
  "option_matches_link opt l \<longleftrightarrow> starts_with (trim_start_matches white opt) ''to '' = (l \<noteq> As)"

section \<open>The source\<close>

definition states :: "unicode \<Rightarrow> purposes \<Rightarrow> string \<Rightarrow> string \<Rightarrow> bool" where
  "states u m t p \<longleftrightarrow> list_ex (\<lambda>e. fold_text u (tool e) = fold_text u t \<and> fold_text u (purpose e) = fold_text u p) (statements m)"

definition purpose_of :: "unicode \<Rightarrow> purposes \<Rightarrow> string \<Rightarrow> purpose option" where
  "purpose_of u m t = find (\<lambda>e. fold_text u (tool e) = fold_text u t) (statements m)"

section \<open>Building\<close>

definition asked_statements :: "unicode \<Rightarrow> item_kind \<Rightarrow> purposes \<Rightarrow> purpose list" where
  "asked_statements u kind m =
     (case kind of
        Tool \<Rightarrow> filter (\<lambda>e. link e \<noteq> As) (statements m)
      | Function \<Rightarrow> filter (\<lambda>e. \<not> opens_with_a_gerund u (purpose e)) (statements m))"

definition correct_option :: "item_kind \<Rightarrow> purpose \<Rightarrow> string" where
  "correct_option kind e = (case kind of Tool \<Rightarrow> tool e | Function \<Rightarrow> function_option e)"

definition prompt_for :: "unicode \<Rightarrow> item_kind \<Rightarrow> purpose \<Rightarrow> string" where
  "prompt_for u kind e =
     (case kind of Tool \<Rightarrow> question_for u (purpose e) (link e) @ ''?'' | Function \<Rightarrow> function_question u (tool e) (link e))"

definition why_not :: "item_kind \<Rightarrow> purpose \<Rightarrow> string" where
  "why_not kind e =
     (case kind of Tool \<Rightarrow> tool e @ '' is for '' @ purpose e @ ''.'' | Function \<Rightarrow> ''That is what '' @ tool e @ '' is for.'')"

text \<open>The distractors: of one form with the answer, and no option twice.\<close>

fun gather :: "unicode \<Rightarrow> item_kind \<Rightarrow> purpose \<Rightarrow> purpose list \<Rightarrow> (string \<times> string option) list \<Rightarrow> (string \<times> string option) list" where
  "gather u kind correct [] opts = opts"
| "gather u kind correct (e # es) opts =
     (if length opts = 4 then opts
      else if kind = Function \<and> (link e = As) \<noteq> (link correct = As) then gather u kind correct es opts
      else if list_ex (\<lambda>(existing, _). fold_text u existing = fold_text u (correct_option kind e)) opts then gather u kind correct es opts
      else gather u kind correct es (opts @ [(correct_option kind e, Some (why_not kind e))]))"

type_synonym 'a veto = "purpose_item \<Rightarrow> 'a \<Rightarrow> bool \<times> 'a"

definition make_item :: "unicode \<Rightarrow> purposes \<Rightarrow> string \<Rightarrow> item_kind \<Rightarrow> 64 word \<Rightarrow> purpose \<Rightarrow> (string \<times> string option) list \<Rightarrow> nat \<Rightarrow> purpose_item" where
  "make_item u m subtest kind seed correct opts k =
     \<lparr>purpose_subtest = subtest, purpose_kind = kind,
      purpose_objective_id = ''OBJ-'' @ subtest @ (case kind of Tool \<Rightarrow> ''-TOOLS-01'' | Function \<Rightarrow> ''-FUNCTION-01''),
      purpose_prompt = prompt_for u kind correct, purpose_options = map fst opts, purpose_correct_index = k,
      purpose_rationales = why_map 0 opts [], supporting_sentence = sentence correct,
      purpose_source_label = manual_label m, purpose_seed = seed\<rparr>"

definition build_one :: "unicode \<Rightarrow> purposes \<Rightarrow> string \<Rightarrow> item_kind \<Rightarrow> 64 word \<Rightarrow> 'a veto \<Rightarrow> rng \<Rightarrow> 'a \<Rightarrow>
    (purpose_item option \<times> rng \<times> 'a) option" where
  "build_one u m subtest kind seed accept rng acc = do {
     let es = asked_statements u kind m;
     (v, rng) \<leftarrow> rng_range rng 0 (int (length es) - 1);
     correct \<leftarrow> index_vec es (nat v);
     let (candidates, rng) = rng_shuffle rng (filter (\<lambda>e. fold_text u (tool e) \<noteq> fold_text u (tool correct)) es);
     let opts = gather u kind correct candidates [(correct_option kind correct, None)];
     if length opts \<noteq> 4 then Some (None, rng, acc)
     else let (opts, rng) = rng_shuffle rng opts in do {
       k \<leftarrow> find_index (\<lambda>(_, why). why = None) opts;
       let item = make_item u m subtest kind seed correct opts k;
       let (yes, acc) = accept item acc;
       Some (if yes then Some item else None, rng, acc)
     }
   }"

definition build_items_asking :: "unicode \<Rightarrow> (string \<Rightarrow> string) \<Rightarrow> purposes \<Rightarrow> string \<Rightarrow> item_kind \<Rightarrow> nat \<Rightarrow> 64 word \<Rightarrow> 'a veto \<Rightarrow> 'a \<Rightarrow>
    (purpose_item list \<times> 'a) option" where
  "build_items_asking u sha m subtest kind wanted seed accept acc =
     (if length (statements m) < 4 then Some ([], acc)
      else if length (asked_statements u kind m) < 4 then Some ([], acc)
      else build_loop (build_one u m subtest kind seed accept) (purpose_hash u sha) wanted (attempts_for 12 wanted) seed acc {} [])"

definition build_items :: "unicode \<Rightarrow> (string \<Rightarrow> string) \<Rightarrow> purposes \<Rightarrow> string \<Rightarrow> nat \<Rightarrow> 64 word \<Rightarrow> 'a veto \<Rightarrow> 'a \<Rightarrow>
    (purpose_item list \<times> 'a) option" where
  "build_items u sha m subtest wanted seed accept acc = build_items_asking u sha m subtest Tool wanted seed accept acc"

definition build_function_items :: "unicode \<Rightarrow> (string \<Rightarrow> string) \<Rightarrow> purposes \<Rightarrow> string \<Rightarrow> nat \<Rightarrow> 64 word \<Rightarrow> 'a veto \<Rightarrow> 'a \<Rightarrow>
    (purpose_item list \<times> 'a) option" where
  "build_function_items u sha m subtest wanted seed accept acc = build_items_asking u sha m subtest Function wanted seed accept acc"

section \<open>Verification\<close>

text \<open>The options of a question about tools; \<open>earlier\<close> are those already seen.\<close>

fun verify_tools :: "unicode \<Rightarrow> purposes \<Rightarrow> purpose_item \<Rightarrow> string \<Rightarrow> nat \<Rightarrow> string list \<Rightarrow> string list \<Rightarrow> (unit, purpose_failure) result" where
  "verify_tools u m i p n earlier [] = Ok ()"
| "verify_tools u m i p n earlier (opt # opts) =
     (if trim_text opt = [] then Err (Blank ''option'')
      else if list_ex (\<lambda>e. fold_text u e = fold_text u opt) earlier then Err (DuplicateOption opt)
      else if n = purpose_correct_index i then verify_tools u m i p (Suc n) (earlier @ [opt]) opts
      else case purpose_of u m opt of
          None \<Rightarrow> Err (UnknownDistractor opt)
        | Some e \<Rightarrow>
            if fold_text u (purpose e) = fold_text u p then Err (DistractorAlsoFits opt)
            else if map_of (purpose_rationales i) n = None then Err (MissingRationale n)
            else verify_tools u m i p (Suc n) (earlier @ [opt]) opts)"

definition verify_tool_item :: "unicode \<Rightarrow> purpose_item \<Rightarrow> purposes \<Rightarrow> (unit, purpose_failure) result" where
  "verify_tool_item u i m =
     (if trim_text (purpose_prompt i) = [] then Err (Blank ''prompt'')
      else case purpose_in_prompt (purpose_prompt i) of
          None \<Rightarrow> Err (NotAPurposeQuestion (purpose_prompt i))
        | Some p \<Rightarrow>
            if link_in_prompt (purpose_prompt i) = Some As then Err (NotAPurposeQuestion (purpose_prompt i))
            else if trim_text (supporting_sentence i) = [] then Err (Blank ''supporting sentence'')
            else if length (purpose_options i) < 2 then Err (TooFewOptions (length (purpose_options i)))
            else if length (purpose_options i) \<le> purpose_correct_index i
            then Err (CorrectIndexOutOfRange (purpose_correct_index i) (length (purpose_options i)))
            else if \<not> states u m (purpose_options i ! purpose_correct_index i) p then Err (NotFromSource p)
            else if \<not> contains (fold_text u (supporting_sentence i)) (fold_text u p) then Err (NotFromSource p)
            else verify_tools u m i p 0 [] (purpose_options i))"

text \<open>The options of a question about functions; the set of those seen is a list here as well.\<close>

fun verify_functions :: "unicode \<Rightarrow> purposes \<Rightarrow> purpose_item \<Rightarrow> string \<Rightarrow> string \<Rightarrow> nat \<Rightarrow> string list \<Rightarrow> string list \<Rightarrow> (unit, purpose_failure) result" where
  "verify_functions u m i component correct n seen [] = Ok ()"
| "verify_functions u m i component correct n seen (opt # opts) =
     (if trim_text opt = [] then Err (Blank ''option'')
      else if list_ex (\<lambda>e. fold_text u e = fold_text u opt) seen then Err (DuplicateOption opt)
      else if n = purpose_correct_index i then verify_functions u m i component correct (Suc n) (seen @ [opt]) opts
      else let f = function_in_option opt in
        case find (\<lambda>e. fold_text u (purpose e) = fold_text u f \<and> fold_text u (tool e) \<noteq> fold_text u component) (statements m) of
          None \<Rightarrow> Err (UnknownDistractor opt)
        | Some e \<Rightarrow>
            if \<not> states u m (tool e) f then Err (UnknownDistractor opt)
            else if fold_text u f = fold_text u correct then Err (DistractorAlsoFits opt)
            else if map_of (purpose_rationales i) n = None then Err (MissingRationale n)
            else verify_functions u m i component correct (Suc n) (seen @ [opt]) opts)"

definition asked_link :: "string \<Rightarrow> link" where
  "asked_link prompt = (if ends_with (trim_end_matches white prompt) '' serve as?'' then As else To)"

definition verify_function_item :: "unicode \<Rightarrow> purpose_item \<Rightarrow> purposes \<Rightarrow> (unit, purpose_failure) result" where
  "verify_function_item u i m =
     (if trim_text (purpose_prompt i) = [] then Err (Blank ''prompt'')
      else case component_in_prompt (purpose_prompt i) of
          None \<Rightarrow> Err (NotAPurposeQuestion (purpose_prompt i))
        | Some component \<Rightarrow>
            if \<not> list_all (\<lambda>opt. option_matches_link opt (asked_link (purpose_prompt i))) (purpose_options i)
            then Err (OptionFormMismatch (purpose_prompt i))
            else if trim_text (supporting_sentence i) = [] then Err (Blank ''supporting sentence'')
            else if length (purpose_options i) < 2 then Err (TooFewOptions (length (purpose_options i)))
            else if length (purpose_options i) \<le> purpose_correct_index i
            then Err (CorrectIndexOutOfRange (purpose_correct_index i) (length (purpose_options i)))
            else let correct = function_in_option (purpose_options i ! purpose_correct_index i) in
              if \<not> states u m component correct then Err (NotFromSource correct)
              else verify_functions u m i component correct 0 [] (purpose_options i))"

definition verify :: "unicode \<Rightarrow> purpose_item \<Rightarrow> purposes \<Rightarrow> (unit, purpose_failure) result" where
  "verify u i m = (case purpose_kind i of Tool \<Rightarrow> verify_tool_item u i m | Function \<Rightarrow> verify_function_item u i m)"

section \<open>What an accepted item is\<close>

text \<open>A distractor about tools: the source describes it for another purpose.\<close>

definition tool_distractor :: "unicode \<Rightarrow> purposes \<Rightarrow> purpose_item \<Rightarrow> string \<Rightarrow> nat \<Rightarrow> string \<Rightarrow> bool" where
  "tool_distractor u m i p k opt \<longleftrightarrow> k \<in> fst ` set (purpose_rationales i) \<and>
     (\<exists>e. purpose_of u m opt = Some e \<and> fold_text u (purpose e) \<noteq> fold_text u p)"

text \<open>A distractor about functions: the source states it of another component.\<close>

definition function_distractor :: "unicode \<Rightarrow> purposes \<Rightarrow> purpose_item \<Rightarrow> string \<Rightarrow> string \<Rightarrow> nat \<Rightarrow> string \<Rightarrow> bool" where
  "function_distractor u m i component correct k opt \<longleftrightarrow> k \<in> fst ` set (purpose_rationales i) \<and>
     fold_text u (function_in_option opt) \<noteq> fold_text u correct \<and>
     (\<exists>e \<in> set (statements m). fold_text u (purpose e) = fold_text u (function_in_option opt) \<and> fold_text u (tool e) \<noteq> fold_text u component)"

definition options_valid :: "unicode \<Rightarrow> purpose_item \<Rightarrow> (nat \<Rightarrow> string \<Rightarrow> bool) \<Rightarrow> bool" where
  "options_valid u i distractor \<longleftrightarrow>
     2 \<le> length (purpose_options i) \<and> purpose_correct_index i < length (purpose_options i) \<and>
     (\<forall>opt \<in> set (purpose_options i). trim_text opt \<noteq> []) \<and> distinct (map (fold_text u) (purpose_options i)) \<and>
     (\<forall>k < length (purpose_options i). k \<noteq> purpose_correct_index i \<longrightarrow> distractor k (purpose_options i ! k))"

definition tool_item_valid :: "unicode \<Rightarrow> purpose_item \<Rightarrow> purposes \<Rightarrow> bool" where
  "tool_item_valid u i m \<longleftrightarrow> (\<exists>p. purpose_in_prompt (purpose_prompt i) = Some p \<and> link_in_prompt (purpose_prompt i) \<noteq> Some As \<and>
     trim_text (supporting_sentence i) \<noteq> [] \<and> options_valid u i (tool_distractor u m i p) \<and>
     states u m (purpose_options i ! purpose_correct_index i) p \<and> contains (fold_text u (supporting_sentence i)) (fold_text u p))"

definition function_item_valid :: "unicode \<Rightarrow> purpose_item \<Rightarrow> purposes \<Rightarrow> bool" where
  "function_item_valid u i m \<longleftrightarrow> (\<exists>component. component_in_prompt (purpose_prompt i) = Some component \<and>
     (\<forall>opt \<in> set (purpose_options i). option_matches_link opt (asked_link (purpose_prompt i))) \<and>
     trim_text (supporting_sentence i) \<noteq> [] \<and>
     options_valid u i (function_distractor u m i component (function_in_option (purpose_options i ! purpose_correct_index i))) \<and>
     states u m component (function_in_option (purpose_options i ! purpose_correct_index i)))"

definition purpose_item_valid :: "unicode \<Rightarrow> purpose_item \<Rightarrow> purposes \<Rightarrow> bool" where
  "purpose_item_valid u i m = (case purpose_kind i of Tool \<Rightarrow> tool_item_valid u i m | Function \<Rightarrow> function_item_valid u i m)"

lemma shift_options: "(\<forall>k < length (opt # opts). n + k \<noteq> c \<longrightarrow> P (n + k) ((opt # opts) ! k)) \<longleftrightarrow>
    (n \<noteq> c \<longrightarrow> P n opt) \<and> (\<forall>k < length opts. Suc n + k \<noteq> c \<longrightarrow> P (Suc n + k) (opts ! k))"
  by (auto simp: less_Suc_eq_0_disj all_conj_distrib)

lemma verify_tools_iff:
  "distinct (map (fold_text u) earlier) \<Longrightarrow> verify_tools u m i p n earlier opts = Ok () \<longleftrightarrow>
    (\<forall>opt \<in> set opts. trim_text opt \<noteq> []) \<and> distinct (map (fold_text u) (earlier @ opts)) \<and>
    (\<forall>k < length opts. n + k \<noteq> purpose_correct_index i \<longrightarrow> tool_distractor u m i p (n + k) (opts ! k))"
proof (induction u m i p n earlier opts rule: verify_tools.induct)
  case (2 u m i p n earlier opt opts)
  have keys: "map_of (purpose_rationales i) n = None \<longleftrightarrow> n \<notin> fst ` set (purpose_rationales i)" by (rule map_of_eq_None_iff)
  show ?case unfolding shift_options [where P = "tool_distractor u m i p"] using 2
    by (auto simp: repeats_iff tool_distractor_def keys simp del: not_None_eq split: option.splits)
qed simp

lemma found_function: "find P xs = Some e \<Longrightarrow> e \<in> set xs \<and> P e"
  by (rule find_Some_set)

lemma verify_functions_step:
  "verify_functions u m i component correct n seen (opt # opts) = Ok () \<longleftrightarrow>
    trim_text opt \<noteq> [] \<and> fold_text u opt \<notin> fold_text u ` set seen \<and>
    (n \<noteq> purpose_correct_index i \<longrightarrow> function_distractor u m i component correct n opt) \<and>
    verify_functions u m i component correct (Suc n) (seen @ [opt]) opts = Ok ()"
proof -
  have keys: "map_of (purpose_rationales i) n = None \<longleftrightarrow> n \<notin> fst ` set (purpose_rationales i)" by (rule map_of_eq_None_iff)
  let ?P = "\<lambda>e. fold_text u (purpose e) = fold_text u (function_in_option opt) \<and> fold_text u (tool e) \<noteq> fold_text u component"
  show ?thesis
  proof (cases "find ?P (statements m)")
    case None
    then show ?thesis using find_None_set [of ?P "statements m"]
      by (auto simp: repeats_iff function_distractor_def)
  next
    case (Some e)
    then have e: "e \<in> set (statements m)" "?P e" using found_function [of ?P] by blast+
    then have "states u m (tool e) (function_in_option opt)" by (auto simp: states_def list_ex_iff)
    moreover have "function_distractor u m i component correct n opt \<longleftrightarrow> n \<in> fst ` set (purpose_rationales i) \<and>
        fold_text u (function_in_option opt) \<noteq> fold_text u correct"
      using e unfolding function_distractor_def by blast
    ultimately show ?thesis by (simp add: Some keys repeats_iff Let_def del: not_None_eq)
  qed
qed

lemma verify_functions_iff:
  "distinct (map (fold_text u) seen) \<Longrightarrow> verify_functions u m i component correct n seen opts = Ok () \<longleftrightarrow>
    (\<forall>opt \<in> set opts. trim_text opt \<noteq> []) \<and> distinct (map (fold_text u) (seen @ opts)) \<and>
    (\<forall>k < length opts. n + k \<noteq> purpose_correct_index i \<longrightarrow> function_distractor u m i component correct (n + k) (opts ! k))"
proof (induction opts arbitrary: n seen)
  case (Cons opt opts)
  show ?case
  proof (cases "fold_text u opt \<in> fold_text u ` set seen")
    case False
    with Cons.prems have "distinct (map (fold_text u) (seen @ [opt]))" by simp
    from Cons.IH [OF this, of "Suc n"] False show ?thesis
      unfolding verify_functions_step shift_options [where P = "function_distractor u m i component correct"] by (simp del: verify_functions.simps) blast
  qed (simp add: verify_functions_step del: verify_functions.simps)
qed simp

lemma first_of_map_filter: "List.map_filter f xs = y # ys \<Longrightarrow> \<exists>x \<in> set xs. f x = Some y"
proof -
  assume "List.map_filter f xs = y # ys"
  then have "y \<in> set (List.map_filter f xs)" by simp
  then show ?thesis by (auto simp: List.map_filter_def)
qed

lemma prompt_not_blank: "purpose_in_prompt q = Some p \<Longrightarrow> trim_text q \<noteq> []"
proof -
  assume "purpose_in_prompt q = Some p"
  then obtain rest rests where "List.map_filter (strip_prefix q) question_frames = rest # rests"
    by (auto simp: purpose_in_prompt_def split: list.splits)
  from first_of_map_filter [OF this] obtain frame where "frame \<in> set question_frames" "q = frame @ rest" by (auto simp: strip_prefix_Some_iff)
  then obtain s where "q = CHR ''W'' # s" by (auto simp: question_frames_def)
  then show ?thesis by (simp add: plain_start_trim)
qed

lemma component_not_blank: "component_in_prompt q = Some c \<Longrightarrow> trim_text q \<noteq> []"
proof -
  assume "component_in_prompt q = Some c"
  then obtain rest rests where "List.map_filter (framed q) component_frames = rest # rests"
    by (auto simp: component_in_prompt_def split: list.splits)
  from first_of_map_filter [OF this] obtain frame where "frame \<in> set component_frames" "framed q frame = Some rest" by blast
  moreover obtain prefix suffix where "frame = (prefix, suffix)" by (cases frame)
  ultimately have frame: "(prefix, suffix) \<in> set component_frames" "\<exists>r. q = prefix @ r"
    by (auto simp: strip_prefix_Some_iff bind_eq_Some_conv)
  then obtain s where "q = CHR ''W'' # s" unfolding component_frames_def by auto
  then show ?thesis by (simp add: plain_start_trim)
qed

lemma tool_item_iff: "verify_tool_item u i m = Ok () \<longleftrightarrow> tool_item_valid u i m"
proof (cases "purpose_in_prompt (purpose_prompt i)")
  case None
  then show ?thesis by (simp add: verify_tool_item_def tool_item_valid_def)
next
  case (Some p)
  note prompt = prompt_not_blank [OF Some]
  note opts = verify_tools_iff [of u "[]" m i p 0 "purpose_options i"]
  show ?thesis using Some prompt opts
    by (auto simp: verify_tool_item_def tool_item_valid_def options_valid_def not_less not_le)
qed

lemma function_item_iff: "verify_function_item u i m = Ok () \<longleftrightarrow> function_item_valid u i m"
proof (cases "component_in_prompt (purpose_prompt i)")
  case None
  then show ?thesis by (simp add: verify_function_item_def function_item_valid_def)
next
  case (Some component)
  note prompt = component_not_blank [OF Some]
  note opts = verify_functions_iff [of u "[]" m i component "function_in_option (purpose_options i ! purpose_correct_index i)" 0 "purpose_options i"]
  show ?thesis using Some prompt opts
    by (auto simp: verify_function_item_def function_item_valid_def options_valid_def Let_def not_less not_le list_all_iff)
qed

lemma purpose_verify_valid: "verify u i m = Ok () \<longleftrightarrow> purpose_item_valid u i m"
  by (simp add: verify_def purpose_item_valid_def tool_item_iff function_item_iff split: item_kind.split)

section \<open>One right option\<close>

text \<open>An option answers the question when the source states what it says of what is asked about.\<close>

definition answers :: "unicode \<Rightarrow> purposes \<Rightarrow> purpose_item \<Rightarrow> nat \<Rightarrow> bool" where
  "answers u m i k = (case purpose_kind i of
     Tool \<Rightarrow> (case purpose_in_prompt (purpose_prompt i) of None \<Rightarrow> False | Some p \<Rightarrow> states u m (purpose_options i ! k) p)
   | Function \<Rightarrow> (case component_in_prompt (purpose_prompt i) of None \<Rightarrow> False
       | Some c \<Rightarrow> states u m c (function_in_option (purpose_options i ! k))))"

lemma one_statement:
  assumes d: "distinct (map (\<lambda>e. fold_text u (tool e)) (statements m))"
    and e: "e \<in> set (statements m)" "e' \<in> set (statements m)" "fold_text u (tool e) = fold_text u (tool e')"
  shows "e = e'"
  using assms by (auto simp: distinct_map dest: inj_onD)

lemma parsed_distinct: "parse_purposes u t label = Some m \<Longrightarrow> distinct (map (\<lambda>e. fold_text u (tool e)) (statements m))"
  by (auto simp: parse_purposes_def bind_eq_Some_conv dest: purposes_loop_kept)

lemma distractor_no_answer:
  assumes d: "distinct (map (\<lambda>e. fold_text u (tool e)) (statements m))"
  shows "tool_distractor u m i p k opt \<Longrightarrow> \<not> states u m opt p"
    and "states u m c correct \<Longrightarrow> function_distractor u m i c correct k opt \<Longrightarrow> \<not> states u m c (function_in_option opt)"
proof -
  assume "tool_distractor u m i p k opt"
  then obtain e where e: "purpose_of u m opt = Some e" "fold_text u (purpose e) \<noteq> fold_text u p" by (auto simp: tool_distractor_def)
  have "e \<in> set (statements m)" "fold_text u (tool e) = fold_text u opt" using find_Some_set [OF e(1) [unfolded purpose_of_def]] by auto
  note here = this
  show "\<not> states u m opt p"
  proof
    assume "states u m opt p"
    then obtain e' where e': "e' \<in> set (statements m)" "fold_text u (tool e') = fold_text u opt" "fold_text u (purpose e') = fold_text u p"
      by (auto simp: states_def list_ex_iff)
    with here have "e = e'" by (intro one_statement [OF d]) simp_all
    with e(2) e'(3) show False by simp
  qed
next
  assume "states u m c correct" and f: "function_distractor u m i c correct k opt"
  then obtain e where e: "e \<in> set (statements m)" "fold_text u (tool e) = fold_text u c" "fold_text u (purpose e) = fold_text u correct"
    by (auto simp: states_def list_ex_iff)
  show "\<not> states u m c (function_in_option opt)"
  proof
    assume "states u m c (function_in_option opt)"
    then obtain e' where e': "e' \<in> set (statements m)" "fold_text u (tool e') = fold_text u c"
      "fold_text u (purpose e') = fold_text u (function_in_option opt)" by (auto simp: states_def list_ex_iff)
    with e have "e = e'" by (intro one_statement [OF d]) simp_all
    with e e' f show False by (simp add: function_distractor_def)
  qed
qed

lemma marked_option_answers:
  assumes "parse_purposes u t label = Some m" "verify u i m = Ok ()" "k < length (purpose_options i)"
  shows "answers u m i k \<longleftrightarrow> k = purpose_correct_index i"
proof -
  have valid: "purpose_item_valid u i m" using assms(2) by (simp add: purpose_verify_valid)
  note one = distractor_no_answer [OF parsed_distinct [OF assms(1)]]
  show ?thesis
  proof (cases "purpose_kind i")
    case Tool
    with valid obtain p where p: "purpose_in_prompt (purpose_prompt i) = Some p"
      "options_valid u i (tool_distractor u m i p)" "states u m (purpose_options i ! purpose_correct_index i) p"
      by (auto simp: purpose_item_valid_def tool_item_valid_def)
    then show ?thesis using Tool assms(3) one(1) [of i p k] by (auto simp: answers_def options_valid_def)
  next
    case Function
    with valid obtain c where c: "component_in_prompt (purpose_prompt i) = Some c"
      "options_valid u i (function_distractor u m i c (function_in_option (purpose_options i ! purpose_correct_index i)))"
      "states u m c (function_in_option (purpose_options i ! purpose_correct_index i))"
      by (auto simp: purpose_item_valid_def function_item_valid_def)
    then show ?thesis using Function assms(3) one(2) [OF c(3), of i k] by (auto simp: answers_def options_valid_def)
  qed
qed

section \<open>Reading a prompt back\<close>

text \<open>A description a question can be asked about: a closing question mark or a leading \<open>to\<close> would be taken for the frame.\<close>

definition answerable :: "purpose \<Rightarrow> bool" where
  "answerable e \<longleftrightarrow> \<not> ends_with (purpose e) ''?'' \<and> (link e = As \<longrightarrow> \<not> starts_with (trim_start_matches white (purpose e)) ''to '')"

lemma strip_suffix_append [simp]: "strip_suffix (s @ p) p = Some s"
  by (simp add: strip_suffix_def ends_with_iff)

lemma singles_concat: "concat (map (\<lambda>c. [c]) s) = s"
  by (induction s) simp_all

lemma last_kept:
  assumes "ascii s" "\<not> p [c]" "byte c < 128"
  shows "trim_end_matches p (s @ [c]) = s @ [c]"
  using assms by (simp add: trim_end_matches_def chars_append chars_ascii_Cons singles_concat)

lemma question_mark_off:
  assumes "ascii s" "\<not> ends_with s ''?''"
  shows "trim_end_matches (one_of ''?'') (s @ ''?'') = s"
proof -
  have mark: "byte (CHR ''?'') < 128" by (simp add: byte_def)
  show ?thesis
  proof (cases s rule: rev_cases)
    case Nil
    then show ?thesis using mark by (simp add: trim_end_matches_def chars_ascii_Cons one_of_def)
  next
    case (snoc q c)
    with assms have c: "c \<noteq> CHR ''?''" "ascii q" "byte c < 128" by (auto simp: ends_with_def)
    have "chars (s @ ''?'') = map (\<lambda>c. [c]) q @ [[c], ''?'']" using snoc assms(1) mark by (simp add: chars_append chars_ascii_Cons)
    then show ?thesis using snoc c by (simp add: trim_end_matches_def one_of_def singles_concat)
  qed
qed

lemma tool_prompt_back:
  assumes "ascii p" "\<not> ends_with p ''?''" "l \<noteq> As"
  shows "purpose_in_prompt (question_for u p l @ ''?'') = Some (trim_text p) \<and> link_in_prompt (question_for u p l @ ''?'') \<noteq> Some As"
proof -
  have "purpose_in_prompt (tool_question f p @ ''?'') = Some (trim_text p) \<and> link_in_prompt (tool_question f p @ ''?'') \<noteq> Some As"
    if "f \<noteq> As" for f
    using that question_mark_off [OF assms(1,2)]
    by (cases f) (simp_all add: purpose_in_prompt_def question_frames_def strip_prefix_def List.map_filter_simps link_in_prompt_def)
  moreover have "(if l = To \<and> opens_with_a_gerund u p then For else l) \<noteq> As" using assms(3) by simp
  ultimately show ?thesis unfolding question_for_def by blast
qed

lemma component_back: "trim_text c \<noteq> [] \<Longrightarrow> component_in_prompt (function_question u c l) = Some (trim_text c)"
  by (simp add: function_question_def component_question_def component_in_prompt_def component_frames_def strip_prefix_def List.map_filter_simps)

lemma asked_back:
  assumes "ascii c"
  shows "asked_link (function_question u c l) = (if l = As then As else To)"
proof -
  have mark: "\<not> white ''?''" "byte (CHR ''?'') < 128" by (simp_all add: plain_not_white byte_def)
  have "ascii ''What do the ''" "ascii ''What does the ''" "ascii ''What is the ''" "ascii ''What are the ''" "ascii '' serve as''" "ascii '' used for''"
    by (simp_all add: byte_def)
  then have "trim_end_matches white ((frame @ c @ tail) @ ''?'') = (frame @ c @ tail) @ ''?''"
    if "frame \<in> {''What do the '', ''What does the '', ''What is the '', ''What are the ''}" "tail \<in> {'' serve as'', '' used for''}" for frame tail
    using that assms mark by (intro last_kept) auto
  then have keep: "trim_end_matches white (frame @ c @ tail @ ''?'') = frame @ c @ tail @ ''?''"
    if "frame \<in> {''What do the '', ''What does the '', ''What is the '', ''What are the ''}" "tail \<in> {'' serve as'', '' used for''}" for frame tail
    using that by simp
  have serve: "ends_with (x @ '' serve as?'') '' serve as?''" and used: "\<not> ends_with (x @ '' used for?'') '' serve as?''" for x
    by (simp_all add: ends_with_def)
  show ?thesis
    using keep [of "''What do the ''" "'' serve as''"] keep [of "''What does the ''" "'' serve as''"]
      keep [of "''What is the ''" "'' used for''"] keep [of "''What are the ''" "'' used for''"]
      serve [of "''What do the '' @ c"] serve [of "''What does the '' @ c"] used [of "''What is the '' @ c"] used [of "''What are the '' @ c"]
    by (simp add: asked_link_def function_question_def component_question_def)
qed

section \<open>Reading an option back\<close>

lemma fold_trim: "ascii s \<Longrightarrow> fold_text u (trim_text s) = fold_text u s"
  by (simp add: fold_text_def)

lemma trim_of_start: "\<exists>w. trim_start_matches white s = trim_text s @ w"
proof -
  let ?ys = "dropWhile white (chars s)"
  have "rev (takeWhile white (rev ?ys) @ dropWhile white (rev ?ys)) = ?ys" by simp
  then have "?ys = drop_ends white (chars s) @ rev (takeWhile white (rev ?ys))" unfolding drop_ends_def rev_append by simp
  then have "concat ?ys = concat (drop_ends white (chars s)) @ concat (rev (takeWhile white (rev ?ys)))" by (metis concat_append)
  then show ?thesis unfolding trim_start_matches_def trim_text_def trim_matches_def by blast
qed

lemma bare_option_back:
  assumes "ascii p" "\<not> starts_with (trim_start_matches white p) ''to ''"
  shows "fold_text u (function_in_option p) = fold_text u p"
proof -
  obtain w where "trim_start_matches white p = trim_text p @ w" using trim_of_start by blast
  with assms(2) have "\<not> starts_with (trim_text p) ''to ''" by (auto simp: starts_with_iff)
  then show ?thesis using assms(1) by (simp add: function_in_option_def strip_prefix_def fold_trim)
qed

lemma to_ascii: "chars (''to '' @ p) = [''t'', ''o'', '' ''] @ chars p"
  by (simp add: chars_ascii_Cons byte_def)

lemma to_option_form: "trim_start_matches white (''to '' @ p) = ''to '' @ p"
  using plain_not_white [of "CHR ''t''"] unfolding trim_start_matches_def to_ascii by simp

lemma to_option_back:
  assumes "ascii p" "split_whitespace p \<noteq> []"
  shows "fold_text u (function_in_option (''to '' @ p)) = fold_text u p"
proof -
  have t: "\<not> white ''t''" by (rule plain_not_white) simp
  from words_not_white [OF assms(2)] obtain c where c: "c \<in> set (rev (chars p))" "\<not> white c" by auto
  have "drop_ends white ([''t'', ''o'', '' ''] @ chars p) = [''t'', ''o'', '' ''] @ rev (dropWhile white (rev (chars p)))"
    using t dropWhile_append1 [where P = white and xs = "rev (chars p)" and ys = "rev [''t'', ''o'', '' '']", OF c] by (simp add: drop_ends_def)
  then have "trim_text (''to '' @ p) = ''to '' @ trim_end_matches white p"
    unfolding trim_text_def trim_matches_def to_ascii trim_end_matches_def by simp
  then show ?thesis using assms(1) by (simp add: function_in_option_def strip_prefix_def fold_text_def collapse_def)
qed

lemma purpose_words: "plainly_stated u e \<Longrightarrow> split_whitespace (purpose e) \<noteq> []"
  by (auto simp: plainly_stated_def readable_def reads_as_a_purpose_def Let_def split: if_splits)

lemma tool_words: "plainly_stated u e \<Longrightarrow> trim_text (tool e) \<noteq> []"
  by (auto simp: plainly_stated_def readable_def names_a_tool_def Let_def trim_text_Nil_iff split: if_splits)

lemma option_back: "plainly_stated u e \<Longrightarrow> answerable e \<Longrightarrow> fold_text u (function_in_option (function_option e)) = fold_text u (purpose e)"
  using purpose_words [of u e] bare_option_back [of "purpose e" u] to_option_back [of "purpose e" u]
  by (simp add: function_option_def answerable_def plainly_stated_def)

lemma option_form: "answerable e \<Longrightarrow> option_matches_link (function_option e) l \<longleftrightarrow> (link e = As) = (l = As)"
  by (auto simp: option_matches_link_def function_option_def answerable_def to_option_form simp del: append.simps(2))

lemma option_not_blank: "plainly_stated u e \<Longrightarrow> trim_text (correct_option kind e) \<noteq> []"
  using tool_words [of u e] purpose_words [of u e] plain_start_trim [of "CHR ''t''"]
  by (auto simp: correct_option_def function_option_def trim_text_Nil_iff split: item_kind.split)

section \<open>What the builder returns\<close>

text \<open>An option is the answer for a statement of the same form: that of the question, or that of another tool.\<close>

definition fits_statement :: "unicode \<Rightarrow> item_kind \<Rightarrow> purposes \<Rightarrow> purpose \<Rightarrow> string \<Rightarrow> bool" where
  "fits_statement u kind m c t \<longleftrightarrow> (\<exists>e \<in> set (asked_statements u kind m). correct_option kind e = t \<and>
     (e = c \<or> fold_text u (tool e) \<noteq> fold_text u (tool c)) \<and> (kind = Function \<longrightarrow> (link e = As) = (link c = As)))"

lemma purpose_gather_ok:
  "options_ok (fold_text u) (fits_statement u kind m c) t (marks opts) \<Longrightarrow>
    \<forall>e \<in> set es. e \<in> set (asked_statements u kind m) \<and> fold_text u (tool e) \<noteq> fold_text u (tool c) \<Longrightarrow>
    options_ok (fold_text u) (fits_statement u kind m c) t (marks (gather u kind c es opts))"
proof (induction u kind c es opts rule: gather.induct)
  case (2 u kind c e es opts)
  let ?t = "correct_option kind e"
  show ?case
  proof (cases "length opts = 4 \<or> kind = Function \<and> (link e = As) \<noteq> (link c = As) \<or>
      list_ex (\<lambda>(existing, _). fold_text u existing = fold_text u ?t) opts")
    case True
    with 2 show ?thesis by auto
  next
    case False
    have "\<not> list_ex (\<lambda>(existing, _). fold_text u existing = fold_text u ?t) (marks opts)"
      using False by (auto simp: marks_def list_ex_iff)
    moreover have "fits_statement u kind m c ?t" using 2(5) False by (auto simp: fits_statement_def)
    ultimately have "options_ok (fold_text u) (fits_statement u kind m c) t (marks opts @ [(?t, False)])"
      using options_ok_add [OF 2(4)] by blast
    then have "options_ok (fold_text u) (fits_statement u kind m c) t (marks (opts @ [(?t, Some (why_not kind e))]))"
      by (simp add: marks_def)
    with 2(3) 2(5) False show ?thesis by auto
  qed
qed simp

text \<open>A manual whose every built item must verify: no two of its tools serve one purpose.\<close>

definition unambiguous :: "unicode \<Rightarrow> purposes \<Rightarrow> bool" where
  "unambiguous u m \<longleftrightarrow> (\<forall>e \<in> set (statements m). plainly_stated u e \<and> answerable e) \<and>
     distinct (map (\<lambda>e. fold_text u (tool e)) (statements m)) \<and> distinct (map (\<lambda>e. fold_text u (purpose e)) (statements m))"

lemma asked_in: "e \<in> set (asked_statements u kind m) \<Longrightarrow> e \<in> set (statements m)"
  by (cases kind) (auto simp: asked_statements_def)

lemma purpose_of_tool:
  assumes "distinct (map (\<lambda>e. fold_text u (tool e)) (statements m))" "e \<in> set (statements m)"
  shows "purpose_of u m (tool e) = Some e"
proof -
  obtain e' where e': "purpose_of u m (tool e) = Some e'"
    using find_None_set [of "\<lambda>e'. fold_text u (tool e') = fold_text u (tool e)" "statements m"] assms(2) unfolding purpose_of_def by fastforce
  then have "e' \<in> set (statements m)" "fold_text u (tool e') = fold_text u (tool e)"
    using find_Some_set unfolding purpose_of_def by fast+
  with one_statement [OF assms(1) _ assms(2)] e' show ?thesis by blast
qed

lemma purposes_differ:
  assumes "unambiguous u m" "e \<in> set (statements m)" "c \<in> set (statements m)" "e \<noteq> c"
  shows "fold_text u (purpose e) \<noteq> fold_text u (purpose c)"
  using assms by (auto simp: unambiguous_def distinct_map dest: inj_onD)

lemma purpose_built_valid:
  assumes m: "unambiguous u m" and c: "c \<in> set (asked_statements u kind m)"
    and opts: "options_ok (fold_text u) (fits_statement u kind m c) (correct_option kind c) (marks opts)" "length opts = 4"
    and k: "find_index (\<lambda>(_, why). why = None) opts = Some k"
  shows "verify u (make_item u m subtest kind seed c opts k) m = Ok ()"
proof -
  let ?i = "make_item u m subtest kind seed c opts k"
  obtain j where j: "correct_position (marks opts) = Some j" "j < length opts" "map fst opts ! j = correct_option kind c"
    "fst ` set (rationales id (marks opts)) = {l. l < length opts \<and> l \<noteq> j}"
    using options_ok_position [OF opts(1), of id] by auto
  have jk: "j = k" using j(1) k by (simp add: correct_marks)
  have plain: "distinct (map (fold_text u) (map fst opts))" "\<forall>t \<in> set (map fst opts). fits_statement u kind m c t"
    using options_ok_plain [OF opts(1)] by simp_all
  have keys: "fst ` set (why_map 0 opts []) = {l. l < length opts \<and> l \<noteq> k}"
    using why_map_keys [of opts] j(4) rationales_keys [of id "marks opts"] jk by simp
  have cm: "c \<in> set (statements m)" by (rule asked_in [OF c])
  have stated: "plainly_stated u e \<and> answerable e" if "e \<in> set (statements m)" for e using m that by (simp add: unambiguous_def)
  have tools: "distinct (map (\<lambda>e. fold_text u (tool e)) (statements m))" using m by (simp add: unambiguous_def)
  have ascii: "ascii (purpose c)" "ascii (tool c)" "ascii (sentence c)" using stated [OF cm] by (simp_all add: plainly_stated_def)
  have other: "\<exists>e \<in> set (statements m). correct_option kind e = map fst opts ! l \<and> e \<noteq> c \<and> fold_text u (tool e) \<noteq> fold_text u (tool c)"
    if l: "l < length opts" "l \<noteq> k" for l
  proof -
    have "map fst opts ! l \<in> set (map fst opts)" using l(1) by (intro nth_mem) simp
    then obtain e where e: "e \<in> set (asked_statements u kind m)" "correct_option kind e = map fst opts ! l"
      "e = c \<or> fold_text u (tool e) \<noteq> fold_text u (tool c)" using plain(2) by (auto simp: fits_statement_def)
    have "map fst opts ! l \<noteq> map fst opts ! k" using nth_eq_iff_index_eq [OF plain(1), of l k] l j(2) jk by auto
    then have "e \<noteq> c" using e(2) j(3) jk by auto
    with e asked_in show ?thesis by blast
  qed
  have fields: "purpose_kind ?i = kind" "purpose_prompt ?i = prompt_for u kind c" "purpose_options ?i = map fst opts"
    "purpose_correct_index ?i = k" "purpose_rationales ?i = why_map 0 opts []" "supporting_sentence ?i = sentence c"
    by (simp_all add: make_item_def)
  have blank: "\<forall>t \<in> set (map fst opts). trim_text t \<noteq> []"
    using plain(2) option_not_blank stated asked_in unfolding fits_statement_def by metis
  have ok: "options_valid u ?i P" if "\<And>l. l < length opts \<Longrightarrow> l \<noteq> k \<Longrightarrow> P l (map fst opts ! l)" for P
    unfolding options_valid_def fields using that plain(1) blank opts(2) j(2) jk by auto
  have sentence: "trim_text (supporting_sentence ?i) \<noteq> []" using stated [OF cm] by (simp add: fields plainly_stated_def)
  have right: "purpose_options ?i ! purpose_correct_index ?i = correct_option kind c" using j(3) jk by (simp add: fields)
  show ?thesis
  proof (cases kind)
    case Tool
    let ?p = "trim_text (purpose c)"
    have "link c \<noteq> As" using c Tool by (auto simp: asked_statements_def)
    with tool_prompt_back [of "purpose c" "link c" u] stated [OF cm] ascii
    have prompt: "purpose_in_prompt (purpose_prompt ?i) = Some ?p" "link_in_prompt (purpose_prompt ?i) \<noteq> Some As"
      unfolding fields(2) by (simp_all add: prompt_for_def Tool answerable_def)
    have "tool_distractor u m ?i ?p l (map fst opts ! l)" if l: "l < length opts" "l \<noteq> k" for l
    proof -
      obtain e where e: "e \<in> set (statements m)" "tool e = map fst opts ! l" "e \<noteq> c" using other [OF l] Tool by (auto simp: correct_option_def)
      show ?thesis using purpose_of_tool [OF tools e(1)] purposes_differ [OF m e(1) cm e(3)] e(2) keys l ascii
        by (simp add: tool_distractor_def fields fold_trim)
    qed
    moreover have "states u m (tool c) ?p" using cm ascii by (auto simp: states_def list_ex_iff fold_trim)
    moreover have "contains (fold_text u (sentence c)) (fold_text u ?p)" using stated [OF cm] ascii by (simp add: plainly_stated_def fold_trim)
    ultimately have "tool_item_valid u ?i m"
      unfolding tool_item_valid_def using prompt sentence ok right Tool fields(6) by (auto simp: correct_option_def)
    then show ?thesis using Tool by (simp add: purpose_verify_valid purpose_item_valid_def make_item_def)
  next
    case Function
    let ?c = "trim_text (tool c)" and ?f = "function_in_option (function_option c)"
    have prompt: "component_in_prompt (purpose_prompt ?i) = Some ?c" "asked_link (purpose_prompt ?i) = (if link c = As then As else To)"
      using component_back [OF tool_words [OF stated [OF cm, THEN conjunct1]], of u "link c"] asked_back [OF ascii(2), of u "link c"] Function
      unfolding fields(2) by (simp_all add: prompt_for_def)
    have forms: "option_matches_link t (asked_link (purpose_prompt ?i))" if "t \<in> set (map fst opts)" for t
    proof -
      from that plain(2) obtain e where "e \<in> set (asked_statements u kind m)" "function_option e = t" "(link e = As) = (link c = As)"
        using Function by (auto simp: fits_statement_def correct_option_def)
      with option_form [of e] stated asked_in show ?thesis unfolding prompt(2) by auto
    qed
    have "function_distractor u m ?i ?c ?f l (map fst opts ! l)" if l: "l < length opts" "l \<noteq> k" for l
    proof -
      obtain e where e: "e \<in> set (statements m)" "function_option e = map fst opts ! l" "e \<noteq> c" "fold_text u (tool e) \<noteq> fold_text u (tool c)"
        using other [OF l] Function by (auto simp: correct_option_def)
      have same: "fold_text u (function_in_option (map fst opts ! l)) = fold_text u (purpose e)" "fold_text u ?f = fold_text u (purpose c)"
        using option_back stated e(1,2) cm by metis+
      show ?thesis unfolding function_distractor_def fields keys same using purposes_differ [OF m e(1) cm e(3)] e(1,4) l ascii
        by (auto simp: fold_trim)
    qed
    moreover have "states u m ?c ?f" using cm ascii option_back stated [OF cm] by (auto simp: states_def list_ex_iff fold_trim)
    ultimately have "function_item_valid u ?i m"
      unfolding function_item_valid_def using prompt(1) forms sentence ok right Function fields(3) by (auto simp: correct_option_def)
    then show ?thesis using Function by (simp add: purpose_verify_valid purpose_item_valid_def make_item_def)
  qed
qed

definition purpose_good :: "unicode \<Rightarrow> purposes \<Rightarrow> item_kind \<Rightarrow> 'a veto \<Rightarrow> purpose_item \<Rightarrow> bool" where
  "purpose_good u m kind accept i \<longleftrightarrow> (unambiguous u m \<longrightarrow> verify u i m = Ok ()) \<and>
     length (purpose_options i) = 4 \<and> purpose_correct_index i < 4 \<and> purpose_kind i = kind \<and>
     (\<exists>e \<in> set (statements m). purpose_prompt i = prompt_for u kind e \<and> supporting_sentence i = sentence e \<and>
       purpose_options i ! purpose_correct_index i = correct_option kind e) \<and> (\<exists>acc. fst (accept i acc))"

definition enough :: "unicode \<Rightarrow> item_kind \<Rightarrow> purposes \<Rightarrow> bool" where
  "enough u kind m \<longleftrightarrow> asked_statements u kind m \<noteq> [] \<and> length (statements m) < 2 ^ 63"

lemma purpose_build_one_result:
  assumes "enough u kind m"
  shows "\<exists>built rng' acc'. build_one u m subtest kind seed accept rng acc = Some (built, rng', acc') \<and>
    (\<forall>item. built = Some item \<longrightarrow> purpose_good u m kind accept item)"
proof -
  let ?es = "asked_statements u kind m"
  let ?n = "length ?es"
  have "?n \<le> length (statements m)" by (cases kind) (simp_all add: asked_statements_def)
  with assms have n: "0 < ?n" "?n < 2 ^ 63" by (auto simp: enough_def)
  then obtain v rng1 where v: "rng_range rng 0 (int ?n - 1) = Some (v, rng1)" "0 \<le> v" "v \<le> int ?n - 1"
    using rng_range_bounds [of 0 "int ?n - 1" rng] by force
  define c where "c = ?es ! nat v"
  have "nat v < ?n" using v n(1) by linarith
  then have c: "c \<in> set ?es" "index_vec ?es (nat v) = Some c" by (auto simp: c_def index_vec_def)
  let ?others = "filter (\<lambda>e. fold_text u (tool e) \<noteq> fold_text u (tool c)) ?es"
  obtain cands rng2 where cands: "rng_shuffle rng1 ?others = (cands, rng2)" by fastforce
  have "length ?others < 2 ^ 64" by (rule le_less_trans [OF length_filter_le]) (use n(2) in simp)
  from set_rng_shuffle [OF this, of rng1] have cands_ok: "\<forall>e \<in> set cands. e \<in> set ?es \<and> fold_text u (tool e) \<noteq> fold_text u (tool c)"
    by (auto simp: cands)
  let ?opts = "gather u kind c cands [(correct_option kind c, None)]"
  have "fits_statement u kind m c (correct_option kind c)" using c(1) by (auto simp: fits_statement_def)
  then have "options_ok (fold_text u) (fits_statement u kind m c) (correct_option kind c) (marks [(correct_option kind c, None)])"
    unfolding marks_def by (simp add: options_ok_start)
  note gathered = purpose_gather_ok [OF this cands_ok]
  note start = build_one_def v(1) c(2) cands Let_def
  show ?thesis
  proof (cases "length ?opts = 4")
    case False
    then show ?thesis by (simp add: start)
  next
    case True
    obtain opts rng3 where shuffled: "rng_shuffle rng2 ?opts = (opts, rng3)" by fastforce
    have opts: "options_ok (fold_text u) (fits_statement u kind m c) (correct_option kind c) (marks opts)" "length opts = 4"
      using gathered marks_shuffle [of ?opts "fold_text u" "fits_statement u kind m c" "correct_option kind c" rng2]
        length_rng_shuffle [of ?opts rng2] True by (simp_all add: shuffled)
    obtain k where k: "find_index (\<lambda>(_, why). why = None) opts = Some k" "k < length opts" "map fst opts ! k = correct_option kind c"
      using options_ok_position [OF opts(1)] by (metis correct_marks fst_marks length_marks)
    define item where "item = make_item u m subtest kind seed c opts k"
    obtain yes acc' where yes: "accept item acc = (yes, acc')" by fastforce
    have "unambiguous u m \<Longrightarrow> verify u item m = Ok ()"
      unfolding item_def by (rule purpose_built_valid [OF _ c(1) opts k(1)])
    then have good: "yes \<Longrightarrow> purpose_good u m kind accept item"
      using asked_in [OF c(1)] opts(2) yes k unfolding purpose_good_def by (auto simp: item_def make_item_def intro: exI [of _ acc])
    show ?thesis using True good by (simp add: start shuffled k(1) item_def [symmetric] yes)
  qed
qed

interpretation manual: item_builder "enough u kind m" "build_one u m subtest kind seed accept" "purpose_good u m kind accept"
proof
  assume m: "enough u kind m"
  show "build_one u m subtest kind seed accept rng acc \<noteq> None" for rng acc
    using purpose_build_one_result [OF m, of subtest seed accept rng acc] by auto
  show "purpose_good u m kind accept item"
    if "build_one u m subtest kind seed accept rng acc = Some (Some item, rng', acc')" for rng acc item rng' acc'
    using purpose_build_one_result [OF m, of subtest seed accept rng acc] that by auto
qed

lemma purpose_batch:
  assumes "length (statements m) < 2 ^ 63"
  shows "\<exists>items acc'. build_items_asking u sha m subtest kind wanted seed accept acc = Some (items, acc') \<and>
    list_all (purpose_good u m kind accept) items \<and> distinct (map (purpose_hash u sha) items) \<and> length items \<le> wanted"
proof (cases "length (statements m) < 4 \<or> length (asked_statements u kind m) < 4")
  case True
  then show ?thesis by (auto simp: build_items_asking_def)
next
  case False
  then have "enough u kind m" using assms by (auto simp: enough_def)
  from manual.build_good [OF this, of subtest seed accept "purpose_hash u sha" wanted "attempts_for 12 wanted" seed acc] False
  show ?thesis unfolding build_items_asking_def by auto
qed

section \<open>Something is built\<close>

lemma build_loop_extends: "build_loop one hash wanted n rng acc seen items = Some (out, acc') \<Longrightarrow> \<exists>zs. out = items @ zs"
proof (induction n arbitrary: rng acc seen items)
  case (Suc n)
  show ?case
  proof (cases "wanted \<le> length items")
    case False
    with Suc.prems obtain built rng' acc'' where one: "one rng acc = Some (built, rng', acc'')" by (auto simp: bind_eq_Some_conv)
    show ?thesis
    proof (cases "\<exists>item. built = Some item \<and> hash item \<notin> seen")
      case True
      then obtain item where "built = Some item" "hash item \<notin> seen" by blast
      with Suc.prems False one Suc.IH [of rng' acc'' "insert (hash item) seen" "items @ [item]"] show ?thesis by auto
    next
      case no: False
      with Suc.prems False one have "build_loop one hash wanted n rng' acc'' seen items = Some (out, acc')" by (auto split: option.splits)
      from Suc.IH [OF this] show ?thesis .
    qed
  qed (use Suc.prems in simp)
qed simp

lemma tool_gather_length:
  "distinct (map (\<lambda>e. fold_text u (tool e)) es) \<Longrightarrow> \<forall>e \<in> set es. fold_text u (tool e) \<notin> (\<lambda>(t, _). fold_text u t) ` set opts \<Longrightarrow>
    length opts \<le> 4 \<Longrightarrow> length (gather u Tool c es opts) = min 4 (length opts + length es)"
proof (induction es arbitrary: opts)
  case (Cons e es)
  show ?case
  proof (cases "length opts = 4")
    case False
    let ?new = "opts @ [(tool e, Some (why_not Tool e))]"
    have "\<not> list_ex (\<lambda>(existing, _). fold_text u existing = fold_text u (tool e)) opts"
      using Cons.prems(2) by (force simp: list_ex_iff)
    then have "gather u Tool c (e # es) opts = gather u Tool c es ?new" using False by (simp add: correct_option_def)
    moreover have "\<forall>d \<in> set es. fold_text u (tool d) \<notin> (\<lambda>(t, _). fold_text u t) ` set ?new"
      using Cons.prems(1,2) by (auto simp: image_iff)
    ultimately show ?thesis using Cons.IH [of ?new] Cons.prems False by simp
  qed simp
qed simp

text \<open>A manual that describes four tools always yields a question about tools to a caller who takes any.\<close>

lemma tool_item_built:
  assumes d: "distinct (map (\<lambda>e. fold_text u (tool e)) (statements m))" and n: "4 \<le> length (asked_statements u Tool m)" "length (statements m) < 2 ^ 63"
    and any: "\<forall>i acc. fst (accept i acc)"
  shows "\<exists>item rng' acc'. build_one u m subtest Tool seed accept rng acc = Some (Some item, rng', acc')"
proof -
  let ?es = "asked_statements u Tool m" and ?f = "\<lambda>e. fold_text u (tool e)"
  let ?n = "length ?es"
  have es: "distinct (map ?f ?es)" using d by (simp add: asked_statements_def distinct_map_filter)
  have "?n \<le> length (statements m)" by (simp add: asked_statements_def)
  with n have bound: "0 < ?n" "?n < 2 ^ 63" by linarith+
  then obtain v rng1 where v: "rng_range rng 0 (int ?n - 1) = Some (v, rng1)" "0 \<le> v" "v \<le> int ?n - 1"
    using rng_range_bounds [of 0 "int ?n - 1" rng] by force
  define c where "c = ?es ! nat v"
  have "nat v < ?n" using v bound(1) by linarith
  then have c: "c \<in> set ?es" "index_vec ?es (nat v) = Some c" by (auto simp: c_def index_vec_def)
  let ?others = "filter (\<lambda>e. ?f e \<noteq> ?f c) ?es"
  have "mset ?others = mset (remove1 c ?es)"
  proof -
    have "?others = filter (\<lambda>e. e \<noteq> c) ?es" using es c(1) by (intro filter_cong) (auto simp: distinct_map dest: inj_onD)
    also have "\<dots> = remove1 c ?es" using es by (simp add: distinct_remove1_removeAll distinct_map removeAll_filter_not_eq) (metis)
    finally show ?thesis by simp
  qed
  then have three: "3 \<le> length ?others" using c(1) n(1) by (metis length_remove1 mset_eq_length One_nat_def diff_le_mono numeral_3_eq_3 numeral_eq_Suc pred_numeral_simps(2) diff_Suc_1 eval_nat_numeral(3) semiring_norm(26,27))
  obtain cands rng2 where cands: "rng_shuffle rng1 ?others = (cands, rng2)" by fastforce
  have small: "length ?others < 2 ^ 64" by (rule le_less_trans [OF length_filter_le]) (use bound(2) in simp)
  have mset: "mset cands = mset ?others" using mset_rng_shuffle [OF small, of rng1] by (simp add: cands)
  have "distinct (map ?f ?others)" using es by (rule distinct_map_filter)
  then have dist: "distinct (map ?f cands)" using mset by (metis mset_eq_imp_distinct_iff mset_map)
  have away: "\<forall>e \<in> set cands. ?f e \<notin> (\<lambda>(t, _). fold_text u t) ` set [(correct_option Tool c, None)]"
    using mset_eq_setD [OF mset] by (auto simp: correct_option_def)
  have four: "length (gather u Tool c cands [(correct_option Tool c, None)]) = 4"
    using tool_gather_length [OF dist away, of c] three mset_eq_length [OF mset] by simp
  from purpose_build_one_result [of u Tool m subtest seed accept rng acc] bound n(2)
  obtain built rng' acc' where b: "build_one u m subtest Tool seed accept rng acc = Some (built, rng', acc')" by (auto simp: enough_def)
  obtain opts rng3 where shuffled: "rng_shuffle rng2 (gather u Tool c cands [(correct_option Tool c, None)]) = (opts, rng3)" by fastforce
  note start = build_one_def v(1) c(2) cands Let_def shuffled
  obtain k where k: "find_index (\<lambda>(_, why). why = None) opts = Some k"
    using b four by (cases "find_index (\<lambda>(_, why). why = None) opts") (simp_all add: start)
  obtain acc'' where "accept (make_item u m subtest Tool seed c opts k) acc = (True, acc'')"
    using any by (metis prod.collapse)
  then show ?thesis using four k by (simp add: start)
qed

lemma tool_items_built:
  assumes d: "distinct (map (\<lambda>e. fold_text u (tool e)) (statements m))" and n: "4 \<le> length (asked_statements u Tool m)" "length (statements m) < 2 ^ 63"
    and any: "\<forall>i acc. fst (accept i acc)" and w: "0 < wanted"
    and b: "build_items_asking u sha m subtest Tool wanted seed accept acc = Some (items, acc')"
  shows "items \<noteq> []"
proof -
  have "length (asked_statements u Tool m) \<le> length (statements m)" by (simp add: asked_statements_def)
  with n have "\<not> length (statements m) < 4" "\<not> length (asked_statements u Tool m) < 4" by linarith+
  moreover obtain k where k: "attempts_for 12 wanted = Suc k" by (cases "attempts_for 12 wanted") (auto simp: attempts_for_def)
  ultimately have "build_loop (build_one u m subtest Tool seed accept) (purpose_hash u sha) wanted (Suc k) seed acc {} [] = Some (items, acc')"
    using b by (simp add: build_items_asking_def)
  moreover obtain item rng' acc'' where "build_one u m subtest Tool seed accept seed acc = Some (Some item, rng', acc'')"
    using tool_item_built [OF d n any] by blast
  ultimately have "build_loop (build_one u m subtest Tool seed accept) (purpose_hash u sha) wanted k rng' acc'' {purpose_hash u sha item} [item] = Some (items, acc')"
    using w by simp
  from build_loop_extends [OF this] show ?thesis by auto
qed

section \<open>Properties\<close>



definition sample_source :: purposes where
  "sample_source = \<lparr>manual_label = ''M'', statements = sample_statements\<rparr>"

definition sample_tool_item :: purpose_item where
  "sample_tool_item = \<lparr>purpose_subtest = ''SI'', purpose_kind = Tool, purpose_objective_id = ''OBJ-SI-TOOLS-01'',
     purpose_prompt = ''Which tool is used to bind all loose parts?'', purpose_options = [''Rasps'', ''vise''], purpose_correct_index = 1,
     purpose_rationales = [(0, ''Rasps is for block out the stock.'')], supporting_sentence = ''The vise is used to bind all loose parts.'',
     purpose_source_label = ''M'', purpose_seed = 0\<rparr>"

lemma sample_tool_item_verifies: "verify ascii_unicode sample_tool_item sample_source = Ok ()"
  by code_simp


lemma sample_answerable: "\<forall>e \<in> set sample_statements. answerable e"
  by code_simp

lemma sample_purposes_differ: "distinct (map (\<lambda>e. fold_text ascii_unicode (purpose e)) sample_statements)"
  by code_simp

lemma sample_asked: "length (asked_statements ascii_unicode Tool sample_source) = 4"
  by (simp add: sample_source_def sample_statements_def asked_statements_def)


text \<open>
  When two tools serve one purpose the builder may offer both; the verifier then refuses the item, so the
  builder's own output does not always verify.
\<close>

lemma shared_purpose_refused:
  "verify ascii_unicode (sample_tool_item\<lparr>purpose_options := [''Rasps'', ''vise'']\<rparr>)
     (sample_source\<lparr>statements := map (\<lambda>e. e\<lparr>purpose := ''bind all loose parts''\<rparr>) sample_statements\<rparr>) = Err (DistractorAlsoFits ''Rasps'')"
  by code_simp

end
