(* ===== verification/Purpose_Lane.thy ===== *)
theory Purpose_Lane
  imports Lanes Purpose_Items
begin

text \<open>
  The lane of the tool manuals in \<open>crates/vector-application/src/content.rs\<close>: the check on the
  options of a built item, what an item submits after its verification, and the run over one manual.
\<close>

section \<open>The lane\<close>

fun purpose_failure_text :: "(string \<Rightarrow> string) \<Rightarrow> purpose_failure \<Rightarrow> string" where
  "purpose_failure_text dbg (Purpose_Items.Blank what) = ''the '' @ what @ '' is blank''"
| "purpose_failure_text dbg (NotFromSource p) = ''the source does not state this purpose: '' @ dbg p"
| "purpose_failure_text dbg (WrongTool t) = ''the correct option '' @ dbg t @ '' is not the tool the source names for this purpose''"
| "purpose_failure_text dbg (Purpose_Items.DuplicateOption opt) = ''two options name the same tool: '' @ dbg opt"
| "purpose_failure_text dbg (Purpose_Items.TooFewOptions n) = ''an item needs at least 2 options, got '' @ show_nat n"
| "purpose_failure_text dbg (Purpose_Items.CorrectIndexOutOfRange index n) = index_outside index n"
| "purpose_failure_text dbg (UnknownDistractor t) = ''the distractor '' @ dbg t @ '' is not a tool this source describes''"
| "purpose_failure_text dbg (DistractorAlsoFits t) = ''the distractor '' @ dbg t @
     '' is described as serving the same purpose, so two options would be right''"
| "purpose_failure_text dbg (Purpose_Items.MissingRationale index) = ''option '' @ show_nat index @ '' has no rationale''"
| "purpose_failure_text dbg (NotAPurposeQuestion prompt) = ''the prompt does not ask what a tool is for: '' @ dbg prompt"
| "purpose_failure_text dbg (OptionFormMismatch prompt) = ''the options are not written in the form the prompt asks in: '' @ dbg prompt"

text \<open>The request carries the dictionary and the kind of question.\<close>

record purpose_request =
  pq_subtest :: string
  pq_kind :: item_kind
  pq_label :: string
  pq_source :: string
  pq_count :: nat
  pq_seed :: "64 word"
  pq_dictionary :: dictionary
  pq_reviewer :: string
  pq_generator :: string

definition reads_cleanly :: "unicode \<Rightarrow> dictionary \<Rightarrow> item_kind \<Rightarrow> purpose_item \<Rightarrow> bool" where
  "reads_cleanly u d kind i \<longleftrightarrow> has_joined_words u d (purpose_prompt i) = None \<and>
     (case kind of
        Tool \<Rightarrow> list_all (option_words_are_known u d) (purpose_options i)
      | Function \<Rightarrow> list_all (\<lambda>opt. has_joined_words u d opt = None) (purpose_options i))"

definition clean_item :: "unicode \<Rightarrow> dictionary \<Rightarrow> item_kind \<Rightarrow> unit Purpose_Items.veto" where
  "clean_item u d kind i acc = (reads_cleanly u d kind i, acc)"

definition purpose_rubric :: "string \<Rightarrow> string" where
  "purpose_rubric label = label @ '' describes this tool and what it is for, in the sentence quoted; every other option is a tool '' @
     ''the same manual describes doing something else, so the manual itself rules each one out.''"

definition purpose_accepted :: "'f pipeline_env \<Rightarrow> purpose_request \<Rightarrow> purpose_item \<Rightarrow> 'f submission" where
  "purpose_accepted E q i =
     \<lparr>sub_row = Pipeline.new_item (pq_subtest q) (purpose_objective_id i) (purpose_prompt i) None (purpose_options i) (purpose_correct_index i)
        (purpose_explanation i) (purpose_rationales i) (purpose_difficulty E) ''source_backed''
        (proof_text E (SourceBacked (pq_source q) (purpose_rubric (pq_label q)))) (purpose_hash (tables E) (sha256 E) i)
        (Some (text_hash E (with_marks [purpose_prompt i, options_text (purpose_options i), show_nat (purpose_correct_index i)]))),
      sub_sources = [pq_source q],
      sub_verifier = text_hash E (with_marks [supporting_sentence i, purpose_prompt i, ''from_source='' @ show_bool True]),
      sub_actor = pq_generator q, sub_reviewer = pq_reviewer q,
      sub_note = ''ingested from a public-domain tool manual; description quoted verbatim''\<rparr>"

definition purpose_submission :: "'f pipeline_env \<Rightarrow> purposes \<Rightarrow> purpose_request \<Rightarrow> purpose_item \<Rightarrow> ('f submission, string) result option" where
  "purpose_submission E m q i =
     (case Purpose_Items.verify (tables E) i m of
        Err failure \<Rightarrow> unproved (purpose_failure_text (debug (host E)) failure)
      | Ok _ \<Rightarrow> Some (Ok (purpose_accepted E q i)))"

definition purpose_lane :: "'f pipeline_env \<Rightarrow> purposes \<Rightarrow> purpose_request \<Rightarrow> (purpose_item, 'f) lane" where
  "purpose_lane E m q = \<lparr>lane_hash = purpose_hash (tables E) (sha256 E),
     lane_question = (\<lambda>i. question_of (pq_subtest q) (purpose_prompt i) (purpose_options i) (purpose_correct_index i) None),
     lane_submit = purpose_submission E m q, lane_name = purpose_prompt\<rparr>"

record purpose_report =
  purpose_label :: string
  purpose_statements :: nat
  purpose_built :: nat
  purpose_run :: tally
  purpose_skipped :: "string option"

definition no_description :: string where
  "no_description = ''no tool description survived the dictionary check on its options''"

definition ingest_purposes :: "'f pipeline_env \<Rightarrow> purposes \<Rightarrow> purpose_request \<Rightarrow> 'f store \<Rightarrow>
    ((purpose_report, store_error) result \<times> 'f store) option" where
  "ingest_purposes E m q s = do {
     let check = clean_item (tables E) (pq_dictionary q) (pq_kind q);
     (js, _) \<leftarrow> (case pq_kind q of
         Tool \<Rightarrow> Purpose_Items.build_items (tables E) (sha256 E) m (pq_subtest q) (pq_count q) (pq_seed q) check ()
       | Function \<Rightarrow> build_function_items (tables E) (sha256 E) m (pq_subtest q) (pq_count q) (pq_seed q) check ());
     let report = (\<lambda>t skipped. \<lparr>purpose_label = pq_label q, purpose_statements = length (statements m), purpose_built = length js,
       purpose_run = t, purpose_skipped = skipped\<rparr>);
     if statements m = []
     then Some (Err (Refused (''text '' @ debug (host E) (pq_label q) @ '' described no tools at all; the file's shape or its scanner's '' @
       ''habits may have changed'')), s)
     else if js = [] then Some (Ok (report empty_tally (Some no_description)), s)
     else do {
       out \<leftarrow> run_or_fail (host E) (purpose_lane E m q) (''text '' @ debug (host E) (pq_label q)) js s;
       Some (reported (\<lambda>t. report t None) out)
     }
   }"

section \<open>What the lane keeps\<close>

interpretation manual_lane: source_lane "purpose_lane E m q" "purpose_accepted E q" "\<lambda>i. purpose_correct_index i < length (purpose_options i)"
  "\<lambda>i. Purpose_Items.verify (tables E) i m = Ok ()"
proof
  fix i b
  have ok: "b = purpose_accepted E q i \<and> Purpose_Items.verify (tables E) i m = Ok ()" if "purpose_submission E m q i = Some (Ok b)" for b
    using that by (auto simp: purpose_submission_def unproved_def split: result.splits)
  show "lane_question (purpose_lane E m q) i \<noteq> None \<and> lane_submit (purpose_lane E m q) i \<noteq> None"
    if "purpose_correct_index i < length (purpose_options i)"
    using that by (auto simp: purpose_lane_def question_of_def index_vec_def purpose_submission_def unproved_def split: result.split)
  show "consistent (purpose_lane E m q) i" if "purpose_correct_index i < length (purpose_options i)"
    using that by (auto simp: consistent_def purpose_lane_def purpose_accepted_def asks_new_item question_of_Some dest!: ok)
  show "b = purpose_accepted E q i \<and> Purpose_Items.verify (tables E) i m = Ok ()" if "lane_submit (purpose_lane E m q) i = Some (Ok b)"
    using that ok by (simp add: purpose_lane_def)
qed


definition sample_purposes_request :: purpose_request where
  "sample_purposes_request = \<lparr>pq_subtest = ''SI'', pq_kind = Tool, pq_label = ''M'', pq_source = ''ev-a'', pq_count = 2, pq_seed = 7,
     pq_dictionary = Map.empty, pq_reviewer = ''ann'', pq_generator = ''gen''\<rparr>"


end
