(* ===== verification/Spec2Isabelle.thy ===== *)
theory Spec2Isabelle
  imports Factory Exam Policy Ingestion Repair_Broker Mcp_Server Content_Qa
    Glossary Thesaurus Passages Facts Dictionary Launch_Health Privacy Update Pack_Install
    Pipeline Legibility Lanes Clean_Runs Purpose_Lane
begin

text \<open>
  Verification library of Project Vector, an offline trainer for the ASVAB written in Rust. The program
  turns sources (a thesaurus, textbooks' glossaries, books, question-and-answer texts, tool manuals) and
  its own templates into multiple-choice items, checks every item by a route that does not share the
  builder's code, stores the accepted ones in SQLite under an audit trail, bundles them into signed packs,
  and serves them in sessions and simulated exams. Around this core stand the guards of a program that runs
  on a learner's machine: what may leave it, what a peer may call, what an update or a crash may change.

  \<^bold>\<open>Conventions.\<close> A definition carries the name of the Rust item it translates where HOL leaves that
  name free. A \<open>&str\<close> is its UTF-8 bytes, a \<open>string\<close> of HOL; a struct is a record, an enum a
  datatype; \<open>Result\<close> is the datatype \<open>result\<close> with the code's own errors; a method that changes its
  object returns the object after the call. A panic is \<^const>\<open>None\<close>, except in the proof evaluator,
  whose type \<open>outcome\<close> names it. \<open>i128\<close>, \<open>i64\<close>, \<open>u64\<close> and \<open>u32\<close> keep their range wherever the
  code computes with them (checked, wrapping or panicking, as written there); a counter or an index that is only
  compared is a natural number. The clock is the argument \<open>now\<close> or \<open>today\<close>.

  What is not in the repository is an argument of the definitions that use it: Unicode's tables
  (the record \<open>unicode\<close>), SHA-256, Ed25519 (the record of \<open>Encoding\<close>), serde_json, the \<open>Debug\<close> form of
  a string, chrono's date parser, the identifiers of the crate uuid, the order in which a hash set is walked, and
  floating point (the type \<open>'f\<close>). A theorem that relies on one of them says what it asks of it in a
  hypothesis, and its witness exhibits a function that meets it.

  \<^bold>\<open>The shared layer.\<close>
  \<^item> \<open>Prelude\<close>: Rust's language and library as the crates use it; \<open>Replace\<close>: \<open>str::replace\<close>;
    \<open>Text_Tools\<close>: characters, words, trimming and folding over the Unicode tables; \<open>Ascii_Text\<close>: the same
    on ASCII; \<open>Sentences\<close>: the sentence splitter; \<open>Encoding\<close>: length-prefixed fields, hexadecimal,
    signatures; \<open>Rng\<close>: the seeded generator; \<open>Paths\<close>: lexical normalization.
  \<^item> \<open>Ledger\<close> and \<open>Lifecycle\<close>: the contracts (locales) of an append-only log and of a guarded state
    machine, interpreted by the capability registry, the review ledger, the item lifecycle and the repair broker.

  \<^bold>\<open>Building and verifying items\<close> (\<open>crates/vector-questions/src\<close>).
  \<^item> \<open>Proof_Eval\<close> (\<open>proof.rs\<close>): the recursive-descent evaluator of answer proofs. Its fuel,
    \<open>4 * length + 4\<close>, is proved to be enough for every input; it computes exactly the checked meaning of the text
    under the grammar of the module's documentation, and the grammar is unambiguous on what it accepts.
  \<^item> \<open>Templates\<close>, \<open>Template_Proofs\<close>, \<open>Factory\<close> (\<open>factory.rs\<close>): the arithmetic templates, that
    each states the answer it marks, assembly, the generation loop with its limit of attempts, and the independent
    check. The check is the locale \<open>answer_route\<close>, interpreted on the evaluator.
  \<^item> \<open>Provenance\<close> (\<open>provenance.rs\<close>): content hashes; \<open>Item_Builder\<close>: the drawing loop the
    source-backed builders share, as the locale \<open>item_builder\<close>. It makes \<open>12\<close> attempts per item wanted, at
    least \<open>64\<close>, and always ends; what it returns is new by hash and built by the builder.
  \<^item> \<open>Glossary\<close> (\<open>neets.rs\<close>), \<open>Thesaurus\<close> (\<open>thesaurus.rs\<close>), \<open>Passages\<close> (\<open>passages.rs\<close>),
    \<open>Facts\<close> (\<open>facts.rs\<close>), \<open>Purposes\<close> and \<open>Purpose_Items\<close> (\<open>purposes.rs\<close>): the parse of a source, the
    builder, and the verifier, each an interpretation of \<open>item_builder\<close>. The theorems: a built item passes its
    verifier, and an item that passes quotes the source and has one right option. \<open>Dictionary\<close>
    (\<open>dictionary.rs\<close>): the second source for synonyms and the test for scan errors. The loop of
    \<open>subject_as_tool\<close> shortens its word list each turn, which is its termination measure.
  \<^item> \<open>Ingestion\<close> (\<open>ingestion.rs\<close>): the archive sandbox, refined to segment lists, and the item states.

  \<^bold>\<open>Storing, packing and serving.\<close>
  \<^item> \<open>Sql_Store\<close>, \<open>Content_Repo\<close> (\<open>vector-persistence/src/content.rs\<close>, \<open>migrations/\<close>): the tables with
    the constraints and triggers of the schema, and the item repository. A transaction is a locale
    (\<open>guarded_transaction\<close>, \<open>transactional\<close>): it commits a state that keeps the invariant or changes nothing.
  \<^item> \<open>Signed_Pack\<close>, \<open>Curriculum\<close>, \<open>Packs\<close> (\<open>vector-domain/src/content.rs\<close>,
    \<open>vector-application/src/packs.rs\<close>): the signed bytes of a pack, the search for a prerequisite cycle
    (sound and complete for every graph), the checks of \<open>verify_pack\<close> as an equivalence. \<open>Pack_Registry\<close>
    (\<open>repo.rs\<close>): publication, installation, rollback and activation, with the invariant of the whole database
    and one version in service. \<open>Pack_Install\<close>: a pack built here verifies and installs.
  \<^item> \<open>Pipeline\<close>, \<open>Legibility\<close>, \<open>Failure_Texts\<close>, \<open>Lanes\<close>, \<open>Purpose_Lane\<close>, \<open>Clean_Runs\<close>
    (\<open>vector-application/src/content.rs\<close>): storing one verified item, a run and its report, serving, withdrawing and
    reinstating; the checks on learner-facing text; one lane per kind of item, each an interpretation of
    \<open>source_lane\<close>, so that what a run puts in service carries its verifier's guarantee; and conditions under
    which a run stores everything it was given.
  \<^item> \<open>Content_Qa\<close> (\<open>content_qa.rs\<close>): the review ledger. \<open>Exam\<close> (\<open>exam.rs\<close>): timing and navigation
    of a session, as a step relation with an invariant of every reachable session. \<open>Policy\<close> (\<open>policy.rs\<close>): dated policy records.

  \<^bold>\<open>Guards.\<close>
  \<^item> \<open>Capability\<close>, \<open>Mcp_Protocol\<close>, \<open>Mcp_Server\<close> (\<open>vector-mcp\<close>): grants and their audit, refined to a
    relation of grants; framing; the server's session, where every access is audited and a reply carries its request's id.
  \<^item> \<open>Repair_Broker\<close> (\<open>vector-repair/src/broker.rs\<close>): repairs staged under approval.
  \<^item> \<open>Launch_Health\<close>, \<open>Privacy\<close> (\<open>safe_mode.rs\<close>, \<open>egress.rs\<close>, \<open>privacy.rs\<close>, \<open>offline.rs\<close>):
    safe mode after failed launches, and what may be sent or collected. \<open>Update\<close>
    (\<open>vector-platform/src/update.rs\<close>): signed updates staged, applied and rolled back on a file system given
    as a map from paths and a function that says which operation is refused.
  \<^bold>\<open>Not modelled.\<close> Mastery, spaced repetition, selection, difficulty and retrieval scores are floating point.
  The SQLite connection and its backup, worker threads, child processes, the network and the desktop shell
  are input and output around the core. Items' literal difficulties are left out. Two parts of modelled files
  stay outside: the calibration of \<open>content_qa.rs\<close>, and what walks a hash map in its arbitrary order
  (\<open>definition_vocabulary\<close> of \<open>dictionary.rs\<close>).
\<close>

end
